(* ===== verification/VS_Prelude.thy ===== *)
theory VS_Prelude
  imports Main "HOL-Library.Word" "HOL-Library.AList"
begin

text \<open>
  Shared ground of the development: the shape of a Go call that reads and writes state
  and may return an error, the Go idiom \<open>if err != nil\<close> as a combinator, instants and
  durations, 64-bit integers, and the list lemmas the components share.

  A Go function \<open>f(ctx, a) (b, error)\<close> that works on some state is a HOL function
  from the argument and the state to a sum (\<open>Inl\<close> the error, \<open>Inr\<close> the value)
  paired with the new state. The state is returned on the error branch as well, because
  an early return in Go does not undo what was done before it.
\<close>

named_theorems go_simps \<open>rules that run the error plumbing of a handler\<close>
named_theorems effect_intros \<open>invariants kept by an operation\<close>

subsection \<open>Calls that may fail\<close>

text \<open>
  \<open>go_try r w k\<close> is the Go idiom
  \<^verbatim>\<open>v, err := r; if err != nil { return w(err) }; k(v)\<close>
\<close>

definition go_try ::
  "('e + 'a) \<times> 's \<Rightarrow> ('e \<Rightarrow> 'f) \<Rightarrow> ('a \<Rightarrow> 's \<Rightarrow> ('f + 'b) \<times> 's) \<Rightarrow> ('f + 'b) \<times> 's"
where
  "go_try r w k = (case r of (Inl e, s) \<Rightarrow> (Inl (w e), s) | (Inr v, s) \<Rightarrow> k v s)"

lemma go_try_Inl [simp, go_simps]: "go_try (Inl e, s) w k = (Inl (w e), s)"
  by (simp add: go_try_def)

lemma go_try_Inr [simp, go_simps]: "go_try (Inr v, s) w k = k v s"
  by (simp add: go_try_def)

lemma go_try_split:
  "P (go_try r w k) \<longleftrightarrow>
     (\<forall>e s. r = (Inl e, s) \<longrightarrow> P (Inl (w e), s)) \<and> (\<forall>v s. r = (Inr v, s) \<longrightarrow> P (k v s))"
  by (cases r; cases "fst r") auto

lemma go_try_split_asm:
  "P (go_try r w k) \<longleftrightarrow>
     \<not> ((\<exists>e s. r = (Inl e, s) \<and> \<not> P (Inl (w e), s)) \<or> (\<exists>v s. r = (Inr v, s) \<and> \<not> P (k v s)))"
  by (cases r; cases "fst r") auto

lemmas go_try_splits = go_try_split go_try_split_asm

text \<open>
  Inversion: a call chain that returned a value went through its first call; one that
  returned an error failed there or later.
\<close>

lemma go_try_eq_Inr:
  "go_try r w k = (Inr b, s') \<longleftrightarrow> (\<exists>v s. r = (Inr v, s) \<and> k v s = (Inr b, s'))"
  by (auto split: go_try_splits)

lemma go_try_eq_Inl:
  "go_try r w k = (Inl f, s') \<longleftrightarrow>
     (\<exists>e. r = (Inl e, s') \<and> f = w e) \<or> (\<exists>v s. r = (Inr v, s) \<and> k v s = (Inl f, s'))"
  by (auto split: go_try_splits)

text \<open>Invariants go through a chain when every link keeps them.\<close>

lemma go_try_snd [effect_intros]:
  assumes "P (snd r)"
    and "\<And>v s. r = (Inr v, s) \<Longrightarrow> P s \<Longrightarrow> P (snd (k v s))"
  shows "P (snd (go_try r w k))"
  using assms by (auto split: go_try_splits)

subsection \<open>Instants and durations\<close>

text \<open>
  \<open>time.Time\<close> is an instant in nanoseconds since the epoch (every comparison in the
  program is between absolute instants), \<open>time.Duration\<close> a signed 64-bit number of
  nanoseconds. \<open>Time.Sub\<close> saturates at the ends of the Duration range.
\<close>

type_synonym instant = int
type_synonym duration = int

definition max_int64 :: int where "max_int64 = 9223372036854775807"
definition min_int64 :: int where "min_int64 = - 9223372036854775808"

definition second :: duration where "second = 1000000000"

definition time_sub :: "instant \<Rightarrow> instant \<Rightarrow> duration" where
  "time_sub t u = max min_int64 (min max_int64 (t - u))"

text \<open>
  \<open>int(d.Seconds())\<close> truncates towards zero. (Seconds is a float64; below \<open>2 ^ 23\<close>
  seconds, which covers every duration the vote store gets from the configuration, the
  float holds the fraction without rounding up to the next second.)
\<close>

definition whole_seconds :: "duration \<Rightarrow> int" where
  "whole_seconds d = (if d < 0 then - ((- d) div second) else d div second)"

text \<open>Go's integer division truncates towards zero.\<close>

definition go_div :: "int \<Rightarrow> int \<Rightarrow> int" where
  "go_div a b = sgn a * sgn b * (\<bar>a\<bar> div \<bar>b\<bar>)"

lemma time_sub_exact:
  "min_int64 \<le> t - u \<Longrightarrow> t - u \<le> max_int64 \<Longrightarrow> time_sub t u = t - u"
  by (simp add: time_sub_def)

subsection \<open>int64\<close>

type_synonym int64 = "64 word"

definition int64_of :: "int \<Rightarrow> int64" where
  "int64_of n = word_of_int n"

lemma sint_int64_of:
  "min_int64 \<le> n \<Longrightarrow> n \<le> max_int64 \<Longrightarrow> sint (int64_of n) = n"
  by (simp add: int64_of_def min_int64_def max_int64_def signed_take_bit_int_eq_self
      sint_sbintrunc')

lemma sint_int64_bounds: "min_int64 \<le> sint (x :: int64)" "sint (x :: int64) \<le> max_int64"
  using sint_range_size [of x] by (auto simp: min_int64_def max_int64_def word_size)

lemma sint_int64_add:
  assumes "min_int64 \<le> sint x + sint y" and "sint x + sint y \<le> max_int64"
  shows "sint (x + y :: int64) = sint x + sint y"
  using assms by (simp add: sint_word_ariths min_int64_def max_int64_def signed_take_bit_int_eq_self)

subsection \<open>Lists that stand for Go maps\<close>

text \<open>
  A Go map that the program iterates over is an association list with distinct keys,
  whose order is the (arbitrary) iteration order; an absent key reads as the zero value.
\<close>

definition lookup0 :: "('k \<times> int64) list \<Rightarrow> 'k \<Rightarrow> int64" where
  "lookup0 m k = (case map_of m k of None \<Rightarrow> 0 | Some v \<Rightarrow> v)"

lemma lookup0_Nil [simp]: "lookup0 [] k = 0"
  by (simp add: lookup0_def)

lemma lookup0_Cons [simp]:
  "lookup0 ((a, v) # m) k = (if k = a then v else lookup0 m k)"
  by (auto simp: lookup0_def)

lemma lookup0_update: "lookup0 (AList.update k v m) i = (if i = k then v else lookup0 m i)"
  by (simp add: lookup0_def update_conv')

lemma count_list_distinct:
  "distinct xs \<Longrightarrow> count_list xs x = (if x \<in> set xs then 1 else 0)"
  by (induction xs) auto

lemma sum_list_single:
  assumes "distinct xs" and "a \<in> set xs" and "\<And>x. x \<in> set xs \<Longrightarrow> x \<noteq> a \<Longrightarrow> f x = g x"
    and "f a = g a + (d :: int)"
  shows "(\<Sum>x\<leftarrow>xs. f x) = (\<Sum>x\<leftarrow>xs. g x) + d"
  using assms
proof (induction xs)
  case Nil
  then show ?case by simp
next
  case (Cons x xs)
  show ?case
  proof (cases "x = a")
    case True
    with Cons.prems have "\<forall>y \<in> set xs. f y = g y" by auto
    then have "(\<Sum>y\<leftarrow>xs. f y) = (\<Sum>y\<leftarrow>xs. g y)" by (auto intro: arg_cong [of _ _ sum_list] map_cong)
    with True Cons.prems(4) show ?thesis by simp
  next
    case False
    with Cons show ?thesis by auto
  qed
qed

end
