(* ===== verification/Go_Strings.thy ===== *)
theory Go_Strings
  imports VS_Prelude
begin

text \<open>
  The parts of Go's standard library for strings that the program uses. A Go string is a
  sequence of bytes: an element of HOL's \<open>char list\<close>. Runes are read from it as UTF-8
  the way \<open>unicode/utf8\<close> does, an invalid byte counting as one rune.
\<close>

definition byte_of :: "char \<Rightarrow> nat" where
  "byte_of c = of_char c"

definition char_in :: "nat \<Rightarrow> nat \<Rightarrow> char \<Rightarrow> bool" where
  "char_in lo hi c \<longleftrightarrow> lo \<le> byte_of c \<and> byte_of c \<le> hi"

subsection \<open>Runes (unicode/utf8)\<close>

text \<open>The number of bytes of the first rune: the acceptance table of \<open>utf8.DecodeRune\<close>.\<close>

definition rune_second :: "char \<Rightarrow> char \<Rightarrow> bool" where
  "rune_second b c =
     (if byte_of b = 224 then char_in 160 191 c
      else if byte_of b = 237 then char_in 128 159 c
      else if byte_of b = 240 then char_in 144 191 c
      else if byte_of b = 244 then char_in 128 143 c
      else char_in 128 191 c)"

fun rune_size :: "string \<Rightarrow> nat" where
  "rune_size [] = 0"
| "rune_size (b # rest) =
     (if char_in 194 223 b then
        (case rest of c # _ \<Rightarrow> if rune_second b c then 2 else 1 | _ \<Rightarrow> 1)
      else if char_in 224 239 b then
        (case rest of c # d # _ \<Rightarrow> if rune_second b c \<and> char_in 128 191 d then 3 else 1 | _ \<Rightarrow> 1)
      else if char_in 240 244 b then
        (case rest of c # d # e # _ \<Rightarrow>
           if rune_second b c \<and> char_in 128 191 d \<and> char_in 128 191 e then 4 else 1 | _ \<Rightarrow> 1)
      else 1)"

lemma rune_size_pos: "s \<noteq> [] \<Longrightarrow> 0 < rune_size s"
  by (cases s) (auto split: list.splits)

lemma rune_size_le: "rune_size s \<le> length s"
  by (cases s) (auto split: list.splits)

text \<open>\<open>len([]rune(s))\<close>\<close>

function rune_count :: "string \<Rightarrow> nat" where
  "rune_count s = (if s = [] then 0 else Suc (rune_count (drop (rune_size s) s)))"
  by pat_completeness auto
termination
  by (relation "measure length") (auto simp: rune_size_pos)

declare rune_count.simps [simp del]

lemma rune_count_Nil [simp]: "rune_count [] = 0"
  by (simp add: rune_count.simps)

lemma rune_count_eq_0: "rune_count s = 0 \<longleftrightarrow> s = []"
  by (subst rune_count.simps) simp

lemma rune_count_le_length: "rune_count s \<le> length s"
proof (induction s rule: rune_count.induct)
  case (1 s)
  show ?case
  proof (cases "s = []")
    case False
    with 1 rune_size_pos [OF False] rune_size_le [of s]
    have "Suc (rune_count (drop (rune_size s) s)) \<le> length s" by fastforce
    with False show ?thesis by (subst rune_count.simps) simp
  qed simp
qed

definition ascii :: "string \<Rightarrow> bool" where
  "ascii s \<longleftrightarrow> (\<forall>c \<in> set s. byte_of c < 128)"

lemma rune_count_ascii: "ascii s \<Longrightarrow> rune_count s = length s"
proof (induction s)
  case (Cons c s)
  then have "rune_size (c # s) = 1" and "ascii s"
    by (auto simp: ascii_def char_in_def)
  with Cons.IH show ?case by (subst rune_count.simps) simp
qed simp

subsection \<open>strings.TrimSpace\<close>

text \<open>
  The UTF-8 encodings of the runes for which \<open>unicode.IsSpace\<close> holds: tab, newline,
  vertical tab, form feed, carriage return, space, U+0085, U+00A0, U+1680,
  U+2000 to U+200A, U+2028, U+2029, U+202F, U+205F, U+3000.
\<close>

definition bytes :: "nat list \<Rightarrow> string" where
  "bytes ns = map char_of ns"

definition space_runes :: "string list" where
  "space_runes = map bytes
     ([[9], [10], [11], [12], [13], [32], [194, 133], [194, 160], [225, 154, 128]]
      @ map (\<lambda>k. [226, 128, k]) [128, 129, 130, 131, 132, 133, 134, 135, 136, 137, 138, 168, 169, 175]
      @ [[226, 129, 159], [227, 128, 128]])"

fun is_prefix :: "string \<Rightarrow> string \<Rightarrow> bool" where
  "is_prefix [] s = True"
| "is_prefix (p # ps) [] = False"
| "is_prefix (p # ps) (c # s) = (p = c \<and> is_prefix ps s)"

lemma is_prefix_iff: "is_prefix p s \<longleftrightarrow> (\<exists>t. s = p @ t)"
  by (induction p s rule: is_prefix.induct) auto

definition strip_one :: "string list \<Rightarrow> string \<Rightarrow> string option" where
  "strip_one ps s = map_option (\<lambda>p. drop (length p) s) (List.find (\<lambda>p. is_prefix p s) ps)"

lemma space_runes_nonempty: "p \<in> set space_runes \<Longrightarrow> p \<noteq> []"
  by (auto simp: space_runes_def bytes_def)

lemma strip_one_SomeD:
  "strip_one ps s = Some t \<Longrightarrow> \<exists>p \<in> set ps. s = p @ t"
  by (auto simp: strip_one_def find_Some_iff is_prefix_iff)

lemma strip_one_None:
  "strip_one ps s = None \<longleftrightarrow> (\<forall>p \<in> set ps. \<not> is_prefix p s)"
  by (auto simp: strip_one_def find_None_iff)

text \<open>
  \<open>trim_left\<close> drops leading members of \<open>ps\<close>. The empty patterns are left out of
  consideration by a length check, so that the recursion always makes progress.
\<close>

function trim_left :: "string list \<Rightarrow> string \<Rightarrow> string" where
  "trim_left ps s =
     (case strip_one ps s of None \<Rightarrow> s
      | Some t \<Rightarrow> if length t < length s then trim_left ps t else s)"
  by pat_completeness auto
termination
  by (relation "measure (\<lambda>(ps, s). length s)") auto

declare trim_left.simps [simp del]

text \<open>A trailing space rune is a leading reversed pattern of the reversed string.\<close>

definition trim_space :: "string \<Rightarrow> string" where
  "trim_space s =
     rev (trim_left (map rev space_runes) (rev (trim_left space_runes s)))"

lemma trim_left_suffix: "\<exists>p. s = p @ trim_left ps s"
proof (induction ps s rule: trim_left.induct)
  case (1 ps s)
  show ?case
  proof (cases "strip_one ps s")
    case None
    then show ?thesis by (subst trim_left.simps) simp
  next
    case (Some t)
    from strip_one_SomeD [OF this] obtain p where p: "s = p @ t" by blast
    show ?thesis
    proof (cases "length t < length s")
      case True
      with 1 Some obtain q where "t = q @ trim_left ps t" by blast
      with p have "s = (p @ q) @ trim_left ps t" by simp
      with Some True show ?thesis by (subst trim_left.simps) auto
    next
      case False
      with Some show ?thesis by (subst trim_left.simps) simp
    qed
  qed
qed

lemma trim_left_stops:
  assumes "[] \<notin> set ps"
  shows "strip_one ps (trim_left ps s) = None"
  using assms
proof (induction ps s rule: trim_left.induct)
  case (1 ps s)
  show ?case
  proof (cases "strip_one ps s")
    case None
    then show ?thesis by (simp add: trim_left.simps [of ps s])
  next
    case (Some t)
    from strip_one_SomeD [OF this] obtain p where "p \<in> set ps" "s = p @ t" by blast
    with "1.prems" have len: "length t < length s" by (cases p) auto
    with 1 Some have "strip_one ps (trim_left ps t) = None" by blast
    with Some len show ?thesis by (simp add: trim_left.simps [of ps s])
  qed
qed

lemma trim_left_fixed: "strip_one ps s = None \<Longrightarrow> trim_left ps s = s"
  by (simp add: trim_left.simps)

text \<open>A trimmed string is an infix of the original, so it is never longer.\<close>

lemma trim_space_infix: "\<exists>p q. s = p @ trim_space s @ q"
proof -
  obtain p where p: "s = p @ trim_left space_runes s" using trim_left_suffix by blast
  let ?l = "trim_left space_runes s"
  obtain q where "rev ?l = q @ trim_left (map rev space_runes) (rev ?l)"
    using trim_left_suffix by blast
  then have "?l = trim_space s @ rev q"
    unfolding trim_space_def by (metis rev_append rev_rev_ident)
  with p show ?thesis by metis
qed

lemma trim_space_length: "length (trim_space s) \<le> length s"
  using trim_space_infix [of s] by (metis length_append le_add1 le_add2 le_trans)

lemma trim_space_Nil [simp]: "trim_space [] = []"
  using trim_space_length [of "[]"] by simp

lemma is_prefix_append: "is_prefix p s \<Longrightarrow> is_prefix p (s @ t)"
  by (auto simp: is_prefix_iff)

lemma trim_space_ends:
  "strip_one space_runes (trim_space s) = None"
  "strip_one (map rev space_runes) (rev (trim_space s)) = None"
proof -
  let ?l = "trim_left space_runes s"
  let ?r = "trim_left (map rev space_runes) (rev ?l)"
  have ne: "[] \<notin> set space_runes" "[] \<notin> set (map rev space_runes)"
    using space_runes_nonempty by auto
  have "strip_one (map rev space_runes) ?r = None" using ne(2) by (rule trim_left_stops)
  then show "strip_one (map rev space_runes) (rev (trim_space s)) = None"
    by (simp add: trim_space_def)
  obtain q where "rev ?l = q @ ?r" using trim_left_suffix by blast
  then have l: "?l = trim_space s @ rev q"
    unfolding trim_space_def by (metis rev_append rev_rev_ident)
  have "strip_one space_runes ?l = None" using ne(1) by (rule trim_left_stops)
  then show "strip_one space_runes (trim_space s) = None"
    unfolding strip_one_None l by (blast intro: is_prefix_append)
qed

text \<open>Trimming twice is trimming once.\<close>

lemma trim_space_fixed:
  assumes "strip_one space_runes s = None"
    and "strip_one (map rev space_runes) (rev s) = None"
  shows "trim_space s = s"
  by (simp add: trim_space_def trim_left_fixed assms)

lemma trim_space_idem [simp]: "trim_space (trim_space s) = trim_space s"
  by (rule trim_space_fixed) (rule trim_space_ends)+

text \<open>A nonempty string without any space byte sequence at its ends, such as a word.\<close>

definition plain_char :: "char \<Rightarrow> bool" where
  "plain_char c \<longleftrightarrow> char_in 33 126 c"

lemma plain_not_prefix:
  assumes "plain_char c" and "p \<in> set space_runes"
  shows "\<not> is_prefix p (c # s)" and "\<not> is_prefix (rev p) (c # s)"
  using assms by (auto simp: space_runes_def bytes_def plain_char_def char_in_def byte_of_def)

lemma trim_space_plain:
  assumes "s \<noteq> []" and "plain_char (hd s)" and "plain_char (last s)"
  shows "trim_space s = s"
proof (rule trim_space_fixed)
  from assms obtain c t where s: "s = c # t" "plain_char c" by (cases s) auto
  show "strip_one space_runes s = None"
    unfolding strip_one_None s(1) using plain_not_prefix(1) [OF s(2)] by blast
  from assms obtain d u where r: "rev s = d # u" "plain_char d"
    by (cases "rev s") (auto simp: hd_rev [symmetric])
  show "strip_one (map rev space_runes) (rev s) = None"
    unfolding strip_one_None r(1) using plain_not_prefix(2) [OF r(2)] by auto
qed

subsection \<open>strings.EqualFold and strings.ToLower\<close>

text \<open>
  The program only folds against ASCII words. The runes that fold to an ASCII letter are
  the letter in both cases and, for k and s, U+212A (Kelvin sign, bytes 226 132 170) and
  U+017F (long s, bytes 197 191). \<open>fold_rune\<close> reads one rune off the front and gives
  its lower-case ASCII image, if it has one.
\<close>

definition lower_char :: "char \<Rightarrow> char" where
  "lower_char c = (if char_in 65 90 c then char_of (byte_of c + 32) else c)"

fun fold_rune :: "string \<Rightarrow> (char \<times> string) option" where
  "fold_rune [] = None"
| "fold_rune (c # s) =
     (if byte_of c < 128 then Some (lower_char c, s)
      else if is_prefix (bytes [226, 132, 170]) (c # s) then Some (CHR ''k'', drop 2 s)
      else if is_prefix (bytes [197, 191]) (c # s) then Some (CHR ''s'', drop 1 s)
      else None)"

text \<open>\<open>strings.EqualFold(s, t)\<close> for an ASCII \<open>t\<close>\<close>

fun equal_fold :: "string \<Rightarrow> string \<Rightarrow> bool" where
  "equal_fold s [] = (s = [])"
| "equal_fold s (t # ts) =
     (case fold_rune s of None \<Rightarrow> False | Some (c, s') \<Rightarrow> c = lower_char t \<and> equal_fold s' ts)"

lemma equal_fold_refl: "ascii s \<Longrightarrow> equal_fold s s"
  by (induction s) (auto simp: ascii_def)

subsection \<open>strings.Cut and strings.Split at one byte\<close>

fun cut :: "char \<Rightarrow> string \<Rightarrow> (string \<times> string) option" where
  "cut sep [] = None"
| "cut sep (c # s) =
     (if c = sep then Some ([], s) else map_option (\<lambda>(a, b). (c # a, b)) (cut sep s))"

lemma cut_Some: "cut sep s = Some (a, b) \<longleftrightarrow> s = a @ sep # b \<and> sep \<notin> set a"
proof (induction s arbitrary: a)
  case (Cons c s)
  then show ?case by (cases a) auto
qed simp

lemma cut_None: "cut sep s = None \<longleftrightarrow> sep \<notin> set s"
  by (induction s) auto

fun split_at :: "char \<Rightarrow> string \<Rightarrow> string list" where
  "split_at sep [] = [[]]"
| "split_at sep (c # s) =
     (if c = sep then [] # split_at sep s
      else case split_at sep s of [] \<Rightarrow> [[c]] | w # ws \<Rightarrow> (c # w) # ws)"

lemma split_at_nonempty [simp]: "split_at sep s \<noteq> []"
  by (induction s) (auto split: list.splits)

text \<open>Joining the pieces gives the string back, and no piece holds the separator.\<close>

fun join_with :: "char \<Rightarrow> string list \<Rightarrow> string" where
  "join_with sep [] = []"
| "join_with sep [w] = w"
| "join_with sep (w # ws) = w @ sep # join_with sep ws"

lemma join_with_char: "join_with sep ((c # w) # ws) = c # join_with sep (w # ws)"
  by (cases ws) auto

lemma join_with_empty: "ws \<noteq> [] \<Longrightarrow> join_with sep ([] # ws) = sep # join_with sep ws"
  by (cases ws) auto

lemma join_split: "join_with sep (split_at sep s) = s"
proof (induction s)
  case (Cons c s)
  obtain w ws where "split_at sep s = w # ws" by (cases "split_at sep s") auto
  with Cons show ?case by (auto simp: join_with_char join_with_empty)
qed simp

lemma split_at_no_sep: "w \<in> set (split_at sep s) \<Longrightarrow> sep \<notin> set w"
  by (induction s arbitrary: w) (auto split: list.splits if_splits)

end
