(* ===== verification/Go_Strconv.thy ===== *)
theory Go_Strconv
  imports Go_Strings
begin

text \<open>
  \<open>strconv.Itoa\<close>, \<open>strconv.ParseInt(s, 10, 64)\<close> (and \<open>Atoi\<close>, the same on a
  64-bit platform) and \<open>hex.EncodeToString\<close>, with the round trip from integers
  through decimal text that the Redis counters rely on.
\<close>

subsection \<open>Decimal digits\<close>

definition digit_char :: "nat \<Rightarrow> char" where
  "digit_char d = char_of (48 + d)"

definition is_digit :: "char \<Rightarrow> bool" where
  "is_digit c \<longleftrightarrow> char_in 48 57 c"

definition digit_val :: "char \<Rightarrow> nat" where
  "digit_val c = byte_of c - 48"

function digits :: "nat \<Rightarrow> string" where
  "digits n = (if n < 10 then [digit_char n] else digits (n div 10) @ [digit_char (n mod 10)])"
  by pat_completeness auto
termination
  by (relation "measure id") auto

declare digits.simps [simp del]

definition itoa :: "int \<Rightarrow> string" where
  "itoa n = (if n < 0 then CHR ''-'' # digits (nat (- n)) else digits (nat n))"

definition digits_val :: "string \<Rightarrow> nat" where
  "digits_val s = foldl (\<lambda>acc c. 10 * acc + digit_val c) 0 s"

lemma digit_char_facts [simp]:
  "d < 10 \<Longrightarrow> is_digit (digit_char d)"
  "d < 10 \<Longrightarrow> digit_val (digit_char d) = d"
  by (auto simp: is_digit_def digit_char_def digit_val_def char_in_def byte_of_def)

lemma digits_nonempty [simp]: "digits n \<noteq> []"
  by (subst digits.simps) simp

lemma digits_are_digits: "c \<in> set (digits n) \<Longrightarrow> is_digit c"
proof (induction n arbitrary: c rule: digits.induct)
  case (1 n)
  then show ?case
    by (cases "n < 10") (auto simp: digits.simps [of n])
qed

lemma digits_val_digits [simp]: "digits_val (digits n) = n"
proof (induction n rule: digits.induct)
  case (1 n)
  then show ?case
    by (cases "n < 10") (auto simp: digits.simps [of n] digits_val_def)
qed

lemma digits_inj: "digits m = digits n \<Longrightarrow> m = n"
  by (metis digits_val_digits)

subsection \<open>strconv.ParseInt\<close>

text \<open>
  An optional sign and at least one digit; everything else is a syntax error and a value
  outside int64 a range error (both \<open>None\<close>).
\<close>

definition parse_digits :: "string \<Rightarrow> nat option" where
  "parse_digits s = (if s \<noteq> [] \<and> list_all is_digit s then Some (digits_val s) else None)"

definition parse_int :: "string \<Rightarrow> int option" where
  "parse_int s =
     (let (neg, body) = (case s of c # r \<Rightarrow> if c = CHR ''-'' then (True, r)
                                            else if c = CHR ''+'' then (False, r) else (False, s)
                          | [] \<Rightarrow> (False, s))
      in case parse_digits body of
           None \<Rightarrow> None
         | Some n \<Rightarrow> (let v = (if neg then - int n else int n)
                      in if min_int64 \<le> v \<and> v \<le> max_int64 then Some v else None))"

lemma parse_digits_digits [simp]: "parse_digits (digits n) = Some n"
  by (auto simp: parse_digits_def list_all_iff dest: digits_are_digits)

lemma digit_not_sign: "is_digit c \<Longrightarrow> c \<noteq> CHR ''-'' \<and> c \<noteq> CHR ''+''"
  by (auto simp: is_digit_def char_in_def byte_of_def)

lemma digits_head: "digits n = c # r \<Longrightarrow> c \<noteq> CHR ''-'' \<and> c \<noteq> CHR ''+''"
  using digits_are_digits [of c n] digit_not_sign [of c] by simp

theorem parse_int_itoa:
  assumes "min_int64 \<le> n" and "n \<le> max_int64"
  shows "parse_int (itoa n) = Some n"
proof (cases "n < 0")
  case True
  with assms show ?thesis by (simp add: parse_int_def itoa_def)
next
  case False
  obtain c r where d: "digits (nat n) = c # r" by (cases "digits (nat n)") auto
  have "parse_digits (c # r) = Some (nat n)" using parse_digits_digits [of "nat n"] d by simp
  with False assms digits_head [OF d] d show ?thesis
    by (auto simp: parse_int_def itoa_def)
qed

lemma parse_int_range: "parse_int s = Some n \<Longrightarrow> min_int64 \<le> n \<and> n \<le> max_int64"
  by (auto simp: parse_int_def Let_def split: list.splits option.splits if_splits)

lemma itoa_inj: "itoa m = itoa n \<Longrightarrow> m = n"
proof -
  assume eq: "itoa m = itoa n"
  show "m = n"
  proof (cases "m < 0"; cases "n < 0")
    assume "m < 0" "n < 0"
    with eq have "digits (nat (- m)) = digits (nat (- n))" by (simp add: itoa_def)
    with \<open>m < 0\<close> \<open>n < 0\<close> show ?thesis using digits_inj by fastforce
  next
    assume "m < 0" "\<not> n < 0"
    with eq have "digits (nat n) = CHR ''-'' # digits (nat (- m))" by (simp add: itoa_def)
    from digits_head [OF this] show ?thesis by simp
  next
    assume "\<not> m < 0" "n < 0"
    with eq have "digits (nat m) = CHR ''-'' # digits (nat (- n))" by (simp add: itoa_def)
    from digits_head [OF this] show ?thesis by simp
  next
    assume "\<not> m < 0" "\<not> n < 0"
    with eq have "digits (nat m) = digits (nat n)" by (simp add: itoa_def)
    with \<open>\<not> m < 0\<close> \<open>\<not> n < 0\<close> show ?thesis using digits_inj by fastforce
  qed
qed

lemma itoa_chars: "0 \<le> n \<Longrightarrow> c \<in> set (itoa n) \<Longrightarrow> is_digit c"
  by (auto simp: itoa_def dest: digits_are_digits)

subsection \<open>hex.EncodeToString\<close>

definition hex_digit :: "nat \<Rightarrow> char" where
  "hex_digit d = (if d < 10 then char_of (48 + d) else char_of (87 + d))"

definition is_hex :: "char \<Rightarrow> bool" where
  "is_hex c \<longleftrightarrow> char_in 48 57 c \<or> char_in 97 102 c"

definition hex_encode :: "8 word list \<Rightarrow> string" where
  "hex_encode bs = concat (map (\<lambda>b. [hex_digit (unat b div 16), hex_digit (unat b mod 16)]) bs)"

lemma length_hex_encode: "length (hex_encode bs) = 2 * length bs"
  by (induction bs) (auto simp: hex_encode_def)

lemma hex_digit_is_hex: "d < 16 \<Longrightarrow> is_hex (hex_digit d)"
  by (auto simp: hex_digit_def is_hex_def char_in_def byte_of_def)

lemma unat_byte: "unat (b :: 8 word) < 256"
proof -
  have "unat b < 2 ^ LENGTH(8)" by (rule unsigned_less)
  then show ?thesis by simp
qed

lemma hex_encode_is_hex: "c \<in> set (hex_encode bs) \<Longrightarrow> is_hex c"
proof (induction bs)
  case (Cons b bs)
  have "unat b < 256" by (rule unat_byte)
  then have "unat b div 16 < 16" "unat b mod 16 < 16" by auto
  with Cons show ?case by (auto simp: hex_encode_def hex_digit_is_hex)
qed (simp add: hex_encode_def)

lemma hex_digit_inj: "d < 16 \<Longrightarrow> e < 16 \<Longrightarrow> hex_digit d = hex_digit e \<Longrightarrow> d = e"
proof -
  assume lt: "d < 16" "e < 16" and eq: "hex_digit d = hex_digit e"
  have "byte_of (hex_digit d) = byte_of (hex_digit e)" using eq by simp
  with lt show "d = e" by (auto simp: hex_digit_def byte_of_def split: if_splits)
qed

text \<open>Hexadecimal text determines the bytes.\<close>

lemma hex_encode_inj: "hex_encode xs = hex_encode ys \<Longrightarrow> xs = ys"
proof (induction xs arbitrary: ys)
  case Nil
  then show ?case by (cases ys) (auto simp: hex_encode_def)
next
  case (Cons x xs)
  then obtain y ys' where ys: "ys = y # ys'" by (cases ys) (auto simp: hex_encode_def)
  have lt: "unat x < 256" "unat y < 256" by (rule unat_byte)+
  from Cons.prems ys have
    "hex_digit (unat x div 16) = hex_digit (unat y div 16)"
    "hex_digit (unat x mod 16) = hex_digit (unat y mod 16)"
    "hex_encode xs = hex_encode ys'"
    by (auto simp: hex_encode_def)
  with lt have "unat x div 16 = unat y div 16" "unat x mod 16 = unat y mod 16" and "xs = ys'"
    using Cons.IH by (auto intro!: hex_digit_inj)
  then have "unat x = unat y" by (metis div_mult_mod_eq)
  with \<open>xs = ys'\<close> ys show ?case by (simp add: word_unat_eq_iff)
qed

end
