(* ===== verification/Entity.thy ===== *)
theory Entity
  imports Go_Strconv
begin

text \<open>
  The core voting model (\<open>internal/entity\<close>): domain errors and their classification,
  polls, ballots and the voting window. Statuses, poll types and error codes are Go
  string types, so they are strings here, with the named constants as abbreviations;
  a value outside the constants is representable, as it is in the program.
\<close>

subsection \<open>Errors (errors.go)\<close>

type_synonym error_code = string

abbreviation (input) "CodeInvalidRequest \<equiv> ''invalid_request''"
abbreviation (input) "CodeNotFound \<equiv> ''not_found''"
abbreviation (input) "CodeConflict \<equiv> ''conflict''"
abbreviation (input) "CodeAlreadyVoted \<equiv> ''already_voted''"
abbreviation (input) "CodeRateLimited \<equiv> ''rate_limited''"
abbreviation (input) "CodeQuotaExceeded \<equiv> ''quota_exceeded''"
abbreviation (input) "CodeUnauthorized \<equiv> ''unauthorized''"
abbreviation (input) "CodePayloadTooLarge \<equiv> ''payload_too_large''"
abbreviation (input) "CodeUnavailable \<equiv> ''unavailable''"
abbreviation (input) "CodeInternal \<equiv> ''internal''"

text \<open>
  The errors of the program: \<open>DomainErr\<close> is the struct \<open>entity.Error\<close> with its
  optional cause, \<open>Wrapped c e\<close> is \<open>fmt.Errorf("c: %w", e)\<close>, \<open>ErrNotUpdated\<close>
  the sentinel of the ports, \<open>ErrText\<close> an error of the standard library or a client
  library (or one made by \<open>fmt.Errorf\<close> without \<open>%w\<close>) and \<open>GoPanic\<close> a run-time
  panic, which leaves a handler like an unclassified error.
\<close>

datatype goerror =
    DomainErr error_code string "goerror option"
  | Wrapped string goerror
  | ErrNotUpdated
  | ErrText string
  | GoPanic string

definition NewError :: "error_code \<Rightarrow> string \<Rightarrow> goerror" where
  "NewError code message = DomainErr code message None"

definition WrapError :: "error_code \<Rightarrow> goerror \<Rightarrow> string \<Rightarrow> goerror" where
  "WrapError code cause message = DomainErr code message (Some cause)"

fun err_string :: "goerror \<Rightarrow> string" where
  "err_string (DomainErr code message None) = code @ '': '' @ message"
| "err_string (DomainErr code message (Some cause)) = code @ '': '' @ message @ '': '' @ err_string cause"
| "err_string (Wrapped context e) = context @ '': '' @ err_string e"
| "err_string ErrNotUpdated = ''not updated''"
| "err_string (ErrText t) = t"
| "err_string (GoPanic t) = t"

text \<open>\<open>errors.As\<close> to \<open>*entity.Error\<close>: the first domain error of the chain\<close>

fun as_domain :: "goerror \<Rightarrow> (error_code \<times> string) option" where
  "as_domain (DomainErr code message _) = Some (code, message)"
| "as_domain (Wrapped _ e) = as_domain e"
| "as_domain _ = None"

definition CodeOf :: "goerror \<Rightarrow> error_code" where
  "CodeOf e = (case as_domain e of Some (code, _) \<Rightarrow> code | None \<Rightarrow> CodeInternal)"

definition MessageOf :: "goerror \<Rightarrow> string" where
  "MessageOf e = (case as_domain e of Some (_, m) \<Rightarrow> m | None \<Rightarrow> ''internal server error'')"

definition ErrPollNotFound :: goerror where
  "ErrPollNotFound = NewError CodeNotFound ''poll not found''"

text \<open>\<open>errors.Is(err, usecase.ErrNotUpdated)\<close>\<close>

fun is_not_updated :: "goerror \<Rightarrow> bool" where
  "is_not_updated ErrNotUpdated = True"
| "is_not_updated (Wrapped _ e) = is_not_updated e"
| "is_not_updated (DomainErr _ _ (Some e)) = is_not_updated e"
| "is_not_updated _ = False"

lemma code_simps [simp, go_simps]:
  "CodeOf (NewError c m) = c"
  "CodeOf (WrapError c e m) = c"
  "CodeOf (Wrapped t e) = CodeOf e"
  "CodeOf ErrNotUpdated = CodeInternal"
  "CodeOf (ErrText t) = CodeInternal"
  "CodeOf (GoPanic t) = CodeInternal"
  "CodeOf ErrPollNotFound = CodeNotFound"
  by (simp_all add: CodeOf_def NewError_def WrapError_def ErrPollNotFound_def)

lemma message_simps [simp, go_simps]:
  "MessageOf (NewError c m) = m"
  "MessageOf (WrapError c e m) = m"
  "MessageOf (Wrapped t e) = MessageOf e"
  "MessageOf (ErrText t) = ''internal server error''"
  "MessageOf ErrPollNotFound = ''poll not found''"
  by (simp_all add: MessageOf_def NewError_def WrapError_def ErrPollNotFound_def)

lemma not_updated_simps [simp, go_simps]:
  "\<not> is_not_updated (NewError c m)"
  "is_not_updated (WrapError c e m) = is_not_updated e"
  "\<not> is_not_updated ErrPollNotFound"
  by (simp_all add: NewError_def WrapError_def ErrPollNotFound_def)

subsection \<open>Polls (poll.go)\<close>

type_synonym poll_status = string
type_synonym poll_type = string

abbreviation (input) "PollStatusDraft \<equiv> ''draft''"
abbreviation (input) "PollStatusActive \<equiv> ''active''"
abbreviation (input) "PollStatusFinished \<equiv> ''finished''"
abbreviation (input) "PollTypeSingle \<equiv> ''single''"
abbreviation (input) "PollTypeMultiple \<equiv> ''multiple''"

definition PollStatus_Valid :: "poll_status \<Rightarrow> bool" where
  "PollStatus_Valid s \<longleftrightarrow> s = PollStatusDraft \<or> s = PollStatusActive \<or> s = PollStatusFinished"

definition PollType_Valid :: "poll_type \<Rightarrow> bool" where
  "PollType_Valid t \<longleftrightarrow> t = PollTypeSingle \<or> t = PollTypeMultiple"

record poll_option =
  o_id :: string
  o_text :: string
  o_position :: int

record poll =
  p_id :: string
  p_question :: string
  p_type :: poll_type
  p_max_choices :: int
  p_status :: poll_status
  p_options :: "poll_option list"
  p_created_at :: instant
  p_starts_at :: "instant option"
  p_ends_at :: "instant option"
  p_finished_at :: "instant option"

definition OptionIDs :: "poll \<Rightarrow> string list" where
  "OptionIDs p = map o_id (p_options p)"

definition effectiveMaxChoices :: "poll \<Rightarrow> int" where
  "effectiveMaxChoices p =
     (if p_type p = PollTypeSingle then 1
      else if p_max_choices p \<le> 0 \<or> int (length (p_options p)) < p_max_choices p
      then int (length (p_options p))
      else p_max_choices p)"

text \<open>The loop of \<open>ValidateBallot\<close> over the submitted ids, with the set seen so far.\<close>

fun check_ids :: "string set \<Rightarrow> string set \<Rightarrow> string list \<Rightarrow> goerror + unit" where
  "check_ids known seen [] = Inr ()"
| "check_ids known seen (i # ids) =
     (if i \<notin> known then Inl (NewError CodeInvalidRequest ''option does not belong to this poll'')
      else if i \<in> seen then Inl (NewError CodeInvalidRequest ''duplicate option in ballot'')
      else check_ids known (insert i seen) ids)"

definition ValidateBallot :: "poll \<Rightarrow> string list \<Rightarrow> goerror + unit" where
  "ValidateBallot p ids =
     (if ids = [] then Inl (NewError CodeInvalidRequest ''at least one option must be selected'')
      else if effectiveMaxChoices p < int (length ids)
      then Inl (NewError CodeInvalidRequest
                  (''this poll accepts at most '' @ itoa (effectiveMaxChoices p) @ '' option(s) per ballot''))
      else check_ids (set (OptionIDs p)) {} ids)"

definition CheckOpenAt :: "poll \<Rightarrow> instant \<Rightarrow> goerror + unit" where
  "CheckOpenAt p now =
     (if p_status p \<noteq> PollStatusActive then Inl (NewError CodeConflict ''poll is not accepting votes'')
      else if (case p_starts_at p of None \<Rightarrow> False | Some t \<Rightarrow> now < t)
      then Inl (NewError CodeConflict ''voting has not started yet'')
      else if (case p_ends_at p of None \<Rightarrow> False | Some t \<Rightarrow> \<not> now < t)
      then Inl (NewError CodeConflict ''voting has ended'')
      else Inr ())"

subsection \<open>What the checks promise\<close>

text \<open>A ballot is admissible: the specification the checks are compared with.\<close>

definition admissible :: "poll \<Rightarrow> string list \<Rightarrow> bool" where
  "admissible p ids \<longleftrightarrow>
     ids \<noteq> [] \<and> distinct ids \<and> set ids \<subseteq> set (OptionIDs p)
     \<and> int (length ids) \<le> effectiveMaxChoices p"

definition open_at :: "poll \<Rightarrow> instant \<Rightarrow> bool" where
  "open_at p now \<longleftrightarrow>
     p_status p = PollStatusActive
     \<and> (\<forall>t. p_starts_at p = Some t \<longrightarrow> t \<le> now) \<and> (\<forall>t. p_ends_at p = Some t \<longrightarrow> now < t)"

lemma check_ids_ok:
  "check_ids known seen ids = Inr () \<longleftrightarrow> distinct ids \<and> set ids \<subseteq> known \<and> set ids \<inter> seen = {}"
  by (induction ids arbitrary: seen) auto

lemma check_ids_code: "check_ids known seen ids = Inl e \<Longrightarrow> CodeOf e = CodeInvalidRequest"
  by (induction ids arbitrary: seen) (auto split: if_splits)

lemma ValidateBallot_Inr: "ValidateBallot p ids = Inr u \<longleftrightarrow> admissible p ids"
  by (cases u) (auto simp: ValidateBallot_def admissible_def check_ids_ok)

lemma ValidateBallot_Inl: "ValidateBallot p ids = Inl e \<Longrightarrow> CodeOf e = CodeInvalidRequest"
  by (auto simp: ValidateBallot_def split: if_splits dest: check_ids_code)

lemma CheckOpenAt_Inr: "CheckOpenAt p now = Inr u \<longleftrightarrow> open_at p now"
  by (cases u) (auto simp: CheckOpenAt_def open_at_def split: option.splits)

lemma CheckOpenAt_Inl: "CheckOpenAt p now = Inl e \<Longrightarrow> CodeOf e = CodeConflict"
  by (auto simp: CheckOpenAt_def split: if_splits)

lemma effectiveMaxChoices_le:
  assumes "p_options p \<noteq> []"
  shows "1 \<le> effectiveMaxChoices p" "effectiveMaxChoices p \<le> int (length (p_options p))"
  using assms by (cases "p_options p"; simp add: effectiveMaxChoices_def)+

text \<open>An admissible ballot of a single-choice poll names exactly one option.\<close>

lemma admissible_single:
  assumes "admissible p ids" and "p_type p = PollTypeSingle"
  shows "\<exists>i \<in> set (OptionIDs p). ids = [i]"
proof -
  from assms have "length ids = 1"
    by (cases ids) (auto simp: admissible_def effectiveMaxChoices_def)
  then obtain i where "ids = [i]" by (cases ids) auto
  with assms show ?thesis by (auto simp: admissible_def)
qed

text \<open>
  C8. The checks on a ballot decide their specification: a ballot is accepted exactly when
  it is not empty, names distinct options of the poll and at most as many as the poll
  allows; the poll is open exactly when it is active and the instant is in its window,
  which contains its start and not its end. Refusals are "invalid request" and "conflict".
\<close>

theorem ballot_checks:
  "(case ValidateBallot p ids of Inr _ \<Rightarrow> admissible p ids
    | Inl e \<Rightarrow> \<not> admissible p ids \<and> CodeOf e = CodeInvalidRequest)
   \<and> (case CheckOpenAt p now of Inr _ \<Rightarrow> open_at p now
    | Inl e \<Rightarrow> \<not> open_at p now \<and> CodeOf e = CodeConflict)"
  using ValidateBallot_Inr [of p ids] CheckOpenAt_Inr [of p now]
    ValidateBallot_Inl [of p ids] CheckOpenAt_Inl [of p now]
  by (auto split: sum.split)

lemmas entity_checks =
  ValidateBallot_Inr ValidateBallot_Inl CheckOpenAt_Inr CheckOpenAt_Inl

end
