(* ===== verification/Ttl_Cache.thy ===== *)
theory Ttl_Cache
  imports Entity
begin

text \<open>
  The in-process cache (\<open>internal/ttlcache/ttlcache.go\<close>): 16 shards, each a map from
  keys to list elements and a doubly linked list in recency order. A list element is its
  identity (a pointer, here a number) with the entry it carries; \<open>sh_entries\<close> maps a
  key to the identity, \<open>sh_order\<close> is the list, front first. The lemmas show the two
  structures stay consistent, that each operation refines the same operation on a plain
  list of entries, and the map laws that the poll cache relies on, stated as a locale.
\<close>

subsection \<open>State\<close>

record 'v centry =
  e_key :: string
  e_value :: 'v
  e_expiresAt :: instant

record 'v shard =
  sh_capacity :: int
  sh_entries :: "string \<rightharpoonup> nat"
  sh_order :: "(nat \<times> 'v centry) list"
  sh_next :: nat

record 'v ttl =
  t_shards :: "'v shard list"
  t_hash :: "string \<Rightarrow> 64 word"

definition shardCount :: nat where "shardCount = 16"

text \<open>
  \<open>NewTTL(capacity)\<close>; the seeded hash \<open>maphash.String\<close> is a parameter, since its
  seed is drawn at run time.
\<close>

definition NewTTL :: "(string \<Rightarrow> 64 word) \<Rightarrow> int \<Rightarrow> 'v ttl" where
  "NewTTL h capacity =
     (let q = go_div capacity (int shardCount); perShard = (if q < 1 then 1 else q)
      in \<lparr>t_shards = replicate shardCount
             \<lparr>sh_capacity = perShard, sh_entries = (\<lambda>_. None), sh_order = [], sh_next = 0\<rparr>,
          t_hash = h\<rparr>)"

definition shard_index :: "'v ttl \<Rightarrow> string \<Rightarrow> nat" where
  "shard_index c key = unat (t_hash c key mod 16)"

definition shardFor :: "'v ttl \<Rightarrow> string \<Rightarrow> 'v shard" where
  "shardFor c key = t_shards c ! shard_index c key"

subsection \<open>Operations on one shard\<close>

text \<open>\<open>removeLocked\<close>, \<open>list.MoveToFront\<close> (with the entry's possible update) and
  \<open>list.PushFront\<close> with the map update of \<open>Set\<close>\<close>

definition removeLocked :: "nat \<times> 'v centry \<Rightarrow> 'v shard \<Rightarrow> 'v shard" where
  "removeLocked el s =
     s\<lparr>sh_order := filter (\<lambda>x. fst x \<noteq> fst el) (sh_order s),
       sh_entries := (sh_entries s)(e_key (snd el) := None)\<rparr>"

definition moveToFront :: "nat \<Rightarrow> 'v centry \<Rightarrow> 'v shard \<Rightarrow> 'v shard" where
  "moveToFront i item s =
     s\<lparr>sh_order := (i, item) # filter (\<lambda>x. fst x \<noteq> i) (sh_order s)\<rparr>"

definition pushEntry :: "'v centry \<Rightarrow> 'v shard \<Rightarrow> 'v shard" where
  "pushEntry item s =
     s\<lparr>sh_order := (sh_next s, item) # sh_order s,
       sh_entries := (sh_entries s)(e_key item \<mapsto> sh_next s),
       sh_next := Suc (sh_next s)\<rparr>"

definition element :: "'v shard \<Rightarrow> string \<Rightarrow> (nat \<times> 'v centry) option" where
  "element s key =
     (case sh_entries s key of None \<Rightarrow> None
      | Some i \<Rightarrow> map_option (Pair i) (map_of (sh_order s) i))"

definition shard_Get :: "string \<Rightarrow> instant \<Rightarrow> 'v shard \<Rightarrow> 'v option \<times> 'v shard" where
  "shard_Get key now s =
     (case element s key of None \<Rightarrow> (None, s)
      | Some (i, item) \<Rightarrow>
          if e_expiresAt item < now then (None, removeLocked (i, item) s)
          else (Some (e_value item), moveToFront i item s))"

definition shard_Set :: "string \<Rightarrow> 'v \<Rightarrow> duration \<Rightarrow> instant \<Rightarrow> 'v shard \<Rightarrow> 'v shard" where
  "shard_Set key value ttl now s =
     (let expiresAt = now + ttl
      in case element s key of
           Some (i, item) \<Rightarrow> moveToFront i (item\<lparr>e_value := value, e_expiresAt := expiresAt\<rparr>) s
         | None \<Rightarrow>
             let s1 = (if sh_capacity s \<le> int (length (sh_order s)) \<and> sh_order s \<noteq> []
                       then removeLocked (last (sh_order s)) s else s)
             in pushEntry \<lparr>e_key = key, e_value = value, e_expiresAt = expiresAt\<rparr> s1)"

definition shard_Delete :: "string \<Rightarrow> 'v shard \<Rightarrow> 'v shard" where
  "shard_Delete key s =
     (case element s key of None \<Rightarrow> s | Some el \<Rightarrow> removeLocked el s)"

subsection \<open>Operations on the cache\<close>

definition put_shard :: "'v ttl \<Rightarrow> string \<Rightarrow> 'v shard \<Rightarrow> 'v ttl" where
  "put_shard c key s = c\<lparr>t_shards := (t_shards c)[shard_index c key := s]\<rparr>"

definition ttl_Get :: "string \<Rightarrow> instant \<Rightarrow> 'v ttl \<Rightarrow> 'v option \<times> 'v ttl" where
  "ttl_Get key now c =
     (let (r, s) = shard_Get key now (shardFor c key) in (r, put_shard c key s))"

definition ttl_Set :: "string \<Rightarrow> 'v \<Rightarrow> duration \<Rightarrow> instant \<Rightarrow> 'v ttl \<Rightarrow> 'v ttl" where
  "ttl_Set key value ttl now c =
     (if ttl \<le> 0 then c
      else put_shard c key (shard_Set key value ttl now (shardFor c key)))"

definition ttl_Delete :: "string \<Rightarrow> 'v ttl \<Rightarrow> 'v ttl" where
  "ttl_Delete key c = put_shard c key (shard_Delete key (shardFor c key))"

subsection \<open>Consistency of map and list\<close>

definition shard_ok :: "'v shard \<Rightarrow> bool" where
  "shard_ok s \<longleftrightarrow>
     1 \<le> sh_capacity s
     \<and> distinct (map fst (sh_order s))
     \<and> distinct (map (e_key \<circ> snd) (sh_order s))
     \<and> (\<forall>k i. sh_entries s k = Some i \<longleftrightarrow> (\<exists>e. (i, e) \<in> set (sh_order s) \<and> e_key e = k))
     \<and> (\<forall>x \<in> set (sh_order s). fst x < sh_next s)
     \<and> int (length (sh_order s)) \<le> sh_capacity s"

lemma shard_okD:
  assumes "shard_ok s"
  shows "1 \<le> sh_capacity s" "distinct (map fst (sh_order s))"
    "distinct (map (e_key \<circ> snd) (sh_order s))"
    "sh_entries s k = Some i \<longleftrightarrow> (\<exists>e. (i, e) \<in> set (sh_order s) \<and> e_key e = k)"
    "x \<in> set (sh_order s) \<Longrightarrow> fst x < sh_next s"
    "int (length (sh_order s)) \<le> sh_capacity s"
  using assms by (auto simp: shard_ok_def)

text \<open>\<open>element\<close> finds exactly the list element that carries the key.\<close>

lemma element_Some:
  assumes "shard_ok s"
  shows "element s key = Some (i, e) \<longleftrightarrow> (i, e) \<in> set (sh_order s) \<and> e_key e = key"
proof
  assume "element s key = Some (i, e)"
  then have "sh_entries s key = Some i" and e: "map_of (sh_order s) i = Some e"
    by (auto simp: element_def split: option.splits)
  then obtain e' where "(i, e') \<in> set (sh_order s)" "e_key e' = key"
    using shard_okD(4) [OF assms] by blast
  moreover from this e shard_okD(2) [OF assms] have "e' = e" by (metis map_of_eq_Some_iff option.inject)
  ultimately show "(i, e) \<in> set (sh_order s) \<and> e_key e = key" by simp
next
  assume *: "(i, e) \<in> set (sh_order s) \<and> e_key e = key"
  then have "sh_entries s key = Some i" using shard_okD(4) [OF assms] by blast
  moreover from * have "map_of (sh_order s) i = Some e" using shard_okD(2) [OF assms] by simp
  ultimately show "element s key = Some (i, e)" by (simp add: element_def)
qed

lemma element_None:
  assumes "shard_ok s"
  shows "element s key = None \<longleftrightarrow> key \<notin> (e_key \<circ> snd) ` set (sh_order s)"
proof -
  have *: "element s key = None \<longleftrightarrow> (\<forall>i e. element s key \<noteq> Some (i, e))"
    by (metis not_None_eq surj_pair)
  show ?thesis unfolding * element_Some [OF assms] by force
qed

text \<open>In a consistent shard, dropping by identity is dropping by key.\<close>

lemma filter_id_key:
  assumes "shard_ok s" and "(i, e) \<in> set (sh_order s)"
  shows "filter (\<lambda>x. fst x \<noteq> i) (sh_order s) = filter (\<lambda>x. e_key (snd x) \<noteq> e_key e) (sh_order s)"
proof (rule filter_cong [OF refl])
  fix x assume x: "x \<in> set (sh_order s)"
  show "fst x \<noteq> i \<longleftrightarrow> e_key (snd x) \<noteq> e_key e"
    using eq_key_imp_eq_value [OF shard_okD(2) [OF assms(1)]] assms(2) x
      inj_onD [OF distinct_map [THEN iffD1, THEN conjunct2, OF shard_okD(3) [OF assms(1)]], of x "(i, e)"]
    by (cases x) auto
qed

lemma removeLocked_ok:
  assumes "shard_ok s" and "el \<in> set (sh_order s)"
  shows "shard_ok (removeLocked el s)"
proof -
  obtain i e where el: "el = (i, e)" by (cases el)
  note filt = filter_id_key [OF assms(1), of i e, folded el, OF assms(2)]
  have "int (length (filter P (sh_order s))) \<le> sh_capacity s" for P
    using shard_okD(6) [OF assms(1)] length_filter_le [of P "sh_order s"] by linarith
  with shard_okD [OF assms(1)] show ?thesis
    unfolding shard_ok_def removeLocked_def el
    by (auto simp: el filt distinct_map_filter)
qed

lemma shard_okI:
  assumes "1 \<le> sh_capacity s" "distinct (map fst (sh_order s))"
    "distinct (map (e_key \<circ> snd) (sh_order s))"
    "\<And>k i. sh_entries s k = Some i \<longleftrightarrow> (\<exists>e. (i, e) \<in> set (sh_order s) \<and> e_key e = k)"
    "\<And>x. x \<in> set (sh_order s) \<Longrightarrow> fst x < sh_next s"
    "int (length (sh_order s)) \<le> sh_capacity s"
  shows "shard_ok s"
  using assms by (auto simp: shard_ok_def)

lemma moveToFront_ok:
  assumes ok: "shard_ok s" and mem: "(i, e) \<in> set (sh_order s)" and key: "e_key item = e_key e"
  shows "shard_ok (moveToFront i item s)"
proof (rule shard_okI)
  let ?rest = "filter (\<lambda>x. fst x \<noteq> i) (sh_order s)"
  have order: "sh_order (moveToFront i item s) = (i, item) # ?rest"
    and same: "sh_capacity (moveToFront i item s) = sh_capacity s"
      "sh_entries (moveToFront i item s) = sh_entries s" "sh_next (moveToFront i item s) = sh_next s"
    by (simp_all add: moveToFront_def)
  show "1 \<le> sh_capacity (moveToFront i item s)" using shard_okD(1) [OF ok] same by simp
  show "distinct (map fst (sh_order (moveToFront i item s)))"
    using shard_okD(2) [OF ok] by (auto simp: order distinct_map_filter)
  have "e_key e \<notin> (e_key \<circ> snd) ` set ?rest" unfolding filter_id_key [OF ok mem] by auto
  then show "distinct (map (e_key \<circ> snd) (sh_order (moveToFront i item s)))"
    using shard_okD(3) [OF ok] key by (simp add: order distinct_map_filter)
  show "fst x < sh_next (moveToFront i item s)" if "x \<in> set (sh_order (moveToFront i item s))" for x
    using that shard_okD(5) [OF ok, of x] shard_okD(5) [OF ok mem] by (auto simp: order same)
  have "length ?rest < length (sh_order s)"
    using mem by (intro length_filter_less [of "(i, e)"]) auto
  then show "int (length (sh_order (moveToFront i item s))) \<le> sh_capacity (moveToFront i item s)"
    using shard_okD(6) [OF ok] by (simp add: order same)
  show "sh_entries (moveToFront i item s) k = Some j \<longleftrightarrow>
      (\<exists>d. (j, d) \<in> set (sh_order (moveToFront i item s)) \<and> e_key d = k)" for k j
  proof (cases "j = i")
    case True
    have "(\<exists>d. (i, d) \<in> set (sh_order s) \<and> e_key d = k) \<longleftrightarrow> e_key e = k"
      using mem eq_key_imp_eq_value [OF shard_okD(2) [OF ok]] by metis
    with True show ?thesis by (auto simp: order same shard_okD(4) [OF ok] key)
  next
    case False
    then show ?thesis by (auto simp: order same shard_okD(4) [OF ok])
  qed
qed

lemma pushEntry_ok:
  assumes "shard_ok s" and "e_key item \<notin> (e_key \<circ> snd) ` set (sh_order s)"
    and "int (length (sh_order s)) < sh_capacity s"
  shows "shard_ok (pushEntry item s)"
  using shard_okD [OF assms(1)] assms(2,3) unfolding shard_ok_def pushEntry_def
  by (auto simp: image_iff less_Suc_eq) (metis less_irrefl fst_conv)+

subsection \<open>Refinement of a plain recency list\<close>

text \<open>
  The specification keeps only the entries, most recently used first: a hit moves the
  entry to the front, an expired hit drops it, an insertion into a full list drops the
  last entry.
\<close>

definition entries_of :: "'v shard \<Rightarrow> 'v centry list" where
  "entries_of s = map snd (sh_order s)"

definition drop_key :: "string \<Rightarrow> 'v centry list \<Rightarrow> 'v centry list" where
  "drop_key key es = filter (\<lambda>e. e_key e \<noteq> key) es"

definition find_key :: "string \<Rightarrow> 'v centry list \<Rightarrow> 'v centry option" where
  "find_key key es = List.find (\<lambda>e. e_key e = key) es"

definition lru_Get :: "string \<Rightarrow> instant \<Rightarrow> 'v centry list \<Rightarrow> 'v option \<times> 'v centry list" where
  "lru_Get key now es =
     (case find_key key es of None \<Rightarrow> (None, es)
      | Some e \<Rightarrow> if e_expiresAt e < now then (None, drop_key key es)
                  else (Some (e_value e), e # drop_key key es))"

definition lru_Set ::
  "string \<Rightarrow> 'v \<Rightarrow> duration \<Rightarrow> instant \<Rightarrow> int \<Rightarrow> 'v centry list \<Rightarrow> 'v centry list" where
  "lru_Set key v ttl now cap es =
     \<lparr>e_key = key, e_value = v, e_expiresAt = now + ttl\<rparr> #
       (if find_key key es \<noteq> None then drop_key key es
        else if cap \<le> int (length es) then butlast es else es)"

lemma element_find:
  assumes "shard_ok s"
  shows "find_key key (entries_of s) = map_option snd (element s key)"
proof (cases "element s key")
  case None
  then have "key \<notin> (e_key \<circ> snd) ` set (sh_order s)" by (simp add: element_None [OF assms])
  then have "find_key key (entries_of s) = None"
    by (force simp: find_key_def entries_of_def find_None_iff)
  with None show ?thesis by simp
next
  case (Some el)
  obtain i e where el: "el = (i, e)" by (cases el)
  with Some have mem: "(i, e) \<in> set (sh_order s)" "e_key e = key"
    by (simp_all add: element_Some [OF assms])
  then have "e \<in> set (entries_of s)" by (force simp: entries_of_def)
  with mem(2) have "find_key key (entries_of s) \<noteq> None"
    by (auto simp: find_key_def find_None_iff)
  then obtain d where d: "find_key key (entries_of s) = Some d" by auto
  then have "d \<in> snd ` set (sh_order s)" "e_key d = key"
    by (auto simp: find_key_def find_Some_iff entries_of_def)
  then obtain j where "(j, d) \<in> set (sh_order s)" by force
  then have "element s key = Some (j, d)" using \<open>e_key d = key\<close> by (simp add: element_Some [OF assms])
  with Some el d show ?thesis by simp
qed

lemma entries_filter:
  assumes "shard_ok s" and "(i, e) \<in> set (sh_order s)"
  shows "map snd (filter (\<lambda>x. fst x \<noteq> i) (sh_order s)) = drop_key (e_key e) (entries_of s)"
  unfolding filter_id_key [OF assms] by (simp add: drop_key_def entries_of_def filter_map o_def)

lemma entries_removeLocked:
  "shard_ok s \<Longrightarrow> (i, e) \<in> set (sh_order s) \<Longrightarrow>
     entries_of (removeLocked (i, e) s) = drop_key (e_key e) (entries_of s)"
  by (simp add: removeLocked_def entries_of_def [of "_\<lparr>sh_order := _, sh_entries := _\<rparr>"] entries_filter)

lemma entries_moveToFront:
  "shard_ok s \<Longrightarrow> (i, e) \<in> set (sh_order s) \<Longrightarrow>
     entries_of (moveToFront i item s) = item # drop_key (e_key e) (entries_of s)"
  by (simp add: moveToFront_def entries_of_def [of "_\<lparr>sh_order := _\<rparr>"] entries_filter)

lemma filter_last:
  "distinct (map f xs) \<Longrightarrow> xs \<noteq> [] \<Longrightarrow> filter (\<lambda>x. f x \<noteq> f (last xs)) xs = butlast xs"
  by (induction xs rule: rev_induct) (auto intro!: filter_True, metis image_eqI)

lemma entries_remove_last:
  assumes "shard_ok s" and "sh_order s \<noteq> []"
  shows "entries_of (removeLocked (last (sh_order s)) s) = butlast (entries_of s)"
  using filter_last [OF shard_okD(2) [OF assms(1)] assms(2)]
  by (simp add: removeLocked_def entries_of_def map_butlast)

lemma shard_Get_refines:
  assumes "shard_ok s"
  shows "shard_ok (snd (shard_Get key now s))"
    and "fst (shard_Get key now s) = fst (lru_Get key now (entries_of s))"
    and "entries_of (snd (shard_Get key now s)) = snd (lru_Get key now (entries_of s))"
  using assms
  by (auto simp: shard_Get_def lru_Get_def element_find element_Some entries_removeLocked
      entries_moveToFront removeLocked_ok split: option.splits intro: moveToFront_ok)

lemma shard_Delete_refines:
  assumes "shard_ok s"
  shows "shard_ok (shard_Delete key s)"
    and "entries_of (shard_Delete key s) = drop_key key (entries_of s)"
proof -
  have none: "element s key = None \<Longrightarrow> drop_key key (entries_of s) = entries_of s"
    by (force simp: element_None [OF assms] drop_key_def entries_of_def intro: filter_True)
  show "shard_ok (shard_Delete key s)"
    using assms by (auto simp: shard_Delete_def element_Some removeLocked_ok split: option.splits)
  show "entries_of (shard_Delete key s) = drop_key key (entries_of s)"
    using assms none
    by (auto simp: shard_Delete_def element_Some entries_removeLocked split: option.splits)
qed

lemma shard_Set_refines:
  assumes ok: "shard_ok s"
  shows "shard_ok (shard_Set key v ttl now s)"
    and "entries_of (shard_Set key v ttl now s) =
      lru_Set key v ttl now (sh_capacity s) (entries_of s)"
proof -
  let ?new = "\<lparr>e_key = key, e_value = v, e_expiresAt = now + ttl\<rparr>"
  have "shard_ok (shard_Set key v ttl now s) \<and> entries_of (shard_Set key v ttl now s) =
      lru_Set key v ttl now (sh_capacity s) (entries_of s)"
  proof (cases "element s key")
    case (Some el)
    obtain i e where el: "el = (i, e)" by (cases el)
    have mem: "(i, e) \<in> set (sh_order s)" and key: "e_key e = key"
      using Some el by (simp_all add: element_Some [OF ok])
    have upd: "e\<lparr>e_value := v, e_expiresAt := now + ttl\<rparr> = ?new" using key by simp
    from moveToFront_ok [OF ok mem, of ?new] entries_moveToFront [OF ok mem, of ?new] key Some el
    show ?thesis
      by (simp add: shard_Set_def upd lru_Set_def element_find [OF ok])
  next
    case None
    let ?s1 = "if sh_capacity s \<le> int (length (sh_order s)) \<and> sh_order s \<noteq> []
               then removeLocked (last (sh_order s)) s else s"
    have keys: "key \<notin> (e_key \<circ> snd) ` set (sh_order s)" using None by (simp add: element_None [OF ok])
    have cap1: "1 \<le> sh_capacity s" using shard_okD(1) [OF ok] .
    have "shard_ok ?s1" using ok by (auto intro: removeLocked_ok)
    moreover have "key \<notin> (e_key \<circ> snd) ` set (sh_order ?s1)"
      using keys by (auto simp: removeLocked_def)
    moreover have len: "int (length (sh_order ?s1)) < sh_capacity ?s1"
      using cap1 shard_okD(6) [OF ok] filter_last [OF shard_okD(2) [OF ok]]
      by (auto simp: removeLocked_def)
    ultimately have "shard_ok (pushEntry ?new ?s1)" by (intro pushEntry_ok) auto
    moreover have "entries_of ?s1 =
        (if sh_capacity s \<le> int (length (entries_of s)) then butlast (entries_of s) else entries_of s)"
      using entries_remove_last [OF ok] cap1 by (auto simp: entries_of_def)
    ultimately show ?thesis
      using None by (simp add: shard_Set_def lru_Set_def element_find [OF ok] Let_def
          pushEntry_def entries_of_def [of "_\<lparr>sh_order := _, sh_entries := _, sh_next := _\<rparr>"]
          entries_of_def [symmetric])
  qed
  then show "shard_ok (shard_Set key v ttl now s)"
    and "entries_of (shard_Set key v ttl now s) =
      lru_Set key v ttl now (sh_capacity s) (entries_of s)" by auto
qed

subsection \<open>What a lookup would return\<close>

definition live :: "'v centry list \<Rightarrow> string \<Rightarrow> instant \<Rightarrow> 'v option" where
  "live es key t =
     (case find_key key es of None \<Rightarrow> None
      | Some e \<Rightarrow> if e_expiresAt e < t then None else Some (e_value e))"

lemma find_drop_other: "k \<noteq> key \<Longrightarrow> find_key k (drop_key key es) = find_key k es"
  by (induction es) (auto simp: find_key_def drop_key_def)

lemma find_drop_same [simp]: "find_key key (drop_key key es) = None"
  by (auto simp: find_key_def drop_key_def find_None_iff)

lemma find_key_Cons [simp]:
  "find_key k (e # es) = (if e_key e = k then Some e else find_key k es)"
  by (simp add: find_key_def)

lemma find_key_Some_key: "find_key k es = Some e \<Longrightarrow> e_key e = k"
  by (auto simp: find_key_def find_Some_iff)

lemma find_butlast: "find_key k (butlast es) = find_key k es \<or> find_key k (butlast es) = None"
proof (induction es)
  case (Cons e es)
  then show ?case by (cases es) (auto simp: find_key_def)
qed (simp add: find_key_def)

lemma live_drop: "live (drop_key key es) k t = (if k = key then None else live es k t)"
  by (simp add: live_def find_drop_other)

lemma lru_Get_result: "fst (lru_Get key now es) = live es key now"
  by (simp add: lru_Get_def live_def split: option.splits)

lemma lru_Get_live:
  assumes "now \<le> t"
  shows "live (snd (lru_Get key now es)) k t = live es k t"
proof (cases "find_key key es")
  case (Some e)
  with assms find_key_Some_key [OF Some] show ?thesis
    by (cases "k = key") (auto simp: lru_Get_def live_def find_drop_other)
qed (simp add: lru_Get_def)

lemma lru_Set_live_same:
  "live (lru_Set key v ttl now cap es) key t = (if t \<le> now + ttl then Some v else None)"
  by (simp add: lru_Set_def live_def)

lemma lru_Set_live_other:
  assumes "k \<noteq> key"
  shows "live (lru_Set key v ttl now cap es) k t \<in> {live es k t, None}"
  using assms find_butlast [of k es]
  by (auto simp: lru_Set_def live_def find_drop_other split: option.splits)

text \<open>An insertion that displaces nothing: the key is already there, or there is room.\<close>

lemma lru_Set_live_room:
  assumes "k \<noteq> key" and "find_key key es \<noteq> None \<or> int (length es) < cap"
  shows "live (lru_Set key v ttl now cap es) k t = live es k t"
  using assms by (auto simp: lru_Set_def live_def find_drop_other)

subsection \<open>The sharded cache\<close>

definition ttl_ok :: "'v ttl \<Rightarrow> bool" where
  "ttl_ok c \<longleftrightarrow> length (t_shards c) = shardCount \<and> (\<forall>s \<in> set (t_shards c). shard_ok s)"

definition ttl_peek :: "'v ttl \<Rightarrow> string \<Rightarrow> instant \<Rightarrow> 'v option" where
  "ttl_peek c key t = live (entries_of (shardFor c key)) key t"

definition ttl_size :: "'v ttl \<Rightarrow> nat" where
  "ttl_size c = (\<Sum>s\<leftarrow>t_shards c. length (sh_order s))"

lemma shard_index_lt: "shard_index c key < shardCount"
  by (simp add: shard_index_def shardCount_def unat_mod)

lemma shardFor_ok: "ttl_ok c \<Longrightarrow> shard_ok (shardFor c key)"
  using shard_index_lt [of c key] by (auto simp: ttl_ok_def shardFor_def)

lemma put_shard_ok: "ttl_ok c \<Longrightarrow> shard_ok s \<Longrightarrow> ttl_ok (put_shard c key s)"
  using set_update_subset_insert [of "t_shards c"] by (fastforce simp: ttl_ok_def put_shard_def)

lemma shardFor_put:
  "ttl_ok c \<Longrightarrow> shardFor (put_shard c key s) k =
     (if shard_index c k = shard_index c key then s else shardFor c k)"
  using shard_index_lt [of c key]
  by (auto simp: shardFor_def put_shard_def shard_index_def ttl_ok_def)

lemma ttl_peek_put:
  "ttl_ok c \<Longrightarrow> ttl_peek (put_shard c key s) k t =
     (if shard_index c k = shard_index c key then live (entries_of s) k t else ttl_peek c k t)"
  by (simp add: ttl_peek_def shardFor_put)

lemma shardFor_cong: "shard_index c k = shard_index c key \<Longrightarrow> shardFor c k = shardFor c key"
  by (simp add: shardFor_def)

lemma NewTTL_ok: "ttl_ok (NewTTL h capacity)"
  by (auto simp: NewTTL_def ttl_ok_def shard_ok_def Let_def)

lemma NewTTL_peek: "ttl_peek (NewTTL h capacity :: 'v ttl) key t = None"
proof -
  obtain n where "t_shards (NewTTL h capacity :: 'v ttl) =
      replicate shardCount \<lparr>sh_capacity = n, sh_entries = (\<lambda>_. None), sh_order = [], sh_next = 0\<rparr>"
    by (auto simp: NewTTL_def Let_def)
  then have "sh_order (shardFor (NewTTL h capacity :: 'v ttl) key) = []"
    using shard_index_lt [of "NewTTL h capacity :: 'v ttl" key] by (simp add: shardFor_def)
  then show ?thesis by (simp add: ttl_peek_def entries_of_def live_def find_key_def)
qed

text \<open>The interface the poll cache uses, and its laws.\<close>

locale entry_cache =
  fixes get :: "string \<Rightarrow> instant \<Rightarrow> 'c \<Rightarrow> 'v option \<times> 'c"
    and set_entry :: "string \<Rightarrow> 'v \<Rightarrow> duration \<Rightarrow> instant \<Rightarrow> 'c \<Rightarrow> 'c"
    and delete :: "string \<Rightarrow> 'c \<Rightarrow> 'c"
    and peek :: "'c \<Rightarrow> string \<Rightarrow> instant \<Rightarrow> 'v option"
    and invar :: "'c \<Rightarrow> bool"
  assumes get_result: "invar c \<Longrightarrow> fst (get k now c) = peek c k now"
    and get_peek: "invar c \<Longrightarrow> now \<le> t \<Longrightarrow> peek (snd (get k now c)) k' t = peek c k' t"
    and get_invar: "invar c \<Longrightarrow> invar (snd (get k now c))"
    and set_same: "invar c \<Longrightarrow> 0 < ttl \<Longrightarrow>
      peek (set_entry k v ttl now c) k t = (if t \<le> now + ttl then Some v else None)"
    and set_skip: "ttl \<le> 0 \<Longrightarrow> set_entry k v ttl now c = c"
    and set_other: "invar c \<Longrightarrow> k' \<noteq> k \<Longrightarrow>
      peek (set_entry k v ttl now c) k' t \<in> {peek c k' t, None}"
    and set_invar: "invar c \<Longrightarrow> invar (set_entry k v ttl now c)"
    and delete_same: "invar c \<Longrightarrow> peek (delete k c) k t = None"
    and delete_other: "invar c \<Longrightarrow> k' \<noteq> k \<Longrightarrow> peek (delete k c) k' t = peek c k' t"
    and delete_invar: "invar c \<Longrightarrow> invar (delete k c)"
begin

lemma get_after_set:
  assumes "invar c" and "0 < ttl" and "t \<le> now + ttl"
  shows "fst (get k t (set_entry k v ttl now c)) = Some v"
  using assms by (simp add: get_result set_invar set_same)

lemma get_after_delete: "invar c \<Longrightarrow> fst (get k t (delete k c)) = None"
  by (simp add: get_result delete_invar delete_same)

text \<open>A value never comes back after it expired, whatever is looked up in between.\<close>

lemma get_expired:
  assumes "invar c" and "0 < ttl" and "now + ttl < t" and "u \<le> t"
  shows "fst (get k t (snd (get k' u (set_entry k v ttl now c)))) = None"
  using assms by (simp add: get_result get_invar get_peek set_invar set_same)

end

lemma ttl_Get_result: "ttl_ok c \<Longrightarrow> fst (ttl_Get key now c) = ttl_peek c key now"
  using shard_Get_refines(2) [OF shardFor_ok [of c key], of key now]
  by (simp add: ttl_Get_def ttl_peek_def lru_Get_result Let_def split_def)

lemma ttl_Get_ok: "ttl_ok c \<Longrightarrow> ttl_ok (snd (ttl_Get key now c))"
  by (simp add: ttl_Get_def Let_def split_def put_shard_ok shard_Get_refines(1) shardFor_ok)

lemma ttl_Get_peek:
  assumes "ttl_ok c" and "now \<le> t"
  shows "ttl_peek (snd (ttl_Get key now c)) k t = ttl_peek c k t"
  using assms shard_Get_refines(3) [OF shardFor_ok [of c key], of key now]
  by (auto simp: ttl_Get_def Let_def split_def shardFor_put lru_Get_live ttl_peek_def
      dest: shardFor_cong)

lemma ttl_Set_ok: "ttl_ok c \<Longrightarrow> ttl_ok (ttl_Set key v ttl now c)"
  by (simp add: ttl_Set_def put_shard_ok shard_Set_refines(1) shardFor_ok)

lemma ttl_Set_same:
  assumes "ttl_ok c" and "0 < ttl"
  shows "ttl_peek (ttl_Set key v ttl now c) key t = (if t \<le> now + ttl then Some v else None)"
  using assms by (simp add: ttl_Set_def ttl_peek_put shard_Set_refines(2) shardFor_ok lru_Set_live_same)

lemma ttl_Set_other:
  assumes "ttl_ok c" and "k \<noteq> key"
  shows "ttl_peek (ttl_Set key v ttl now c) k t \<in> {ttl_peek c k t, None}"
proof (cases "shard_index c k = shard_index c key")
  case True
  with assms lru_Set_live_other [OF assms(2), of v ttl now "sh_capacity (shardFor c key)"
      "entries_of (shardFor c key)" t] shardFor_cong [OF True]
  show ?thesis by (auto simp: ttl_Set_def shardFor_put shard_Set_refines(2) shardFor_ok ttl_peek_def)
next
  case False
  with assms show ?thesis by (simp add: ttl_Set_def ttl_peek_put)
qed

lemma ttl_Delete_ok: "ttl_ok c \<Longrightarrow> ttl_ok (ttl_Delete key c)"
  by (simp add: ttl_Delete_def put_shard_ok shard_Delete_refines(1) shardFor_ok)

lemma ttl_Delete_peek:
  "ttl_ok c \<Longrightarrow> ttl_peek (ttl_Delete key c) k t = (if k = key then None else ttl_peek c k t)"
  by (auto simp: ttl_Delete_def shardFor_put shard_Delete_refines(2) shardFor_ok live_drop
      ttl_peek_def dest: shardFor_cong)

lemma ttl_Set_skip: "ttl \<le> 0 \<Longrightarrow> ttl_Set key v ttl now c = c"
  by (simp add: ttl_Set_def)

interpretation ttlcache: entry_cache ttl_Get ttl_Set ttl_Delete ttl_peek ttl_ok
  by unfold_locales
    (simp_all only: ttl_Get_result ttl_Get_peek ttl_Get_ok ttl_Set_same ttl_Set_ok ttl_Delete_ok
      ttl_Delete_peek ttl_Set_skip ttl_Set_other if_False simp_thms if_True)

subsection \<open>Runs of operations and the capacity\<close>

datatype 'v cache_op = CGet string instant | CSet string 'v duration instant | CDelete string

fun cache_step :: "'v ttl \<Rightarrow> 'v cache_op \<Rightarrow> 'v ttl" where
  "cache_step c (CGet k now) = snd (ttl_Get k now c)"
| "cache_step c (CSet k v ttl now) = ttl_Set k v ttl now c"
| "cache_step c (CDelete k) = ttl_Delete k c"

fun cache_run :: "'v ttl \<Rightarrow> 'v cache_op list \<Rightarrow> 'v ttl" where
  "cache_run c [] = c"
| "cache_run c (x # xs) = cache_run (cache_step c x) xs"

lemma cache_step_ok: "ttl_ok c \<Longrightarrow> ttl_ok (cache_step c x)"
  by (cases x) (auto simp: ttl_Get_ok ttl_Set_ok ttl_Delete_ok)

lemma cache_run_ok: "ttl_ok c \<Longrightarrow> ttl_ok (cache_run c xs)"
  by (induction xs arbitrary: c) (auto simp: cache_step_ok)

lemma shard_capacity_const [simp]:
  "sh_capacity (removeLocked el s) = sh_capacity s"
  "sh_capacity (moveToFront i item s) = sh_capacity s"
  "sh_capacity (pushEntry item s) = sh_capacity s"
  by (simp_all add: removeLocked_def moveToFront_def pushEntry_def)

lemma shard_ops_capacity [simp]:
  "sh_capacity (snd (shard_Get key now s)) = sh_capacity s"
  "sh_capacity (shard_Set key v ttl now s) = sh_capacity s"
  "sh_capacity (shard_Delete key s) = sh_capacity s"
  by (auto simp: shard_Get_def shard_Set_def shard_Delete_def Let_def split: option.splits)

lemma put_shard_capacity:
  assumes "ttl_ok c" and "sh_capacity s = sh_capacity (shardFor c key)"
  shows "map sh_capacity (t_shards (put_shard c key s)) = map sh_capacity (t_shards c)"
  using assms shard_index_lt [of c key]
  by (simp add: put_shard_def map_update shardFor_def ttl_ok_def)
    (metis length_map list_update_id nth_map)

lemma cache_step_capacity:
  "ttl_ok c \<Longrightarrow> map sh_capacity (t_shards (cache_step c x)) = map sh_capacity (t_shards c)"
  by (cases x) (auto simp: ttl_Get_def ttl_Set_def ttl_Delete_def Let_def split_def put_shard_capacity)

lemma cache_run_capacity:
  "ttl_ok c \<Longrightarrow> map sh_capacity (t_shards (cache_run c xs)) = map sh_capacity (t_shards c)"
  by (induction xs arbitrary: c) (auto simp: cache_step_ok cache_step_capacity)

lemma ttl_size_le:
  assumes "ttl_ok c"
  shows "int (ttl_size c) \<le> (\<Sum>n\<leftarrow>map sh_capacity (t_shards c). n)"
proof -
  have "\<forall>s \<in> set ss. shard_ok s \<Longrightarrow>
      int (\<Sum>s\<leftarrow>ss. length (sh_order s)) \<le> (\<Sum>n\<leftarrow>map sh_capacity ss. n)" for ss :: "'a shard list"
    by (induction ss) (auto dest: shard_okD(6))
  with assms show ?thesis by (simp add: ttl_size_def ttl_ok_def)
qed

lemma NewTTL_capacity:
  "map sh_capacity (t_shards (NewTTL h capacity)) = replicate shardCount (max 1 (go_div capacity 16))"
  by (simp add: NewTTL_def Let_def shardCount_def max_def)

text \<open>
  Size of the in-process cache. Whatever is looked up, stored and deleted, the cache
  holds at most 16 times the capacity of a shard, which is a sixteenth of the configured
  capacity and at least 1: the configured total, except that a capacity below 16 still
  allows 16 entries.
\<close>

lemma cache_size_bound:
  "int (ttl_size (cache_run (NewTTL h capacity) ops)) \<le> 16 * max 1 (go_div capacity 16)"
  using ttl_size_le [OF cache_run_ok [OF NewTTL_ok, of h capacity ops]]
    cache_run_capacity [OF NewTTL_ok, of h capacity ops]
  by (simp add: NewTTL_capacity sum_list_replicate shardCount_def)

end
