(* ===== verification/Ports.thy ===== *)
theory Ports
  imports Entity
begin

text \<open>
  The ports between the services and the infrastructure (\<open>internal/usecase/ports.go\<close>).
  A Go interface is a record of operations over a state \<open>'s\<close>; a service takes the
  record, as the Go service takes the interface value. The contract of the vote store is
  a locale over such a record: what the services rely on, in terms of how many votes an
  option has, which voters have voted and which polls are tracked.
\<close>

subsection \<open>Interfaces\<close>

type_synonym ('s, 'a) action = "'s \<Rightarrow> (goerror + 'a) \<times> 's"

record GuardRequest =
  g_ClientIP :: string
  g_PollID :: string

type_synonym Verdict = int

abbreviation (input) "VerdictAllow \<equiv> (0 :: Verdict)"
abbreviation (input) "VerdictRateLimited \<equiv> (1 :: Verdict)"
abbreviation (input) "VerdictQuotaExceeded \<equiv> (2 :: Verdict)"

record Ballot =
  b_PollID :: string
  b_VoterHash :: string
  b_OptionIDs :: "string list"

record 's VoteStore =
  vs_Guard :: "GuardRequest \<Rightarrow> ('s, Verdict) action"
  vs_CastBallot :: "Ballot \<Rightarrow> ('s, unit) action"
  vs_Counters :: "string \<Rightarrow> string list \<Rightarrow> ('s, (string \<times> int64) list) action"
  vs_TrackPoll :: "string \<Rightarrow> ('s, unit) action"
  vs_TrackedPolls :: "('s, string list) action"
  vs_UntrackPoll :: "string \<Rightarrow> ('s, unit) action"
  vs_Ping :: "('s, unit) action"

record 's PollTx =
  tx_InsertPoll :: "poll \<Rightarrow> ('s, unit) action"
  tx_InsertPollOptions :: "poll \<Rightarrow> ('s, unit) action"
  tx_InsertZeroResults :: "poll \<Rightarrow> ('s, unit) action"
  tx_Commit :: "('s, unit) action"
  tx_Rollback :: "('s, unit) action"

record 's PollRepository =
  pr_BeginTx :: "('s, 's PollTx) action"
  pr_GetPoll :: "string \<Rightarrow> ('s, poll) action"
  pr_CountPolls :: "('s, int) action"
  pr_ListPollPage :: "int \<Rightarrow> int \<Rightarrow> ('s, poll list) action"
  pr_ListOptionsByPollIDs :: "string list \<Rightarrow> ('s, (string \<times> poll_option list) list) action"
  pr_UpdatePollStatus :: "string \<Rightarrow> poll_status list \<Rightarrow> poll_status \<Rightarrow> instant \<Rightarrow> ('s, unit) action"
  pr_GetPollStatus :: "string \<Rightarrow> ('s, poll_status) action"
  pr_GetResults :: "string \<Rightarrow> ('s, (string \<times> int64) list) action"
  pr_SaveResults :: "string \<Rightarrow> (string \<times> int64) list \<Rightarrow> ('s, unit) action"
  pr_Ping :: "('s, unit) action"

record 's PollLoader =
  pl_Poll :: "string \<Rightarrow> ('s, poll) action"
  pl_Invalidate :: "string \<Rightarrow> ('s, unit) action"

subsection \<open>The vote store's contract\<close>

text \<open>
  \<open>votes s p o\<close> is the number of votes recorded for an option, \<open>voted s p h\<close> whether
  a voter's claim is in force, \<open>tracked s\<close> the polls to synchronise. A ballot has room
  when its options are distinct and no counter would leave int64.
\<close>

definition ballot_room :: "(string \<Rightarrow> string \<Rightarrow> int) \<Rightarrow> Ballot \<Rightarrow> bool" where
  "ballot_room v b \<longleftrightarrow>
     distinct (b_OptionIDs b) \<and> (\<forall>i \<in> set (b_OptionIDs b). v (b_PollID b) i < max_int64)"

definition add_ballot :: "Ballot \<Rightarrow> (string \<Rightarrow> string \<Rightarrow> int) \<Rightarrow> string \<Rightarrow> string \<Rightarrow> int" where
  "add_ballot b v p i = v p i + (if p = b_PollID b \<and> i \<in> set (b_OptionIDs b) then 1 else 0)"

locale vote_store =
  fixes S :: "'s VoteStore"
    and votes :: "'s \<Rightarrow> string \<Rightarrow> string \<Rightarrow> int"
    and voted :: "'s \<Rightarrow> string \<Rightarrow> string \<Rightarrow> bool"
    and tracked :: "'s \<Rightarrow> string set"
    and hash_ok :: "string \<Rightarrow> bool"
    and invar :: "'s \<Rightarrow> bool"
  assumes guard_frame: "invar s \<Longrightarrow> vs_Guard S req s = (rg, s') \<Longrightarrow>
      invar s' \<and> votes s' = votes s \<and> voted s' = voted s \<and> tracked s' = tracked s"
    and guard_error: "vs_Guard S req s = (Inl e, s') \<Longrightarrow> CodeOf e = CodeUnavailable"
    and cast_again: "invar s \<Longrightarrow> hash_ok (b_VoterHash b) \<Longrightarrow>
      voted s (b_PollID b) (b_VoterHash b) \<Longrightarrow> vs_CastBallot S b s = (r, s') \<Longrightarrow>
      (\<exists>e. r = Inl e \<and> CodeOf e \<in> {CodeAlreadyVoted, CodeUnavailable})
      \<and> invar s' \<and> votes s' = votes s \<and> voted s' = voted s \<and> tracked s' = tracked s"
    and cast_fresh: "invar s \<Longrightarrow> hash_ok (b_VoterHash b) \<Longrightarrow> ballot_room (votes s) b \<Longrightarrow>
      \<not> voted s (b_PollID b) (b_VoterHash b) \<Longrightarrow> vs_CastBallot S b s = (r, s') \<Longrightarrow>
      invar s' \<and> tracked s' = tracked s
      \<and> ((votes s' = add_ballot b (votes s) \<and> voted s' (b_PollID b) (b_VoterHash b)
          \<and> (\<forall>e. r = Inl e \<longrightarrow> CodeOf e \<in> {CodeAlreadyVoted, CodeUnavailable}))
         \<or> (votes s' = votes s \<and> voted s' = voted s \<and> (\<exists>e. r = Inl e \<and> CodeOf e = CodeUnavailable)))"
    and cast_others: "invar s \<Longrightarrow> hash_ok (b_VoterHash b) \<Longrightarrow> ballot_room (votes s) b \<Longrightarrow>
      vs_CastBallot S b s = (r, s') \<Longrightarrow> hash_ok h \<Longrightarrow>
      (p, h) \<noteq> (b_PollID b, b_VoterHash b) \<Longrightarrow> voted s' p h = voted s p h"
    and counters_frame: "invar s \<Longrightarrow> vs_Counters S p ids s = (rc, s') \<Longrightarrow>
      invar s' \<and> votes s' = votes s \<and> voted s' = voted s \<and> tracked s' = tracked s"
    and counters_value: "invar s \<Longrightarrow> vs_Counters S p ids s = (Inr m, s') \<Longrightarrow>
      i \<in> set ids \<Longrightarrow> votes s p i \<le> max_int64 \<Longrightarrow> sint (lookup0 m i) = votes s p i"
    and counters_keys: "vs_Counters S p ids s = (Inr m, s') \<Longrightarrow>
      distinct (map fst m) \<and> set (map fst m) = set ids"
    and counters_error: "invar s \<Longrightarrow> vs_Counters S p ids s = (Inl e, s') \<Longrightarrow>
      CodeOf e = CodeUnavailable"
    and track_frame: "invar s \<Longrightarrow> vs_TrackPoll S p s = (r, s') \<Longrightarrow>
      invar s' \<and> votes s' = votes s \<and> voted s' = voted s
      \<and> (tracked s' = insert p (tracked s) \<or> tracked s' = tracked s \<and> (\<exists>e. r = Inl e))"
    and untrack_frame: "invar s \<Longrightarrow> vs_UntrackPoll S p s = (r, s') \<Longrightarrow>
      invar s' \<and> votes s' = votes s \<and> voted s' = voted s
      \<and> (tracked s' = tracked s - {p} \<or> tracked s' = tracked s \<and> (\<exists>e. r = Inl e))"
    and tracked_list: "invar s \<Longrightarrow> vs_TrackedPolls S s = (rt, s') \<Longrightarrow>
      invar s' \<and> votes s' = votes s \<and> voted s' = voted s \<and> tracked s' = tracked s
      \<and> (\<forall>ps. rt = Inr ps \<longrightarrow> distinct ps \<and> set ps = tracked s)"
    and votes_nonneg: "invar s \<Longrightarrow> 0 \<le> votes s p i"
    and track_error: "vs_TrackPoll S p s = (Inl e, s') \<Longrightarrow> CodeOf e = CodeUnavailable"
begin

text \<open>A ballot counts at most once, and exactly once when the voter is told it did.\<close>

lemma cast_at_most_once:
  assumes "invar s" and "hash_ok (b_VoterHash b)" and "ballot_room (votes s) b"
    and "vs_CastBallot S b s = (r, s')"
  shows "votes s' = votes s \<or> votes s' = add_ballot b (votes s)"
  using cast_again [OF assms(1,2) _ assms(4)] cast_fresh [OF assms(1-3) _ assms(4)] by blast

lemma cast_accepted:
  assumes "invar s" and "hash_ok (b_VoterHash b)" and "ballot_room (votes s) b"
    and "vs_CastBallot S b s = (Inr u, s')"
  shows "\<not> voted s (b_PollID b) (b_VoterHash b)" and "votes s' = add_ballot b (votes s)"
    and "voted s' (b_PollID b) (b_VoterHash b)"
  using cast_again [OF assms(1,2) _ assms(4)] cast_fresh [OF assms(1-3) _ assms(4)] by auto

lemma cast_invar:
  assumes "invar s" and "hash_ok (b_VoterHash b)" and "ballot_room (votes s) b"
    and "vs_CastBallot S b s = (r, s')"
  shows "invar s'" and "tracked s' = tracked s"
  using cast_again [OF assms(1,2) _ assms(4)] cast_fresh [OF assms(1-3) _ assms(4)] by blast+

text \<open>A second ballot of the same voter, after the first was counted, changes nothing.\<close>

lemma cast_twice:
  assumes "invar s" and "hash_ok (b_VoterHash b)" and "ballot_room (votes s) b"
    and "vs_CastBallot S b s = (Inr u, s1)"
    and "b_PollID b2 = b_PollID b" and "b_VoterHash b2 = b_VoterHash b"
    and "vs_CastBallot S b2 s1 = (r2, s2)"
  shows "votes s2 = add_ballot b (votes s)" and "\<exists>e. r2 = Inl e"
  using cast_again [OF cast_invar(1) [OF assms(1-4)], of b2 r2 s2] assms
    cast_accepted [OF assms(1-4)] by auto

end

end
