(* ===== verification/Redis.thy ===== *)
theory Redis
  imports Entity "HOL-Library.AList"
begin

text \<open>
  Redis as the program sees it. The server is not part of the repository: its commands are
  a parameter of the model (the record \<open>redis_cmds\<close>), and what the program relies on is
  the hypothesis \<open>redis_ok\<close>, the commands' documented behaviour on a keyspace of strings,
  hashes and sets with optional deadlines. \<open>mem_redis\<close> is a concrete instance that shows
  the hypothesis can hold; no property is stated about it alone.

  The client library retries a command whose reply it did not get (\<open>MaxRetries\<close>), so a
  call may run on the server more than once, or run and still be reported as failed.
  \<open>redis_call\<close> makes this explicit: each call consumes a fate that says how many times
  it ran with its reply lost, and whether a reply arrived in the end.
\<close>

subsection \<open>The keyspace\<close>

datatype rvalue =
    RString string
  | RHash "(string \<times> string) list"
  | RSet "string list"

type_synonym rdb = "string \<rightharpoonup> (rvalue \<times> instant option)"

text \<open>The live value of a key: a key whose deadline has come does not exist any more.\<close>

definition kv :: "instant \<Rightarrow> rdb \<Rightarrow> string \<Rightarrow> rvalue option" where
  "kv now db k =
     (case db k of None \<Rightarrow> None
      | Some (v, d) \<Rightarrow> (case d of None \<Rightarrow> Some v | Some t \<Rightarrow> if t \<le> now then None else Some v))"

definition deadline :: "rdb \<Rightarrow> string \<Rightarrow> instant option" where
  "deadline db k = (case db k of None \<Rightarrow> None | Some (_, d) \<Rightarrow> d)"

lemma kv_upd [simp]:
  "kv now (db(k \<mapsto> (v, None))) k = Some v"
  "kv now (db(k \<mapsto> (v, Some t))) k = (if t \<le> now then None else Some v)"
  "k' \<noteq> k \<Longrightarrow> kv now (db(k := x)) k' = kv now db k'"
  by (simp_all add: kv_def)

lemma deadline_upd [simp]:
  "deadline (db(k \<mapsto> (v, d))) k = d"
  "k' \<noteq> k \<Longrightarrow> deadline (db(k := x)) k' = deadline db k'"
  by (simp_all add: deadline_def)

lemma kv_upd_same_deadline:
  "kv now db k \<noteq> None \<Longrightarrow> kv now (db(k \<mapsto> (v, deadline db k))) k = Some v"
  by (auto simp: kv_def deadline_def split: option.splits if_splits)

subsection \<open>The commands, a parameter\<close>

record redis_cmds =
  rd_INCR :: "instant \<Rightarrow> string \<Rightarrow> rdb \<Rightarrow> (goerror + int) \<times> rdb"
  rd_EXPIRE :: "instant \<Rightarrow> string \<Rightarrow> int \<Rightarrow> rdb \<Rightarrow> (goerror + int) \<times> rdb"
  rd_SET_NX_EX :: "instant \<Rightarrow> string \<Rightarrow> string \<Rightarrow> int \<Rightarrow> rdb \<Rightarrow> (goerror + bool) \<times> rdb"
  rd_EXISTS :: "instant \<Rightarrow> string \<Rightarrow> rdb \<Rightarrow> (goerror + int) \<times> rdb"
  rd_HINCRBY :: "instant \<Rightarrow> string \<Rightarrow> string \<Rightarrow> int \<Rightarrow> rdb \<Rightarrow> (goerror + int) \<times> rdb"
  rd_HGETALL :: "instant \<Rightarrow> string \<Rightarrow> rdb \<Rightarrow> (goerror + (string \<times> string) list) \<times> rdb"
  rd_SADD :: "instant \<Rightarrow> string \<Rightarrow> string \<Rightarrow> rdb \<Rightarrow> (goerror + int) \<times> rdb"
  rd_SREM :: "instant \<Rightarrow> string \<Rightarrow> string \<Rightarrow> rdb \<Rightarrow> (goerror + int) \<times> rdb"
  rd_SMEMBERS :: "instant \<Rightarrow> string \<Rightarrow> rdb \<Rightarrow> (goerror + string list) \<times> rdb"
  rd_GET :: "instant \<Rightarrow> string \<Rightarrow> rdb \<Rightarrow> (goerror + string option) \<times> rdb"
  rd_SET :: "instant \<Rightarrow> string \<Rightarrow> string \<Rightarrow> duration \<Rightarrow> rdb \<Rightarrow> (goerror + unit) \<times> rdb"
  rd_DEL :: "instant \<Rightarrow> string \<Rightarrow> rdb \<Rightarrow> (goerror + int) \<times> rdb"
  rd_PING :: "instant \<Rightarrow> rdb \<Rightarrow> (goerror + unit) \<times> rdb"

definition checked_sum :: "int \<Rightarrow> int \<Rightarrow> int option" where
  "checked_sum n by = (if min_int64 \<le> n + by \<and> n + by \<le> max_int64 then Some (n + by) else None)"

text \<open>
  Documented behaviour, one law per command. INCR counts from 0 and keeps the deadline;
  EXPIRE sets it, or deletes the key when the time is not positive; SET NX EX writes only
  an absent key; HINCRBY counts a field from 0 in a hash it creates; HGETALL and SMEMBERS
  answer in any order. A wrong type, a value that is no integer and an overflow are error
  replies that change nothing.
\<close>

definition incr_law :: "redis_cmds \<Rightarrow> bool" where
  "incr_law c \<longleftrightarrow> (\<forall>now k db. case kv now db k of
       None \<Rightarrow> rd_INCR c now k db = (Inr 1, db(k \<mapsto> (RString (itoa 1), None)))
     | Some (RString v) \<Rightarrow>
         (case Option.bind (parse_int v) (\<lambda>n. checked_sum n 1) of
            None \<Rightarrow> (\<exists>e. rd_INCR c now k db = (Inl e, db))
          | Some m \<Rightarrow> rd_INCR c now k db = (Inr m, db(k \<mapsto> (RString (itoa m), deadline db k))))
     | Some _ \<Rightarrow> (\<exists>e. rd_INCR c now k db = (Inl e, db)))"

definition expire_law :: "redis_cmds \<Rightarrow> bool" where
  "expire_law c \<longleftrightarrow> (\<forall>now k s db. case kv now db k of
       None \<Rightarrow> rd_EXPIRE c now k s db = (Inr 0, db)
     | Some v \<Rightarrow> rd_EXPIRE c now k s db =
         (Inr 1, if s \<le> 0 then db(k := None) else db(k \<mapsto> (v, Some (now + s * second)))))"

definition set_nx_law :: "redis_cmds \<Rightarrow> bool" where
  "set_nx_law c \<longleftrightarrow> (\<forall>now k v s db.
     if s \<le> 0 then (\<exists>e. rd_SET_NX_EX c now k v s db = (Inl e, db))
     else rd_SET_NX_EX c now k v s db =
       (if kv now db k = None then (Inr True, db(k \<mapsto> (RString v, Some (now + s * second))))
        else (Inr False, db)))"

definition exists_law :: "redis_cmds \<Rightarrow> bool" where
  "exists_law c \<longleftrightarrow> (\<forall>now k db.
     rd_EXISTS c now k db = (Inr (if kv now db k = None then 0 else 1), db))"

definition hincrby_law :: "redis_cmds \<Rightarrow> bool" where
  "hincrby_law c \<longleftrightarrow> (\<forall>now k f by db. case kv now db k of
       None \<Rightarrow> rd_HINCRBY c now k f by db = (Inr by, db(k \<mapsto> (RHash [(f, itoa by)], None)))
     | Some (RHash h) \<Rightarrow>
         (case (case map_of h f of None \<Rightarrow> Some by
                | Some v \<Rightarrow> Option.bind (parse_int v) (\<lambda>n. checked_sum n by)) of
            None \<Rightarrow> (\<exists>e. rd_HINCRBY c now k f by db = (Inl e, db))
          | Some m \<Rightarrow> rd_HINCRBY c now k f by db =
              (Inr m, db(k \<mapsto> (RHash (AList.update f (itoa m) h), deadline db k))))
     | Some _ \<Rightarrow> (\<exists>e. rd_HINCRBY c now k f by db = (Inl e, db)))"

definition hgetall_law :: "redis_cmds \<Rightarrow> bool" where
  "hgetall_law c \<longleftrightarrow> (\<forall>now k db. case kv now db k of
       None \<Rightarrow> rd_HGETALL c now k db = (Inr [], db)
     | Some (RHash h) \<Rightarrow>
         (\<exists>l. rd_HGETALL c now k db = (Inr l, db) \<and> distinct (map fst l) \<and> map_of l = map_of h)
     | Some _ \<Rightarrow> (\<exists>e. rd_HGETALL c now k db = (Inl e, db)))"

definition set_law :: "redis_cmds \<Rightarrow> bool" where
  "set_law c \<longleftrightarrow> (\<forall>now k m db. case kv now db k of
       None \<Rightarrow> rd_SADD c now k m db = (Inr 1, db(k \<mapsto> (RSet [m], None)))
         \<and> rd_SREM c now k m db = (Inr 0, db) \<and> rd_SMEMBERS c now k db = (Inr [], db)
     | Some (RSet l) \<Rightarrow>
         rd_SADD c now k m db =
           (Inr (if m \<in> set l then 0 else 1), db(k \<mapsto> (RSet (List.insert m l), deadline db k)))
         \<and> rd_SREM c now k m db =
           (Inr (if m \<in> set l then 1 else 0),
            if removeAll m l = [] then db(k := None)
            else db(k \<mapsto> (RSet (removeAll m l), deadline db k)))
         \<and> (\<exists>r. rd_SMEMBERS c now k db = (Inr r, db) \<and> distinct r \<and> set r = set l)
     | Some _ \<Rightarrow> (\<exists>e. rd_SADD c now k m db = (Inl e, db)) \<and> (\<exists>e. rd_SREM c now k m db = (Inl e, db))
         \<and> (\<exists>e. rd_SMEMBERS c now k db = (Inl e, db)))"

definition string_law :: "redis_cmds \<Rightarrow> bool" where
  "string_law c \<longleftrightarrow> (\<forall>now k v ttl db.
     (case kv now db k of None \<Rightarrow> rd_GET c now k db = (Inr None, db)
      | Some (RString s) \<Rightarrow> rd_GET c now k db = (Inr (Some s), db)
      | Some _ \<Rightarrow> (\<exists>e. rd_GET c now k db = (Inl e, db)))
     \<and> rd_SET c now k v ttl db =
         (Inr (), db(k \<mapsto> (RString v, if ttl \<le> 0 then None else Some (now + ttl))))
     \<and> (\<exists>n. rd_DEL c now k db = (Inr n, db(k := None))))"

definition redis_ok :: "redis_cmds \<Rightarrow> bool" where
  "redis_ok c \<longleftrightarrow> incr_law c \<and> expire_law c \<and> set_nx_law c \<and> exists_law c \<and> hincrby_law c
     \<and> hgetall_law c \<and> set_law c \<and> string_law c"

lemma redis_okD:
  assumes "redis_ok c"
  shows "incr_law c" "expire_law c" "set_nx_law c" "exists_law c" "hincrby_law c"
    "hgetall_law c" "set_law c" "string_law c"
  using assms by (simp_all add: redis_ok_def)

text \<open>The laws in the shape proofs use them: one equation per situation.\<close>

lemma redis_set_nx:
  "redis_ok c \<Longrightarrow> 0 < s \<Longrightarrow> rd_SET_NX_EX c now k v s db =
     (if kv now db k = None then (Inr True, db(k \<mapsto> (RString v, Some (now + s * second))))
      else (Inr False, db))"
  by (simp add: redis_ok_def set_nx_law_def)

lemma redis_exists:
  "redis_ok c \<Longrightarrow> rd_EXISTS c now k db = (Inr (if kv now db k = None then 0 else 1), db)"
  by (simp add: redis_ok_def exists_law_def)

lemma redis_expire:
  assumes "redis_ok c"
  shows "kv now db k = None \<Longrightarrow> rd_EXPIRE c now k s db = (Inr 0, db)"
    and "kv now db k = Some v \<Longrightarrow> 0 < s \<Longrightarrow>
      rd_EXPIRE c now k s db = (Inr 1, db(k \<mapsto> (v, Some (now + s * second))))"
  using redis_okD(2) [OF assms, unfolded expire_law_def, THEN spec [of _ now], THEN spec [of _ k],
      THEN spec [of _ s], THEN spec [of _ db]] by simp_all

lemma redis_incr:
  assumes "redis_ok c"
  shows "kv now db k = None \<Longrightarrow> rd_INCR c now k db = (Inr 1, db(k \<mapsto> (RString (itoa 1), None)))"
    and "kv now db k = Some (RString v) \<Longrightarrow> parse_int v = Some n \<Longrightarrow> checked_sum n 1 = Some m \<Longrightarrow>
      rd_INCR c now k db = (Inr m, db(k \<mapsto> (RString (itoa m), deadline db k)))"
  using redis_okD(1) [OF assms, unfolded incr_law_def, THEN spec [of _ now], THEN spec [of _ k],
      THEN spec [of _ db]] by simp_all

lemma redis_hincrby:
  assumes "redis_ok c"
  shows "kv now db k = None \<Longrightarrow>
      rd_HINCRBY c now k f by db = (Inr by, db(k \<mapsto> (RHash [(f, itoa by)], None)))"
    and "kv now db k = Some (RHash h) \<Longrightarrow>
      (case map_of h f of None \<Rightarrow> Some by
       | Some v \<Rightarrow> Option.bind (parse_int v) (\<lambda>n. checked_sum n by)) = Some m \<Longrightarrow>
      rd_HINCRBY c now k f by db = (Inr m, db(k \<mapsto> (RHash (AList.update f (itoa m) h), deadline db k)))"
  using redis_okD(5) [OF assms, unfolded hincrby_law_def, THEN spec [of _ now], THEN spec [of _ k],
      THEN spec [of _ f], THEN spec [of _ "by"], THEN spec [of _ db]] by simp_all

lemma redis_hgetall:
  assumes "redis_ok c"
  shows "kv now db k = None \<Longrightarrow> rd_HGETALL c now k db = (Inr [], db)"
    and "kv now db k = Some (RHash h) \<Longrightarrow>
      \<exists>l. rd_HGETALL c now k db = (Inr l, db) \<and> distinct (map fst l) \<and> map_of l = map_of h"
  using redis_okD(6) [OF assms, unfolded hgetall_law_def, THEN spec [of _ now], THEN spec [of _ k],
      THEN spec [of _ db]] by simp_all

lemma redis_sets:
  assumes "redis_ok c"
  shows "kv now db k = None \<Longrightarrow> rd_SADD c now k m db = (Inr 1, db(k \<mapsto> (RSet [m], None)))
        \<and> rd_SREM c now k m db = (Inr 0, db) \<and> rd_SMEMBERS c now k db = (Inr [], db)"
    and "kv now db k = Some (RSet l) \<Longrightarrow>
        rd_SADD c now k m db =
          (Inr (if m \<in> set l then 0 else 1), db(k \<mapsto> (RSet (List.insert m l), deadline db k)))
        \<and> rd_SREM c now k m db =
          (Inr (if m \<in> set l then 1 else 0),
           if removeAll m l = [] then db(k := None)
           else db(k \<mapsto> (RSet (removeAll m l), deadline db k)))
        \<and> (\<exists>r. rd_SMEMBERS c now k db = (Inr r, db) \<and> distinct r \<and> set r = set l)"
  using redis_okD(7) [OF assms, unfolded set_law_def, THEN spec [of _ now], THEN spec [of _ k],
      THEN spec [of _ m], THEN spec [of _ db]] by simp_all

text \<open>Every command but a write to its own key leaves a key alone; reads leave all alone.\<close>

lemma redis_incr_frame:
  assumes "redis_ok c" and "k' \<noteq> k"
  shows "snd (rd_INCR c now k db) k' = db k'"
  using redis_okD(1) [OF assms(1), unfolded incr_law_def, THEN spec [of _ now], THEN spec [of _ k],
      THEN spec [of _ db]] assms(2)
  by (auto split: option.splits rvalue.splits)

lemma redis_expire_frame:
  assumes "redis_ok c" and "k' \<noteq> k"
  shows "snd (rd_EXPIRE c now k s db) k' = db k'"
  using redis_okD(2) [OF assms(1), unfolded expire_law_def, THEN spec [of _ now], THEN spec [of _ k],
      THEN spec [of _ s], THEN spec [of _ db]] assms(2)
  by (auto split: option.splits if_splits)

subsection \<open>The client\<close>

datatype fate = Fate nat bool

record redis_state =
  rs_db :: rdb
  rs_now :: instant
  rs_fates :: "fate list"

definition next_fate :: "redis_state \<Rightarrow> fate" where
  "next_fate st = (case rs_fates st of [] \<Rightarrow> Fate 0 True | f # _ \<Rightarrow> f)"

text \<open>Running a command \<open>n\<close> times for its effect, its replies lost.\<close>

fun run_lost :: "nat \<Rightarrow> (rdb \<Rightarrow> 'a \<times> rdb) \<Rightarrow> rdb \<Rightarrow> rdb" where
  "run_lost 0 cmd db = db"
| "run_lost (Suc n) cmd db = run_lost n cmd (snd (cmd db))"

definition redis_call ::
  "(instant \<Rightarrow> rdb \<Rightarrow> (goerror + 'a) \<times> rdb) \<Rightarrow> redis_state \<Rightarrow> (goerror + 'a) \<times> redis_state"
where
  "redis_call cmd st =
     (case next_fate st of Fate n replied \<Rightarrow>
        let db = run_lost n (cmd (rs_now st)) (rs_db st);
            st' = st\<lparr>rs_fates := tl (rs_fates st)\<rparr>
        in if replied
           then (case cmd (rs_now st) db of (r, db') \<Rightarrow> (r, st'\<lparr>rs_db := db'\<rparr>))
           else (Inl (ErrText ''redis: no reply''), st'\<lparr>rs_db := db\<rparr>))"

lemma redis_call_now [simp]: "rs_now (snd (redis_call cmd st)) = rs_now st"
  by (simp add: redis_call_def Let_def split: fate.splits prod.splits)

text \<open>
  Any property of the keyspace that one run of the command keeps is kept by the call,
  however often it ran.
\<close>

lemma run_lost_invariant:
  assumes "\<And>db. P db \<Longrightarrow> P (snd (cmd db))" and "P db"
  shows "P (run_lost n cmd db)"
  using assms(2) by (induction n arbitrary: db) (auto intro: assms(1))

lemma redis_call_invariant [effect_intros]:
  assumes "\<And>db. P db \<Longrightarrow> P (snd (cmd (rs_now st) db))" and "P (rs_db st)"
  shows "P (rs_db (snd (redis_call cmd st)))"
proof -
  have *: "P (run_lost n (cmd (rs_now st)) (rs_db st))" for n
    using assms by (rule run_lost_invariant)
  obtain n replied where f: "next_fate st = Fate n replied" by (cases "next_fate st")
  obtain r db where c: "cmd (rs_now st) (run_lost n (cmd (rs_now st)) (rs_db st)) = (r, db)"
    by fastforce
  have "P db" using assms(1) [OF * [of n]] c by simp
  with * [of n] show ?thesis by (simp add: redis_call_def f Let_def c)
qed

text \<open>A read, whose run changes nothing, answers from the keyspace as it is.\<close>

lemma run_lost_idem: "snd (cmd db) = db \<Longrightarrow> run_lost n cmd db = db"
  by (induction n) auto

lemma redis_call_read:
  assumes "cmd (rs_now st) (rs_db st) = (r, rs_db st)"
  shows "rs_db (snd (redis_call cmd st)) = rs_db st"
    and "fst (redis_call cmd st) = r \<or> (\<exists>e. fst (redis_call cmd st) = Inl e)"
  using assms run_lost_idem [of "cmd (rs_now st)" "rs_db st"]
  by (auto simp: redis_call_def Let_def split: fate.splits prod.splits)

text \<open>
  A command whose second run changes nothing more (a script guarded by SET NX) takes effect
  at most once in a call, even when the client retried it.
\<close>

lemma redis_call_once:
  assumes "cmd (rs_now st) (rs_db st) = (Inr a, db)" and "cmd (rs_now st) db = (Inr b, db)"
    and "redis_call cmd st = (r, st')"
  shows "rs_now st' = rs_now st"
    and "(rs_db st' = rs_db st \<and> (\<exists>e. r = Inl e))
       \<or> (rs_db st' = db \<and> (r = Inr a \<or> r = Inr b \<or> (\<exists>e. r = Inl e)))"
proof -
  have lost: "run_lost n (cmd (rs_now st)) (rs_db st) = (if n = 0 then rs_db st else db)" for n
    using assms(1,2) run_lost_idem [of "cmd (rs_now st)" db] by (cases n) auto
  show "rs_now st' = rs_now st" using assms(3) redis_call_now [of cmd st] by simp
  show "(rs_db st' = rs_db st \<and> (\<exists>e. r = Inl e))
       \<or> (rs_db st' = db \<and> (r = Inr a \<or> r = Inr b \<or> (\<exists>e. r = Inl e)))"
    using assms lost
    by (auto simp: redis_call_def Let_def split: fate.splits prod.splits if_splits)
qed

text \<open>With nothing lost, a call is one run of the command.\<close>

lemma redis_call_plain:
  "rs_fates st = [] \<Longrightarrow>
     redis_call cmd st = (case cmd (rs_now st) (rs_db st) of (r, db) \<Rightarrow> (r, st\<lparr>rs_db := db\<rparr>))"
  by (simp add: redis_call_def next_fate_def Let_def split: prod.splits)

subsection \<open>A concrete instance\<close>

definition wrong_type :: goerror where
  "wrong_type = ErrText ''WRONGTYPE Operation against a key holding the wrong kind of value''"

definition not_integer :: goerror where
  "not_integer = ErrText ''ERR value is not an integer or out of range''"

definition mem_redis :: redis_cmds where
  "mem_redis = \<lparr>
     rd_INCR = (\<lambda>now k db. case kv now db k of
         None \<Rightarrow> (Inr 1, db(k \<mapsto> (RString (itoa 1), None)))
       | Some (RString v) \<Rightarrow>
           (case Option.bind (parse_int v) (\<lambda>n. checked_sum n 1) of
              None \<Rightarrow> (Inl not_integer, db)
            | Some m \<Rightarrow> (Inr m, db(k \<mapsto> (RString (itoa m), deadline db k))))
       | Some _ \<Rightarrow> (Inl wrong_type, db)),
     rd_EXPIRE = (\<lambda>now k s db. case kv now db k of
         None \<Rightarrow> (Inr 0, db)
       | Some v \<Rightarrow> (Inr 1, if s \<le> 0 then db(k := None) else db(k \<mapsto> (v, Some (now + s * second))))),
     rd_SET_NX_EX = (\<lambda>now k v s db.
         if s \<le> 0 then (Inl (ErrText ''ERR invalid expire time in SET''), db)
         else if kv now db k = None then (Inr True, db(k \<mapsto> (RString v, Some (now + s * second))))
         else (Inr False, db)),
     rd_EXISTS = (\<lambda>now k db. (Inr (if kv now db k = None then 0 else 1), db)),
     rd_HINCRBY = (\<lambda>now k f by db. case kv now db k of
         None \<Rightarrow> (Inr by, db(k \<mapsto> (RHash [(f, itoa by)], None)))
       | Some (RHash h) \<Rightarrow>
           (case (case map_of h f of None \<Rightarrow> Some by
                  | Some v \<Rightarrow> Option.bind (parse_int v) (\<lambda>n. checked_sum n by)) of
              None \<Rightarrow> (Inl not_integer, db)
            | Some m \<Rightarrow> (Inr m, db(k \<mapsto> (RHash (AList.update f (itoa m) h), deadline db k))))
       | Some _ \<Rightarrow> (Inl wrong_type, db)),
     rd_HGETALL = (\<lambda>now k db. case kv now db k of
         None \<Rightarrow> (Inr [], db) | Some (RHash h) \<Rightarrow> (Inr (AList.clearjunk h), db)
       | Some _ \<Rightarrow> (Inl wrong_type, db)),
     rd_SADD = (\<lambda>now k m db. case kv now db k of
         None \<Rightarrow> (Inr 1, db(k \<mapsto> (RSet [m], None)))
       | Some (RSet l) \<Rightarrow> (Inr (if m \<in> set l then 0 else 1),
                            db(k \<mapsto> (RSet (List.insert m l), deadline db k)))
       | Some _ \<Rightarrow> (Inl wrong_type, db)),
     rd_SREM = (\<lambda>now k m db. case kv now db k of
         None \<Rightarrow> (Inr 0, db)
       | Some (RSet l) \<Rightarrow>
           (Inr (if m \<in> set l then 1 else 0),
            if removeAll m l = [] then db(k := None)
            else db(k \<mapsto> (RSet (removeAll m l), deadline db k)))
       | Some _ \<Rightarrow> (Inl wrong_type, db)),
     rd_SMEMBERS = (\<lambda>now k db. case kv now db k of
         None \<Rightarrow> (Inr [], db) | Some (RSet l) \<Rightarrow> (Inr (remdups l), db)
       | Some _ \<Rightarrow> (Inl wrong_type, db)),
     rd_GET = (\<lambda>now k db. case kv now db k of
         None \<Rightarrow> (Inr None, db) | Some (RString v) \<Rightarrow> (Inr (Some v), db)
       | Some _ \<Rightarrow> (Inl wrong_type, db)),
     rd_SET = (\<lambda>now k v ttl db.
         (Inr (), db(k \<mapsto> (RString v, if ttl \<le> 0 then None else Some (now + ttl))))),
     rd_DEL = (\<lambda>now k db. (Inr (if kv now db k = None then 0 else 1), db(k := None))),
     rd_PING = (\<lambda>now db. (Inr (), db))\<rparr>"

lemma mem_redis_ok: "redis_ok mem_redis"
proof -
  have "incr_law mem_redis"
    by (simp add: incr_law_def mem_redis_def split: option.split rvalue.split)
  moreover have "expire_law mem_redis"
    by (simp add: expire_law_def mem_redis_def split: option.split)
  moreover have "set_nx_law mem_redis" by (simp add: set_nx_law_def mem_redis_def)
  moreover have "exists_law mem_redis" by (simp add: exists_law_def mem_redis_def)
  moreover have "hincrby_law mem_redis"
    by (simp add: hincrby_law_def mem_redis_def split: option.split rvalue.split)
  moreover have "hgetall_law mem_redis"
    by (simp add: hgetall_law_def mem_redis_def AList.distinct_clearjunk AList.map_of_clearjunk
        split: option.split rvalue.split)
  moreover have "set_law mem_redis"
    by (simp add: set_law_def mem_redis_def split: option.split rvalue.split)
  moreover have "string_law mem_redis"
    by (simp add: string_law_def mem_redis_def split: option.split rvalue.split)
  ultimately show ?thesis by (simp add: redis_ok_def)
qed

end
