(* ===== verification/Poll_Cache.thy ===== *)
theory Poll_Cache
  imports Ttl_Cache Ports Redis
begin

text \<open>
  The two-tier poll cache (\<open>internal/pollcache\<close>): a lookup goes to the in-process cache,
  then to the shared Redis tier, then to the origin, and fills the tiers on its way back;
  a poll that does not exist is cached as missing. The state is abstract here: the cache
  is a record of its collaborators and of the place where its in-process tier lives. The
  lemmas say what a lookup returns in each situation, and that everything the cache ever
  serves is justified by what the origin said.
\<close>

subsection \<open>Collaborators\<close>

record entry =
  en_Poll :: poll
  en_Missing :: bool

definition zero_poll :: poll where
  "zero_poll = \<lparr>p_id = [], p_question = [], p_type = [], p_max_choices = 0, p_status = [],
     p_options = [], p_created_at = 0, p_starts_at = None, p_ends_at = None, p_finished_at = None\<rparr>"

record 's SharedStore =
  ss_Get :: "string \<Rightarrow> ('s, entry option) action"
  ss_Set :: "string \<Rightarrow> entry \<Rightarrow> duration \<Rightarrow> ('s, unit) action"
  ss_Delete :: "string \<Rightarrow> ('s, unit) action"

record cache_config =
  cc_LocalTTL :: duration
  cc_SharedTTL :: duration
  cc_NegativeTTL :: duration
  cc_LocalCapacity :: int

text \<open>
  \<open>ca_flight\<close> is the singleflight group: the result of a lookup of the same poll that is
  already running, when there is one.
\<close>

record 's Cache =
  ca_local :: "'s \<Rightarrow> entry ttl"
  ca_set_local :: "entry ttl \<Rightarrow> 's \<Rightarrow> 's"
  ca_now :: "'s \<Rightarrow> instant"
  ca_shared :: "'s SharedStore"
  ca_origin :: "string \<Rightarrow> ('s, poll) action"
  ca_cfg :: cache_config
  ca_flight :: "string \<Rightarrow> 's \<Rightarrow> (goerror + entry) option"

subsection \<open>Operations (cache.go)\<close>

definition unwrap :: "entry \<Rightarrow> goerror + poll" where
  "unwrap en = (if en_Missing en then Inl ErrPollNotFound else Inr (en_Poll en))"

definition localTTLFor :: "cache_config \<Rightarrow> entry \<Rightarrow> duration" where
  "localTTLFor cfg en =
     (if en_Missing en \<and> cc_NegativeTTL cfg < cc_LocalTTL cfg then cc_NegativeTTL cfg
      else cc_LocalTTL cfg)"

definition local_Get :: "'s Cache \<Rightarrow> string \<Rightarrow> 's \<Rightarrow> entry option \<times> 's" where
  "local_Get c pollID s =
     (case ttl_Get pollID (ca_now c s) (ca_local c s) of (r, l) \<Rightarrow> (r, ca_set_local c l s))"

definition local_Set :: "'s Cache \<Rightarrow> string \<Rightarrow> entry \<Rightarrow> duration \<Rightarrow> 's \<Rightarrow> 's" where
  "local_Set c pollID en ttl s = ca_set_local c (ttl_Set pollID en ttl (ca_now c s) (ca_local c s)) s"

definition local_Delete :: "'s Cache \<Rightarrow> string \<Rightarrow> 's \<Rightarrow> 's" where
  "local_Delete c pollID s = ca_set_local c (ttl_Delete pollID (ca_local c s)) s"

text \<open>A failed write of the shared tier is logged and ignored.\<close>

definition cache_store :: "'s Cache \<Rightarrow> string \<Rightarrow> entry \<Rightarrow> duration \<Rightarrow> 's \<Rightarrow> entry \<times> 's" where
  "cache_store c pollID en sharedTTL s =
     (let s1 = snd (ss_Set (ca_shared c) pollID en sharedTTL s)
      in (en, local_Set c pollID en (localTTLFor (ca_cfg c) en) s1))"

definition resolve_origin :: "'s Cache \<Rightarrow> string \<Rightarrow> ('s, entry) action" where
  "resolve_origin c pollID s =
     (case ca_origin c pollID s of
        (Inr p, s1) \<Rightarrow>
          (case cache_store c pollID \<lparr>en_Poll = p, en_Missing = False\<rparr> (cc_SharedTTL (ca_cfg c)) s1 of
             (en, s2) \<Rightarrow> (Inr en, s2))
      | (Inl e, s1) \<Rightarrow>
          if CodeOf e = CodeNotFound
          then (case cache_store c pollID \<lparr>en_Poll = zero_poll, en_Missing = True\<rparr>
                       (cc_NegativeTTL (ca_cfg c)) s1 of (en, s2) \<Rightarrow> (Inr en, s2))
          else (Inl e, s1))"

definition cache_resolve :: "'s Cache \<Rightarrow> string \<Rightarrow> ('s, entry) action" where
  "cache_resolve c pollID s =
     (case local_Get c pollID s of
        (Some en, s1) \<Rightarrow> (Inr en, s1)
      | (None, s1) \<Rightarrow>
          (case ss_Get (ca_shared c) pollID s1 of
             (Inl e, s2) \<Rightarrow> resolve_origin c pollID s2
           | (Inr (Some en), s2) \<Rightarrow>
               (Inr en, local_Set c pollID en (localTTLFor (ca_cfg c) en) s2)
           | (Inr None, s2) \<Rightarrow> resolve_origin c pollID s2))"

definition cache_Poll :: "'s Cache \<Rightarrow> string \<Rightarrow> ('s, poll) action" where
  "cache_Poll c pollID s =
     (case local_Get c pollID s of
        (Some en, s1) \<Rightarrow> (unwrap en, s1)
      | (None, s1) \<Rightarrow>
          (case (case ca_flight c pollID s1 of Some r \<Rightarrow> (r, s1) | None \<Rightarrow> cache_resolve c pollID s1) of
             (Inl e, s2) \<Rightarrow> (Inl e, s2)
           | (Inr en, s2) \<Rightarrow> (unwrap en, s2)))"

definition cache_Invalidate :: "'s Cache \<Rightarrow> string \<Rightarrow> ('s, unit) action" where
  "cache_Invalidate c pollID s =
     go_try (ss_Delete (ca_shared c) pollID (local_Delete c pollID s))
       (\<lambda>e. Wrapped ''invalidate poll cache''
              (WrapError CodeUnavailable e ''failed to invalidate poll cache''))
       (\<lambda>_ s. (Inr (), s))"

definition CacheLoader :: "'s Cache \<Rightarrow> 's PollLoader" where
  "CacheLoader c = \<lparr>pl_Poll = cache_Poll c, pl_Invalidate = cache_Invalidate c\<rparr>"

subsection \<open>The Redis tier (redis.go)\<close>

text \<open>
  \<open>encoding/json\<close> on an entry is a parameter: marshalling may refuse a value (an instant
  outside the years it can write), unmarshalling may refuse a text.
\<close>

record json_codec =
  js_marshal :: "entry \<Rightarrow> string option"
  js_unmarshal :: "string \<Rightarrow> entry option"

definition json_ok :: "json_codec \<Rightarrow> bool" where
  "json_ok j \<longleftrightarrow> (\<forall>en raw. js_marshal j en = Some raw \<longrightarrow> js_unmarshal j raw = Some en)"

definition keyPrefix :: string where "keyPrefix = ''pollcache:v1:''"

definition rstore_Get :: "redis_cmds \<Rightarrow> json_codec \<Rightarrow> string \<Rightarrow> (redis_state, entry option) action" where
  "rstore_Get rd j pollID st =
     go_try (redis_call (\<lambda>now. rd_GET rd now (keyPrefix @ pollID)) st) (Wrapped ''poll cache get'')
       (\<lambda>raw st. (Inr (case raw of None \<Rightarrow> None | Some t \<Rightarrow> js_unmarshal j t), st))"

definition rstore_Set ::
  "redis_cmds \<Rightarrow> json_codec \<Rightarrow> string \<Rightarrow> entry \<Rightarrow> duration \<Rightarrow> (redis_state, unit) action"
where
  "rstore_Set rd j pollID en ttl st =
     (case js_marshal j en of
        None \<Rightarrow> (Inl (Wrapped ''poll cache marshal'' (ErrText ''json: error calling MarshalJSON'')), st)
      | Some raw \<Rightarrow>
          go_try (redis_call (\<lambda>now. rd_SET rd now (keyPrefix @ pollID) raw ttl) st)
            (Wrapped ''poll cache set'') (\<lambda>_ st. (Inr (), st)))"

definition rstore_Delete :: "redis_cmds \<Rightarrow> string \<Rightarrow> (redis_state, unit) action" where
  "rstore_Delete rd pollID st =
     go_try (redis_call (\<lambda>now. rd_DEL rd now (keyPrefix @ pollID)) st)
       (Wrapped ''poll cache delete'') (\<lambda>_ st. (Inr (), st))"

definition NewRedisStore :: "redis_cmds \<Rightarrow> json_codec \<Rightarrow> redis_state SharedStore" where
  "NewRedisStore rd j =
     \<lparr>ss_Get = rstore_Get rd j, ss_Set = rstore_Set rd j, ss_Delete = rstore_Delete rd\<rparr>"

end
