(* ===== verification/Poll_Cache_Laws.thy ===== *)
theory Poll_Cache_Laws
  imports Poll_Cache
begin

text \<open>
  What the poll cache promises. The \<open>shared_tier\<close> contract says how the cross-replica
  tier forgets; \<open>poll_cache\<close> adds the rest of the surroundings. Against a relation
  \<open>said k en t\<close> (the origin answered \<open>en\<close> for the poll \<open>k\<close> at the instant \<open>t\<close>) the
  cache never serves an answer older than the two time-to-live values together, and after
  an invalidation it asks the origin again.
\<close>

subsection \<open>Ages\<close>

definition sharedTTLFor :: "cache_config \<Rightarrow> entry \<Rightarrow> duration" where
  "sharedTTLFor cfg en = (if en_Missing en then cc_NegativeTTL cfg else cc_SharedTTL cfg)"

definition config_ok :: "cache_config \<Rightarrow> bool" where
  "config_ok cfg \<longleftrightarrow> 0 < cc_LocalTTL cfg \<and> 0 < cc_SharedTTL cfg \<and> 0 < cc_NegativeTTL cfg"

text \<open>\<open>en\<close> was the origin's answer at most \<open>age\<close> before \<open>t\<close>.\<close>

definition fresh ::
  "(string \<Rightarrow> entry \<Rightarrow> instant \<Rightarrow> bool) \<Rightarrow> duration \<Rightarrow> string \<Rightarrow> entry \<Rightarrow> instant \<Rightarrow> bool"
where
  "fresh said age k en t \<longleftrightarrow> (\<exists>u. said k en u \<and> u \<le> t \<and> t \<le> u + age)"

lemma fresh_mono: "fresh said a k en t \<Longrightarrow> a \<le> b \<Longrightarrow> fresh said b k en t"
  by (force simp: fresh_def)

lemma fresh_later: "fresh said a k en t \<Longrightarrow> t \<le> u \<Longrightarrow> u \<le> t + d \<Longrightarrow> fresh said (a + d) k en u"
  by (force simp: fresh_def)

lemma fresh_now: "said k en t \<Longrightarrow> 0 \<le> a \<Longrightarrow> fresh said a k en t"
  by (force simp: fresh_def)

lemma localTTL_pos: "config_ok cfg \<Longrightarrow> 0 < localTTLFor cfg en"
  by (simp add: config_ok_def localTTLFor_def)

lemma sharedTTL_pos: "config_ok cfg \<Longrightarrow> 0 < sharedTTLFor cfg en"
  by (simp add: config_ok_def sharedTTLFor_def)

subsection \<open>What every step keeps\<close>

text \<open>A lookup is made of five primitives: what each of them keeps, the lookup keeps.\<close>

lemma cache_Poll_keeps [effect_intros]:
  assumes "P s"
    and "\<And>s. P s \<Longrightarrow> P (snd (local_Get C k s))" and "\<And>en d s. P s \<Longrightarrow> P (local_Set C k en d s)"
    and "\<And>s. P s \<Longrightarrow> P (snd (ss_Get (ca_shared C) k s))"
    and "\<And>en d s. P s \<Longrightarrow> P (snd (ss_Set (ca_shared C) k en d s))"
    and "\<And>s. P s \<Longrightarrow> P (snd (ca_origin C k s))"
  shows "P (snd (cache_Poll C k s))"
proof -
  have lget: "P s' " if "P s" "local_Get C k s = (x, s')" for s x s'
    using assms(2) [OF that(1)] that(2) by simp
  have sget: "P s'" if "P s" "ss_Get (ca_shared C) k s = (x, s')" for s x s'
    using assms(4) [OF that(1)] that(2) by simp
  have org: "P s'" if "P s" "ca_origin C k s = (x, s')" for s x s'
    using assms(6) [OF that(1)] that(2) by simp
  have store: "P s'" if "P s" "cache_store C k en d s = (x, s')" for s x s' en d
    using assms(3) [OF assms(5) [OF that(1)]] that(2) by (auto simp: cache_store_def Let_def)
  have origin: "P s'" if "P s" "resolve_origin C k s = (x, s')" for s x s'
    using that by (auto simp: resolve_origin_def split: prod.splits sum.splits if_splits dest: org store)
  have resolve: "P s'" if "P s" "cache_resolve C k s = (x, s')" for s x s'
  proof -
    obtain q s1 where q: "local_Get C k s = (q, s1)" by fastforce
    obtain z s2 where z: "ss_Get (ca_shared C) k s1 = (z, s2)" by fastforce
    have p: "P s1" "P s2" using lget [OF that(1) q] sget [OF _ z] by auto
    from that(2) q z consider "s' = s1" | en d where "s' = local_Set C k en d s2"
      | "resolve_origin C k s2 = (x, s')"
      by (auto simp: cache_resolve_def split: sum.splits option.splits)
    then show ?thesis using p assms(3) [OF p(2)] origin by cases auto
  qed
  obtain r s' where run: "cache_Poll C k s = (r, s')" by fastforce
  with assms(1) have "P s'"
    by (auto simp: cache_Poll_def split: prod.splits sum.splits option.splits dest: lget resolve)
  with run show ?thesis by simp
qed

lemma cache_Invalidate_keeps [effect_intros]:
  assumes "P s" and "\<And>s. P s \<Longrightarrow> P (local_Delete C k s)"
    and "\<And>s. P s \<Longrightarrow> P (snd (ss_Delete (ca_shared C) k s))"
  shows "P (snd (cache_Invalidate C k s))"
  unfolding cache_Invalidate_def
  by (rule go_try_snd [where P = P]) (simp_all add: assms(3) [OF assms(2) [OF assms(1)]])

text \<open>An error of a lookup is the origin's, or the answer that the poll does not exist.\<close>

lemma cache_Poll_error:
  assumes "fst (cache_Poll C k s) = Inl e" and "\<And>s. ca_flight C k s = None"
    and "P s" and "\<And>s. P s \<Longrightarrow> P (snd (local_Get C k s))"
    and "\<And>s. P s \<Longrightarrow> P (snd (ss_Get (ca_shared C) k s))"
  shows "e = ErrPollNotFound \<or> (\<exists>s. P s \<and> fst (ca_origin C k s) = Inl e)"
proof -
  have lget: "P s'" if "P s" "local_Get C k s = (x, s')" for s x s'
    using assms(4) [OF that(1)] that(2) by simp
  have sget: "P s'" if "P s" "ss_Get (ca_shared C) k s = (x, s')" for s x s'
    using assms(5) [OF that(1)] that(2) by simp
  have uw: "e = ErrPollNotFound" if "unwrap en = Inl e" for en
    using that by (cases "en_Missing en") (simp_all add: unwrap_def)
  have origin: "\<exists>s'. ca_origin C k s = (Inl e, s')" if "resolve_origin C k s = (Inl e, s1)" for s s1
    using that by (auto simp: resolve_origin_def split: prod.splits sum.splits if_splits)
  have resolve: "\<exists>s s'. P s \<and> ca_origin C k s = (Inl e, s')" if "P s" "cache_resolve C k s = (Inl e, s3)" for s s3
  proof -
    obtain q s1 where q: "local_Get C k s = (q, s1)" by fastforce
    obtain z s2 where z: "ss_Get (ca_shared C) k s1 = (z, s2)" by fastforce
    have p: "P s2" using sget [OF lget [OF that(1) q] z] .
    have "resolve_origin C k s2 = (Inl e, s3)"
      using that(2) q z by (auto simp: cache_resolve_def split: sum.splits option.splits)
    from origin [OF this] p show ?thesis by blast
  qed
  obtain s1 where run: "cache_Poll C k s = (Inl e, s1)" using assms(1) by (metis prod.collapse)
  obtain q s2 where q: "local_Get C k s = (q, s2)" by fastforce
  from run q assms(2) have "(\<exists>en. unwrap en = Inl e) \<or> cache_resolve C k s2 = (Inl e, s1)"
    by (auto simp: cache_Poll_def split: prod.splits sum.splits option.splits)
  with uw resolve [OF lget [OF assms(3) q]] have "e = ErrPollNotFound \<or> (\<exists>s s'. P s \<and> ca_origin C k s = (Inl e, s'))"
    by blast
  then show ?thesis by force
qed

subsection \<open>The shared tier's contract\<close>

text \<open>
  \<open>seen s k t\<close> is the entry the tier would serve for \<open>k\<close> at \<open>t\<close> if nothing more were
  written. A read answers that entry or nothing (a text it cannot read back is a miss);
  a write shows until its time-to-live has passed, if it took effect; a deletion forgets.
\<close>

locale shared_tier =
  fixes T :: "'s SharedStore"
    and seen :: "'s \<Rightarrow> string \<Rightarrow> instant \<Rightarrow> entry option"
    and clock :: "'s \<Rightarrow> instant"
    and invar :: "'s \<Rightarrow> bool"
  assumes get_clock: "clock (snd (ss_Get T k s)) = clock s"
    and set_clock: "clock (snd (ss_Set T k en ttl s)) = clock s"
    and delete_clock: "clock (snd (ss_Delete T k s)) = clock s"
    and get_invar: "invar s \<Longrightarrow> invar (snd (ss_Get T k s))"
    and set_invar: "invar s \<Longrightarrow> invar (snd (ss_Set T k en ttl s))"
    and delete_invar: "invar s \<Longrightarrow> invar (snd (ss_Delete T k s))"
    and get_seen: "invar s \<Longrightarrow> seen (snd (ss_Get T k s)) = seen s"
    and get_answer: "invar s \<Longrightarrow> fst (ss_Get T k s) = Inr (Some en) \<Longrightarrow> seen s k (clock s) = Some en"
    and set_other: "invar s \<Longrightarrow> k' \<noteq> k \<Longrightarrow> seen (snd (ss_Set T k en ttl s)) k' t = seen s k' t"
    and set_same: "invar s \<Longrightarrow> 0 < ttl \<Longrightarrow> clock s \<le> t \<Longrightarrow>
      seen (snd (ss_Set T k en ttl s)) k t \<in> {seen s k t, if t < clock s + ttl then Some en else None}"
    and delete_other: "invar s \<Longrightarrow> k' \<noteq> k \<Longrightarrow> seen (snd (ss_Delete T k s)) k' t = seen s k' t"
    and delete_same: "invar s \<Longrightarrow> seen (snd (ss_Delete T k s)) k t \<in> {seen s k t, None}"
    and delete_done: "invar s \<Longrightarrow> fst (ss_Delete T k s) = Inr u \<Longrightarrow> seen (snd (ss_Delete T k s)) k t = None"
begin

text \<open>What a read may serve survives every operation of the tier.\<close>

definition tier_ok :: "(string \<Rightarrow> entry \<Rightarrow> instant \<Rightarrow> bool) \<Rightarrow> cache_config \<Rightarrow> 's \<Rightarrow> bool" where
  "tier_ok said cfg s \<longleftrightarrow> invar s
     \<and> (\<forall>k t en. clock s \<le> t \<longrightarrow> seen s k t = Some en \<longrightarrow> fresh said (sharedTTLFor cfg en) k en t)"

lemma tier_get: "tier_ok said cfg s \<Longrightarrow> tier_ok said cfg (snd (ss_Get T k s))"
  by (simp add: tier_ok_def get_clock get_invar get_seen)

lemma tier_answer:
  "tier_ok said cfg s \<Longrightarrow> fst (ss_Get T k s) = Inr (Some en) \<Longrightarrow>
     fresh said (sharedTTLFor cfg en) k en (clock s)"
  using get_answer by (auto simp: tier_ok_def)

lemma tier_delete: "tier_ok said cfg s \<Longrightarrow> tier_ok said cfg (snd (ss_Delete T k s))"
  using delete_other [of s] delete_same [of s k]
  by (auto simp: tier_ok_def delete_clock delete_invar) (metis insertE option.distinct(1) singletonD)

lemma tier_set:
  assumes "tier_ok said cfg s" and "0 < sharedTTLFor cfg en" and "said k en (clock s)"
  shows "tier_ok said cfg (snd (ss_Set T k en (sharedTTLFor cfg en) s))"
proof -
  have inv: "invar s" using assms(1) by (simp add: tier_ok_def)
  have "fresh said (sharedTTLFor cfg en') k' en' t"
    if t: "clock s \<le> t" and seen': "seen (snd (ss_Set T k en (sharedTTLFor cfg en) s)) k' t = Some en'" for k' t en'
  proof (cases "seen s k' t = Some en'")
    case True
    then show ?thesis using assms(1) t by (simp add: tier_ok_def)
  next
    case False
    have k': "k' = k" using False seen' set_other [OF inv, of k' k en "sharedTTLFor cfg en" t] by auto
    with False seen' set_same [OF inv assms(2) t, of k en] have "t < clock s + sharedTTLFor cfg en" "en' = en"
      by (auto split: if_splits)
    with assms(3) t k' show ?thesis by (force simp: fresh_def)
  qed
  with inv show ?thesis by (simp add: tier_ok_def set_clock set_invar)
qed

end

subsection \<open>The cache in its surroundings\<close>

locale poll_cache = shared_tier "ca_shared C" seen clock invar
  for C :: "'s Cache" and seen clock invar +
  fixes said :: "string \<Rightarrow> entry \<Rightarrow> instant \<Rightarrow> bool"
  assumes now_clock: "ca_now C = clock"
    and local_get: "ca_local C (ca_set_local C l s) = l"
    and local_put: "ca_set_local C l' (ca_set_local C l s) = ca_set_local C l' s"
    and local_clock: "clock (ca_set_local C l s) = clock s"
    and local_seen: "seen (ca_set_local C l s) = seen s"
    and local_invar: "invar s \<Longrightarrow> invar (ca_set_local C l s)"
    and tier_local: "ca_local C (snd (ss_Get (ca_shared C) k s)) = ca_local C s"
      "ca_local C (snd (ss_Set (ca_shared C) k en d s)) = ca_local C s"
      "ca_local C (snd (ss_Delete (ca_shared C) k s)) = ca_local C s"
    and origin_frame: "invar s \<Longrightarrow> ca_origin C k s = (r, s') \<Longrightarrow>
      invar s' \<and> clock s' = clock s \<and> seen s' = seen s \<and> ca_local C s' = ca_local C s"
    and origin_said: "invar s \<Longrightarrow> ca_origin C k s = (Inr p, s') \<Longrightarrow>
      said k \<lparr>en_Poll = p, en_Missing = False\<rparr> (clock s)"
    and origin_missing: "invar s \<Longrightarrow> ca_origin C k s = (Inl e, s') \<Longrightarrow> CodeOf e = CodeNotFound \<Longrightarrow>
      said k \<lparr>en_Poll = zero_poll, en_Missing = True\<rparr> (clock s)"
    and flight: "ca_flight C k s = Some (Inr en) \<Longrightarrow>
      fresh said (localTTLFor (ca_cfg C) en + sharedTTLFor (ca_cfg C) en) k en (clock s)"
    and ttls: "invar s \<Longrightarrow> config_ok (ca_cfg C)"
begin

definition age :: "entry \<Rightarrow> duration" where
  "age en = localTTLFor (ca_cfg C) en + sharedTTLFor (ca_cfg C) en"

definition cache_inv :: "'s \<Rightarrow> bool" where
  "cache_inv s \<longleftrightarrow> tier_ok said (ca_cfg C) s \<and> ttl_ok (ca_local C s)
     \<and> (\<forall>k t en. clock s \<le> t \<longrightarrow> ttl_peek (ca_local C s) k t = Some en \<longrightarrow> fresh said (age en) k en t)"

lemma cache_invD:
  assumes "cache_inv s"
  shows "tier_ok said (ca_cfg C) s" "ttl_ok (ca_local C s)" "invar s"
    "clock s \<le> t \<Longrightarrow> ttl_peek (ca_local C s) k t = Some en \<Longrightarrow> fresh said (age en) k en t"
  using assms by (auto simp: cache_inv_def tier_ok_def)

text \<open>The tiers move independently: a state with the same caches is as good.\<close>

lemma cache_inv_tier:
  assumes "cache_inv s" and "tier_ok said (ca_cfg C) s'" and "ca_local C s' = ca_local C s"
    and "clock s' = clock s"
  shows "cache_inv s'"
  using assms by (simp add: cache_inv_def)

lemma tier_set_local:
  assumes "tier_ok said (ca_cfg C) s"
  shows "tier_ok said (ca_cfg C) (ca_set_local C l s)"
  using assms by (simp add: tier_ok_def local_clock local_seen local_invar)

lemma cache_inv_local:
  assumes "cache_inv s" and "ttl_ok l"
    and "\<And>k t en. clock s \<le> t \<Longrightarrow> ttl_peek l k t = Some en \<Longrightarrow> fresh said (age en) k en t"
  shows "cache_inv (ca_set_local C l s)"
  using assms tier_set_local [OF cache_invD(1) [OF assms(1)]] by (simp add: cache_inv_def local_get local_clock)

lemma local_Get_step:
  assumes "cache_inv s" and "local_Get C k s = (r, s')"
  shows "cache_inv s'" and "clock s' = clock s" and "r = ttl_peek (ca_local C s) k (clock s)"
    and "r = Some en \<Longrightarrow> fresh said (age en) k en (clock s)" and "seen s' = seen s"
proof -
  note ok = cache_invD(2) [OF assms(1)]
  obtain l where l: "ttl_Get k (clock s) (ca_local C s) = (r, l)" and s': "s' = ca_set_local C l s"
    using assms(2) by (auto simp: local_Get_def now_clock split: prod.splits)
  show "cache_inv s'" unfolding s'
    using ttlcache.get_invar [OF ok, of k "clock s"] ttlcache.get_peek [OF ok, of "clock s" _ k] l
      cache_invD(4) [OF assms(1)]
    by (intro cache_inv_local [OF assms(1)]) (auto simp del: ttlcache.get_peek)
  show "clock s' = clock s" "seen s' = seen s" by (simp_all add: s' local_clock local_seen)
  show r: "r = ttl_peek (ca_local C s) k (clock s)" using ttlcache.get_result [OF ok, of k "clock s"] l by simp
  show "r = Some en \<Longrightarrow> fresh said (age en) k en (clock s)" using r cache_invD(4) [OF assms(1)] by simp
qed

lemma local_Set_step:
  assumes "cache_inv s" and "fresh said (sharedTTLFor (ca_cfg C) en) k en (clock s)"
  shows "cache_inv (local_Set C k en (localTTLFor (ca_cfg C) en) s)"
    and "clock (local_Set C k en d s) = clock s"
proof -
  note ok = cache_invD(2) [OF assms(1)]
  note pos = localTTL_pos [OF ttls [OF cache_invD(3) [OF assms(1)]], of en]
  let ?l = "ttl_Set k en (localTTLFor (ca_cfg C) en) (clock s) (ca_local C s)"
  have "fresh said (age en') k' en' t" if t: "clock s \<le> t" and pk: "ttl_peek ?l k' t = Some en'" for k' t en'
  proof (cases "k' = k")
    case True
    with pk ttlcache.set_same [OF ok pos, of k en "clock s" t]
    have "en' = en" "t \<le> clock s + localTTLFor (ca_cfg C) en" by (auto split: if_splits)
    with fresh_later [OF assms(2) t, of "localTTLFor (ca_cfg C) en"] True show ?thesis
      by (simp add: age_def add.commute)
  next
    case False
    with pk ttlcache.set_other [OF ok False, of en "localTTLFor (ca_cfg C) en" "clock s" t]
    show ?thesis using cache_invD(4) [OF assms(1) t] by auto
  qed
  with ttlcache.set_invar [OF ok] show "cache_inv (local_Set C k en (localTTLFor (ca_cfg C) en) s)"
    unfolding local_Set_def now_clock by (intro cache_inv_local [OF assms(1)]) auto
  show "clock (local_Set C k en d s) = clock s" by (simp add: local_Set_def local_clock)
qed

lemma cache_store_step:
  assumes inv: "cache_inv s" and said: "said k en (clock s)"
    and run: "cache_store C k en (sharedTTLFor (ca_cfg C) en) s = (r, s')"
  shows "cache_inv s'" and "clock s' = clock s" and "r = en"
proof -
  let ?s1 = "snd (ss_Set (ca_shared C) k en (sharedTTLFor (ca_cfg C) en) s)"
  note pos = sharedTTL_pos [OF ttls [OF cache_invD(3) [OF inv]], of en]
  have c: "clock ?s1 = clock s" by (simp add: set_clock)
  have inv1: "cache_inv ?s1"
    using tier_set [OF cache_invD(1) [OF inv] pos said] tier_local(2) c by (rule cache_inv_tier [OF inv])
  have "fresh said (sharedTTLFor (ca_cfg C) en) k en (clock ?s1)"
    using said pos by (simp add: c fresh_now)
  from local_Set_step [OF inv1 this] run show "cache_inv s'" and "clock s' = clock s" and "r = en"
    by (auto simp: cache_store_def Let_def c)
qed

lemma resolve_origin_step:
  assumes inv: "cache_inv s" and run: "resolve_origin C k s = (r, s')"
  shows "cache_inv s' \<and> clock s' = clock s \<and> (\<forall>en. r = Inr en \<longrightarrow> said k en (clock s))"
proof -
  obtain q s1 where q: "ca_origin C k s = (q, s1)" by fastforce
  note fr = origin_frame [OF cache_invD(3) [OF inv] q]
  have tier: "tier_ok said (ca_cfg C) s1"
    using cache_invD(1) [OF inv] fr by (simp add: tier_ok_def)
  have inv1: "cache_inv s1" using fr by (intro cache_inv_tier [OF inv tier]) simp_all
  show ?thesis
  proof (cases q)
    case (Inr p)
    let ?en = "\<lparr>en_Poll = p, en_Missing = False\<rparr>"
    have said: "said k ?en (clock s1)" using origin_said [OF cache_invD(3) [OF inv]] q Inr fr by simp
    obtain en s2 where st: "cache_store C k ?en (sharedTTLFor (ca_cfg C) ?en) s1 = (en, s2)" by fastforce
    have "cc_SharedTTL (ca_cfg C) = sharedTTLFor (ca_cfg C) ?en" by (simp add: sharedTTLFor_def)
    with run q Inr st have "r = Inr en" "s' = s2" by (auto simp: resolve_origin_def)
    with cache_store_step [OF inv1 said st] said fr show ?thesis by simp
  next
    case (Inl e)
    show ?thesis
    proof (cases "CodeOf e = CodeNotFound")
      case True
      let ?en = "\<lparr>en_Poll = zero_poll, en_Missing = True\<rparr>"
      have said: "said k ?en (clock s1)" using origin_missing [OF cache_invD(3) [OF inv]] q Inl True fr by simp
      obtain en s2 where st: "cache_store C k ?en (sharedTTLFor (ca_cfg C) ?en) s1 = (en, s2)" by fastforce
      have "cc_NegativeTTL (ca_cfg C) = sharedTTLFor (ca_cfg C) ?en" by (simp add: sharedTTLFor_def)
      with run q Inl True st have "r = Inr en" "s' = s2" by (auto simp: resolve_origin_def)
      with cache_store_step [OF inv1 said st] said fr show ?thesis by simp
    next
      case False
      with run q Inl inv1 fr show ?thesis by (auto simp: resolve_origin_def)
    qed
  qed
qed

lemma cache_resolve_step:
  assumes inv: "cache_inv s" and run: "cache_resolve C k s = (r, s')"
  shows "cache_inv s' \<and> clock s' = clock s \<and> (\<forall>en. r = Inr en \<longrightarrow> fresh said (age en) k en (clock s))"
proof -
  obtain q s1 where q: "local_Get C k s = (q, s1)" by fastforce
  note loc = local_Get_step [OF inv q]
  have pos: "0 \<le> age en" "sharedTTLFor (ca_cfg C) en \<le> age en" for en
    using localTTL_pos [OF ttls [OF cache_invD(3) [OF inv]], of en]
      sharedTTL_pos [OF ttls [OF cache_invD(3) [OF inv]], of en] by (simp_all add: age_def)
  show ?thesis
  proof (cases q)
    case (Some en)
    with run q have "r = Inr en" "s' = s1" by (auto simp: cache_resolve_def)
    with loc Some show ?thesis by simp
  next
    case None
    obtain x s2 where x: "ss_Get (ca_shared C) k s1 = (x, s2)" by fastforce
    have inv2: "cache_inv s2" and c2: "clock s2 = clock s"
      using cache_inv_tier [OF loc(1) tier_get [OF cache_invD(1) [OF loc(1)]], of k]
        tier_local(1) [of k s1] get_clock [of k s1] loc(2) x by simp_all
    show ?thesis
    proof (cases "\<exists>en. x = Inr (Some en)")
      case True
      then obtain en where en: "x = Inr (Some en)" by blast
      from tier_answer [OF cache_invD(1) [OF loc(1)], of k en] x en loc(2)
      have f: "fresh said (sharedTTLFor (ca_cfg C) en) k en (clock s2)" by (simp add: c2)
      from local_Set_step [OF inv2 f] run q None x en f pos(2) show ?thesis
        by (auto simp: cache_resolve_def c2 intro: fresh_mono)
    next
      case False
      with run q None x have "resolve_origin C k s2 = (r, s')"
        by (auto simp: cache_resolve_def split: sum.splits option.splits)
      from resolve_origin_step [OF inv2 this] c2 pos(1) show ?thesis
        by (auto intro: fresh_now)
    qed
  qed
qed

text \<open>Every lookup: the caches stay sound, and the answer is the origin's, at most \<open>age\<close> old.\<close>

lemma cache_Poll_step:
  assumes inv: "cache_inv s" and run: "cache_Poll C k s = (r, s')"
  shows "cache_inv s'" and "clock s' = clock s"
    and "r = Inr p \<Longrightarrow> \<exists>en. fresh said (age en) k en (clock s) \<and> \<not> en_Missing en \<and> en_Poll en = p"
proof -
  obtain q s1 where q: "local_Get C k s = (q, s1)" by fastforce
  note loc = local_Get_step [OF inv q]
  let ?f = "case ca_flight C k s1 of Some r \<Rightarrow> (r, s1) | None \<Rightarrow> cache_resolve C k s1"
  obtain x s2 where x: "?f = (x, s2)" by fastforce
  have look: "cache_inv s2 \<and> clock s2 = clock s \<and> (\<forall>en. x = Inr en \<longrightarrow> fresh said (age en) k en (clock s))"
  proof (cases "ca_flight C k s1")
    case None
    with x cache_resolve_step [OF loc(1)] loc(2) show ?thesis by simp
  next
    case (Some y)
    with x loc flight [of k s1] show ?thesis by (auto simp: age_def)
  qed
  have "cache_inv s' \<and> clock s' = clock s
    \<and> (r = Inr p \<longrightarrow> (\<exists>en. fresh said (age en) k en (clock s) \<and> \<not> en_Missing en \<and> en_Poll en = p))"
    using run q x loc look
    by (auto simp: cache_Poll_def unwrap_def split: option.splits sum.splits if_splits)
  then show "cache_inv s'" and "clock s' = clock s"
    and "r = Inr p \<Longrightarrow> \<exists>en. fresh said (age en) k en (clock s) \<and> \<not> en_Missing en \<and> en_Poll en = p"
    by blast+
qed

lemma cache_Invalidate_step:
  assumes inv: "cache_inv s" and run: "cache_Invalidate C k s = (r, s')"
  shows "cache_inv s'" and "clock s' = clock s" and "ttl_peek (ca_local C s') k t = None"
    and "r = Inr u \<Longrightarrow> seen s' k t = None" and "r = Inl e \<Longrightarrow> CodeOf e = CodeUnavailable"
proof -
  let ?s1 = "local_Delete C k s"
  have inv1: "cache_inv ?s1" unfolding local_Delete_def
    using ttlcache.delete_invar [OF cache_invD(2) [OF inv]] cache_invD(4) [OF inv]
    by (intro cache_inv_local [OF inv])
      (auto simp: ttl_Delete_peek [OF cache_invD(2) [OF inv]] split: if_splits)
  have c1: "clock ?s1 = clock s" by (simp add: local_Delete_def local_clock)
  have gone: "ttl_peek (ca_local C ?s1) k t = None" for t
    using ttlcache.delete_same [OF cache_invD(2) [OF inv]] by (simp add: local_Delete_def local_get)
  obtain q s2 where q: "ss_Delete (ca_shared C) k ?s1 = (q, s2)" by fastforce
  have inv2: "cache_inv s2 \<and> clock s2 = clock s \<and> ca_local C s2 = ca_local C ?s1"
    using cache_inv_tier [OF inv1 tier_delete [OF cache_invD(1) [OF inv1]], of k]
      tier_local(3) [of k ?s1] delete_clock [of k ?s1] q c1 by simp
  have s': "s' = s2" and r: "r = Inr u \<Longrightarrow> \<exists>u. q = Inr u"
    using run q by (auto simp: cache_Invalidate_def split: go_try_splits)
  show "cache_inv s'" "clock s' = clock s" "ttl_peek (ca_local C s') k t = None"
    using inv2 gone by (simp_all add: s')
  show "r = Inr u \<Longrightarrow> seen s' k t = None"
    using r delete_done [OF cache_invD(3) [OF inv1], of k] q by (auto simp: s')
  show "r = Inl e \<Longrightarrow> CodeOf e = CodeUnavailable"
    using run by (auto simp: cache_Invalidate_def go_try_eq_Inl)
qed

text \<open>
  With nothing cached and nobody else asking, the origin is asked, in the state after the
  two lookups of the in-process tier and the one of the shared tier.
\<close>

definition asked :: "string \<Rightarrow> 's \<Rightarrow> 's" where
  "asked k s = snd (ss_Get (ca_shared C) k (snd (local_Get C k (snd (local_Get C k s)))))"

lemma cache_miss:
  assumes inv: "cache_inv s" and gone: "ttl_peek (ca_local C s) k (clock s) = None" "seen s k (clock s) = None"
    and alone: "\<And>s. ca_flight C k s = None" and run: "cache_Poll C k s = (r, s')"
    and origin: "ca_origin C k (asked k s) = (q, s2)"
  shows "r = (case q of Inr p \<Rightarrow> Inr p
    | Inl e \<Rightarrow> Inl (if CodeOf e = CodeNotFound then ErrPollNotFound else e))"
proof -
  obtain x s1 where x: "local_Get C k s = (x, s1)" by fastforce
  note loc = local_Get_step [OF inv x]
  have xnone: "x = None" using loc(3) gone(1) by simp
  obtain y l where y: "local_Get C k s1 = (y, l)" by fastforce
  note again = local_Get_step [OF loc(1) y]
  have "ttl_peek (ca_local C s1) k (clock s1) = None"
    using ttlcache.get_peek [OF cache_invD(2) [OF inv], of "clock s" "clock s" k k] gone(1) loc(2) x
    by (auto simp: local_Get_def now_clock local_get split: prod.splits)
  then have ynone: "y = None" using again(3) by simp
  obtain z s3 where z: "ss_Get (ca_shared C) k l = (z, s3)" by fastforce
  have "\<nexists>en. z = Inr (Some en)"
    using get_answer [OF cache_invD(3) [OF again(1)], of k] z gone(2) again(2,5) loc(2,5) by auto
  then have resolved: "cache_resolve C k s1 = resolve_origin C k s3"
    using y ynone z by (auto simp: cache_resolve_def split: sum.split option.split)
  have q: "ca_origin C k s3 = (q, s2)" using origin x y z by (simp add: asked_def)
  have "cache_Poll C k s = (case resolve_origin C k s3 of (Inl e, s2) \<Rightarrow> (Inl e, s2) | (Inr en, s2) \<Rightarrow> (unwrap en, s2))"
    using x xnone alone resolved by (simp add: cache_Poll_def)
  with run q show ?thesis
    by (auto simp: resolve_origin_def cache_store_def unwrap_def Let_def split: sum.splits if_splits)
qed

text \<open>An outage of the origin is never cached: the tiers hold what they held.\<close>

lemma cache_outage:
  assumes inv: "cache_inv s" and alone: "\<And>s. ca_flight C k s = None"
    and run: "cache_Poll C k s = (Inl e, s')" and code: "CodeOf e \<noteq> CodeNotFound"
  shows "seen s' = seen s" and "clock s \<le> t \<Longrightarrow> ttl_peek (ca_local C s') j t = ttl_peek (ca_local C s) j t"
proof -
  have found: "unwrap en \<noteq> Inl e" for en using code by (auto simp: unwrap_def)
  obtain x s1 where x: "local_Get C k s = (x, s1)" by fastforce
  note loc = local_Get_step [OF inv x]
  have xnone: "x = None" using run x found by (auto simp: cache_Poll_def split: option.splits)
  obtain y l where y: "local_Get C k s1 = (y, l)" by fastforce
  note again = local_Get_step [OF loc(1) y]
  have l: "cache_resolve C k s1 = (Inl e, s')"
    using run x xnone alone found by (auto simp: cache_Poll_def split: prod.splits sum.splits)
  then have ynone: "y = None" using y by (auto simp: cache_resolve_def split: option.splits)
  obtain z s3 where z: "ss_Get (ca_shared C) k l = (z, s3)" by fastforce
  from l y ynone z have "resolve_origin C k s3 = (Inl e, s')"
    by (auto simp: cache_resolve_def split: sum.splits option.splits)
  then have "ca_origin C k s3 = (Inl e, s')"
    by (auto simp: resolve_origin_def split: prod.splits sum.splits if_splits)
  note fr = origin_frame [OF _ this]
  have inv3: "invar s3" using get_invar [OF cache_invD(3) [OF again(1)], of k] z by simp
  show "seen s' = seen s"
    using fr [OF inv3] get_seen [OF cache_invD(3) [OF again(1)], of k] z again(5) loc(5) by simp
  have "ca_local C s' = ca_local C l" using fr [OF inv3] tier_local(1) [of k l] z by simp
  moreover have "ttl_peek (ca_local C l) j t = ttl_peek (ca_local C s) j t" if "clock s \<le> t"
    using ttlcache.get_peek [OF cache_invD(2) [OF inv] that, of k j]
      ttlcache.get_peek [OF cache_invD(2) [OF loc(1)], of "clock s1" t k j] that loc(2) x y
    by (auto simp: local_Get_def now_clock local_get split: prod.splits)
  ultimately show "clock s \<le> t \<Longrightarrow> ttl_peek (ca_local C s') j t = ttl_peek (ca_local C s) j t" by simp
qed

end

end
