(* ===== verification/Go_Hash.thy ===== *)
theory Go_Hash
  imports Go_Strconv
begin

unbundle bit_operations_syntax

text \<open>
  The two checksums of the standard library that decide where a ballot is counted and who
  counts as the same voter: \<open>crc32.ChecksumIEEE\<close> (shard selection) and
  \<open>crypto/sha256\<close> (voter hash, admin token comparison), both executable. Nothing is
  proved about their cryptographic strength; the properties use that they are functions
  and what they return has the right length.
\<close>

definition string_bytes :: "string \<Rightarrow> 8 word list" where
  "string_bytes s = map (\<lambda>c. word_of_nat (byte_of c)) s"

lemma length_string_bytes [simp]: "length (string_bytes s) = length s"
  by (simp add: string_bytes_def)

lemma string_bytes_inj: "string_bytes s = string_bytes t \<Longrightarrow> s = t"
proof -
  have "inj (\<lambda>c. word_of_nat (byte_of c) :: 8 word)"
  proof (rule injI)
    fix c d :: char
    assume "(word_of_nat (byte_of c) :: 8 word) = word_of_nat (byte_of d)"
    then have "unat (word_of_nat (byte_of c) :: 8 word) = unat (word_of_nat (byte_of d) :: 8 word)"
      by simp
    then have "byte_of c = byte_of d"
      using nat_of_char_less_256 [of c] nat_of_char_less_256 [of d]
      by (simp add: unat_of_nat byte_of_def)
    then show "c = d" by (simp add: byte_of_def)
  qed
  then show "string_bytes s = string_bytes t \<Longrightarrow> s = t"
    by (auto simp: string_bytes_def dest: map_injective)
qed

subsection \<open>crc32.ChecksumIEEE\<close>

fun crc_bits :: "nat \<Rightarrow> 32 word \<Rightarrow> 32 word" where
  "crc_bits 0 c = c"
| "crc_bits (Suc n) c =
     crc_bits n (if c AND 1 = 1 then drop_bit 1 c XOR 0xedb88320 else drop_bit 1 c)"

definition crc_byte :: "32 word \<Rightarrow> 8 word \<Rightarrow> 32 word" where
  "crc_byte c b = crc_bits 8 (c XOR ucast b)"

definition ChecksumIEEE :: "8 word list \<Rightarrow> 32 word" where
  "ChecksumIEEE bs = NOT (foldl crc_byte (NOT 0) bs)"

subsection \<open>sha256.Sum256\<close>

text \<open>
  The constants of FIPS 180-4: the first 32 bits of the fractional parts of the cube roots
  of the first 64 primes, and of the square roots of the first 8. \<open>root_bits n r k b\<close>
  extends \<open>r\<close> by \<open>b\<close> bits to the largest number whose \<open>k\<close>th power is at most
  \<open>n\<close>; 35 bits are enough, since both roots are below 8.
\<close>

definition first_primes :: "nat list" where
  "first_primes = filter (\<lambda>n. 1 < n \<and> list_all (\<lambda>d. n mod d \<noteq> 0) [2 ..< n]) [0 ..< 312]"

fun root_bits :: "nat \<Rightarrow> nat \<Rightarrow> nat \<Rightarrow> nat \<Rightarrow> nat" where
  "root_bits n r k 0 = r"
| "root_bits n r k (Suc b) =
     root_bits n (if (r + 2 ^ b) ^ k \<le> n then r + 2 ^ b else r) k b"

definition root_fraction :: "nat \<Rightarrow> nat \<Rightarrow> 32 word" where
  "root_fraction k p = word_of_nat (root_bits (p * 2 ^ (32 * k)) 0 k 35)"

definition sha_k :: "32 word list" where
  "sha_k = map (root_fraction 3) first_primes"

definition sha_h0 :: "32 word list" where
  "sha_h0 = map (root_fraction 2) (take 8 first_primes)"

definition be32 :: "8 word list \<Rightarrow> 32 word" where
  "be32 bs = foldl (\<lambda>w b. push_bit 8 w OR ucast b) 0 bs"

definition word_bytes :: "32 word \<Rightarrow> 8 word list" where
  "word_bytes w = [ucast (drop_bit 24 w), ucast (drop_bit 16 w), ucast (drop_bit 8 w), ucast w]"

fun chunks :: "nat \<Rightarrow> nat \<Rightarrow> 'a list \<Rightarrow> 'a list list" where
  "chunks 0 k xs = []"
| "chunks (Suc n) k xs = take k xs # chunks n k (drop k xs)"

text \<open>The padded message: one 1 bit, zeros, and the bit length in 64 bits.\<close>

definition sha_pad :: "8 word list \<Rightarrow> 8 word list" where
  "sha_pad bs =
     (let n = length bs; z = (119 - n mod 64) mod 64
      in bs @ [0x80] @ replicate z 0
         @ map (\<lambda>k. word_of_nat (8 * n div 2 ^ (8 * k))) [7, 6, 5, 4, 3, 2, 1, 0])"

fun sha_schedule :: "nat \<Rightarrow> 32 word list \<Rightarrow> 32 word list" where
  "sha_schedule 0 ws = ws"
| "sha_schedule (Suc n) ws =
     (let t = length ws; x = ws ! (t - 15); y = ws ! (t - 2);
          s0 = word_rotr 7 x XOR word_rotr 18 x XOR drop_bit 3 x;
          s1 = word_rotr 17 y XOR word_rotr 19 y XOR drop_bit 10 y
      in sha_schedule n (ws @ [ws ! (t - 16) + s0 + ws ! (t - 7) + s1]))"

type_synonym sha_state =
  "32 word \<times> 32 word \<times> 32 word \<times> 32 word \<times> 32 word \<times> 32 word \<times> 32 word \<times> 32 word"

fun sha_round :: "sha_state \<Rightarrow> 32 word \<times> 32 word \<Rightarrow> sha_state" where
  "sha_round (a, b, c, d, e, f, g, h) (k, w) =
     (let s1 = word_rotr 6 e XOR word_rotr 11 e XOR word_rotr 25 e;
          ch = (e AND f) XOR (NOT e AND g);
          t1 = h + s1 + ch + k + w;
          s0 = word_rotr 2 a XOR word_rotr 13 a XOR word_rotr 22 a;
          maj = (a AND b) XOR (a AND c) XOR (b AND c)
      in (t1 + (s0 + maj), a, b, c, d + t1, e, f, g))"

fun sha_block :: "sha_state \<Rightarrow> 8 word list \<Rightarrow> sha_state" where
  "sha_block (a, b, c, d, e, f, g, h) block =
     (let ws = sha_schedule 48 (map be32 (chunks 16 4 block));
          (a', b', c', d', e', f', g', h') = foldl sha_round (a, b, c, d, e, f, g, h) (zip sha_k ws)
      in (a + a', b + b', c + c', d + d', e + e', f + f', g + g', h + h'))"

definition sha_init :: sha_state where
  "sha_init = (sha_h0 ! 0, sha_h0 ! 1, sha_h0 ! 2, sha_h0 ! 3,
               sha_h0 ! 4, sha_h0 ! 5, sha_h0 ! 6, sha_h0 ! 7)"

definition Sum256 :: "8 word list \<Rightarrow> 8 word list" where
  "Sum256 bs =
     (let m = sha_pad bs;
          (a, b, c, d, e, f, g, h) = foldl sha_block sha_init (chunks (length m div 64) 64 m)
      in concat (map word_bytes [a, b, c, d, e, f, g, h]))"

lemma length_Sum256 [simp]: "length (Sum256 bs) = 32"
  by (simp add: Sum256_def Let_def word_bytes_def split: prod.splits)

text \<open>The padded message fills whole blocks.\<close>

lemma sha_pad_blocks: "64 dvd length (sha_pad bs)"
proof -
  let ?r = "length bs mod 64"
  have len: "length (sha_pad bs) = 64 * (length bs div 64) + (?r + 9 + (119 - ?r) mod 64)"
    by (simp add: sha_pad_def Let_def)
  have "(119 - ?r) mod 64 = (if ?r \<le> 55 then 55 - ?r else 119 - ?r)"
  proof (cases "?r \<le> 55")
    case True
    then have "119 - ?r = 64 + (55 - ?r)" by simp
    then have "(119 - ?r) mod 64 = (55 - ?r) mod 64" by (simp only: mod_add_self1)
    moreover have "(55 - ?r) mod 64 = 55 - ?r" by simp
    ultimately show ?thesis using True by simp
  next
    case False
    then show ?thesis by simp
  qed
  then have "?r + 9 + (119 - ?r) mod 64 = 64 \<or> ?r + 9 + (119 - ?r) mod 64 = 128"
    using mod_less_divisor [of 64 "length bs"] by (auto split: if_splits)
  then show ?thesis unfolding len by (elim disjE) (simp_all only:, (intro dvd_add; simp)+)
qed

end
