(* ===== verification/Votestore.thy ===== *)
theory Votestore
  imports Ports Redis Go_Hash
begin

text \<open>
  The Redis vote store (\<open>internal/votestore\<close>): the two Lua scripts and the operations of
  \<open>Store\<close>, over the commands of a Redis that satisfies \<open>redis_ok\<close>. The theories that follow show
  that the store fulfils the \<open>vote_store\<close> contract whatever the network loses, that
  the key layout keeps the families of keys apart, and how the rate limit counts (\<open>Rate_Limit\<close>).
\<close>

subsection \<open>Configuration and keys\<close>

record store_config =
  sc_Shards :: nat
  sc_DedupTTL :: duration
  sc_CounterRetention :: duration
  sc_RateLimit :: int
  sc_RateWindow :: duration
  sc_PollQuota :: int
  sc_PollQuotaWindow :: duration

definition trackedPollsKey :: string where "trackedPollsKey = ''votes:polls''"

definition tagForShard :: "string \<Rightarrow> nat \<Rightarrow> string" where
  "tagForShard pollID shard = ''{v:'' @ pollID @ '':'' @ itoa (int shard) @ ''}''"

definition shard_of :: "store_config \<Rightarrow> string \<Rightarrow> nat" where
  "shard_of cfg voterHash =
     unat (ChecksumIEEE (string_bytes voterHash) mod word_of_nat (sc_Shards cfg))"

definition shardTag :: "store_config \<Rightarrow> string \<Rightarrow> string \<Rightarrow> string" where
  "shardTag cfg pollID voterHash = tagForShard pollID (shard_of cfg voterHash)"

definition votedKey :: "string \<Rightarrow> string \<Rightarrow> string" where
  "votedKey tag voterHash = tag @ '':voted:'' @ voterHash"

definition countsKey :: "string \<Rightarrow> string" where
  "countsKey tag = tag @ '':counts''"

definition ipTag :: "string \<Rightarrow> string" where
  "ipTag ip = ''{ip:'' @ ip @ ''}''"

subsection \<open>The Lua scripts (scripts.go)\<close>

text \<open>
  A failing \<open>redis.call\<close> ends the script with its error; what earlier calls wrote stays.
\<close>

definition limit_check ::
  "redis_cmds \<Rightarrow> string \<Rightarrow> int \<Rightarrow> int \<Rightarrow> int \<Rightarrow> instant
     \<Rightarrow> (rdb \<Rightarrow> (goerror + int) \<times> rdb) \<Rightarrow> rdb \<Rightarrow> (goerror + int) \<times> rdb"
where
  "limit_check rd key limit window verdict now k db =
     (if limit \<le> 0 then k db
      else go_try (rd_INCR rd now key db) id (\<lambda>hits db.
        go_try (if hits = 1 then rd_EXPIRE rd now key window db else (Inr 0, db)) id (\<lambda>_ db.
          if limit < hits then (Inr verdict, db) else k db)))"

definition guardScript ::
  "redis_cmds \<Rightarrow> string \<Rightarrow> string \<Rightarrow> int \<Rightarrow> int \<Rightarrow> int \<Rightarrow> int \<Rightarrow> instant \<Rightarrow> rdb \<Rightarrow> (goerror + int) \<times> rdb"
where
  "guardScript rd rateKey quotaKey rateLimit rateWindow quotaLimit quotaWindow now db =
     limit_check rd rateKey rateLimit rateWindow VerdictRateLimited now
       (limit_check rd quotaKey quotaLimit quotaWindow VerdictQuotaExceeded now
         (\<lambda>db. (Inr VerdictAllow, db))) db"

fun hincr_all :: "redis_cmds \<Rightarrow> string \<Rightarrow> string list \<Rightarrow> instant \<Rightarrow> rdb \<Rightarrow> (goerror + unit) \<times> rdb" where
  "hincr_all rd key [] now db = (Inr (), db)"
| "hincr_all rd key (i # ids) now db =
     go_try (rd_HINCRBY rd now key i 1 db) id (\<lambda>_ db. hincr_all rd key ids now db)"

definition castBallotScript ::
  "redis_cmds \<Rightarrow> string \<Rightarrow> string \<Rightarrow> int \<Rightarrow> int \<Rightarrow> string list \<Rightarrow> instant \<Rightarrow> rdb \<Rightarrow> (goerror + int) \<times> rdb"
where
  "castBallotScript rd voted counts dedupTTL retention ids now db =
     go_try (rd_SET_NX_EX rd now voted ''1'' dedupTTL db) id (\<lambda>claimed db.
       if \<not> claimed then (Inr 0, db)
       else go_try (rd_EXISTS rd now counts db) id (\<lambda>n db.
         go_try (hincr_all rd counts ids now db) id (\<lambda>_ db.
           go_try (if n = 0 then rd_EXPIRE rd now counts retention db else (Inr 0, db)) id (\<lambda>_ db.
             (Inr 1, db)))))"

subsection \<open>Store (redis.go)\<close>

definition store_Ping :: "redis_cmds \<Rightarrow> (redis_state, unit) action" where
  "store_Ping rd st = redis_call (rd_PING rd) st"

definition store_Guard ::
  "redis_cmds \<Rightarrow> store_config \<Rightarrow> GuardRequest \<Rightarrow> (redis_state, Verdict) action"
where
  "store_Guard rd cfg req st =
     (let tag = ipTag (g_ClientIP req)
      in go_try
           (redis_call (guardScript rd (tag @ '':rl'') (tag @ '':pq:'' @ g_PollID req)
              (sc_RateLimit cfg) (whole_seconds (sc_RateWindow cfg))
              (sc_PollQuota cfg) (whole_seconds (sc_PollQuotaWindow cfg))) st)
           (\<lambda>e. WrapError CodeUnavailable e ''voting is temporarily unavailable'')
           (\<lambda>verdict st. (Inr verdict, st)))"

definition store_CastBallot ::
  "redis_cmds \<Rightarrow> store_config \<Rightarrow> Ballot \<Rightarrow> (redis_state, unit) action"
where
  "store_CastBallot rd cfg b st =
     (if (word_of_nat (sc_Shards cfg) :: 32 word) = 0
      then (Inl (GoPanic ''integer divide by zero''), st)
      else let tag = shardTag cfg (b_PollID b) (b_VoterHash b)
      in go_try
           (redis_call (castBallotScript rd (votedKey tag (b_VoterHash b)) (countsKey tag)
              (whole_seconds (sc_DedupTTL cfg)) (whole_seconds (sc_CounterRetention cfg))
              (b_OptionIDs b)) st)
           (\<lambda>e. Wrapped ''cast ballot''
                 (WrapError CodeUnavailable e ''voting is temporarily unavailable''))
           (\<lambda>counted st.
              if counted \<noteq> 1
              then (Inl (NewError CodeAlreadyVoted ''this device has already voted in this poll''), st)
              else (Inr (), st)))"

text \<open>
  The pipeline of \<open>Counters\<close>: one HGETALL per shard; the batch fails as a whole when a
  reply is missing or an error.
\<close>

fun hgetall_shards ::
  "redis_cmds \<Rightarrow> string list \<Rightarrow> instant \<Rightarrow> rdb \<Rightarrow> (goerror + (string \<times> string) list list) \<times> rdb"
where
  "hgetall_shards rd [] now db = (Inr [], db)"
| "hgetall_shards rd (k # ks) now db =
     go_try (rd_HGETALL rd now k db) id (\<lambda>reply db.
       go_try (hgetall_shards rd ks now db) id (\<lambda>replies db. (Inr (reply # replies), db)))"

fun add_reply :: "(string \<times> string) list \<Rightarrow> (string \<times> int64) list \<Rightarrow> goerror + (string \<times> int64) list" where
  "add_reply [] counts = Inr counts"
| "add_reply ((optionID, raw) # rest) counts =
     (case map_of counts optionID of
        None \<Rightarrow> add_reply rest counts
      | Some c \<Rightarrow>
          (case parse_int raw of
             None \<Rightarrow> Inl (WrapError CodeInternal (ErrText ''invalid syntax'')
                        (''corrupt counter for option '' @ optionID))
           | Some v \<Rightarrow> add_reply rest (AList.update optionID (c + int64_of v) counts)))"

fun add_replies ::
  "(string \<times> string) list list \<Rightarrow> (string \<times> int64) list \<Rightarrow> goerror + (string \<times> int64) list"
where
  "add_replies [] counts = Inr counts"
| "add_replies (r # rs) counts =
     (case add_reply r counts of Inl e \<Rightarrow> Inl e | Inr counts' \<Rightarrow> add_replies rs counts')"

definition zero_counts :: "string list \<Rightarrow> (string \<times> int64) list" where
  "zero_counts ids = foldl (\<lambda>m i. AList.update i 0 m) [] ids"

definition store_Counters ::
  "redis_cmds \<Rightarrow> store_config \<Rightarrow> string \<Rightarrow> string list \<Rightarrow> (redis_state, (string \<times> int64) list) action"
where
  "store_Counters rd cfg pollID ids st =
     go_try
       (redis_call (hgetall_shards rd
          (map (\<lambda>shard. countsKey (tagForShard pollID shard)) [0 ..< sc_Shards cfg])) st)
       (\<lambda>e. WrapError CodeUnavailable e ''vote counters are temporarily unavailable'')
       (\<lambda>replies st. (add_replies replies (zero_counts ids), st))"

definition store_TrackPoll :: "redis_cmds \<Rightarrow> string \<Rightarrow> (redis_state, unit) action" where
  "store_TrackPoll rd pollID st =
     go_try (redis_call (\<lambda>now. rd_SADD rd now trackedPollsKey pollID) st)
       (\<lambda>e. WrapError CodeUnavailable e ''failed to track poll for synchronisation'')
       (\<lambda>_ st. (Inr (), st))"

definition store_TrackedPolls :: "redis_cmds \<Rightarrow> (redis_state, string list) action" where
  "store_TrackedPolls rd st =
     go_try (redis_call (\<lambda>now. rd_SMEMBERS rd now trackedPollsKey) st)
       (\<lambda>e. WrapError CodeUnavailable e ''failed to list tracked polls'')
       (\<lambda>ids st. (Inr ids, st))"

definition store_UntrackPoll :: "redis_cmds \<Rightarrow> string \<Rightarrow> (redis_state, unit) action" where
  "store_UntrackPoll rd pollID st =
     go_try (redis_call (\<lambda>now. rd_SREM rd now trackedPollsKey pollID) st)
       (\<lambda>e. WrapError CodeUnavailable e ''failed to untrack poll'')
       (\<lambda>_ st. (Inr (), st))"

definition Store :: "redis_cmds \<Rightarrow> store_config \<Rightarrow> redis_state VoteStore" where
  "Store rd cfg = \<lparr>
     vs_Guard = store_Guard rd cfg,
     vs_CastBallot = store_CastBallot rd cfg,
     vs_Counters = store_Counters rd cfg,
     vs_TrackPoll = store_TrackPoll rd,
     vs_TrackedPolls = store_TrackedPolls rd,
     vs_UntrackPoll = store_UntrackPoll rd,
     vs_Ping = store_Ping rd\<rparr>"

end
