(* ===== verification/Votestore_Laws.thy ===== *)
theory Votestore_Laws
  imports Votestore
begin

text \<open>
  The Redis vote store fulfils the \<open>vote_store\<close> contract. Three layers: the key layout
  keeps counters, voter claims, rate keys and the tracked set apart; one run of each
  script has the intended effect on the keyspace; a call through the client, which may run
  the script several times or lose the reply, still has that effect at most once.
\<close>

subsection \<open>Key layout\<close>

lemma last_separator:
  assumes "x @ c # a = y @ c # b" and "c \<notin> set a" and "c \<notin> set b"
  shows "x = y \<and> a = b"
proof -
  have take: "takeWhile (\<lambda>d. d \<noteq> c) (rev (x @ c # a)) = rev a" if "c \<notin> set a" for x a
    using that by (auto simp: takeWhile_append takeWhile_tail)
  from assms take [of a x] take [of b y] have "rev a = rev b" by metis
  with assms(1) show ?thesis by simp
qed

lemma colon_not_digit: "CHR '':'' \<notin> set (itoa (int n))"
  using itoa_chars [of "int n" "CHR '':''"] by (auto simp: is_digit_def char_in_def byte_of_def)

lemma tagForShard_inj: "tagForShard p i = tagForShard q j \<longleftrightarrow> p = q \<and> i = j"
proof
  assume "tagForShard p i = tagForShard q j"
  then have "p @ CHR '':'' # itoa (int i) = q @ CHR '':'' # itoa (int j)"
    by (simp add: tagForShard_def)
  from last_separator [OF this colon_not_digit colon_not_digit] show "p = q \<and> i = j"
    by (auto dest: itoa_inj)
qed simp

lemma countsKey_inj [simp]:
  "countsKey (tagForShard p i) = countsKey (tagForShard q j) \<longleftrightarrow> p = q \<and> i = j"
  by (simp add: countsKey_def tagForShard_inj)

definition hash_ok :: "string \<Rightarrow> bool" where
  "hash_ok h \<longleftrightarrow> h \<noteq> [] \<and> list_all is_hex h"

lemma hash_okD:
  assumes "hash_ok h"
  shows "CHR '':'' \<notin> set h" and "last h \<noteq> CHR ''s''"
proof -
  have hex: "\<And>c. c \<in> set h \<Longrightarrow> is_hex c" and ne: "h \<noteq> []"
    using assms by (auto simp: hash_ok_def list_all_iff)
  show "CHR '':'' \<notin> set h" using hex [of "CHR '':''"] by (auto simp: is_hex_def char_in_def byte_of_def)
  show "last h \<noteq> CHR ''s''"
    using hex [OF last_in_set [OF ne]] by (auto simp: is_hex_def char_in_def byte_of_def)
qed

lemma votedKey_inj:
  assumes "hash_ok h" and "hash_ok k"
  shows "votedKey (tagForShard p i) h = votedKey (tagForShard q j) k \<longleftrightarrow> p = q \<and> i = j \<and> h = k"
proof
  assume "votedKey (tagForShard p i) h = votedKey (tagForShard q j) k"
  then have "(tagForShard p i @ '':voted'') @ CHR '':'' # h = (tagForShard q j @ '':voted'') @ CHR '':'' # k"
    by (simp add: votedKey_def)
  from last_separator [OF this hash_okD(1) [OF assms(1)] hash_okD(1) [OF assms(2)]]
  show "p = q \<and> i = j \<and> h = k" by (simp add: tagForShard_inj)
qed simp

lemma voted_not_counts [simp]:
  assumes "hash_ok h"
  shows "votedKey t h \<noteq> countsKey u"
proof
  assume "votedKey t h = countsKey u"
  then have "last (votedKey t h) = last (countsKey u)" by simp
  with hash_okD(2) [OF assms] assms show False
    by (simp add: votedKey_def countsKey_def hash_ok_def)
qed

lemma tracked_key_apart [simp]:
  "countsKey (tagForShard p i) \<noteq> trackedPollsKey"
  "votedKey (tagForShard p i) h \<noteq> trackedPollsKey"
  "ipTag ip @ s \<noteq> trackedPollsKey"
  "ipTag ip @ s \<noteq> countsKey (tagForShard p i)"
  "ipTag ip @ s \<noteq> votedKey (tagForShard p i) h"
  by (simp_all add: trackedPollsKey_def countsKey_def votedKey_def tagForShard_def ipTag_def)

lemmas key_apart = voted_not_counts tracked_key_apart
  voted_not_counts [THEN not_sym] tracked_key_apart [THEN not_sym]

subsection \<open>Counters in the keyspace\<close>

definition counts_ok :: "instant \<Rightarrow> rdb \<Rightarrow> string \<Rightarrow> bool" where
  "counts_ok now db key \<longleftrightarrow>
     (case kv now db key of None \<Rightarrow> True
      | Some (RHash h) \<Rightarrow> (\<forall>f v. map_of h f = Some v \<longrightarrow> (\<exists>n. parse_int v = Some n \<and> 0 \<le> n))
      | Some _ \<Rightarrow> False)"

definition field_val :: "(string \<times> string) list \<Rightarrow> string \<Rightarrow> int" where
  "field_val h f = (case map_of h f of None \<Rightarrow> 0
     | Some v \<Rightarrow> (case parse_int v of None \<Rightarrow> 0 | Some n \<Rightarrow> n))"

definition count_at :: "instant \<Rightarrow> rdb \<Rightarrow> string \<Rightarrow> string \<Rightarrow> int" where
  "count_at now db key f =
     (case kv now db key of Some (RHash h) \<Rightarrow> field_val h f | _ \<Rightarrow> 0)"

lemma count_at_nonneg: "counts_ok now db key \<Longrightarrow> 0 \<le> count_at now db key f"
  by (auto simp: counts_ok_def count_at_def field_val_def split: option.splits rvalue.splits)
    fastforce

lemma counts_cong:
  "kv now db key = kv now db' key \<Longrightarrow> counts_ok now db key = counts_ok now db' key"
  "kv now db key = kv now db' key \<Longrightarrow> count_at now db key f = count_at now db' key f"
  by (simp_all add: counts_ok_def count_at_def)

lemma field_val_update:
  assumes "min_int64 \<le> n" and "n \<le> max_int64"
  shows "field_val (AList.update i (itoa n) h) f = (if f = i then n else field_val h f)"
  using parse_int_itoa [OF assms] by (simp add: field_val_def update_conv')

text \<open>The options of a ballot counted once each in a counter hash.\<close>

definition counted_in :: "instant \<Rightarrow> string \<Rightarrow> string list \<Rightarrow> rdb \<Rightarrow> rdb \<Rightarrow> bool" where
  "counted_in now key ids db db' \<longleftrightarrow>
     counts_ok now db' key
     \<and> (\<forall>f. count_at now db' key f = count_at now db key f + (if f \<in> set ids then 1 else 0))"

text \<open>One HINCRBY by 1 on a well-formed counter hash with room.\<close>

lemma hincrby_one:
  assumes "redis_ok rd" and ok: "counts_ok now db key" and room: "count_at now db key i < max_int64"
  shows "\<exists>n db'. rd_HINCRBY rd now key i 1 db = (Inr n, db') \<and> counted_in now key [i] db db'
    \<and> (\<forall>k. k \<noteq> key \<longrightarrow> db' k = db k)"
proof -
  note law = redis_hincrby [OF assms(1)]
  note pi = parse_int_itoa [of 1]
  show ?thesis
  proof (cases "kv now db key")
    case None
    from law(1) [OF this]
    have "rd_HINCRBY rd now key i 1 db = (Inr 1, db(key \<mapsto> (RHash [(i, itoa 1)], None)))" .
    with pi None show ?thesis
      by (auto simp: counted_in_def counts_ok_def count_at_def field_val_def min_int64_def max_int64_def)
  next
    case (Some v)
    with ok obtain h where h: "v = RHash h"
      and hv: "\<And>f v. map_of h f = Some v \<Longrightarrow> \<exists>n. parse_int v = Some n \<and> 0 \<le> n"
      by (auto simp: counts_ok_def split: rvalue.splits)
    have old: "count_at now db key f = field_val h f" for f using Some h by (simp add: count_at_def)
    define m where "m = field_val h i + 1"
    have nonneg: "0 \<le> field_val h f" for f
      using hv [of f] by (cases "map_of h f") (auto simp: field_val_def)
    then have range: "min_int64 \<le> m" "m \<le> max_int64" "0 \<le> m"
      using room old [of i] nonneg [of i] by (auto simp: m_def min_int64_def)
    have "(case map_of h i of None \<Rightarrow> Some 1
           | Some v \<Rightarrow> Option.bind (parse_int v) (\<lambda>n. checked_sum n 1)) = Some m"
      using hv [of i] range
      by (cases "map_of h i") (auto simp: m_def field_val_def checked_sum_def)
    with law(2) Some h have run: "rd_HINCRBY rd now key i 1 db =
        (Inr m, db(key \<mapsto> (RHash (AList.update i (itoa m) h), deadline db key)))"
      by simp
    have kv': "kv now (db(key \<mapsto> (RHash (AList.update i (itoa m) h), deadline db key))) key =
        Some (RHash (AList.update i (itoa m) h))"
      using Some by (intro kv_upd_same_deadline) simp
    let ?db = "db(key \<mapsto> (RHash (AList.update i (itoa m) h), deadline db key))"
    have "counts_ok now ?db key"
      using hv parse_int_itoa [OF range(1,2)] range(3) kv' by (auto simp: counts_ok_def update_conv')
    moreover have "count_at now ?db key f = count_at now db key f + (if f = i then 1 else 0)" for f
      using field_val_update [OF range(1,2), of i h f] old [of f] kv' by (simp add: count_at_def m_def)
    ultimately have "counted_in now key [i] db ?db" by (simp add: counted_in_def)
    with run show ?thesis by auto
  qed
qed

lemma hincr_all_run:
  assumes "redis_ok rd" and "counts_ok now db key" and "distinct ids"
    and "\<forall>i \<in> set ids. count_at now db key i < max_int64"
  shows "\<exists>db'. hincr_all rd key ids now db = (Inr (), db') \<and> counted_in now key ids db db'
    \<and> (\<forall>k. k \<noteq> key \<longrightarrow> db' k = db k)"
  using assms(2-4)
proof (induction ids arbitrary: db)
  case Nil
  then show ?case by (simp add: counted_in_def)
next
  case (Cons i ids)
  have room: "count_at now db key i < max_int64" using Cons.prems(3) by simp
  from hincrby_one [OF assms(1) Cons.prems(1) room] obtain n db1 where
    run: "rd_HINCRBY rd now key i 1 db = (Inr n, db1)" and c1: "counted_in now key [i] db db1"
      and frame: "\<forall>k. k \<noteq> key \<longrightarrow> db1 k = db k"
    by auto
  have one: "counts_ok now db1 key"
    "\<And>f. count_at now db1 key f = count_at now db key f + (if f = i then 1 else 0)"
    using c1 by (auto simp: counted_in_def)
  have "\<forall>j \<in> set ids. count_at now db1 key j < max_int64"
    using one(2) Cons.prems(2,3) by auto
  from Cons.IH [OF one(1) _ this] Cons.prems(2) obtain db2 where
    two: "hincr_all rd key ids now db1 = (Inr (), db2)" "counted_in now key ids db1 db2"
      "\<forall>k. k \<noteq> key \<longrightarrow> db2 k = db1 k"
    by auto
  have "counted_in now key (i # ids) db db2"
    using two(2) one(2) Cons.prems(2) by (auto simp: counted_in_def)
  with run frame two show ?case by simp
qed

subsection \<open>One run of the ballot script\<close>

lemma cast_script_again:
  assumes "redis_ok rd" and "0 < ttl" and "kv now db voted \<noteq> None"
  shows "castBallotScript rd voted counts ttl ret ids now db = (Inr 0, db)"
  using assms by (auto simp: castBallotScript_def redis_set_nx)

lemma expire_run:
  assumes "redis_ok rd" and "0 < s"
  obtains n db' where "rd_EXPIRE rd now key s db = (Inr n, db')"
    and "\<And>k. kv now db' k = kv now db k"
proof (cases "kv now db key")
  case None
  then show ?thesis
    using that redis_expire(1) [OF assms(1)] by simp
next
  case (Some v)
  have "kv now (db(key \<mapsto> (v, Some (now + s * second)))) k = kv now db k" for k
    using Some assms(2) by (cases "k = key") (auto simp: second_def)
  then show ?thesis
    using that redis_expire(2) [OF assms(1) Some assms(2)] by simp
qed

lemma cast_script_fresh:
  assumes ok: "redis_ok rd" and pos: "0 < ttl" "0 < ret"
    and apart: "voted \<noteq> counts" and free: "kv now db voted = None"
    and cok: "counts_ok now db counts" and dist: "distinct ids"
    and room: "\<forall>i \<in> set ids. count_at now db counts i < max_int64"
  shows "\<exists>db'. castBallotScript rd voted counts ttl ret ids now db = (Inr 1, db')
    \<and> kv now db' voted \<noteq> None \<and> counted_in now counts ids db db'
    \<and> (\<forall>k. k \<noteq> voted \<longrightarrow> k \<noteq> counts \<longrightarrow> kv now db' k = kv now db k)"
proof -
  define db1 where "db1 = db(voted \<mapsto> (RString ''1'', Some (now + ttl * second)))"
  have set1: "rd_SET_NX_EX rd now voted ''1'' ttl db = (Inr True, db1)"
    using redis_set_nx [OF ok pos(1)] free by (simp add: db1_def)
  have v1: "kv now db1 voted \<noteq> None" using pos(1) by (simp add: db1_def second_def)
  have other1: "kv now db1 k = kv now db k" if "k \<noteq> voted" for k using that by (simp add: db1_def)
  note same = counts_cong [of now db1 counts db, OF other1 [OF apart [symmetric]]]
  from hincr_all_run [OF ok, of now db1 counts ids] cok dist room same obtain db2 where
    hin: "hincr_all rd counts ids now db1 = (Inr (), db2)" "counted_in now counts ids db1 db2"
      "\<forall>k. k \<noteq> counts \<longrightarrow> db2 k = db1 k"
    by auto
  have kv2: "kv now db2 k = kv now db1 k" if "k \<noteq> counts" for k
    using hin(3) that by (simp add: kv_def)
  obtain e db3 where exp: "rd_EXPIRE rd now counts ret db2 = (Inr e, db3)"
    "\<And>k. kv now db3 k = kv now db2 k"
    using expire_run [OF ok pos(2), of now counts db2] by blast
  define db' where "db' = (if kv now db1 counts = None then db3 else db2)"
  have kv': "kv now db' k = kv now db2 k" for k by (simp add: db'_def exp(2))
  have "castBallotScript rd voted counts ttl ret ids now db = (Inr 1, db')"
    by (simp add: castBallotScript_def set1 redis_exists [OF ok] hin(1) exp(1) db'_def)
  moreover have "kv now db' voted \<noteq> None" using v1 kv' kv2 [OF apart] by simp
  moreover have "counted_in now counts ids db db'"
    using hin(2) counts_cong [of now db' counts db2, OF kv'] same by (simp add: counted_in_def)
  moreover have "kv now db' k = kv now db k" if "k \<noteq> voted" "k \<noteq> counts" for k
    using that kv' kv2 other1 by metis
  ultimately show ?thesis by blast
qed

subsection \<open>What the services observe of the store\<close>

definition store_votes :: "store_config \<Rightarrow> redis_state \<Rightarrow> string \<Rightarrow> string \<Rightarrow> int" where
  "store_votes cfg st p i =
     (\<Sum>shard\<leftarrow>[0 ..< sc_Shards cfg]. count_at (rs_now st) (rs_db st) (countsKey (tagForShard p shard)) i)"

definition store_voted :: "store_config \<Rightarrow> redis_state \<Rightarrow> string \<Rightarrow> string \<Rightarrow> bool" where
  "store_voted cfg st p h \<longleftrightarrow>
     kv (rs_now st) (rs_db st) (votedKey (shardTag cfg p h) h) \<noteq> None"

definition store_tracked :: "redis_state \<Rightarrow> string set" where
  "store_tracked st =
     (case kv (rs_now st) (rs_db st) trackedPollsKey of Some (RSet l) \<Rightarrow> set l | _ \<Rightarrow> {})"

definition store_config_ok :: "store_config \<Rightarrow> bool" where
  "store_config_ok cfg \<longleftrightarrow>
     0 < sc_Shards cfg \<and> sc_Shards cfg < 2 ^ 32
     \<and> second \<le> sc_DedupTTL cfg \<and> second \<le> sc_CounterRetention cfg"

definition store_inv :: "redis_state \<Rightarrow> bool" where
  "store_inv st \<longleftrightarrow>
     (\<forall>p i. counts_ok (rs_now st) (rs_db st) (countsKey (tagForShard p i)))
     \<and> (\<forall>v. kv (rs_now st) (rs_db st) trackedPollsKey = Some v \<longrightarrow> (\<exists>l. v = RSet l))"

lemma shard_of_lt: "store_config_ok cfg \<Longrightarrow> shard_of cfg h < sc_Shards cfg"
  by (auto simp: shard_of_def store_config_ok_def unat_mod unat_of_nat)

lemma shards_word: "store_config_ok cfg \<Longrightarrow> (word_of_nat (sc_Shards cfg) :: 32 word) \<noteq> 0"
  by (auto simp: store_config_ok_def word_of_nat_eq_0_iff dest!: nat_dvd_not_less)

lemma whole_seconds_pos: "second \<le> d \<Longrightarrow> 0 < whole_seconds d"
  by (auto simp: whole_seconds_def second_def pos_imp_zdiv_pos_iff)

lemma store_votes_nonneg: "store_inv st \<Longrightarrow> 0 \<le> store_votes cfg st p i"
  by (auto simp: store_inv_def store_votes_def intro!: sum_list_nonneg count_at_nonneg)

lemma shard_count_le:
  assumes "store_inv st" and "shard < sc_Shards cfg"
  shows "count_at (rs_now st) (rs_db st) (countsKey (tagForShard p shard)) i \<le> store_votes cfg st p i"
  unfolding store_votes_def using assms
  by (intro member_le_sum_list) (auto simp: store_inv_def count_at_nonneg)

text \<open>States that agree on the three families of keys are the same to the services.\<close>

definition same_store :: "redis_state \<Rightarrow> redis_state \<Rightarrow> bool" where
  "same_store st st' \<longleftrightarrow> rs_now st' = rs_now st
     \<and> (\<forall>p i. kv (rs_now st) (rs_db st') (countsKey (tagForShard p i)) =
              kv (rs_now st) (rs_db st) (countsKey (tagForShard p i)))
     \<and> (\<forall>p i h. hash_ok h \<longrightarrow> kv (rs_now st) (rs_db st') (votedKey (tagForShard p i) h) =
              kv (rs_now st) (rs_db st) (votedKey (tagForShard p i) h))"

definition voted_ok :: "store_config \<Rightarrow> redis_state \<Rightarrow> string \<Rightarrow> string \<Rightarrow> bool" where
  "voted_ok cfg st p h \<longleftrightarrow> hash_ok h \<and> store_voted cfg st p h"

lemma same_store_votes: "same_store st st' \<Longrightarrow> store_votes cfg st' = store_votes cfg st"
  by (auto simp: store_votes_def same_store_def fun_eq_iff count_at_def intro!: arg_cong [of _ _ sum_list])

lemma same_store_voted: "same_store st st' \<Longrightarrow> voted_ok cfg st' = voted_ok cfg st"
  by (auto simp: voted_ok_def store_voted_def same_store_def fun_eq_iff shardTag_def)

lemma same_store_counts:
  "same_store st st' \<Longrightarrow> counts_ok (rs_now st) (rs_db st') (countsKey (tagForShard p i)) =
     counts_ok (rs_now st) (rs_db st) (countsKey (tagForShard p i))"
  by (simp add: same_store_def counts_ok_def)

definition same_tracked :: "redis_state \<Rightarrow> redis_state \<Rightarrow> bool" where
  "same_tracked st st' \<longleftrightarrow> rs_now st' = rs_now st
     \<and> kv (rs_now st) (rs_db st') trackedPollsKey = kv (rs_now st) (rs_db st) trackedPollsKey"

lemma same_tracked_set: "same_tracked st st' \<Longrightarrow> store_tracked st' = store_tracked st"
  by (simp add: same_tracked_def store_tracked_def)

lemma same_inv: "same_store st st' \<Longrightarrow> same_tracked st st' \<Longrightarrow> store_inv st \<Longrightarrow> store_inv st'"
  using same_store_counts [of st st'] by (simp add: store_inv_def same_tracked_def)

lemmas same_facts = same_store_votes same_store_voted same_tracked_set same_inv

lemma same_refl:
  "rs_now st' = rs_now st \<Longrightarrow> rs_db st' = rs_db st \<Longrightarrow> same_store st st' \<and> same_tracked st st'"
  by (simp add: same_store_def same_tracked_def)

lemma kv_cong: "db' k = db k \<Longrightarrow> kv now db' k = kv now db k"
  by (simp add: kv_def)

subsection \<open>The guard\<close>

lemma limit_check_frame:
  assumes "redis_ok rd" and "x \<noteq> key" and "\<And>db. snd (k db) x = db x"
  shows "snd (limit_check rd key limit window verdict now k db) x = db x"
proof (cases "limit \<le> 0")
  case True
  with assms(3) show ?thesis by (simp add: limit_check_def)
next
  case False
  have incr: "snd (rd_INCR rd now key db) x = db x" using assms by (intro redis_incr_frame)
  have exp: "snd (if h = 1 then rd_EXPIRE rd now key window db' else (Inr 0, db')) x = db' x"
    for h :: int and db' :: rdb
    using redis_expire_frame [OF assms(1,2)] by simp
  show ?thesis
    unfolding limit_check_def using False incr
    by (simp, intro go_try_snd [where P = "\<lambda>d. d x = db x"]) (auto simp: exp assms(3))
qed

lemma guard_script_frame:
  assumes "redis_ok rd" and "x \<noteq> rateKey" and "x \<noteq> quotaKey"
  shows "snd (guardScript rd rateKey quotaKey rl rw ql qw now db) x = db x"
  unfolding guardScript_def using assms by (intro limit_check_frame) simp_all

lemma guard_same:
  assumes "redis_ok rd" and "store_Guard rd cfg req st = (r, st')"
  shows "same_store st st'" and "same_tracked st st'"
proof -
  let ?rate = "ipTag (g_ClientIP req) @ '':rl''"
  let ?quota = "ipTag (g_ClientIP req) @ '':pq:'' @ g_PollID req"
  let ?cmd = "guardScript rd ?rate ?quota (sc_RateLimit cfg) (whole_seconds (sc_RateWindow cfg))
      (sc_PollQuota cfg) (whole_seconds (sc_PollQuotaWindow cfg))"
  have st': "st' = snd (redis_call ?cmd st)"
    using assms(2) by (auto simp: store_Guard_def Let_def split: go_try_splits)
  have now: "rs_now st' = rs_now st" by (simp add: st')
  have frame: "rs_db st' x = rs_db st x" if "x \<noteq> ?rate" "x \<noteq> ?quota" for x
    unfolding st' using guard_script_frame [OF assms(1) that]
    by (intro redis_call_invariant [where P = "\<lambda>db. db x = rs_db st x"]) auto
  show "same_store st st'"
    unfolding same_store_def using now key_apart by (auto intro!: kv_cong frame)
  show "same_tracked st st'"
    unfolding same_tracked_def using now key_apart by (auto intro!: kv_cong frame)
qed

lemma guard_error:
  "store_Guard rd cfg req st = (Inl e, st') \<Longrightarrow> CodeOf e = CodeUnavailable"
  by (auto simp: store_Guard_def Let_def go_try_eq_Inl)

subsection \<open>Casting\<close>

definition cast_cmd :: "redis_cmds \<Rightarrow> store_config \<Rightarrow> Ballot \<Rightarrow> instant \<Rightarrow> rdb \<Rightarrow> (goerror + int) \<times> rdb"
where
  "cast_cmd rd cfg b =
     (let tag = shardTag cfg (b_PollID b) (b_VoterHash b)
      in castBallotScript rd (votedKey tag (b_VoterHash b)) (countsKey tag)
           (whole_seconds (sc_DedupTTL cfg)) (whole_seconds (sc_CounterRetention cfg)) (b_OptionIDs b))"

lemma cast_result:
  assumes "store_config_ok cfg" and "redis_call (cast_cmd rd cfg b) st = (q, st1)"
    and "store_CastBallot rd cfg b st = (r, st')"
  shows "st' = st1" and "q = Inl e \<Longrightarrow> \<exists>e'. r = Inl e' \<and> CodeOf e' = CodeUnavailable"
    and "q = Inr 1 \<Longrightarrow> r = Inr ()"
    and "q = Inr n \<Longrightarrow> n \<noteq> 1 \<Longrightarrow> \<exists>e'. r = Inl e' \<and> CodeOf e' = CodeAlreadyVoted"
  using assms shards_word [OF assms(1)]
  by (cases q; auto simp: store_CastBallot_def cast_cmd_def Let_def split: if_splits)+

text \<open>The script on a voter's shard, when the voter has no marker yet.\<close>

lemma cast_cmd_fresh:
  assumes ok: "redis_ok rd" and cfg: "store_config_ok cfg" and inv: "store_inv st"
    and h: "hash_ok (b_VoterHash b)" and room: "ballot_room (store_votes cfg st) b"
    and free: "\<not> store_voted cfg st (b_PollID b) (b_VoterHash b)"
  defines "tag \<equiv> shardTag cfg (b_PollID b) (b_VoterHash b)"
  shows "\<exists>db. cast_cmd rd cfg b (rs_now st) (rs_db st) = (Inr 1, db)
    \<and> cast_cmd rd cfg b (rs_now st) db = (Inr 0, db)
    \<and> kv (rs_now st) db (votedKey tag (b_VoterHash b)) \<noteq> None
    \<and> counted_in (rs_now st) (countsKey tag) (b_OptionIDs b) (rs_db st) db
    \<and> (\<forall>k. k \<noteq> votedKey tag (b_VoterHash b) \<longrightarrow> k \<noteq> countsKey tag \<longrightarrow>
          kv (rs_now st) db k = kv (rs_now st) (rs_db st) k)"
proof -
  let ?now = "rs_now st" and ?voted = "votedKey tag (b_VoterHash b)" and ?counts = "countsKey tag"
  let ?cmd = "castBallotScript rd ?voted ?counts (whole_seconds (sc_DedupTTL cfg))
      (whole_seconds (sc_CounterRetention cfg)) (b_OptionIDs b)"
  have pos: "0 < whole_seconds (sc_DedupTTL cfg)" "0 < whole_seconds (sc_CounterRetention cfg)"
    using cfg by (auto simp: store_config_ok_def intro: whole_seconds_pos)
  have free': "kv ?now (rs_db st) ?voted = None"
    using free by (simp add: store_voted_def tag_def)
  have cok: "counts_ok ?now (rs_db st) ?counts" using inv by (simp add: store_inv_def tag_def shardTag_def)
  have le: "count_at ?now (rs_db st) ?counts i \<le> store_votes cfg st (b_PollID b) i" for i
    using shard_count_le [OF inv shard_of_lt [OF cfg]] by (simp add: tag_def shardTag_def)
  have roomk: "\<forall>i \<in> set (b_OptionIDs b). count_at ?now (rs_db st) ?counts i < max_int64"
    using room le by (auto simp: ballot_room_def intro: le_less_trans)
  have dist: "distinct (b_OptionIDs b)" using room by (simp add: ballot_room_def)
  obtain db where
    first: "?cmd ?now (rs_db st) = (Inr 1, db)" and
    db: "kv ?now db ?voted \<noteq> None" "counted_in ?now ?counts (b_OptionIDs b) (rs_db st) db"
      "\<forall>k. k \<noteq> ?voted \<longrightarrow> k \<noteq> ?counts \<longrightarrow> kv ?now db k = kv ?now (rs_db st) k"
    using cast_script_fresh [OF ok pos voted_not_counts [OF h] free' cok dist roomk] by blast
  have "?cmd ?now db = (Inr 0, db)" by (rule cast_script_again [OF ok pos(1) db(1)])
  with first db show ?thesis by (auto simp: cast_cmd_def tag_def Let_def)
qed

lemma cast_once:
  assumes ok: "redis_ok rd" and cfg: "store_config_ok cfg" and inv: "store_inv st"
    and h: "hash_ok (b_VoterHash b)" and room: "ballot_room (store_votes cfg st) b"
    and free: "\<not> store_voted cfg st (b_PollID b) (b_VoterHash b)"
    and run: "store_CastBallot rd cfg b st = (r, st')"
  defines "tag \<equiv> shardTag cfg (b_PollID b) (b_VoterHash b)"
  shows "rs_now st' = rs_now st"
    and "(rs_db st' = rs_db st \<and> (\<exists>e. r = Inl e \<and> CodeOf e = CodeUnavailable))
      \<or> (kv (rs_now st) (rs_db st') (votedKey tag (b_VoterHash b)) \<noteq> None
         \<and> counted_in (rs_now st) (countsKey tag) (b_OptionIDs b) (rs_db st) (rs_db st')
         \<and> (\<forall>k. k \<noteq> votedKey tag (b_VoterHash b) \<longrightarrow> k \<noteq> countsKey tag \<longrightarrow>
              kv (rs_now st) (rs_db st') k = kv (rs_now st) (rs_db st) k)
         \<and> (\<forall>e. r = Inl e \<longrightarrow> CodeOf e \<in> {CodeAlreadyVoted, CodeUnavailable}))"
proof -
  let ?now = "rs_now st" and ?voted = "votedKey tag (b_VoterHash b)" and ?counts = "countsKey tag"
  from cast_cmd_fresh [OF ok cfg inv h room free] obtain db where
    first: "cast_cmd rd cfg b ?now (rs_db st) = (Inr 1, db)" and again: "cast_cmd rd cfg b ?now db = (Inr 0, db)" and
    db: "kv ?now db ?voted \<noteq> None" "counted_in ?now ?counts (b_OptionIDs b) (rs_db st) db"
      "\<forall>k. k \<noteq> ?voted \<longrightarrow> k \<noteq> ?counts \<longrightarrow> kv ?now db k = kv ?now (rs_db st) k"
    unfolding tag_def by blast
  obtain q st1 where call: "redis_call (cast_cmd rd cfg b) st = (q, st1)" by fastforce
  note res = cast_result [OF cfg call run]
  note once = redis_call_once [of "cast_cmd rd cfg b" st, OF first again call]
  show "rs_now st' = rs_now st" using once(1) res(1) by simp
  have r0: "\<exists>e. q = Inl e \<Longrightarrow> \<exists>e. r = Inl e \<and> CodeOf e = CodeUnavailable" using res(2) by blast
  have r1: "q = Inr 1 \<or> q = Inr 0 \<or> (\<exists>e. q = Inl e) \<Longrightarrow>
      \<forall>e. r = Inl e \<longrightarrow> CodeOf e \<in> {CodeAlreadyVoted, CodeUnavailable}"
    using r0 res(3) res(4) [of 0] by auto
  show "(rs_db st' = rs_db st \<and> (\<exists>e. r = Inl e \<and> CodeOf e = CodeUnavailable))
      \<or> (kv ?now (rs_db st') ?voted \<noteq> None
         \<and> counted_in ?now ?counts (b_OptionIDs b) (rs_db st) (rs_db st')
         \<and> (\<forall>k. k \<noteq> ?voted \<longrightarrow> k \<noteq> ?counts \<longrightarrow> kv ?now (rs_db st') k = kv ?now (rs_db st) k)
         \<and> (\<forall>e. r = Inl e \<longrightarrow> CodeOf e \<in> {CodeAlreadyVoted, CodeUnavailable}))"
    using once(2)
  proof (elim disjE conjE)
    assume "rs_db st1 = rs_db st" and "\<exists>e. q = Inl e"
    then show ?thesis using res(1) r0 by simp
  qed (use res(1) r1 db in simp_all)
qed

text \<open>The counted ballot seen through the sums over the shards.\<close>

lemma counted_votes:
  assumes cfg: "store_config_ok cfg" and now: "rs_now st' = rs_now st"
    and c: "counted_in (rs_now st) (countsKey (tagForShard p sh)) ids (rs_db st) (rs_db st')"
    and sh: "sh < sc_Shards cfg"
    and frame: "\<And>q i. (q, i) \<noteq> (p, sh) \<Longrightarrow>
      kv (rs_now st) (rs_db st') (countsKey (tagForShard q i)) =
      kv (rs_now st) (rs_db st) (countsKey (tagForShard q i))"
  shows "store_votes cfg st' q o' = store_votes cfg st q o' + (if q = p \<and> o' \<in> set ids then 1 else 0)"
proof (cases "q = p")
  case False
  with frame now show ?thesis
    by (simp add: store_votes_def count_at_def)
next
  case True
  have "(\<Sum>i\<leftarrow>[0 ..< sc_Shards cfg]. count_at (rs_now st) (rs_db st') (countsKey (tagForShard p i)) o')
      = (\<Sum>i\<leftarrow>[0 ..< sc_Shards cfg]. count_at (rs_now st) (rs_db st) (countsKey (tagForShard p i)) o')
        + (if o' \<in> set ids then 1 else 0)"
    using c sh frame by (intro sum_list_single [of _ sh]) (auto simp: counted_in_def count_at_def)
  with True now show ?thesis by (simp add: store_votes_def)
qed

text \<open>What a ballot that was claimed and counted leaves to be seen: its own counts and its own mark.\<close>

lemma counted_observed:
  assumes cfg: "store_config_ok cfg" and inv: "store_inv st" and h: "hash_ok (b_VoterHash b)"
    and now: "rs_now st' = rs_now st"
    and tag: "tag = tagForShard (b_PollID b) (shard_of cfg (b_VoterHash b))"
    and v: "kv (rs_now st) (rs_db st') (votedKey tag (b_VoterHash b)) \<noteq> None"
    and c: "counted_in (rs_now st) (countsKey tag) (b_OptionIDs b) (rs_db st) (rs_db st')"
    and frame: "\<forall>k. k \<noteq> votedKey tag (b_VoterHash b) \<longrightarrow> k \<noteq> countsKey tag \<longrightarrow>
      kv (rs_now st) (rs_db st') k = kv (rs_now st) (rs_db st) k"
  shows "store_inv st'" "store_tracked st' = store_tracked st"
    and "store_votes cfg st' = add_ballot b (store_votes cfg st)"
    and "voted_ok cfg st' (b_PollID b) (b_VoterHash b)"
    and "hash_ok k \<Longrightarrow> (p, k) \<noteq> (b_PollID b, b_VoterHash b) \<Longrightarrow>
      voted_ok cfg st' p k = voted_ok cfg st p k"
proof -
  let ?sh = "shard_of cfg (b_VoterHash b)"
  have fc: "kv (rs_now st) (rs_db st') (countsKey (tagForShard q i)) =
      kv (rs_now st) (rs_db st) (countsKey (tagForShard q i))"
    if "(q, i) \<noteq> (b_PollID b, ?sh)" for q i
    using frame that voted_not_counts [OF h, of tag "tagForShard q i"] tag by auto
  show "store_votes cfg st' = add_ballot b (store_votes cfg st)"
    using counted_votes [OF cfg now c [unfolded tag] shard_of_lt [OF cfg] fc]
    by (auto simp: add_ballot_def fun_eq_iff)
  show "voted_ok cfg st' (b_PollID b) (b_VoterHash b)"
    using v h now tag by (simp add: voted_ok_def store_voted_def shardTag_def)
  have "kv (rs_now st) (rs_db st') trackedPollsKey = kv (rs_now st) (rs_db st) trackedPollsKey"
    using frame key_apart unfolding tag by metis
  then have tr: "same_tracked st st'" using now by (simp add: same_tracked_def)
  then show "store_tracked st' = store_tracked st" by (rule same_tracked_set)
  have cnt: "counts_ok (rs_now st) (rs_db st') (countsKey (tagForShard q i))" for q i
    using c fc [of q i] inv tag by (cases "(q, i) = (b_PollID b, ?sh)")
      (auto simp: counted_in_def counts_ok_def store_inv_def)
  then show "store_inv st'" using inv tr by (simp add: store_inv_def same_tracked_def)
  assume k: "hash_ok k" "(p, k) \<noteq> (b_PollID b, b_VoterHash b)"
  have "votedKey (tagForShard p (shard_of cfg k)) k \<noteq> votedKey tag (b_VoterHash b)"
    using k votedKey_inj [OF k(1) h] tag by auto
  with frame voted_not_counts [OF k(1)] now show "voted_ok cfg st' p k = voted_ok cfg st p k"
    by (auto simp: voted_ok_def store_voted_def shardTag_def)
qed

lemma cast_observed:
  assumes ok: "redis_ok rd" and cfg: "store_config_ok cfg" and inv: "store_inv st"
    and h: "hash_ok (b_VoterHash b)" and room: "ballot_room (store_votes cfg st) b"
    and free: "\<not> store_voted cfg st (b_PollID b) (b_VoterHash b)"
    and run: "store_CastBallot rd cfg b st = (r, st')"
  shows "store_inv st'" "store_tracked st' = store_tracked st"
    and "(store_votes cfg st' = add_ballot b (store_votes cfg st)
          \<and> voted_ok cfg st' (b_PollID b) (b_VoterHash b)
          \<and> (\<forall>e. r = Inl e \<longrightarrow> CodeOf e \<in> {CodeAlreadyVoted, CodeUnavailable}))
       \<or> (store_votes cfg st' = store_votes cfg st \<and> voted_ok cfg st' = voted_ok cfg st
          \<and> (\<exists>e. r = Inl e \<and> CodeOf e = CodeUnavailable))"
    and "hash_ok k \<Longrightarrow> (p, k) \<noteq> (b_PollID b, b_VoterHash b) \<Longrightarrow>
      voted_ok cfg st' p k = voted_ok cfg st p k"
proof -
  let ?sh = "shard_of cfg (b_VoterHash b)"
  let ?tag = "tagForShard (b_PollID b) ?sh"
  let ?vk = "votedKey ?tag (b_VoterHash b)"
  note once = cast_once [OF assms, unfolded shardTag_def]
  have "store_inv st' \<and> store_tracked st' = store_tracked st \<and>
      ((store_votes cfg st' = add_ballot b (store_votes cfg st)
          \<and> voted_ok cfg st' (b_PollID b) (b_VoterHash b)
          \<and> (\<forall>e. r = Inl e \<longrightarrow> CodeOf e \<in> {CodeAlreadyVoted, CodeUnavailable}))
       \<or> (store_votes cfg st' = store_votes cfg st \<and> voted_ok cfg st' = voted_ok cfg st
          \<and> (\<exists>e. r = Inl e \<and> CodeOf e = CodeUnavailable)))
      \<and> (hash_ok k \<longrightarrow> (p, k) \<noteq> (b_PollID b, b_VoterHash b) \<longrightarrow>
          voted_ok cfg st' p k = voted_ok cfg st p k)"
    using once(2)
  proof (elim disjE conjE)
    assume db: "rs_db st' = rs_db st" and e: "\<exists>e. r = Inl e \<and> CodeOf e = CodeUnavailable"
    from same_refl [OF once(1) db] same_facts inv e show ?thesis by metis
  next
    assume v: "kv (rs_now st) (rs_db st') ?vk \<noteq> None"
      and c: "counted_in (rs_now st) (countsKey ?tag) (b_OptionIDs b) (rs_db st) (rs_db st')"
      and frame: "\<forall>k. k \<noteq> ?vk \<longrightarrow> k \<noteq> countsKey ?tag \<longrightarrow>
         kv (rs_now st) (rs_db st') k = kv (rs_now st) (rs_db st) k"
      and e: "\<forall>e. r = Inl e \<longrightarrow> CodeOf e \<in> {CodeAlreadyVoted, CodeUnavailable}"
    from counted_observed [OF cfg inv h once(1) refl v c frame] e show ?thesis by blast
  qed
  then show "store_inv st'" "store_tracked st' = store_tracked st"
    and "(store_votes cfg st' = add_ballot b (store_votes cfg st)
          \<and> voted_ok cfg st' (b_PollID b) (b_VoterHash b)
          \<and> (\<forall>e. r = Inl e \<longrightarrow> CodeOf e \<in> {CodeAlreadyVoted, CodeUnavailable}))
       \<or> (store_votes cfg st' = store_votes cfg st \<and> voted_ok cfg st' = voted_ok cfg st
          \<and> (\<exists>e. r = Inl e \<and> CodeOf e = CodeUnavailable))"
    and "hash_ok k \<Longrightarrow> (p, k) \<noteq> (b_PollID b, b_VoterHash b) \<Longrightarrow>
      voted_ok cfg st' p k = voted_ok cfg st p k" by auto
qed

lemma cast_again_observed:
  assumes ok: "redis_ok rd" and cfg: "store_config_ok cfg"
    and voted: "store_voted cfg st (b_PollID b) (b_VoterHash b)"
    and run: "store_CastBallot rd cfg b st = (r, st')"
  shows "rs_now st' = rs_now st" and "rs_db st' = rs_db st"
    and "\<exists>e. r = Inl e \<and> CodeOf e \<in> {CodeAlreadyVoted, CodeUnavailable}"
proof -
  let ?cmd = "cast_cmd rd cfg b"
  have "0 < whole_seconds (sc_DedupTTL cfg)"
    using cfg by (auto simp: store_config_ok_def intro: whole_seconds_pos)
  with ok voted have same: "?cmd (rs_now st) (rs_db st) = (Inr 0, rs_db st)"
    by (simp add: cast_cmd_def Let_def cast_script_again store_voted_def)
  obtain q st1 where call: "redis_call ?cmd st = (q, st1)" by fastforce
  note res = cast_result [OF cfg call run]
  note read = redis_call_read [of ?cmd st, OF same, unfolded call]
  show "rs_now st' = rs_now st" "rs_db st' = rs_db st"
    using redis_call_now [of ?cmd st] read(1) call res(1) by simp_all
  have "q = Inr 0 \<or> (\<exists>e. q = Inl e)" using read(2) by simp
  then show "\<exists>e. r = Inl e \<and> CodeOf e \<in> {CodeAlreadyVoted, CodeUnavailable}"
    using res(2) res(4) [of 0] by auto
qed

end
