(* ===== verification/Votestore_Contract.thy ===== *)
theory Votestore_Contract
  imports Votestore_Laws
begin

text \<open>
  Reading the counters and the tracked set, and the interpretation of the \<open>vote_store\<close>
  contract on the Redis store: everything the services prove from the contract holds of
  this store, for every Redis that satisfies \<open>redis_ok\<close> and every network fate.
\<close>

subsection \<open>Counters\<close>

text \<open>A reply of one shard: every field once, with the values the hash holds.\<close>

definition shard_reply :: "instant \<Rightarrow> rdb \<Rightarrow> string \<Rightarrow> (string \<times> string) list \<Rightarrow> bool" where
  "shard_reply now db key reply \<longleftrightarrow> distinct (map fst reply)
     \<and> (\<forall>f v. map_of reply f = Some v \<longrightarrow> (\<exists>n. parse_int v = Some n))
     \<and> (\<forall>f. field_val reply f = count_at now db key f)"

lemma hgetall_reply:
  assumes "redis_ok rd" and "counts_ok now db key"
  shows "\<exists>l. rd_HGETALL rd now key db = (Inr l, db) \<and> shard_reply now db key l"
proof (cases "kv now db key")
  case None
  with redis_hgetall(1) [OF assms(1)] show ?thesis
    by (auto simp: shard_reply_def field_val_def count_at_def)
next
  case (Some v)
  with assms(2) obtain h where h: "v = RHash h"
    and hv: "\<forall>f v. map_of h f = Some v \<longrightarrow> (\<exists>n. parse_int v = Some n \<and> 0 \<le> n)"
    by (auto simp: counts_ok_def split: rvalue.splits)
  from redis_hgetall(2) [OF assms(1) Some [unfolded h]] obtain l where
    l: "rd_HGETALL rd now key db = (Inr l, db)" "distinct (map fst l)" "map_of l = map_of h"
    by blast
  then show ?thesis
    using Some h hv by (fastforce simp: shard_reply_def field_val_def count_at_def)
qed

lemma hgetall_shards_run:
  assumes "redis_ok rd" and "\<forall>k \<in> set ks. counts_ok now db k"
  shows "\<exists>rs. hgetall_shards rd ks now db = (Inr rs, db) \<and> list_all2 (shard_reply now db) ks rs"
  using assms(2)
proof (induction ks)
  case (Cons k ks)
  then obtain rs where "hgetall_shards rd ks now db = (Inr rs, db)"
    "list_all2 (shard_reply now db) ks rs" by auto
  with hgetall_reply [OF assms(1), of now db k] Cons.prems show ?case by auto
qed simp

lemma field_val_Cons:
  "field_val ((f, v) # r) i =
     (if i = f then (case parse_int v of None \<Rightarrow> 0 | Some n \<Rightarrow> n) else field_val r i)"
  by (simp add: field_val_def)

lemma add_reply_keys: "add_reply reply counts = Inr m \<Longrightarrow> map fst m = map fst counts"
proof (induction reply counts rule: add_reply.induct)
  case (2 optionID raw rest counts)
  then show ?case
    by (cases "map_of counts optionID"; cases "parse_int raw")
      (force simp: update_keys map_of_eq_None_iff dest: map_of_SomeD)+
qed simp

lemma add_replies_keys: "add_replies rs counts = Inr m \<Longrightarrow> map fst m = map fst counts"
  by (induction rs counts rule: add_replies.induct) (auto split: sum.splits dest: add_reply_keys)

lemma field_val_fresh: "f \<notin> fst ` set reply \<Longrightarrow> field_val reply f = 0"
  by (simp add: field_val_def map_of_eq_None_iff [THEN iffD2])

lemma add_reply_value:
  assumes "distinct (map fst reply)"
    and "\<forall>f v. map_of reply f = Some v \<longrightarrow> (\<exists>n. parse_int v = Some n)"
  shows "\<exists>m. add_reply reply counts = Inr m
    \<and> (\<forall>i \<in> fst ` set counts. lookup0 m i = lookup0 counts i + int64_of (field_val reply i))"
  using assms
proof (induction reply counts rule: add_reply.induct)
  case (1 counts)
  then show ?case by (simp add: field_val_def int64_of_def)
next
  case (2 f raw rest counts)
  obtain n where n: "parse_int raw = Some n" using 2(4) by (metis map_of_Cons_code(2))
  have rest: "distinct (map fst rest)" "\<forall>f v. map_of rest f = Some v \<longrightarrow> (\<exists>n. parse_int v = Some n)"
    using 2(3,4) by (auto split: if_splits)
  have fresh: "field_val rest f = 0" using 2(3) by (intro field_val_fresh) simp
  show ?case
  proof (cases "map_of counts f")
    case None
    then have "f \<notin> fst ` set counts" by (simp add: map_of_eq_None_iff)
    with 2(1) [OF None rest] None show ?thesis by (auto simp: field_val_Cons)
  next
    case (Some c)
    have keys: "fst ` set (AList.update f (c + int64_of n) counts) = fst ` set counts"
      using Some by (simp add: dom_map_of_conv_image_fst [symmetric] update_conv' insert_absorb domI)
    from 2(2) [OF Some n rest] obtain m where
      m: "add_reply rest (AList.update f (c + int64_of n) counts) = Inr m"
      "\<forall>i \<in> fst ` set counts. lookup0 m i =
         lookup0 (AList.update f (c + int64_of n) counts) i + int64_of (field_val rest i)"
      unfolding keys by blast
    have "lookup0 counts f = c" using Some by (simp add: lookup0_def)
    with m fresh n show ?thesis
      using Some by (auto simp: field_val_Cons lookup0_update int64_of_def)
  qed
qed

lemma add_replies_value:
  assumes "list_all2 (shard_reply now db) ks rs"
  shows "\<exists>m. add_replies rs counts = Inr m
    \<and> (\<forall>i \<in> fst ` set counts. lookup0 m i =
         lookup0 counts i + int64_of (\<Sum>k\<leftarrow>ks. count_at now db k i))"
  using assms
proof (induction ks rs arbitrary: counts rule: list_all2_induct)
  case Nil
  then show ?case by (simp add: int64_of_def)
next
  case (Cons k ks r rs)
  from Cons.hyps(1) obtain m where m: "add_reply r counts = Inr m"
    "\<forall>i \<in> fst ` set counts. lookup0 m i = lookup0 counts i + int64_of (count_at now db k i)"
    using add_reply_value [of r counts] by (auto simp: shard_reply_def)
  have keys: "fst ` set m = fst ` set counts"
    using add_reply_keys [OF m(1)] by (metis set_map)
  from Cons.IH [of m] obtain m' where "add_replies rs m = Inr m'"
    "\<forall>i \<in> fst ` set counts. lookup0 m' i = lookup0 m i + int64_of (\<Sum>k\<leftarrow>ks. count_at now db k i)"
    unfolding keys by blast
  with m show ?case by (auto simp: int64_of_def add.assoc)
qed

lemma zero_counts_snoc: "zero_counts (ids @ [i]) = AList.update i 0 (zero_counts ids)"
  by (simp add: zero_counts_def)

lemma zero_counts_facts:
  "distinct (map fst (zero_counts ids))" "fst ` set (zero_counts ids) = set ids"
  "lookup0 (zero_counts ids) i = 0"
proof (induction ids rule: rev_induct)
  case Nil
  { case 1 show ?case by (simp add: zero_counts_def) }
  { case 2 show ?case by (simp add: zero_counts_def) }
  { case 3 show ?case by (simp add: zero_counts_def) }
next
  case (snoc x xs)
  { case 1 show ?case using snoc(1) by (simp add: zero_counts_snoc distinct_update) }
  { case 2 show ?case using snoc(2)
      by (simp add: zero_counts_snoc dom_map_of_conv_image_fst [symmetric] update_conv') }
  { case 3 show ?case using snoc(3) by (simp add: zero_counts_snoc lookup0_update) }
qed

lemma counters_result:
  assumes ok: "redis_ok rd" and inv: "store_inv st"
    and run: "store_Counters rd cfg p ids st = (r, st')"
  shows "rs_now st' = rs_now st" "rs_db st' = rs_db st"
    and "(\<exists>e. r = Inl e \<and> CodeOf e = CodeUnavailable)
       \<or> (\<exists>m. r = Inr m \<and> (\<forall>i \<in> set ids. lookup0 m i = int64_of (store_votes cfg st p i)))"
proof -
  let ?keys = "map (\<lambda>shard. countsKey (tagForShard p shard)) [0 ..< sc_Shards cfg]"
  let ?cmd = "hgetall_shards rd ?keys"
  from hgetall_shards_run [OF ok, of ?keys "rs_now st" "rs_db st"] inv obtain rs where
    rs: "?cmd (rs_now st) (rs_db st) = (Inr rs, rs_db st)"
      "list_all2 (shard_reply (rs_now st) (rs_db st)) ?keys rs"
    by (auto simp: store_inv_def)
  obtain q st1 where call: "redis_call ?cmd st = (q, st1)" by fastforce
  note read = redis_call_read [of ?cmd st, OF rs(1), unfolded call]
  have st': "st' = st1" and r: "r = (case q of
      Inl e \<Rightarrow> Inl (WrapError CodeUnavailable e ''vote counters are temporarily unavailable'')
    | Inr replies \<Rightarrow> add_replies replies (zero_counts ids))"
    using run call by (auto simp: store_Counters_def split: go_try_splits)
  show "rs_now st' = rs_now st" "rs_db st' = rs_db st"
    using redis_call_now [of ?cmd st] read(1) call st' by simp_all
  from add_replies_value [OF rs(2), of "zero_counts ids"]
  have "\<exists>m. add_replies rs (zero_counts ids) = Inr m
      \<and> (\<forall>i \<in> set ids. lookup0 m i = int64_of (store_votes cfg st p i))"
    by (simp add: zero_counts_facts store_votes_def o_def)
  then show "(\<exists>e. r = Inl e \<and> CodeOf e = CodeUnavailable)
       \<or> (\<exists>m. r = Inr m \<and> (\<forall>i \<in> set ids. lookup0 m i = int64_of (store_votes cfg st p i)))"
    using read(2) r by auto
qed

lemma counters_keys:
  assumes "store_Counters rd cfg p ids st = (Inr m, st')"
  shows "distinct (map fst m)" "set (map fst m) = set ids"
proof -
  from assms obtain rs where "add_replies rs (zero_counts ids) = Inr m"
    by (auto simp: store_Counters_def go_try_eq_Inr)
  from add_replies_keys [OF this] zero_counts_facts(1,2) [of ids]
  show "distinct (map fst m)" "set (map fst m) = set ids" by simp_all
qed

subsection \<open>The tracked set\<close>

definition members_of :: "rvalue option \<Rightarrow> string set" where
  "members_of v = (case v of Some (RSet l) \<Rightarrow> set l | _ \<Rightarrow> {})"

lemma store_tracked_members: "store_tracked st = members_of (kv (rs_now st) (rs_db st) trackedPollsKey)"
  by (simp add: store_tracked_def members_of_def)

definition is_set :: "rvalue option \<Rightarrow> bool" where
  "is_set v \<longleftrightarrow> (\<forall>x. v = Some x \<longrightarrow> (\<exists>l. x = RSet l))"

lemma is_set_cases:
  assumes "is_set v"
  obtains "v = None" | l where "v = Some (RSet l)"
  using assms by (cases v) (auto simp: is_set_def)

lemma kv_triv: "kv now db k = Some v \<Longrightarrow> db(k \<mapsto> (v, deadline db k)) = db"
  by (auto simp: kv_def deadline_def fun_eq_iff split: option.splits if_splits)

lemma kv_delete [simp]: "kv now (db(k := None)) k = None"
  by (simp add: kv_def)

lemma sadd_run:
  assumes "redis_ok rd" and "is_set (kv now db k)"
  shows "\<exists>n n' db'. rd_SADD rd now k m db = (Inr n, db') \<and> rd_SADD rd now k m db' = (Inr n', db')
    \<and> is_set (kv now db' k) \<and> members_of (kv now db' k) = insert m (members_of (kv now db k))
    \<and> (\<forall>x. x \<noteq> k \<longrightarrow> db' x = db x)"
  using assms(2)
proof (cases rule: is_set_cases)
  case 1
  let ?db' = "db(k \<mapsto> (RSet [m], None))"
  have kv': "kv now ?db' k = Some (RSet [m])" by simp
  have "rd_SADD rd now k m ?db' = (Inr 0, ?db')"
    using redis_sets(2) [OF assms(1) kv', of m] kv_triv [OF kv'] by simp
  moreover have "rd_SADD rd now k m db = (Inr 1, ?db')"
    using redis_sets(1) [OF assms(1) 1] by simp
  ultimately show ?thesis using 1 kv' by (fastforce simp: is_set_def members_of_def)
next
  case (2 l)
  let ?db' = "db(k \<mapsto> (RSet (List.insert m l), deadline db k))"
  have kv': "kv now ?db' k = Some (RSet (List.insert m l))"
    by (simp add: kv_upd_same_deadline 2)
  have "rd_SADD rd now k m ?db' = (Inr 0, ?db')"
    using redis_sets(2) [OF assms(1) kv', of m] kv_triv [OF kv'] by simp
  moreover have "\<exists>n. rd_SADD rd now k m db = (Inr n, ?db')"
    using redis_sets(2) [OF assms(1) 2] by simp
  ultimately show ?thesis using 2 kv' by (fastforce simp: is_set_def members_of_def)
qed

lemma srem_run:
  assumes "redis_ok rd" and "is_set (kv now db k)"
  shows "\<exists>n n' db'. rd_SREM rd now k m db = (Inr n, db') \<and> rd_SREM rd now k m db' = (Inr n', db')
    \<and> is_set (kv now db' k) \<and> members_of (kv now db' k) = members_of (kv now db k) - {m}
    \<and> (\<forall>x. x \<noteq> k \<longrightarrow> db' x = db x)"
  using assms(2)
proof (cases rule: is_set_cases)
  case 1
  with redis_sets(1) [OF assms(1) 1] show ?thesis by (fastforce simp: is_set_def members_of_def)
next
  case (2 l)
  show ?thesis
  proof (cases "removeAll m l = []")
    case True
    let ?db' = "db(k := None)"
    have kv': "kv now ?db' k = None" by simp
    have "\<exists>n. rd_SREM rd now k m db = (Inr n, ?db')"
      using redis_sets(2) [OF assms(1) 2] True by simp
    moreover have "rd_SREM rd now k m ?db' = (Inr 0, ?db')"
      using redis_sets(1) [OF assms(1) kv'] by simp
    moreover have "set l - {m} = {}" using True by (metis set_removeAll list.set(1))
    ultimately show ?thesis using 2 kv' by (fastforce simp: is_set_def members_of_def)
  next
    case False
    let ?db' = "db(k \<mapsto> (RSet (removeAll m l), deadline db k))"
    have kv': "kv now ?db' k = Some (RSet (removeAll m l))"
      by (simp add: kv_upd_same_deadline 2)
    have "rd_SREM rd now k m ?db' = (Inr 0, ?db')"
      using redis_sets(2) [OF assms(1) kv', of m] kv_triv [OF kv'] False by simp
    moreover have "\<exists>n. rd_SREM rd now k m db = (Inr n, ?db')"
      using redis_sets(2) [OF assms(1) 2] False by simp
    ultimately show ?thesis using 2 kv' by (fastforce simp: is_set_def members_of_def)
  qed
qed

text \<open>A command that writes the tracked set only, twice as well as once.\<close>

lemma tracked_write:
  assumes inv: "store_inv st"
    and cmd: "cmd (rs_now st) (rs_db st) = (Inr n, db)" "cmd (rs_now st) db = (Inr n', db)"
    and set: "is_set (kv (rs_now st) db trackedPollsKey)"
    and frame: "\<forall>x. x \<noteq> trackedPollsKey \<longrightarrow> db x = rs_db st x"
    and call: "redis_call cmd st = (q, st')"
  shows "store_inv st' \<and> store_votes cfg st' = store_votes cfg st \<and> voted_ok cfg st' = voted_ok cfg st
    \<and> (store_tracked st' = members_of (kv (rs_now st) db trackedPollsKey)
       \<or> store_tracked st' = store_tracked st \<and> (\<exists>e. q = Inl e))"
proof -
  note once = redis_call_once [where cmd = cmd, OF cmd call]
  have same: "same_store st st'"
    using once frame tracked_key_apart unfolding same_store_def by (metis kv_cong)
  have "is_set (kv (rs_now st) (rs_db st') trackedPollsKey)"
    using once(2) set inv by (auto simp: store_inv_def is_set_def)
  then have "store_inv st'"
    using inv same_store_counts [OF same] once(1) by (simp add: store_inv_def is_set_def)
  moreover have "store_tracked st' = members_of (kv (rs_now st) db trackedPollsKey)
       \<or> store_tracked st' = store_tracked st \<and> (\<exists>e. q = Inl e)"
    using once by (auto simp: store_tracked_members)
  ultimately show ?thesis using same_store_votes [OF same] same_store_voted [OF same] by simp
qed

lemma store_inv_set: "store_inv st \<Longrightarrow> is_set (kv (rs_now st) (rs_db st) trackedPollsKey)"
  by (simp add: store_inv_def is_set_def)

lemma track_observed:
  assumes "redis_ok rd" and "store_inv st" and "store_TrackPoll rd p st = (r, st')"
  shows "store_inv st' \<and> store_votes cfg st' = store_votes cfg st \<and> voted_ok cfg st' = voted_ok cfg st
    \<and> (store_tracked st' = insert p (store_tracked st)
       \<or> store_tracked st' = store_tracked st \<and> (\<exists>e. r = Inl e))"
proof -
  let ?cmd = "\<lambda>now. rd_SADD rd now trackedPollsKey p"
  from sadd_run [OF assms(1) store_inv_set [OF assms(2)], of p] obtain n n' db where
    run: "?cmd (rs_now st) (rs_db st) = (Inr n, db)" "?cmd (rs_now st) db = (Inr n', db)"
      "is_set (kv (rs_now st) db trackedPollsKey)" "\<forall>x. x \<noteq> trackedPollsKey \<longrightarrow> db x = rs_db st x"
    and mem: "members_of (kv (rs_now st) db trackedPollsKey) = insert p (store_tracked st)"
    by (auto simp: store_tracked_members)
  obtain q st1 where call: "redis_call ?cmd st = (q, st1)" by fastforce
  with assms(3) have "st' = st1" "\<forall>e. q = Inl e \<longrightarrow> (\<exists>e. r = Inl e)"
    by (auto simp: store_TrackPoll_def split: go_try_splits)
  with tracked_write [where cmd = ?cmd, OF assms(2) run call, of cfg] mem show ?thesis by auto
qed

lemma untrack_observed:
  assumes "redis_ok rd" and "store_inv st" and "store_UntrackPoll rd p st = (r, st')"
  shows "store_inv st' \<and> store_votes cfg st' = store_votes cfg st \<and> voted_ok cfg st' = voted_ok cfg st
    \<and> (store_tracked st' = store_tracked st - {p}
       \<or> store_tracked st' = store_tracked st \<and> (\<exists>e. r = Inl e))"
proof -
  let ?cmd = "\<lambda>now. rd_SREM rd now trackedPollsKey p"
  from srem_run [OF assms(1) store_inv_set [OF assms(2)], of p] obtain n n' db where
    run: "?cmd (rs_now st) (rs_db st) = (Inr n, db)" "?cmd (rs_now st) db = (Inr n', db)"
      "is_set (kv (rs_now st) db trackedPollsKey)" "\<forall>x. x \<noteq> trackedPollsKey \<longrightarrow> db x = rs_db st x"
    and mem: "members_of (kv (rs_now st) db trackedPollsKey) = store_tracked st - {p}"
    by (auto simp: store_tracked_members)
  obtain q st1 where call: "redis_call ?cmd st = (q, st1)" by fastforce
  with assms(3) have "st' = st1" "\<forall>e. q = Inl e \<longrightarrow> (\<exists>e. r = Inl e)"
    by (auto simp: store_UntrackPoll_def split: go_try_splits)
  with tracked_write [where cmd = ?cmd, OF assms(2) run call, of cfg] mem show ?thesis by auto
qed

lemma tracked_observed:
  assumes "redis_ok rd" and "store_inv st" and "store_TrackedPolls rd st = (r, st')"
  shows "rs_now st' = rs_now st" "rs_db st' = rs_db st"
    and "r = Inr ps \<Longrightarrow> distinct ps \<and> set ps = store_tracked st"
proof -
  let ?cmd = "\<lambda>now. rd_SMEMBERS rd now trackedPollsKey"
  have "\<exists>l. ?cmd (rs_now st) (rs_db st) = (Inr l, rs_db st) \<and> distinct l \<and> set l = store_tracked st"
    using store_inv_set [OF assms(2)]
  proof (cases rule: is_set_cases)
    case 1
    with redis_sets(1) [OF assms(1) 1] show ?thesis by (simp add: store_tracked_def)
  next
    case (2 l)
    with redis_sets(2) [OF assms(1) 2] show ?thesis by (auto simp: store_tracked_def)
  qed
  then obtain l where l: "?cmd (rs_now st) (rs_db st) = (Inr l, rs_db st)"
    "distinct l" "set l = store_tracked st" by blast
  obtain q st1 where call: "redis_call ?cmd st = (q, st1)" by fastforce
  note read = redis_call_read [where cmd = ?cmd and st = st, OF l(1), unfolded call]
  from assms(3) call have st: "st' = st1" "\<forall>ps. r = Inr ps \<longrightarrow> q = Inr ps"
    by (auto simp: store_TrackedPolls_def split: go_try_splits)
  show "rs_now st' = rs_now st" "rs_db st' = rs_db st"
    using redis_call_now [of ?cmd st] read(1) call st(1) by simp_all
  show "r = Inr ps \<Longrightarrow> distinct ps \<and> set ps = store_tracked st"
    using st(2) read(2) l(2,3) by auto
qed

subsection \<open>The contract holds of the store\<close>

lemma Store_simps [simp]:
  "vs_Guard (Store rd cfg) = store_Guard rd cfg"
  "vs_CastBallot (Store rd cfg) = store_CastBallot rd cfg"
  "vs_Counters (Store rd cfg) = store_Counters rd cfg"
  "vs_TrackPoll (Store rd cfg) = store_TrackPoll rd"
  "vs_TrackedPolls (Store rd cfg) = store_TrackedPolls rd"
  "vs_UntrackPoll (Store rd cfg) = store_UntrackPoll rd"
  "vs_Ping (Store rd cfg) = store_Ping rd"
  by (simp_all add: Store_def)

text \<open>
  What the operations need of the deployment: a Redis that behaves as documented, a
  positive number of shards and windows of at least a second, and a keyspace in which the
  vote store's keys hold what the vote store writes there.
\<close>

definition store_ready :: "redis_cmds \<Rightarrow> store_config \<Rightarrow> redis_state \<Rightarrow> bool" where
  "store_ready rd cfg st \<longleftrightarrow> redis_ok rd \<and> store_config_ok cfg \<and> store_inv st"

lemma voted_of: "hash_ok h \<Longrightarrow> voted_ok cfg st p h = store_voted cfg st p h"
  by (simp add: voted_ok_def)

lemma ready_same:
  assumes "store_ready rd cfg st" and "same_store st st'" and "same_tracked st st'"
  shows "store_ready rd cfg st' \<and> store_votes cfg st' = store_votes cfg st
    \<and> voted_ok cfg st' = voted_ok cfg st \<and> store_tracked st' = store_tracked st"
  using assms same_facts by (simp add: store_ready_def)

interpretation redis_store: vote_store "Store rd cfg" "store_votes cfg" "voted_ok cfg"
    store_tracked hash_ok "store_ready rd cfg" for rd cfg
proof (unfold_locales, goal_cases)
  case (1 s req rg s')
  from guard_same [of rd cfg req s rg s'] 1 ready_same [OF 1(1)] show ?case
    by (simp add: store_ready_def)
next
  case (2 req s e s')
  then show ?case by (simp add: guard_error)
next
  case (3 s b r s')
  with cast_again_observed [of rd cfg s b r s'] have
    same: "rs_now s' = rs_now s" "rs_db s' = rs_db s"
    and e: "\<exists>e. r = Inl e \<and> CodeOf e \<in> {CodeAlreadyVoted, CodeUnavailable}"
    by (simp_all add: store_ready_def voted_of)
  with ready_same [OF 3(1)] same_refl [OF same] show ?case by blast
next
  case (4 s b r s')
  then show ?case using cast_observed [of rd cfg s b r s'] by (simp add: store_ready_def voted_of)
next
  case (5 s b r s' h p)
  then show ?case
    using cast_observed(4) [of rd cfg s b r s' h p] cast_again_observed(1,2) [of rd cfg s b r s']
      same_store_voted [of s s'] same_refl [of s' s]
    by (cases "store_voted cfg s (b_PollID b) (b_VoterHash b)") (simp_all add: store_ready_def)
next
  case (6 s p ids rc s')
  with counters_result(1,2) [of rd s cfg p ids rc s'] have "same_store s s' \<and> same_tracked s s'"
    by (intro same_refl) (simp_all add: store_ready_def)
  with ready_same [OF 6(1)] show ?case by blast
next
  case (7 s p ids m s' i)
  with counters_result(3) [of rd s cfg p ids "Inr m" s'] store_votes_nonneg [of s cfg p i]
  show ?case by (simp add: store_ready_def sint_int64_of min_int64_def)
next
  case (8 p ids s m s')
  with counters_keys [of rd cfg p ids s m s'] show ?case by simp
next
  case (9 s p ids e s')
  with counters_result(3) [of rd s cfg p ids "Inl e" s'] show ?case by (simp add: store_ready_def)
next
  case (10 s p r s')
  with track_observed [of rd s p r s' cfg] show ?case by (simp add: store_ready_def)
next
  case (11 s p r s')
  with untrack_observed [of rd s p r s' cfg] show ?case by (simp add: store_ready_def)
next
  case (12 s rt s')
  with tracked_observed(1,2) [of rd s rt s'] have "same_store s s' \<and> same_tracked s s'"
    by (intro same_refl) (simp_all add: store_ready_def)
  with ready_same [OF 12(1)] 12 tracked_observed(3) [of rd s rt s'] show ?case
    by (simp add: store_ready_def)
next
  case (13 s p i)
  then show ?case by (simp add: store_ready_def store_votes_nonneg)
next
  case (14 p s e s')
  then show ?case by (auto simp: store_TrackPoll_def split: go_try_splits)
qed

end
