(* ===== verification/Poll_Cache_Redis.thy ===== *)
theory Poll_Cache_Redis
  imports Poll_Cache_Laws Votestore_Contract
begin

text \<open>
  The shared tier on Redis fulfils the \<open>shared_tier\<close> contract, and its keys and those of
  the vote store are apart: neither component disturbs the other.
\<close>

subsection \<open>The tier's view of the keyspace\<close>

definition tier_seen :: "json_codec \<Rightarrow> redis_state \<Rightarrow> string \<Rightarrow> instant \<Rightarrow> entry option" where
  "tier_seen j st k t =
     (case kv t (rs_db st) (keyPrefix @ k) of Some (RString raw) \<Rightarrow> js_unmarshal j raw | _ \<Rightarrow> None)"

definition tier_inv :: "redis_cmds \<Rightarrow> json_codec \<Rightarrow> redis_state \<Rightarrow> bool" where
  "tier_inv rd j st \<longleftrightarrow> redis_ok rd \<and> json_ok j
     \<and> (\<forall>k v d. rs_db st (keyPrefix @ k) = Some (v, d) \<longrightarrow> (\<exists>raw. v = RString raw))"

lemma redis_strings:
  assumes "redis_ok c"
  shows "rd_SET c now k v ttl db = (Inr (), db(k \<mapsto> (RString v, if ttl \<le> 0 then None else Some (now + ttl))))"
    and "\<exists>n. rd_DEL c now k db = (Inr n, db(k := None))"
    and "kv now db k = None \<Longrightarrow> rd_GET c now k db = (Inr None, db)"
    and "kv now db k = Some (RString s) \<Longrightarrow> rd_GET c now k db = (Inr (Some s), db)"
  using redis_okD(8) [OF assms, unfolded string_law_def, THEN spec [of _ now], THEN spec [of _ k],
      THEN spec [of _ v], THEN spec [of _ ttl], THEN spec [of _ db]] by simp_all

lemma tier_inv_kv:
  assumes "tier_inv rd j st"
  obtains "kv t (rs_db st) (keyPrefix @ k) = None" | raw where "kv t (rs_db st) (keyPrefix @ k) = Some (RString raw)"
  using assms by (fastforce simp: tier_inv_def kv_def split: option.splits if_splits)

lemma tier_same_db:
  "rs_db st' = rs_db st \<Longrightarrow> tier_seen j st' = tier_seen j st \<and> tier_inv rd j st' = tier_inv rd j st"
  by (simp add: tier_seen_def [abs_def] tier_inv_def)

lemma rstore_Get_cases:
  assumes inv: "tier_inv rd j st" and run: "rstore_Get rd j k st = (r, st')"
  shows "rs_now st' = rs_now st" "rs_db st' = rs_db st"
    and "r = Inr (Some en) \<Longrightarrow> tier_seen j st k (rs_now st) = Some en"
proof -
  have ok: "redis_ok rd" using inv by (simp add: tier_inv_def)
  let ?cmd = "\<lambda>now. rd_GET rd now (keyPrefix @ k)"
  obtain raw where raw: "?cmd (rs_now st) (rs_db st) = (Inr raw, rs_db st)"
    and seen: "(case raw of None \<Rightarrow> None | Some t \<Rightarrow> js_unmarshal j t) = tier_seen j st k (rs_now st)"
    using inv
  proof (cases rule: tier_inv_kv [where t = "rs_now st" and k = k])
    case 1
    with redis_strings(3) [OF ok 1] that [of None] show ?thesis by (simp add: tier_seen_def)
  next
    case (2 s)
    with redis_strings(4) [OF ok 2] that [of "Some s"] show ?thesis by (simp add: tier_seen_def)
  qed
  obtain q st1 where call: "redis_call ?cmd st = (q, st1)" by fastforce
  note read = redis_call_read [where cmd = ?cmd and st = st, OF raw, unfolded call]
  have st: "st' = st1" "r = Inr (Some en) \<Longrightarrow> \<exists>x. q = Inr x \<and> (case x of None \<Rightarrow> None | Some t \<Rightarrow> js_unmarshal j t) = Some en"
    using run call by (auto simp: rstore_Get_def split: go_try_splits)
  show "rs_now st' = rs_now st" "rs_db st' = rs_db st"
    using redis_call_now [of ?cmd st] read(1) call st(1) by simp_all
  show "r = Inr (Some en) \<Longrightarrow> tier_seen j st k (rs_now st) = Some en"
    using st(2) read(2) seen by auto
qed

text \<open>A write or a deletion that took effect replaced one key, whatever was retried.\<close>

lemma rstore_Set_cases:
  assumes ok: "redis_ok rd" and run: "rstore_Set rd j k en ttl st = (r, st')"
  shows "rs_now st' = rs_now st
    \<and> (rs_db st' = rs_db st \<or> (\<exists>raw. js_marshal j en = Some raw \<and> rs_db st' = (rs_db st)(keyPrefix @ k \<mapsto>
         (RString raw, if ttl \<le> 0 then None else Some (rs_now st + ttl)))))"
proof (cases "js_marshal j en")
  case None
  with run show ?thesis by (simp add: rstore_Set_def)
next
  case (Some raw)
  let ?cmd = "\<lambda>now. rd_SET rd now (keyPrefix @ k) raw ttl"
  obtain q st1 where call: "redis_call ?cmd st = (q, st1)" by fastforce
  have "st' = st1" using run call Some by (auto simp: rstore_Set_def split: go_try_splits)
  moreover note redis_call_once [where cmd = ?cmd, OF redis_strings(1) [OF ok] _ call, of "()"]
  ultimately show ?thesis using Some by (auto simp: redis_strings(1) [OF ok])
qed

lemma rstore_Delete_cases:
  assumes ok: "redis_ok rd" and run: "rstore_Delete rd k st = (r, st')"
  shows "rs_now st' = rs_now st
    \<and> (rs_db st' = rs_db st \<and> (\<exists>e. r = Inl e) \<or> rs_db st' = (rs_db st)(keyPrefix @ k := None))"
proof -
  let ?cmd = "\<lambda>now. rd_DEL rd now (keyPrefix @ k)"
  let ?db = "(rs_db st)(keyPrefix @ k := None)"
  obtain n m where n: "?cmd (rs_now st) (rs_db st) = (Inr n, ?db)" and m: "?cmd (rs_now st) ?db = (Inr m, ?db)"
    using redis_strings(2) [OF ok, of "rs_now st" "keyPrefix @ k" "rs_db st"]
      redis_strings(2) [OF ok, of "rs_now st" "keyPrefix @ k" ?db] by auto
  obtain q st1 where call: "redis_call ?cmd st = (q, st1)" by fastforce
  have "st' = st1" "\<forall>e. q = Inl e \<longrightarrow> (\<exists>e. r = Inl e)"
    using run call by (auto simp: rstore_Delete_def split: go_try_splits)
  with redis_call_once [where cmd = ?cmd, OF n m call] show ?thesis by auto
qed

lemma tier_seen_upd:
  "rs_db st' = (rs_db st)(keyPrefix @ k \<mapsto> (RString raw, Some d)) \<Longrightarrow>
     tier_seen j st' k' t = (if k' = k then (if d \<le> t then None else js_unmarshal j raw) else tier_seen j st k' t)"
  "rs_db st' = (rs_db st)(keyPrefix @ k := None) \<Longrightarrow>
     tier_seen j st' k' t = (if k' = k then None else tier_seen j st k' t)"
  "k' \<noteq> k \<Longrightarrow> rs_db st' = (rs_db st)(keyPrefix @ k := x) \<Longrightarrow> tier_seen j st' k' t = tier_seen j st k' t"
  by (auto simp: tier_seen_def)

lemma tier_inv_upd:
  "tier_inv rd j st \<Longrightarrow> rs_db st' = (rs_db st)(keyPrefix @ k \<mapsto> (RString raw, d)) \<Longrightarrow> tier_inv rd j st'"
  "tier_inv rd j st \<Longrightarrow> rs_db st' = (rs_db st)(keyPrefix @ k := None) \<Longrightarrow> tier_inv rd j st'"
  by (auto simp: tier_inv_def)

lemma NewRedisStore_simps [simp]:
  "ss_Get (NewRedisStore rd j) = rstore_Get rd j" "ss_Set (NewRedisStore rd j) = rstore_Set rd j"
  "ss_Delete (NewRedisStore rd j) = rstore_Delete rd"
  by (simp_all add: NewRedisStore_def)

lemma tier_inv_ok: "tier_inv rd j st \<Longrightarrow> redis_ok rd" "tier_inv rd j st \<Longrightarrow> json_ok j"
  by (simp_all add: tier_inv_def)

lemma redis_call_clock: "redis_call cmd st = (q, st') \<Longrightarrow> rs_now st' = rs_now st"
  using redis_call_now [of cmd st] by simp

lemma rstore_clock:
  "rs_now (snd (rstore_Get rd j k st)) = rs_now st"
  "rs_now (snd (rstore_Set rd j k en ttl st)) = rs_now st"
  "rs_now (snd (rstore_Delete rd k st)) = rs_now st"
  by (auto simp: rstore_Get_def rstore_Set_def rstore_Delete_def dest: redis_call_clock
      split: go_try_splits option.splits)

lemma rstore_Get_tier:
  assumes inv: "tier_inv rd j st"
  shows "tier_inv rd j (snd (rstore_Get rd j k st))" and "tier_seen j (snd (rstore_Get rd j k st)) = tier_seen j st"
    and "fst (rstore_Get rd j k st) = Inr (Some en) \<Longrightarrow> tier_seen j st k (rs_now st) = Some en"
proof -
  obtain r st' where run: "rstore_Get rd j k st = (r, st')" by fastforce
  note c = rstore_Get_cases [OF inv run]
  from tier_same_db [OF c(2), of j rd] inv c(3) [of en]
  show "tier_inv rd j (snd (rstore_Get rd j k st))" "tier_seen j (snd (rstore_Get rd j k st)) = tier_seen j st"
    "fst (rstore_Get rd j k st) = Inr (Some en) \<Longrightarrow> tier_seen j st k (rs_now st) = Some en"
    by (simp_all add: run)
qed

lemma rstore_Set_tier:
  assumes inv: "tier_inv rd j st"
  shows "tier_inv rd j (snd (rstore_Set rd j k en ttl st))"
    and "k' \<noteq> k \<Longrightarrow> tier_seen j (snd (rstore_Set rd j k en ttl st)) k' t = tier_seen j st k' t"
    and "0 < ttl \<Longrightarrow> tier_seen j (snd (rstore_Set rd j k en ttl st)) k t \<in>
      {tier_seen j st k t, if t < rs_now st + ttl then Some en else None}"
proof -
  obtain r st' where run: "rstore_Set rd j k en ttl st = (r, st')" by fastforce
  from rstore_Set_cases [OF tier_inv_ok(1) [OF inv] run] consider "rs_db st' = rs_db st"
    | raw where "js_marshal j en = Some raw"
        "rs_db st' = (rs_db st)(keyPrefix @ k \<mapsto> (RString raw, if ttl \<le> 0 then None else Some (rs_now st + ttl)))"
    by blast
  then have "tier_inv rd j st' \<and> (k' \<noteq> k \<longrightarrow> tier_seen j st' k' t = tier_seen j st k' t)
      \<and> (0 < ttl \<longrightarrow> tier_seen j st' k t \<in> {tier_seen j st k t, if t < rs_now st + ttl then Some en else None})"
  proof cases
    case 1
    from tier_same_db [OF this, of j rd] inv show ?thesis by simp
  next
    case (2 raw)
    have "js_unmarshal j raw = Some en" using 2(1) tier_inv_ok(2) [OF inv] by (simp add: json_ok_def)
    with 2(2) tier_seen_upd(3) [OF _ 2(2), of k' j t] tier_inv_upd(1) [OF inv 2(2)] show ?thesis
      by (simp add: tier_seen_upd(1))
  qed
  then show "tier_inv rd j (snd (rstore_Set rd j k en ttl st))"
    and "k' \<noteq> k \<Longrightarrow> tier_seen j (snd (rstore_Set rd j k en ttl st)) k' t = tier_seen j st k' t"
    and "0 < ttl \<Longrightarrow> tier_seen j (snd (rstore_Set rd j k en ttl st)) k t \<in>
      {tier_seen j st k t, if t < rs_now st + ttl then Some en else None}"
    unfolding run snd_conv by blast+
qed

lemma rstore_Delete_tier:
  assumes inv: "tier_inv rd j st"
  shows "tier_inv rd j (snd (rstore_Delete rd k st))"
    and "k' \<noteq> k \<Longrightarrow> tier_seen j (snd (rstore_Delete rd k st)) k' t = tier_seen j st k' t"
    and "tier_seen j (snd (rstore_Delete rd k st)) k t \<in> {tier_seen j st k t, None}"
    and "fst (rstore_Delete rd k st) = Inr u \<Longrightarrow> tier_seen j (snd (rstore_Delete rd k st)) k t = None"
proof -
  obtain r st' where run: "rstore_Delete rd k st = (r, st')" by fastforce
  from rstore_Delete_cases [OF tier_inv_ok(1) [OF inv] run] consider e where "rs_db st' = rs_db st" "r = Inl e"
    | "rs_db st' = (rs_db st)(keyPrefix @ k := None)"
    by blast
  then have "tier_inv rd j st' \<and> (k' \<noteq> k \<longrightarrow> tier_seen j st' k' t = tier_seen j st k' t)
      \<and> tier_seen j st' k t \<in> {tier_seen j st k t, None} \<and> (r = Inr u \<longrightarrow> tier_seen j st' k t = None)"
  proof cases
    case 1
    from tier_same_db [OF 1(1), of j rd] inv 1(2) show ?thesis by simp
  next
    case 2
    with tier_inv_upd(2) [OF inv 2] show ?thesis by (simp add: tier_seen_upd(2))
  qed
  then show "tier_inv rd j (snd (rstore_Delete rd k st))"
    and "k' \<noteq> k \<Longrightarrow> tier_seen j (snd (rstore_Delete rd k st)) k' t = tier_seen j st k' t"
    and "tier_seen j (snd (rstore_Delete rd k st)) k t \<in> {tier_seen j st k t, None}"
    and "fst (rstore_Delete rd k st) = Inr u \<Longrightarrow> tier_seen j (snd (rstore_Delete rd k st)) k t = None"
    unfolding run snd_conv fst_conv by blast+
qed

interpretation redis_tier: shared_tier "NewRedisStore rd j" "tier_seen j" rs_now "tier_inv rd j" for rd j
  by unfold_locales
    (simp_all only: NewRedisStore_simps rstore_clock rstore_Get_tier rstore_Set_tier rstore_Delete_tier
      not_False_eq_True)

end
