(* ===== verification/Redis_Apart.thy ===== *)
theory Redis_Apart
  imports Poll_Cache_Redis
begin

text \<open>
  The two users of Redis do not disturb each other: the shared cache tier writes only keys
  under its prefix, which the vote store never reads, and the vote store writes none of them.
\<close>

subsection \<open>The cache tier leaves the vote store alone\<close>

lemma cache_key_apart [simp]:
  "keyPrefix @ k \<noteq> countsKey (tagForShard p i)" "countsKey (tagForShard p i) \<noteq> keyPrefix @ k"
  "keyPrefix @ k \<noteq> votedKey (tagForShard p i) h" "votedKey (tagForShard p i) h \<noteq> keyPrefix @ k"
  "keyPrefix @ k \<noteq> trackedPollsKey" "trackedPollsKey \<noteq> keyPrefix @ k"
  "keyPrefix @ k \<noteq> ipTag ip @ s" "ipTag ip @ s \<noteq> keyPrefix @ k"
  by (simp_all add: keyPrefix_def countsKey_def tagForShard_def votedKey_def trackedPollsKey_def ipTag_def)

lemma cache_write_same:
  assumes "rs_now st' = rs_now st" and "rs_db st' = rs_db st \<or> (\<exists>k x. rs_db st' = (rs_db st)(keyPrefix @ k := x))"
  shows "same_store st st'" and "same_tracked st st'"
  using assms by (auto simp: same_store_def same_tracked_def)

lemma cache_tier_same:
  assumes "redis_ok rd" and "tier_inv rd j st"
  shows "same_store st (snd (rstore_Get rd j k st))" "same_tracked st (snd (rstore_Get rd j k st))"
    and "same_store st (snd (rstore_Set rd j k en ttl st))" "same_tracked st (snd (rstore_Set rd j k en ttl st))"
    and "same_store st (snd (rstore_Delete rd k st))" "same_tracked st (snd (rstore_Delete rd k st))"
proof -
  show "same_store st (snd (rstore_Get rd j k st))" "same_tracked st (snd (rstore_Get rd j k st))"
    using rstore_Get_cases(1,2) [OF assms(2) surjective_pairing, of k]
    by (intro cache_write_same; simp)+
  have "rs_now (snd (rstore_Set rd j k en ttl st)) = rs_now st
      \<and> (rs_db (snd (rstore_Set rd j k en ttl st)) = rs_db st
        \<or> (\<exists>k' x. rs_db (snd (rstore_Set rd j k en ttl st)) = (rs_db st)(keyPrefix @ k' := x)))"
    using rstore_Set_cases [OF assms(1) surjective_pairing, of j k en ttl st] by blast
  then show "same_store st (snd (rstore_Set rd j k en ttl st))" "same_tracked st (snd (rstore_Set rd j k en ttl st))"
    using cache_write_same by blast+
  have "rs_now (snd (rstore_Delete rd k st)) = rs_now st
      \<and> (rs_db (snd (rstore_Delete rd k st)) = rs_db st
        \<or> (\<exists>k' x. rs_db (snd (rstore_Delete rd k st)) = (rs_db st)(keyPrefix @ k' := x)))"
    using rstore_Delete_cases [OF assms(1) surjective_pairing, of k st] by blast
  then show "same_store st (snd (rstore_Delete rd k st))" "same_tracked st (snd (rstore_Delete rd k st))"
    using cache_write_same by blast+
qed

subsection \<open>The vote store leaves the cache tier alone\<close>

lemma redis_write_frame:
  assumes "redis_ok c" and "x \<noteq> k"
  shows "snd (rd_SET_NX_EX c now k v s db) x = db x" "snd (rd_EXISTS c now k' db) x = db x"
    "snd (rd_HINCRBY c now k f n db) x = db x" "snd (rd_HGETALL c now k' db) x = db x"
    "snd (rd_SADD c now k m db) x = db x" "snd (rd_SREM c now k m db) x = db x"
    "snd (rd_SMEMBERS c now k' db) x = db x"
proof -
  note law = redis_okD [OF assms(1)]
  show "snd (rd_SET_NX_EX c now k v s db) x = db x"
    using law(3) [unfolded set_nx_law_def, THEN spec [of _ now], THEN spec [of _ k], THEN spec [of _ v],
        THEN spec [of _ s], THEN spec [of _ db]] assms(2) by (auto split: if_splits)
  show "snd (rd_EXISTS c now k' db) x = db x" using redis_exists [OF assms(1)] by simp
  show "snd (rd_HINCRBY c now k f n db) x = db x"
    using law(5) [unfolded hincrby_law_def, THEN spec [of _ now], THEN spec [of _ k], THEN spec [of _ f],
        THEN spec [of _ n], THEN spec [of _ db]] assms(2)
    by (auto split: option.splits rvalue.splits)
  show "snd (rd_HGETALL c now k' db) x = db x"
    using law(6) [unfolded hgetall_law_def, THEN spec [of _ now], THEN spec [of _ k'], THEN spec [of _ db]]
    by (auto split: option.splits rvalue.splits)
  show "snd (rd_SADD c now k m db) x = db x" "snd (rd_SREM c now k m db) x = db x"
    using law(7) [unfolded set_law_def, THEN spec [of _ now], THEN spec [of _ k], THEN spec [of _ m],
        THEN spec [of _ db]] assms(2)
    by (auto split: option.splits rvalue.splits)
  show "snd (rd_SMEMBERS c now k' db) x = db x"
    using law(7) [unfolded set_law_def, THEN spec [of _ now], THEN spec [of _ k'], THEN spec [of _ m],
        THEN spec [of _ db]]
    by (auto split: option.splits rvalue.splits)
qed

lemma hincr_all_frame:
  assumes "redis_ok c" and "x \<noteq> k"
  shows "snd (hincr_all c k ids now db) x = db x"
proof (induction ids arbitrary: db)
  case (Cons i ids)
  then show ?case
    using redis_write_frame(3) [OF assms, of now i 1 db]
    by (auto intro!: go_try_snd [where P = "\<lambda>d. d x = db x"])
qed simp

lemma cast_script_frame:
  assumes "redis_ok c" and "x \<noteq> voted" and "x \<noteq> counts"
  shows "snd (castBallotScript c voted counts ttl ret ids now db) x = db x"
proof -
  have exp: "snd (if n = 0 then rd_EXPIRE c now counts ret db' else (Inr 0, db')) x = db' x" for n :: int and db'
    using redis_expire_frame [OF assms(1,3)] by simp
  show ?thesis
    unfolding castBallotScript_def
    by (rule go_try_snd [where P = "\<lambda>d. d x = db x"], simp add: redis_write_frame(1) [OF assms(1,2)], simp,
        intro impI go_try_snd [where P = "\<lambda>d. d x = db x"])
      (simp_all add: redis_write_frame(2) [OF assms(1,2)] hincr_all_frame [OF assms(1,3)] exp)
qed

lemma hgetall_shards_frame:
  "redis_ok c \<Longrightarrow> snd (hgetall_shards c ks now db) = db"
proof (induction ks arbitrary: db)
  case (Cons k ks)
  have "snd (rd_HGETALL c now k db) = db"
    using redis_write_frame(4) [OF Cons.prems, of _ "_ # _"] by (intro ext) (metis list.distinct(1) not_Cons_self2)
  with Cons show ?case by (auto intro!: go_try_snd [where P = "\<lambda>d. d = db"])
qed simp

text \<open>A call whose command leaves the cache tier's keys alone leaves the tier alone.\<close>

definition apart :: "redis_state \<Rightarrow> redis_state \<Rightarrow> bool" where
  "apart st st' \<longleftrightarrow> rs_now st' = rs_now st \<and> (\<forall>k. rs_db st' (keyPrefix @ k) = rs_db st (keyPrefix @ k))"

lemma apart_tier:
  assumes "apart st st'"
  shows "tier_seen j st' = tier_seen j st" and "tier_inv rd j st' = tier_inv rd j st"
  using assms by (simp_all add: apart_def tier_seen_def [abs_def] tier_inv_def kv_def)

lemma apart_call:
  assumes "\<And>db k. snd (cmd (rs_now st) db) (keyPrefix @ k) = db (keyPrefix @ k)"
    and "redis_call cmd st = (q, st')"
  shows "apart st st'"
proof -
  have "rs_db (snd (redis_call cmd st)) (keyPrefix @ k) = rs_db st (keyPrefix @ k)" for k
    using assms(1) by (intro redis_call_invariant [where P = "\<lambda>db. db (keyPrefix @ k) = rs_db st (keyPrefix @ k)"]) simp_all
  with assms(2) redis_call_now [of cmd st] show ?thesis by (simp add: apart_def)
qed

lemma store_apart:
  assumes ok: "redis_ok rd"
  shows "store_Guard rd cfg req st = (r1, st') \<Longrightarrow> apart st st'"
    and "store_CastBallot rd cfg b st = (r2, st') \<Longrightarrow> apart st st'"
    and "store_Counters rd cfg p ids st = (r3, st') \<Longrightarrow> apart st st'"
    and "store_TrackPoll rd p st = (r2, st') \<Longrightarrow> apart st st'"
    and "store_UntrackPoll rd p st = (r2, st') \<Longrightarrow> apart st st'"
    and "store_TrackedPolls rd st = (r4, st') \<Longrightarrow> apart st st'"
proof -
  have refl: "apart s s" for s by (simp add: apart_def)
  show "store_Guard rd cfg req st = (r1, st') \<Longrightarrow> apart st st'"
    by (auto simp: store_Guard_def Let_def guard_script_frame [OF ok] split: go_try_splits intro: apart_call [rotated])
  show "store_CastBallot rd cfg b st = (r2, st') \<Longrightarrow> apart st st'"
    by (auto simp: store_CastBallot_def Let_def shardTag_def cast_script_frame [OF ok] refl
        split: go_try_splits if_splits intro: apart_call [rotated])
  show "store_Counters rd cfg p ids st = (r3, st') \<Longrightarrow> apart st st'"
    by (auto simp: store_Counters_def hgetall_shards_frame [OF ok] split: go_try_splits intro: apart_call [rotated])
  show "store_TrackPoll rd p st = (r2, st') \<Longrightarrow> apart st st'"
    by (auto simp: store_TrackPoll_def redis_write_frame(5) [OF ok] split: go_try_splits intro: apart_call [rotated])
  show "store_UntrackPoll rd p st = (r2, st') \<Longrightarrow> apart st st'"
    by (auto simp: store_UntrackPoll_def redis_write_frame(6) [OF ok] split: go_try_splits intro: apart_call [rotated])
  have mem: "snd (rd_SMEMBERS rd now trackedPollsKey db) (keyPrefix @ k) = db (keyPrefix @ k)" for now db k
    using redis_write_frame(7) [OF ok, of "keyPrefix @ k" trackedPollsKey] by simp
  show "store_TrackedPolls rd st = (r4, st') \<Longrightarrow> apart st st'"
    by (auto simp: store_TrackedPolls_def mem split: go_try_splits intro: apart_call [rotated])
qed

end
