(* ===== verification/Repository.thy ===== *)
theory Repository
  imports Ports "HOL-Library.AList" "HOL-Library.List_Lexorder" "HOL-Library.Char_ord" "HOL-Library.Product_Lexorder"
begin

text \<open>
  The PostgreSQL repository (\<open>internal/repository/poll.go\<close>) over the schema of
  \<open>migrations/000001_initial.up.sql\<close>. The SQL text of every method and every constraint
  of the schema is translated to an operation on tables. What the server does with a value
  on its way into a column (how it reads a uuid, to what resolution it keeps an instant,
  which strings it takes as text) is a parameter, the record \<open>pg_codec\<close>. Every
  statement consumes a fate: it runs, it fails before it has an effect, or it takes effect
  and its reply is lost.
\<close>

subsection \<open>Schema\<close>

record poll_row =
  row_id :: string
  row_question :: string
  row_type :: string
  row_max_choices :: int
  row_status :: string
  row_created_at :: instant
  row_starts_at :: "instant option"
  row_ends_at :: "instant option"
  row_finished_at :: "instant option"

record option_row =
  opt_id :: string
  opt_poll_id :: string
  opt_text :: string
  opt_position :: int

type_synonym result_row = "(string \<times> string) \<times> int"

record tables =
  t_polls :: "poll_row list"
  t_options :: "option_row list"
  t_results :: "result_row list"

record pg_codec =
  pg_uuid :: "string \<Rightarrow> string option"
  pg_time :: "instant \<Rightarrow> instant"
  pg_text :: "string \<Rightarrow> bool"

text \<open>Reading back what was stored, and storing it again, gives the same value.\<close>

definition codec_ok :: "pg_codec \<Rightarrow> bool" where
  "codec_ok cod \<longleftrightarrow> (\<forall>s c. pg_uuid cod s = Some c \<longrightarrow> pg_uuid cod c = Some c)
     \<and> (\<forall>t. pg_time cod (pg_time cod t) = pg_time cod t)
     \<and> (\<forall>t u. t \<le> u \<longrightarrow> pg_time cod t \<le> pg_time cod u)"

definition fits_int32 :: "int \<Rightarrow> bool" where
  "fits_int32 n \<longleftrightarrow> - (2 ^ 31) \<le> n \<and> n < 2 ^ 31"

text \<open>\<open>length(btrim(s)) = 0\<close>: btrim strips spaces only\<close>

definition blank :: "string \<Rightarrow> bool" where
  "blank s \<longleftrightarrow> list_all (\<lambda>c. c = CHR '' '') s"

definition poll_row_ok :: "poll_row \<Rightarrow> bool" where
  "poll_row_ok r \<longleftrightarrow>
     \<not> blank (row_question r)
     \<and> (row_type r = ''single'' \<or> row_type r = ''multiple'')
     \<and> (row_status r = ''draft'' \<or> row_status r = ''active'' \<or> row_status r = ''finished'')
     \<and> 1 \<le> row_max_choices r
     \<and> (row_type r \<noteq> ''single'' \<or> row_max_choices r = 1)
     \<and> (case (row_starts_at r, row_ends_at r) of (Some a, Some b) \<Rightarrow> a < b | _ \<Rightarrow> True)
     \<and> (row_status r = ''finished'') = (row_finished_at r \<noteq> None)"

definition option_row_ok :: "option_row \<Rightarrow> bool" where
  "option_row_ok r \<longleftrightarrow> \<not> blank (opt_text r) \<and> 0 \<le> opt_position r"

subsection \<open>The server\<close>

datatype pg_fate = PgDone | PgFailed | PgLost

datatype tx_state = TxOpen tables | TxAborted

record pg_state =
  pg_tables :: tables
  pg_txs :: "nat \<rightharpoonup> tx_state"
  pg_next_tx :: nat
  pg_fates :: "pg_fate list"

definition empty_tables :: tables where
  "empty_tables = \<lparr>t_polls = [], t_options = [], t_results = []\<rparr>"

definition join_tables :: "tables \<Rightarrow> tables \<Rightarrow> tables" where
  "join_tables t u = \<lparr>t_polls = t_polls t @ t_polls u, t_options = t_options t @ t_options u,
     t_results = t_results t @ t_results u\<rparr>"

definition pg_fate_of :: "pg_state \<Rightarrow> pg_fate" where
  "pg_fate_of st = (case pg_fates st of [] \<Rightarrow> PgDone | f # _ \<Rightarrow> f)"

definition pg_tick :: "pg_state \<Rightarrow> pg_state" where
  "pg_tick st = st\<lparr>pg_fates := tl (pg_fates st)\<rparr>"

definition pg_down :: goerror where "pg_down = ErrText ''connection failure''"
definition pg_cut :: goerror where "pg_cut = ErrText ''unexpected EOF''"
definition pg_invalid :: goerror where "pg_invalid = ErrText ''invalid input syntax for type uuid''"
definition pg_violation :: goerror where "pg_violation = ErrText ''violates constraint''"

text \<open>A statement outside a transaction, committed by itself.\<close>

definition pg_exec :: "(tables \<Rightarrow> goerror + ('a \<times> tables)) \<Rightarrow> (pg_state, 'a) action" where
  "pg_exec stmt st =
     (case pg_fate_of st of
        PgFailed \<Rightarrow> (Inl pg_down, pg_tick st)
      | PgLost \<Rightarrow> (Inl pg_down, (case stmt (pg_tables st) of Inl _ \<Rightarrow> pg_tick st
                      | Inr (_, t) \<Rightarrow> (pg_tick st)\<lparr>pg_tables := t\<rparr>))
      | PgDone \<Rightarrow> (case stmt (pg_tables st) of Inl e \<Rightarrow> (Inl e, pg_tick st)
                      | Inr (a, t) \<Rightarrow> (Inr a, (pg_tick st)\<lparr>pg_tables := t\<rparr>)))"

definition pg_query :: "(tables \<Rightarrow> goerror + 'a) \<Rightarrow> (pg_state, 'a) action" where
  "pg_query q st =
     (case pg_fate_of st of
        PgDone \<Rightarrow> (q (pg_tables st), pg_tick st)
      | PgFailed \<Rightarrow> (Inl pg_down, pg_tick st)
      | PgLost \<Rightarrow> (Inl pg_cut, pg_tick st))"

text \<open>A statement of an open transaction adds rows of its own; any failure aborts it.\<close>

definition tx_exec :: "nat \<Rightarrow> (tables \<Rightarrow> tables \<Rightarrow> tables option) \<Rightarrow> (pg_state, unit) action" where
  "tx_exec n stmt st =
     (case pg_txs st n of
        None \<Rightarrow> (Inl (ErrText ''tx is closed''), st)
      | Some TxAborted \<Rightarrow> (Inl (ErrText ''current transaction is aborted''), st)
      | Some (TxOpen own) \<Rightarrow>
          (let st' = pg_tick st
           in if pg_fate_of st \<noteq> PgDone then (Inl pg_down, st'\<lparr>pg_txs := (pg_txs st)(n \<mapsto> TxAborted)\<rparr>)
              else (case stmt (pg_tables st) own of
                      None \<Rightarrow> (Inl pg_violation, st'\<lparr>pg_txs := (pg_txs st)(n \<mapsto> TxAborted)\<rparr>)
                    | Some own' \<Rightarrow> (Inr (), st'\<lparr>pg_txs := (pg_txs st)(n \<mapsto> TxOpen own')\<rparr>))))"

subsection \<open>Rows of a poll\<close>

definition poll_row_of :: "pg_codec \<Rightarrow> poll \<Rightarrow> poll_row option" where
  "poll_row_of cod p =
     (case pg_uuid cod (p_id p) of None \<Rightarrow> None
      | Some i \<Rightarrow>
          if pg_text cod (p_question p) \<and> pg_text cod (p_type p) \<and> pg_text cod (p_status p)
             \<and> fits_int32 (p_max_choices p)
          then Some \<lparr>row_id = i, row_question = p_question p, row_type = p_type p,
                 row_max_choices = p_max_choices p, row_status = p_status p,
                 row_created_at = pg_time cod (p_created_at p),
                 row_starts_at = map_option (pg_time cod) (p_starts_at p),
                 row_ends_at = map_option (pg_time cod) (p_ends_at p), row_finished_at = None\<rparr>
          else None)"

definition option_row_of :: "pg_codec \<Rightarrow> string \<Rightarrow> poll_option \<Rightarrow> option_row option" where
  "option_row_of cod pollID o' =
     (case (pg_uuid cod (o_id o'), pg_uuid cod pollID) of
        (Some i, Some p) \<Rightarrow>
          if pg_text cod (o_text o') \<and> fits_int32 (o_position o')
          then Some \<lparr>opt_id = i, opt_poll_id = p, opt_text = o_text o', opt_position = o_position o'\<rparr>
          else None
      | _ \<Rightarrow> None)"

definition poll_known :: "tables \<Rightarrow> tables \<Rightarrow> string \<Rightarrow> bool" where
  "poll_known db own i \<longleftrightarrow> i \<in> row_id ` set (t_polls db) \<or> i \<in> row_id ` set (t_polls own)"

definition option_known :: "tables \<Rightarrow> tables \<Rightarrow> string \<Rightarrow> bool" where
  "option_known db own i \<longleftrightarrow> i \<in> opt_id ` set (t_options db) \<or> i \<in> opt_id ` set (t_options own)"

definition insert_poll :: "pg_codec \<Rightarrow> poll \<Rightarrow> tables \<Rightarrow> tables \<Rightarrow> tables option" where
  "insert_poll cod p db own =
     (case poll_row_of cod p of None \<Rightarrow> None
      | Some r \<Rightarrow>
          if poll_row_ok r \<and> \<not> poll_known db own (row_id r)
          then Some (own\<lparr>t_polls := t_polls own @ [r]\<rparr>) else None)"

definition option_insertable :: "tables \<Rightarrow> tables \<Rightarrow> option_row \<Rightarrow> bool" where
  "option_insertable db own r \<longleftrightarrow>
     option_row_ok r \<and> poll_known db own (opt_poll_id r) \<and> \<not> option_known db own (opt_id r)
     \<and> (\<forall>q \<in> set (t_options db) \<union> set (t_options own).
          (opt_poll_id q, opt_position q) \<noteq> (opt_poll_id r, opt_position r))"

fun copy_options :: "pg_codec \<Rightarrow> string \<Rightarrow> poll_option list \<Rightarrow> tables \<Rightarrow> tables \<Rightarrow> tables option" where
  "copy_options cod pollID [] db own = Some own"
| "copy_options cod pollID (x # xs) db own =
     (case option_row_of cod pollID x of None \<Rightarrow> None
      | Some r \<Rightarrow>
          if option_insertable db own r
          then copy_options cod pollID xs db (own\<lparr>t_options := t_options own @ [r]\<rparr>) else None)"

definition result_insertable :: "tables \<Rightarrow> tables \<Rightarrow> string \<Rightarrow> string \<Rightarrow> bool" where
  "result_insertable db own p i \<longleftrightarrow>
     poll_known db own p \<and> option_known db own i
     \<and> (p, i) \<notin> fst ` set (t_results db) \<and> (p, i) \<notin> fst ` set (t_results own)"

fun copy_results :: "pg_codec \<Rightarrow> string \<Rightarrow> poll_option list \<Rightarrow> tables \<Rightarrow> tables \<Rightarrow> tables option" where
  "copy_results cod pollID [] db own = Some own"
| "copy_results cod pollID (x # xs) db own =
     (case (pg_uuid cod pollID, pg_uuid cod (o_id x)) of
        (Some p, Some i) \<Rightarrow>
          if result_insertable db own p i
          then copy_results cod pollID xs db (own\<lparr>t_results := t_results own @ [((p, i), 0)]\<rparr>)
          else None
      | _ \<Rightarrow> None)"

subsection \<open>pollTx\<close>

definition tx_failure :: "string \<Rightarrow> string \<Rightarrow> goerror \<Rightarrow> goerror" where
  "tx_failure context message e = Wrapped context (WrapError CodeUnavailable e message)"

definition pollTx_InsertPoll :: "pg_codec \<Rightarrow> nat \<Rightarrow> poll \<Rightarrow> (pg_state, unit) action" where
  "pollTx_InsertPoll cod n p st =
     go_try (tx_exec n (insert_poll cod p) st)
       (tx_failure ''insert poll'' ''failed to create poll'') (\<lambda>_ st. (Inr (), st))"

definition pollTx_InsertPollOptions :: "pg_codec \<Rightarrow> nat \<Rightarrow> poll \<Rightarrow> (pg_state, unit) action" where
  "pollTx_InsertPollOptions cod n p st =
     go_try (tx_exec n (copy_options cod (p_id p) (p_options p)) st)
       (tx_failure ''insert poll options'' ''failed to create poll options'') (\<lambda>_ st. (Inr (), st))"

definition pollTx_InsertZeroResults :: "pg_codec \<Rightarrow> nat \<Rightarrow> poll \<Rightarrow> (pg_state, unit) action" where
  "pollTx_InsertZeroResults cod n p st =
     go_try (tx_exec n (copy_results cod (p_id p) (p_options p)) st)
       (tx_failure ''insert poll results'' ''failed to initialise poll results'') (\<lambda>_ st. (Inr (), st))"

text \<open>COMMIT closes the transaction in every case; a lost reply leaves it committed.\<close>

definition tx_commit :: "nat \<Rightarrow> (pg_state, unit) action" where
  "tx_commit n st =
     (case pg_txs st n of
        None \<Rightarrow> (Inl (ErrText ''tx is closed''), st)
      | Some TxAborted \<Rightarrow>
          (Inl (ErrText ''commit unexpectedly resulted in rollback''),
           (pg_tick st)\<lparr>pg_txs := (pg_txs st)(n := None)\<rparr>)
      | Some (TxOpen own) \<Rightarrow>
          (let st' = (pg_tick st)\<lparr>pg_txs := (pg_txs st)(n := None)\<rparr>;
               committed = st'\<lparr>pg_tables := join_tables (pg_tables st) own\<rparr>
           in case pg_fate_of st of
                PgDone \<Rightarrow> (Inr (), committed) | PgFailed \<Rightarrow> (Inl pg_down, st') | PgLost \<Rightarrow> (Inl pg_down, committed)))"

definition pollTx_Commit :: "nat \<Rightarrow> (pg_state, unit) action" where
  "pollTx_Commit n st =
     go_try (tx_commit n st) (tx_failure ''commit tx'' ''failed to create poll'') (\<lambda>_ st. (Inr (), st))"

text \<open>Rolling back a closed transaction is \<open>pgx.ErrTxClosed\<close>, which \<open>Rollback\<close> ignores.\<close>

definition pollTx_Rollback :: "nat \<Rightarrow> (pg_state, unit) action" where
  "pollTx_Rollback n st =
     (case pg_txs st n of
        None \<Rightarrow> (Inr (), st)
      | Some _ \<Rightarrow>
          (if pg_fate_of st = PgDone then Inr () else Inl (Wrapped ''rollback tx'' pg_down),
           (pg_tick st)\<lparr>pg_txs := (pg_txs st)(n := None)\<rparr>))"

definition pollTx :: "pg_codec \<Rightarrow> nat \<Rightarrow> pg_state PollTx" where
  "pollTx cod n = \<lparr>
     tx_InsertPoll = pollTx_InsertPoll cod n,
     tx_InsertPollOptions = pollTx_InsertPollOptions cod n,
     tx_InsertZeroResults = pollTx_InsertZeroResults cod n,
     tx_Commit = pollTx_Commit n,
     tx_Rollback = pollTx_Rollback n\<rparr>"

definition repo_BeginTx :: "pg_codec \<Rightarrow> (pg_state, pg_state PollTx) action" where
  "repo_BeginTx cod st =
     (if pg_fate_of st = PgDone
      then (Inr (pollTx cod (pg_next_tx st)),
            (pg_tick st)\<lparr>pg_txs := (pg_txs st)(pg_next_tx st \<mapsto> TxOpen empty_tables),
                        pg_next_tx := pg_next_tx st + 1\<rparr>)
      else (Inl (tx_failure ''begin tx'' ''failed to create poll'' pg_down), pg_tick st))"

subsection \<open>Reads\<close>

definition poll_of_row :: "poll_row \<Rightarrow> poll" where
  "poll_of_row r = \<lparr>p_id = row_id r, p_question = row_question r, p_type = row_type r,
     p_max_choices = row_max_choices r, p_status = row_status r, p_options = [],
     p_created_at = row_created_at r, p_starts_at = row_starts_at r, p_ends_at = row_ends_at r,
     p_finished_at = row_finished_at r\<rparr>"

definition option_of_row :: "option_row \<Rightarrow> poll_option" where
  "option_of_row r = \<lparr>o_id = opt_id r, o_text = opt_text r, o_position = opt_position r\<rparr>"

text \<open>
  The rows of the LEFT JOIN, ordered by the option's position and id. The id of a poll is
  its primary key, so a row without an option is the only row and its place is immaterial.
\<close>

definition join_order :: "poll_row \<times> option_row option \<Rightarrow> int \<times> string" where
  "join_order r = (case snd r of None \<Rightarrow> (0, []) | Some q \<Rightarrow> (opt_position q, opt_id q))"

definition poll_join :: "string \<Rightarrow> tables \<Rightarrow> (poll_row \<times> option_row option) list" where
  "poll_join i t =
     sort_key join_order (concat (map (\<lambda>r.
       (case filter (\<lambda>q. opt_poll_id q = row_id r) (t_options t) of
          [] \<Rightarrow> [(r, None)] | qs \<Rightarrow> map (\<lambda>q. (r, Some q)) qs))
       (filter (\<lambda>r. row_id r = i) (t_polls t))))"

text \<open>The loop over the rows: the first row makes the poll, every row adds its option.\<close>

fun scan_poll :: "poll option \<Rightarrow> (poll_row \<times> option_row option) list \<Rightarrow> poll option" where
  "scan_poll found [] = found"
| "scan_poll found ((r, q) # rows) =
     (let p = (case found of None \<Rightarrow> poll_of_row r | Some p \<Rightarrow> p)
      in scan_poll (Some (case q of None \<Rightarrow> p
           | Some q \<Rightarrow> p\<lparr>p_options := p_options p @ [option_of_row q]\<rparr>)) rows)"

text \<open>
  A read fails at the query, or while its rows arrive (the reply is lost); the two are
  logged under different contexts. A query for a single row has one context.
\<close>

definition unavailable :: "string \<Rightarrow> string \<Rightarrow> goerror \<Rightarrow> goerror" where
  "unavailable context message e = Wrapped context (WrapError CodeUnavailable e message)"

definition read_failure :: "string \<Rightarrow> string \<Rightarrow> string \<Rightarrow> goerror \<Rightarrow> goerror" where
  "read_failure query iterate message e =
     unavailable (if e = pg_cut then iterate else query) message e"

definition uuid_arg :: "pg_codec \<Rightarrow> string \<Rightarrow> (string \<Rightarrow> goerror + 'a) \<Rightarrow> goerror + 'a" where
  "uuid_arg cod s k = (case pg_uuid cod s of None \<Rightarrow> Inl pg_invalid | Some i \<Rightarrow> k i)"

definition repo_GetPoll :: "pg_codec \<Rightarrow> string \<Rightarrow> (pg_state, poll) action" where
  "repo_GetPoll cod pollID st =
     go_try (pg_query (\<lambda>t. uuid_arg cod pollID (\<lambda>i. Inr (poll_join i t))) st)
       (read_failure ''get poll'' ''iterate poll'' ''failed to load poll'')
       (\<lambda>rows st. (case scan_poll None rows of None \<Rightarrow> Inl ErrPollNotFound | Some p \<Rightarrow> Inr p, st))"

definition repo_CountPolls :: "(pg_state, int) action" where
  "repo_CountPolls st =
     go_try (pg_query (\<lambda>t. Inr (int (length (t_polls t)))) st)
       (unavailable ''count polls'' ''failed to count polls'') (\<lambda>n st. (Inr n, st))"

text \<open>A negative LIMIT or OFFSET is an error of the server.\<close>

definition page_of :: "int \<Rightarrow> int \<Rightarrow> tables \<Rightarrow> poll_row list" where
  "page_of limit offset t =
     take (nat limit) (drop (nat offset)
       (rev (sort_key (\<lambda>r. (row_created_at r, row_id r)) (t_polls t))))"

definition repo_ListPollPage :: "int \<Rightarrow> int \<Rightarrow> (pg_state, poll list) action" where
  "repo_ListPollPage limit offset st =
     go_try (pg_query (\<lambda>t. if limit < 0 \<or> offset < 0 then Inl (ErrText ''must not be negative'')
                           else Inr (page_of limit offset t)) st)
       (read_failure ''list polls'' ''iterate poll page'' ''failed to list polls'')
       (\<lambda>rows st. (Inr (map poll_of_row rows), st))"

definition options_in_order :: "string set \<Rightarrow> tables \<Rightarrow> option_row list" where
  "options_in_order ids t =
     sort_key (\<lambda>q. (opt_position q, opt_id q)) (filter (\<lambda>q. opt_poll_id q \<in> ids) (t_options t))"

fun group_options ::
  "(string \<times> poll_option list) list \<Rightarrow> option_row list \<Rightarrow> (string \<times> poll_option list) list"
where
  "group_options out [] = out"
| "group_options out (q # qs) =
     group_options (AList.update (opt_poll_id q)
       ((case map_of out (opt_poll_id q) of None \<Rightarrow> [] | Some os \<Rightarrow> os) @ [option_of_row q]) out) qs"

fun uuid_args :: "pg_codec \<Rightarrow> string list \<Rightarrow> string list option" where
  "uuid_args cod [] = Some []"
| "uuid_args cod (s # ss) =
     (case (pg_uuid cod s, uuid_args cod ss) of (Some i, Some is) \<Rightarrow> Some (i # is) | _ \<Rightarrow> None)"

definition repo_ListOptionsByPollIDs ::
  "pg_codec \<Rightarrow> string list \<Rightarrow> (pg_state, (string \<times> poll_option list) list) action"
where
  "repo_ListOptionsByPollIDs cod pollIDs st =
     (if pollIDs = [] then (Inr [], st)
      else go_try (pg_query (\<lambda>t. (case uuid_args cod pollIDs of None \<Rightarrow> Inl pg_invalid
                     | Some is \<Rightarrow> Inr (options_in_order (set is) t))) st)
             (read_failure ''list options'' ''iterate options'' ''failed to load poll options'')
             (\<lambda>rows st. (Inr (group_options [] rows), st)))"

definition repo_GetPollStatus :: "pg_codec \<Rightarrow> string \<Rightarrow> (pg_state, poll_status) action" where
  "repo_GetPollStatus cod pollID st =
     go_try (pg_query (\<lambda>t. uuid_arg cod pollID (\<lambda>i. Inr (find (\<lambda>r. row_id r = i) (t_polls t)))) st)
       (unavailable ''get poll status'' ''failed to load poll status'')
       (\<lambda>row st. (case row of None \<Rightarrow> Inl ErrPollNotFound | Some r \<Rightarrow> Inr (row_status r), st))"

definition repo_GetResults :: "pg_codec \<Rightarrow> string \<Rightarrow> (pg_state, (string \<times> int64) list) action" where
  "repo_GetResults cod pollID st =
     go_try (pg_query (\<lambda>t. uuid_arg cod pollID (\<lambda>i.
                Inr (map (\<lambda>((_, o'), v). (o', v)) (filter (\<lambda>((p, _), _). p = i) (t_results t))))) st)
       (read_failure ''get results'' ''iterate results'' ''failed to load results'')
       (\<lambda>rows st. (Inr (foldl (\<lambda>m (o', v). AList.update o' (int64_of v) m) [] rows), st))"

subsection \<open>Writes\<close>

text \<open>
  The conditional UPDATE: every row with the id and one of the allowed statuses gets the
  new status and the new \<open>finished_at\<close>; a row that breaks a CHECK fails the statement.
\<close>

definition set_status :: "string \<Rightarrow> instant option \<Rightarrow> poll_row \<Rightarrow> poll_row" where
  "set_status to finishedAt r = r\<lparr>row_status := to, row_finished_at := finishedAt\<rparr>"

definition update_status ::
  "string \<Rightarrow> string list \<Rightarrow> string \<Rightarrow> instant option \<Rightarrow> tables \<Rightarrow> goerror + (string list \<times> tables)"
where
  "update_status i allowed to finishedAt t =
     (let hit = (\<lambda>r. row_id r = i \<and> row_status r \<in> set allowed);
          rows = map (\<lambda>r. if hit r then set_status to finishedAt r else r) (t_polls t)
      in if list_all (\<lambda>r. hit r \<longrightarrow> poll_row_ok (set_status to finishedAt r)) (t_polls t)
         then Inr (map row_id (filter hit (t_polls t)), t\<lparr>t_polls := rows\<rparr>)
         else Inl pg_violation)"

definition repo_UpdatePollStatus ::
  "pg_codec \<Rightarrow> string \<Rightarrow> poll_status list \<Rightarrow> poll_status \<Rightarrow> instant \<Rightarrow> (pg_state, unit) action"
where
  "repo_UpdatePollStatus cod pollID from to at st =
     (let finishedAt = (if to = PollStatusFinished then Some (pg_time cod at) else None)
      in go_try (pg_exec (\<lambda>t. uuid_arg cod pollID (\<lambda>i. update_status i from to finishedAt t)) st)
           (unavailable ''update poll status'' ''failed to update poll status'')
           (\<lambda>updated st. (if updated = [] then Inl ErrNotUpdated else Inr (), st)))"

text \<open>
  The upsert: one row per option. It fails as a whole when an id is no uuid, a key does not
  exist, a count is negative or two ids name the same row.
\<close>

definition greatest :: "string \<times> string \<Rightarrow> int \<Rightarrow> result_row list \<Rightarrow> result_row list" where
  "greatest k v rs =
     (case map_of rs k of None \<Rightarrow> rs @ [(k, v)] | Some w \<Rightarrow> AList.update k (max w v) rs)"

definition upsert_results ::
  "string \<Rightarrow> string list \<Rightarrow> int list \<Rightarrow> tables \<Rightarrow> goerror + (unit \<times> tables)"
where
  "upsert_results p ids votes t =
     (if distinct ids \<and> list_all (\<lambda>v. 0 \<le> v) votes
         \<and> p \<in> row_id ` set (t_polls t) \<and> set ids \<subseteq> opt_id ` set (t_options t)
      then Inr ((), t\<lparr>t_results :=
             foldl (\<lambda>rs (i, v). greatest (p, i) v rs) (t_results t) (zip ids votes)\<rparr>)
      else Inl pg_violation)"

definition repo_SaveResults ::
  "pg_codec \<Rightarrow> string \<Rightarrow> (string \<times> int64) list \<Rightarrow> (pg_state, unit) action"
where
  "repo_SaveResults cod pollID counts st =
     (if counts = [] then (Inr (), st)
      else go_try (pg_exec (\<lambda>t. uuid_arg cod pollID (\<lambda>p.
                     (case uuid_args cod (map fst counts) of None \<Rightarrow> Inl pg_invalid
                      | Some ids \<Rightarrow> upsert_results p ids (map (\<lambda>(_, v). sint v) counts) t))) st)
             (unavailable ''save results'' ''failed to persist results'') (\<lambda>_ st. (Inr (), st)))"

definition repo_Ping :: "(pg_state, unit) action" where
  "repo_Ping st = go_try (pg_query (\<lambda>t. Inr ()) st) (Wrapped ''ping postgres'') (\<lambda>_ st. (Inr (), st))"

definition NewPollRepository :: "pg_codec \<Rightarrow> pg_state PollRepository" where
  "NewPollRepository cod = \<lparr>
     pr_BeginTx = repo_BeginTx cod,
     pr_GetPoll = repo_GetPoll cod,
     pr_CountPolls = repo_CountPolls,
     pr_ListPollPage = repo_ListPollPage,
     pr_ListOptionsByPollIDs = repo_ListOptionsByPollIDs cod,
     pr_UpdatePollStatus = repo_UpdatePollStatus cod,
     pr_GetPollStatus = repo_GetPollStatus cod,
     pr_GetResults = repo_GetResults cod,
     pr_SaveResults = repo_SaveResults cod,
     pr_Ping = repo_Ping\<rparr>"

end
