(* ===== verification/Repository_Port.thy ===== *)
theory Repository_Port
  imports Ports
begin

text \<open>
  The contract of the durable store: what the services rely on, in terms of the polls it
  stores (by their canonical id) and the durable count of each option. \<open>store_new\<close> is the
  transaction of \<open>PollService.Create\<close>, with its deferred rollback; the contract speaks of
  it as a whole, because nothing of an open transaction is visible to another operation.
\<close>

definition store_new :: "'s PollRepository \<Rightarrow> poll \<Rightarrow> ('s, unit) action" where
  "store_new R p s =
     go_try (pr_BeginTx R s) (Wrapped ''create poll'') (\<lambda>tx s.
       case go_try (tx_InsertPoll tx p s) (Wrapped ''create poll'') (\<lambda>_ s.
            go_try (tx_InsertPollOptions tx p s) (Wrapped ''create poll'') (\<lambda>_ s.
            go_try (tx_InsertZeroResults tx p s) (Wrapped ''create poll'') (\<lambda>_ s.
            go_try (tx_Commit tx s) (Wrapped ''create poll'') (\<lambda>_ s. (Inr (), s)))))
       of (r, s) \<Rightarrow> (r, snd (tx_Rollback tx s)))"

subsection \<open>What a stored poll is\<close>

definition stored_poll_ok :: "(string \<Rightarrow> string option) \<Rightarrow> string \<Rightarrow> poll \<Rightarrow> bool" where
  "stored_poll_ok canon c p \<longleftrightarrow>
     p_id p = c \<and> canon c = Some c \<and> distinct (OptionIDs p)
     \<and> (\<forall>i \<in> set (OptionIDs p). canon i = Some i)
     \<and> PollStatus_Valid (p_status p) \<and> PollType_Valid (p_type p) \<and> 1 \<le> p_max_choices p
     \<and> (p_status p = PollStatusFinished) = (p_finished_at p \<noteq> None)"

text \<open>A poll with a new status; \<open>finished_at\<close> is set when it finishes and cleared otherwise.\<close>

definition with_status :: "(instant \<Rightarrow> instant) \<Rightarrow> poll_status \<Rightarrow> instant \<Rightarrow> poll \<Rightarrow> poll" where
  "with_status stamp to at p =
     p\<lparr>p_status := to, p_finished_at := (if to = PollStatusFinished then Some (stamp at) else None)\<rparr>"

text \<open>A poll as it is read back: its instants at the resolution of the store.\<close>

definition stamped :: "(instant \<Rightarrow> instant) \<Rightarrow> poll \<Rightarrow> poll" where
  "stamped stamp p = p\<lparr>p_created_at := stamp (p_created_at p),
     p_starts_at := map_option stamp (p_starts_at p), p_ends_at := map_option stamp (p_ends_at p)\<rparr>"

definition new_poll_ok :: "(string \<Rightarrow> string option) \<Rightarrow> poll \<Rightarrow> bool" where
  "new_poll_ok canon p \<longleftrightarrow>
     canon (p_id p) = Some (p_id p) \<and> (\<forall>i \<in> set (OptionIDs p). canon i = Some i)
     \<and> map o_position (p_options p) = map int [0 ..< length (p_options p)]
     \<and> p_finished_at p = None"

text \<open>Durable counts raised to at least the given ones.\<close>

definition raised ::
  "string \<Rightarrow> (string \<times> int64) list \<Rightarrow> (string \<Rightarrow> string \<Rightarrow> int option) \<Rightarrow> string \<Rightarrow> string \<Rightarrow> int option"
where
  "raised c m d q i =
     (if q = c then
        (case map_of m i of None \<Rightarrow> d q i
         | Some v \<Rightarrow> (case d q i of None \<Rightarrow> Some (sint v) | Some w \<Rightarrow> Some (max w (sint v))))
      else d q i)"

definition zeroed :: "poll \<Rightarrow> (string \<Rightarrow> string \<Rightarrow> int option) \<Rightarrow> string \<Rightarrow> string \<Rightarrow> int option" where
  "zeroed p d q i = (if q = p_id p \<and> i \<in> set (OptionIDs p) then Some 0 else d q i)"

subsection \<open>The contract\<close>

locale poll_repository =
  fixes R :: "'s PollRepository"
    and canon :: "string \<Rightarrow> string option"
    and stamp :: "instant \<Rightarrow> instant"
    and stored :: "'s \<Rightarrow> string \<Rightarrow> poll option"
    and durable :: "'s \<Rightarrow> string \<Rightarrow> string \<Rightarrow> int option"
    and invar :: "'s \<Rightarrow> bool"
  assumes stored_ok: "invar s \<Longrightarrow> stored s c = Some p \<Longrightarrow> stored_poll_ok canon c p"
    and durable_nonneg: "invar s \<Longrightarrow> durable s c i = Some v \<Longrightarrow> 0 \<le> v \<and> v \<le> max_int64"
    and get_poll_frame: "invar s \<Longrightarrow> pr_GetPoll R i s = (r, s') \<Longrightarrow>
      invar s' \<and> stored s' = stored s \<and> durable s' = durable s"
    and get_poll_found: "invar s \<Longrightarrow> pr_GetPoll R i s = (Inr p, s') \<Longrightarrow>
      canon i = Some (p_id p) \<and> stored s (p_id p) = Some p"
    and get_poll_error: "invar s \<Longrightarrow> pr_GetPoll R i s = (Inl e, s') \<Longrightarrow>
      CodeOf e = CodeUnavailable
      \<or> CodeOf e = CodeNotFound \<and> (\<exists>c. canon i = Some c \<and> stored s c = None)"
    and status_frame: "invar s \<Longrightarrow> pr_GetPollStatus R i s = (rs, s') \<Longrightarrow>
      invar s' \<and> stored s' = stored s \<and> durable s' = durable s"
    and status_found: "invar s \<Longrightarrow> pr_GetPollStatus R i s = (Inr t, s') \<Longrightarrow>
      \<exists>p. canon i = Some (p_id p) \<and> stored s (p_id p) = Some p \<and> p_status p = t"
    and status_error: "invar s \<Longrightarrow> pr_GetPollStatus R i s = (Inl e, s') \<Longrightarrow>
      CodeOf e = CodeUnavailable
      \<or> CodeOf e = CodeNotFound \<and> (\<exists>c. canon i = Some c \<and> stored s c = None)"
    and update_done: "invar s \<Longrightarrow> pr_UpdatePollStatus R i from to at s = (Inr u, s') \<Longrightarrow>
      invar s' \<and> durable s' = durable s
      \<and> (\<exists>p. canon i = Some (p_id p) \<and> stored s (p_id p) = Some p \<and> p_status p \<in> set from
           \<and> stored s' = (stored s)(p_id p \<mapsto> with_status stamp to at p))"
    and update_error: "invar s \<Longrightarrow> pr_UpdatePollStatus R i from to at s = (Inl e, s') \<Longrightarrow>
      invar s' \<and> durable s' = durable s
      \<and> (is_not_updated e \<and> stored s' = stored s
           \<and> (\<exists>c. canon i = Some c \<and> (\<forall>p. stored s c = Some p \<longrightarrow> p_status p \<notin> set from))
         \<or> \<not> is_not_updated e \<and> CodeOf e = CodeUnavailable
           \<and> (stored s' = stored s
              \<or> (\<exists>p. canon i = Some (p_id p) \<and> stored s (p_id p) = Some p \<and> p_status p \<in> set from
                   \<and> stored s' = (stored s)(p_id p \<mapsto> with_status stamp to at p))))"
    and results_frame: "invar s \<Longrightarrow> pr_GetResults R i s = (rm, s') \<Longrightarrow>
      invar s' \<and> stored s' = stored s \<and> durable s' = durable s"
    and results_value: "invar s \<Longrightarrow> pr_GetResults R i s = (Inr m, s') \<Longrightarrow>
      \<exists>c. canon i = Some c \<and> (\<forall>j. map_option sint (map_of m j) = durable s c j)"
    and results_error: "invar s \<Longrightarrow> pr_GetResults R i s = (Inl e, s') \<Longrightarrow> CodeOf e = CodeUnavailable"
    and save_done: "invar s \<Longrightarrow> distinct (map fst m) \<Longrightarrow> \<forall>k \<in> fst ` set m. canon k = Some k \<Longrightarrow>
      canon i = Some c \<Longrightarrow> pr_SaveResults R i m s = (Inr u, s') \<Longrightarrow>
      invar s' \<and> stored s' = stored s \<and> durable s' = raised c m (durable s)"
    and save_error: "invar s \<Longrightarrow> distinct (map fst m) \<Longrightarrow> \<forall>k \<in> fst ` set m. canon k = Some k \<Longrightarrow>
      canon i = Some c \<Longrightarrow> pr_SaveResults R i m s = (Inl e, s') \<Longrightarrow>
      invar s' \<and> stored s' = stored s \<and> CodeOf e = CodeUnavailable
      \<and> (durable s' = durable s \<or> durable s' = raised c m (durable s))"
    and create_done: "invar s \<Longrightarrow> new_poll_ok canon p \<Longrightarrow> store_new R p s = (Inr u, s') \<Longrightarrow>
      invar s' \<and> stored s (p_id p) = None
      \<and> stored s' = (stored s)(p_id p \<mapsto> stamped stamp p) \<and> durable s' = zeroed p (durable s)"
    and create_error: "invar s \<Longrightarrow> new_poll_ok canon p \<Longrightarrow> store_new R p s = (Inl e, s') \<Longrightarrow>
      invar s' \<and> CodeOf e = CodeUnavailable
      \<and> (stored s' = stored s \<and> durable s' = durable s
         \<or> stored s (p_id p) = None
           \<and> stored s' = (stored s)(p_id p \<mapsto> stamped stamp p) \<and> durable s' = zeroed p (durable s))"
    and durable_known: "invar s \<Longrightarrow> durable s c i = Some v \<Longrightarrow> stored s c \<noteq> None"
begin

text \<open>Durable counts only grow.\<close>

lemma raised_grows: "d q i = Some v \<Longrightarrow> \<exists>w. raised c m d q i = Some w \<and> v \<le> w"
  by (auto simp: raised_def split: option.splits)

lemma save_grows:
  assumes "invar s" and "distinct (map fst m)" and "\<forall>k \<in> fst ` set m. canon k = Some k"
    and "canon i = Some c" and "pr_SaveResults R i m s = (r, s')" and "durable s q j = Some v"
  shows "\<exists>w. durable s' q j = Some w \<and> v \<le> w"
proof (cases r)
  case (Inl e)
  with save_error [OF assms(1-4)] assms(5,6) raised_grows [of "durable s" q j v] show ?thesis by auto
next
  case (Inr u)
  with save_done [OF assms(1-4)] assms(5,6) raised_grows [of "durable s" q j v] show ?thesis by auto
qed

text \<open>A failed lookup of a poll that is there is an outage, never "not found".\<close>

lemma get_poll_present:
  assumes "invar s" and "canon i = Some c" and "stored s c = Some p" and "pr_GetPoll R i s = (r, s')"
  shows "r = Inr p \<or> (\<exists>e. r = Inl e \<and> CodeOf e = CodeUnavailable)"
proof (cases r)
  case (Inl e)
  with get_poll_error [OF assms(1), of i e s'] assms show ?thesis by auto
next
  case (Inr q)
  with get_poll_found [OF assms(1), of i q s'] assms show ?thesis by auto
qed

end

end
