(* ===== verification/Repository_Laws.thy ===== *)
theory Repository_Laws
  imports Repository Repository_Port
begin

text \<open>
  What the tables keep (\<open>tables_ok\<close>: every constraint of the migration, and values in the
  form the server stores), what a reader of the tables sees, and the interpretation of the
  \<open>poll_repository\<close> contract on the repository.
\<close>

subsection \<open>The schema as an invariant\<close>

definition tables_ok :: "pg_codec \<Rightarrow> tables \<Rightarrow> bool" where
  "tables_ok cod t \<longleftrightarrow>
     distinct (map row_id (t_polls t)) \<and> (\<forall>r \<in> set (t_polls t). poll_row_ok r)
     \<and> (\<forall>r \<in> set (t_polls t). pg_uuid cod (row_id r) = Some (row_id r))
     \<and> distinct (map opt_id (t_options t)) \<and> (\<forall>q \<in> set (t_options t). option_row_ok q)
     \<and> (\<forall>q \<in> set (t_options t). pg_uuid cod (opt_id q) = Some (opt_id q))
     \<and> opt_poll_id ` set (t_options t) \<subseteq> row_id ` set (t_polls t)
     \<and> distinct (map (\<lambda>q. (opt_poll_id q, opt_position q)) (t_options t))
     \<and> distinct (map fst (t_results t))
     \<and> (\<forall>((p, i), v) \<in> set (t_results t). p \<in> row_id ` set (t_polls t)
           \<and> i \<in> opt_id ` set (t_options t) \<and> 0 \<le> v \<and> v \<le> max_int64)"

definition options_of :: "tables \<Rightarrow> string \<Rightarrow> option_row list" where
  "options_of t c = sort_key (\<lambda>q. (opt_position q, opt_id q)) (filter (\<lambda>q. opt_poll_id q = c) (t_options t))"

definition stored_poll :: "tables \<Rightarrow> string \<Rightarrow> poll option" where
  "stored_poll t c =
     map_option (\<lambda>r. (poll_of_row r)\<lparr>p_options := map option_of_row (options_of t c)\<rparr>)
       (find (\<lambda>r. row_id r = c) (t_polls t))"

definition pg_stored :: "pg_state \<Rightarrow> string \<Rightarrow> poll option" where
  "pg_stored st c = stored_poll (pg_tables st) c"

definition pg_durable :: "pg_state \<Rightarrow> string \<Rightarrow> string \<Rightarrow> int option" where
  "pg_durable st p i = map_of (t_results (pg_tables st)) (p, i)"

definition pg_inv :: "pg_codec \<Rightarrow> pg_state \<Rightarrow> bool" where
  "pg_inv cod st \<longleftrightarrow> codec_ok cod \<and> tables_ok cod (pg_tables st) \<and> pg_txs st = Map.empty"

lemma pg_tick_simps [simp]:
  "pg_tables (pg_tick st) = pg_tables st" "pg_txs (pg_tick st) = pg_txs st"
  "pg_next_tx (pg_tick st) = pg_next_tx st"
  by (simp_all add: pg_tick_def)

lemma same_tables:
  "pg_tables st' = pg_tables st \<Longrightarrow> pg_txs st' = pg_txs st \<Longrightarrow>
     pg_stored st' = pg_stored st \<and> pg_durable st' = pg_durable st \<and> pg_inv cod st' = pg_inv cod st"
  by (simp add: pg_stored_def pg_durable_def pg_inv_def fun_eq_iff)

lemma find_by_id:
  assumes "distinct (map row_id rs)" and "r \<in> set rs"
  shows "find (\<lambda>q. row_id q = row_id r) rs = Some r"
  using assms by (induction rs) auto

lemma find_row_Some: "find (\<lambda>r. row_id r = c) rs = Some r \<Longrightarrow> r \<in> set rs \<and> row_id r = c"
  by (auto simp: find_Some_iff)

lemma find_row_None: "find (\<lambda>r. row_id r = c) rs = None \<longleftrightarrow> c \<notin> row_id ` set rs"
  by (auto simp: find_None_iff)

lemma stored_poll_None: "stored_poll t c = None \<longleftrightarrow> c \<notin> row_id ` set (t_polls t)"
  by (simp add: stored_poll_def find_row_None)

lemma set_options_of: "set (options_of t c) = {q \<in> set (t_options t). opt_poll_id q = c}"
  by (simp add: options_of_def)

lemma OptionIDs_of_rows: "map o_id (map option_of_row qs) = map opt_id qs"
  by (simp add: option_of_row_def o_def)

lemma distinct_options_of:
  assumes "distinct (map opt_id (t_options t))"
  shows "distinct (map opt_id (options_of t c))"
  using assms unfolding options_of_def
  by (simp add: distinct_map inj_on_def distinct_filter)

lemma stored_poll_rows:
  assumes "stored_poll t c = Some p"
  obtains r where "r \<in> set (t_polls t)" "row_id r = c"
    "p = (poll_of_row r)\<lparr>p_options := map option_of_row (options_of t c)\<rparr>"
  using assms by (auto simp: stored_poll_def dest!: find_row_Some)

lemma stored_poll_sound:
  assumes "tables_ok cod t" and "stored_poll t c = Some p"
  shows "stored_poll_ok (pg_uuid cod) c p"
proof -
  from assms(2) obtain r where r: "r \<in> set (t_polls t)" "row_id r = c"
    "p = (poll_of_row r)\<lparr>p_options := map option_of_row (options_of t c)\<rparr>"
    by (rule stored_poll_rows)
  with assms(1) have row: "poll_row_ok r" "pg_uuid cod c = Some c" by (auto simp: tables_ok_def)
  have ids: "OptionIDs p = map opt_id (options_of t c)"
    by (simp add: OptionIDs_def r(3) option_of_row_def o_def)
  have "distinct (OptionIDs p)"
    using assms(1) by (simp add: ids tables_ok_def distinct_options_of)
  moreover have "\<forall>i \<in> set (OptionIDs p). pg_uuid cod i = Some i"
    using assms(1) by (auto simp: ids set_options_of tables_ok_def)
  ultimately show ?thesis
    using r(2,3) row
    by (auto simp: stored_poll_ok_def poll_of_row_def poll_row_ok_def PollStatus_Valid_def PollType_Valid_def)
qed

lemma pg_durable_range:
  assumes "tables_ok cod (pg_tables st)" and "pg_durable st p i = Some v"
  shows "0 \<le> v" "v \<le> max_int64"
proof -
  from assms(2) have "((p, i), v) \<in> set (t_results (pg_tables st))"
    by (auto simp: pg_durable_def dest: map_of_SomeD)
  with assms(1) show "0 \<le> v" "v \<le> max_int64" unfolding tables_ok_def by blast+
qed

subsection \<open>Reading\<close>

lemma pg_query_eq:
  "pg_query q st = (r, st') \<longleftrightarrow> st' = pg_tick st
     \<and> (pg_fate_of st = PgDone \<and> r = q (pg_tables st) \<or> pg_fate_of st = PgFailed \<and> r = Inl pg_down
        \<or> pg_fate_of st = PgLost \<and> r = Inl pg_cut)"
  by (auto simp: pg_query_def split: pg_fate.splits)

lemma read_codes [simp]:
  "CodeOf (read_failure a b m e) = CodeUnavailable"
  "CodeOf (unavailable a m e) = CodeUnavailable"
  "CodeOf (tx_failure a m e) = CodeUnavailable"
  by (simp_all add: read_failure_def unavailable_def tx_failure_def)

lemma scan_poll_Some:
  "scan_poll (Some p) (map (\<lambda>q. (r, Some q)) qs) = Some (p\<lparr>p_options := p_options p @ map option_of_row qs\<rparr>)"
  by (induction qs arbitrary: p) simp_all

lemma filter_by_id:
  assumes "distinct (map row_id rs)"
  shows "filter (\<lambda>r. row_id r = c) rs =
    (case find (\<lambda>r. row_id r = c) rs of None \<Rightarrow> [] | Some r \<Rightarrow> [r])"
  using assms
proof (induction rs)
  case (Cons r rs)
  then show ?case
    by (cases "row_id r = c") (auto simp: filter_empty_conv find_row_None [THEN iffD2])
qed simp

lemma insort_key_map:
  "insort_key f (g x) (map g xs) = map g (insort_key (\<lambda>x. f (g x)) x xs)"
  by (induction xs) simp_all

lemma sort_key_map: "sort_key f (map g xs) = map g (sort_key (\<lambda>x. f (g x)) xs)"
  by (induction xs) (simp_all add: insort_key_map)

lemma scan_join:
  assumes "distinct (map row_id (t_polls t))"
  shows "scan_poll None (poll_join i t) = stored_poll t i"
proof (cases "find (\<lambda>r. row_id r = i) (t_polls t)")
  case None
  then show ?thesis
    by (simp add: poll_join_def filter_by_id [OF assms] stored_poll_def)
next
  case (Some r)
  let ?qs = "filter (\<lambda>q. opt_poll_id q = i) (t_options t)"
  have i: "row_id r = i" using Some find_row_Some by blast
  show ?thesis
  proof (cases ?qs)
    case Nil
    then show ?thesis
      using Some i by (simp add: poll_join_def filter_by_id [OF assms] stored_poll_def options_of_def
          poll_of_row_def Let_def)
  next
    case (Cons q qs)
    have "poll_join i t = sort_key join_order (map (\<lambda>q. (r, Some q)) ?qs)"
      using Some i Cons by (simp add: poll_join_def filter_by_id [OF assms])
    also have "\<dots> = map (\<lambda>q. (r, Some q)) (options_of t i)"
      by (simp only: sort_key_map options_of_def) (simp add: join_order_def)
    finally have join: "poll_join i t = map (\<lambda>q. (r, Some q)) (options_of t i)" .
    have "options_of t i \<noteq> []"
      using Cons by (metis list.distinct(1) options_of_def length_sort length_0_conv)
    then obtain q' qs' where o: "options_of t i = q' # qs'" by (cases "options_of t i") auto
    show ?thesis
      using Some by (simp add: join o stored_poll_def Let_def scan_poll_Some poll_of_row_def)
  qed
qed

lemma repo_GetPoll_cases:
  assumes "distinct (map row_id (t_polls (pg_tables st)))" and "repo_GetPoll cod i st = (r, st')"
  shows "pg_tables st' = pg_tables st \<and> pg_txs st' = pg_txs st"
    and "r = Inr p \<Longrightarrow> \<exists>c. pg_uuid cod i = Some c \<and> stored_poll (pg_tables st) c = Some p"
    and "r = Inl e \<Longrightarrow> CodeOf e = CodeUnavailable
      \<or> CodeOf e = CodeNotFound \<and> (\<exists>c. pg_uuid cod i = Some c \<and> stored_poll (pg_tables st) c = None)"
  using assms
  by (auto simp: repo_GetPoll_def uuid_arg_def scan_join pg_query_eq split: go_try_splits option.splits)

lemma repo_GetPollStatus_cases:
  assumes "repo_GetPollStatus cod i st = (r, st')"
  shows "pg_tables st' = pg_tables st \<and> pg_txs st' = pg_txs st"
    and "r = Inr s \<Longrightarrow> \<exists>c row. pg_uuid cod i = Some c
      \<and> find (\<lambda>r. row_id r = c) (t_polls (pg_tables st)) = Some row \<and> row_status row = s"
    and "r = Inl e \<Longrightarrow> CodeOf e = CodeUnavailable
      \<or> CodeOf e = CodeNotFound \<and> (\<exists>c. pg_uuid cod i = Some c \<and> stored_poll (pg_tables st) c = None)"
  using assms
  by (auto simp: repo_GetPollStatus_def uuid_arg_def stored_poll_def pg_query_eq split: go_try_splits option.splits)

subsection \<open>Changing the status\<close>

lemma pg_exec_eq:
  "pg_exec stmt st = (r, st') \<longleftrightarrow>
     (pg_fate_of st = PgDone \<and>
        (case stmt (pg_tables st) of Inl e \<Rightarrow> r = Inl e \<and> st' = pg_tick st
         | Inr (a, t) \<Rightarrow> r = Inr a \<and> st' = (pg_tick st)\<lparr>pg_tables := t\<rparr>))
     \<or> (pg_fate_of st = PgFailed \<and> r = Inl pg_down \<and> st' = pg_tick st)
     \<or> (pg_fate_of st = PgLost \<and> r = Inl pg_down \<and>
        (case stmt (pg_tables st) of Inl e \<Rightarrow> st' = pg_tick st
         | Inr (a, t) \<Rightarrow> st' = (pg_tick st)\<lparr>pg_tables := t\<rparr>))"
  by (auto simp: pg_exec_def split: pg_fate.splits sum.splits)

definition status_hit :: "string \<Rightarrow> string list \<Rightarrow> poll_row \<Rightarrow> bool" where
  "status_hit i allowed r \<longleftrightarrow> row_id r = i \<and> row_status r \<in> set allowed"

definition status_rows :: "string \<Rightarrow> string list \<Rightarrow> string \<Rightarrow> instant option \<Rightarrow> poll_row list \<Rightarrow> poll_row list" where
  "status_rows i allowed to f = map (\<lambda>r. if status_hit i allowed r then set_status to f r else r)"

lemma update_status_eq:
  "update_status i allowed to f t =
     (if \<forall>r \<in> set (t_polls t). status_hit i allowed r \<longrightarrow> poll_row_ok (set_status to f r)
      then Inr (map row_id (filter (status_hit i allowed) (t_polls t)),
                t\<lparr>t_polls := status_rows i allowed to f (t_polls t)\<rparr>)
      else Inl pg_violation)"
  by (simp add: update_status_def Let_def status_hit_def [abs_def] status_rows_def list_all_iff)

lemma set_status_simps [simp]:
  "row_id (set_status to f r) = row_id r" "row_status (set_status to f r) = to"
  "row_finished_at (set_status to f r) = f"
  by (simp_all add: set_status_def)

lemma status_rows_ids [simp]: "map row_id (status_rows i allowed to f rs) = map row_id rs"
  by (simp add: status_rows_def)

lemma status_rows_id_set [simp]: "row_id ` set (status_rows i allowed to f rs) = row_id ` set rs"
  by (metis status_rows_ids set_map)

lemma status_tables_ok:
  assumes "tables_ok cod t"
    and "\<forall>r \<in> set (t_polls t). status_hit i allowed r \<longrightarrow> poll_row_ok (set_status to f r)"
  shows "tables_ok cod (t\<lparr>t_polls := status_rows i allowed to f (t_polls t)\<rparr>)"
proof -
  have "\<forall>r \<in> set (status_rows i allowed to f (t_polls t)).
      poll_row_ok r \<and> pg_uuid cod (row_id r) = Some (row_id r)"
    using assms by (auto simp: status_rows_def tables_ok_def)
  with assms(1) show ?thesis by (simp add: tables_ok_def)
qed

lemma find_status_rows:
  "find (\<lambda>r. row_id r = c) (status_rows i allowed to f rs) =
     map_option (\<lambda>r. if status_hit i allowed r then set_status to f r else r)
       (find (\<lambda>r. row_id r = c) rs)"
  by (induction rs) (auto simp: status_rows_def)

lemma stored_status_rows:
  "stored_poll (t\<lparr>t_polls := status_rows i allowed to f (t_polls t)\<rparr>) c =
     map_option (\<lambda>p. if c = i \<and> p_status p \<in> set allowed then p\<lparr>p_status := to, p_finished_at := f\<rparr> else p)
       (stored_poll t c)"
  by (cases "find (\<lambda>r. row_id r = c) (t_polls t)")
    (auto simp: stored_poll_def find_status_rows options_of_def poll_of_row_def set_status_def
      status_hit_def dest!: find_row_Some)

lemma stored_poll_status:
  assumes "distinct (map row_id (t_polls t))"
  shows "filter (status_hit i allowed) (t_polls t) \<noteq> [] \<longleftrightarrow>
    (\<exists>p. stored_poll t i = Some p \<and> p_status p \<in> set allowed)"
proof -
  have "filter (status_hit i allowed) (t_polls t) \<noteq> [] \<longleftrightarrow>
      (\<exists>r \<in> set (t_polls t). row_id r = i \<and> row_status r \<in> set allowed)"
    by (auto simp: filter_empty_conv status_hit_def)
  also have "\<dots> \<longleftrightarrow> (\<exists>r. find (\<lambda>r. row_id r = i) (t_polls t) = Some r \<and> row_status r \<in> set allowed)"
    using find_by_id [OF assms] find_row_Some by metis
  finally show ?thesis by (auto simp: stored_poll_def poll_of_row_def)
qed

lemma update_effect:
  assumes ok: "tables_ok cod t"
    and upd: "update_status i allowed to f t = Inr (ids, t')"
  shows "tables_ok cod t'" "t_results t' = t_results t"
    and "ids = [] \<Longrightarrow> stored_poll t' = stored_poll t \<and> (\<forall>p. stored_poll t i = Some p \<longrightarrow> p_status p \<notin> set allowed)"
    and "ids \<noteq> [] \<Longrightarrow> \<exists>p. stored_poll t i = Some p \<and> p_id p = i \<and> p_status p \<in> set allowed
      \<and> stored_poll t' = (stored_poll t)(i \<mapsto> p\<lparr>p_status := to, p_finished_at := f\<rparr>)"
proof -
  have dist: "distinct (map row_id (t_polls t))" using ok by (simp add: tables_ok_def)
  from upd have t': "t' = t\<lparr>t_polls := status_rows i allowed to f (t_polls t)\<rparr>"
    and ids: "ids = map row_id (filter (status_hit i allowed) (t_polls t))"
    and rows: "\<forall>r \<in> set (t_polls t). status_hit i allowed r \<longrightarrow> poll_row_ok (set_status to f r)"
    by (auto simp: update_status_eq split: if_splits)
  show "tables_ok cod t'" unfolding t' by (rule status_tables_ok [OF ok rows])
  show "t_results t' = t_results t" by (simp add: t')
  note hit = stored_poll_status [OF dist, of i allowed]
  show "stored_poll t' = stored_poll t \<and> (\<forall>p. stored_poll t i = Some p \<longrightarrow> p_status p \<notin> set allowed)"
    if "ids = []"
  proof -
    from that hit have "\<forall>p. stored_poll t i = Some p \<longrightarrow> p_status p \<notin> set allowed"
      by (auto simp: ids)
    moreover from this have "stored_poll t' c = stored_poll t c" for c
      by (cases "stored_poll t c") (auto simp: t' stored_status_rows)
    ultimately show ?thesis by blast
  qed
  show "\<exists>p. stored_poll t i = Some p \<and> p_id p = i \<and> p_status p \<in> set allowed
      \<and> stored_poll t' = (stored_poll t)(i \<mapsto> p\<lparr>p_status := to, p_finished_at := f\<rparr>)"
    if "ids \<noteq> []"
  proof -
    from that hit obtain p where p: "stored_poll t i = Some p" "p_status p \<in> set allowed"
      by (auto simp: ids)
    have "stored_poll t' = (stored_poll t)(i \<mapsto> p\<lparr>p_status := to, p_finished_at := f\<rparr>)"
      using p by (auto simp: t' stored_status_rows fun_eq_iff intro: option.map_ident)
    with p stored_poll_sound [OF ok p(1)] show ?thesis by (auto simp: stored_poll_ok_def)
  qed
qed

definition status_changed ::
  "pg_codec \<Rightarrow> string \<Rightarrow> string list \<Rightarrow> string \<Rightarrow> instant \<Rightarrow> pg_state \<Rightarrow> pg_state \<Rightarrow> bool"
where
  "status_changed cod i from to at st st' \<longleftrightarrow>
     (\<exists>p. pg_uuid cod i = Some (p_id p) \<and> pg_stored st (p_id p) = Some p \<and> p_status p \<in> set from
        \<and> pg_stored st' = (pg_stored st)(p_id p \<mapsto> with_status (pg_time cod) to at p))"

definition status_refused :: "pg_codec \<Rightarrow> string \<Rightarrow> string list \<Rightarrow> pg_state \<Rightarrow> bool" where
  "status_refused cod i from st \<longleftrightarrow>
     (\<exists>c. pg_uuid cod i = Some c \<and> (\<forall>p. pg_stored st c = Some p \<longrightarrow> p_status p \<notin> set from))"

lemma plain_errors [simp]:
  "\<not> is_not_updated pg_down" "\<not> is_not_updated pg_invalid" "\<not> is_not_updated pg_violation"
  "is_not_updated (unavailable a b e) = is_not_updated e"
  by (simp_all add: pg_down_def pg_invalid_def pg_violation_def unavailable_def)

lemma repo_UpdatePollStatus_cases:
  assumes inv: "pg_inv cod st" and run: "repo_UpdatePollStatus cod i from to at st = (r, st')"
  shows "(pg_inv cod st' \<and> pg_durable st' = pg_durable st)
    \<and> (\<forall>u. r = Inr u \<longrightarrow> status_changed cod i from to at st st')
    \<and> (\<forall>e. r = Inl e \<longrightarrow>
        is_not_updated e \<and> pg_stored st' = pg_stored st \<and> status_refused cod i from st
        \<or> \<not> is_not_updated e \<and> CodeOf e = CodeUnavailable
          \<and> (pg_stored st' = pg_stored st \<or> status_changed cod i from to at st st'))"
proof -
  let ?f = "if to = PollStatusFinished then Some (pg_time cod at) else None"
  let ?stmt = "\<lambda>t. uuid_arg cod i (\<lambda>i. update_status i from to ?f t)"
  obtain q st1 where call: "pg_exec ?stmt st = (q, st1)" by fastforce
  then have r: "st' = st1" "r = (case q of Inl e \<Rightarrow> Inl (unavailable ''update poll status'' ''failed to update poll status'' e)
      | Inr updated \<Rightarrow> if updated = [] then Inl ErrNotUpdated else Inr ())"
    using run by (auto simp: repo_UpdatePollStatus_def Let_def split: go_try_splits)
  have ok: "tables_ok cod (pg_tables st)" using inv by (simp add: pg_inv_def)
  consider (idle) e where "q = Inl e" "st1 = pg_tick st" "\<not> is_not_updated e"
    | (hit) c ids t' where "pg_uuid cod i = Some c" "update_status c from to ?f (pg_tables st) = Inr (ids, t')"
        "st1 = (pg_tick st)\<lparr>pg_tables := t'\<rparr>" "q = Inr ids \<or> q = Inl pg_down"
    using call
    by (cases "pg_uuid cod i"; cases "update_status (the (pg_uuid cod i)) from to ?f (pg_tables st)")
      (auto simp: pg_exec_eq uuid_arg_def update_status_eq split: if_splits)
  then show ?thesis
  proof cases
    case idle
    with r same_tables [of st' st cod] inv show ?thesis by auto
  next
    case hit
    note eff = update_effect [OF ok hit(2)]
    have st': "pg_tables st' = t'" "pg_txs st' = pg_txs st" using hit(3) r(1) by simp_all
    have stored: "pg_stored st = stored_poll (pg_tables st)" "pg_stored st' = stored_poll t'"
      by (simp_all add: pg_stored_def fun_eq_iff st')
    have frame: "pg_inv cod st' \<and> pg_durable st' = pg_durable st"
      using inv eff(1,2) st' by (simp add: pg_inv_def pg_durable_def fun_eq_iff)
    show ?thesis
    proof (cases "ids = []")
      case True
      with eff(3) frame hit(1,4) r stored show ?thesis by (auto simp: status_refused_def)
    next
      case False
      with eff(4) obtain p where "stored_poll (pg_tables st) c = Some p" "p_id p = c" "p_status p \<in> set from"
        "stored_poll t' = (stored_poll (pg_tables st))(c \<mapsto> p\<lparr>p_status := to, p_finished_at := ?f\<rparr>)" by blast
      then have "status_changed cod i from to at st st'"
        using hit(1) by (auto simp: status_changed_def stored with_status_def)
      with frame False hit(4) r show ?thesis by auto
    qed
  qed
qed

end
