(* ===== verification/Repository_Contract.thy ===== *)
theory Repository_Contract
  imports Repository_Laws
begin

text \<open>
  The writes that add rows (the upsert of durable counts and the transaction that creates
  a poll) and the interpretation of the \<open>poll_repository\<close> contract on the repository.
\<close>

subsection \<open>Durable counts\<close>

lemma map_of_rev_distinct: "distinct (map fst xs) \<Longrightarrow> map_of (rev xs) = map_of xs"
  by (rule map_of_eqI) (auto simp: rev_map [symmetric] map_of_eq_Some_iff)

lemma map_of_foldl_update:
  "map_of (foldl (\<lambda>m (k, v). AList.update k (f v) m) m0 xs) =
     map_of m0 ++ map_of (rev (map (\<lambda>(k, v). (k, f v)) xs))"
proof (induction xs arbitrary: m0)
  case (Cons x xs)
  then show ?case by (cases x) (simp add: update_conv' map_add_assoc [symmetric] map_add_def fun_eq_iff split: option.splits)
qed simp

definition results_for :: "string \<Rightarrow> result_row list \<Rightarrow> (string \<times> int) list" where
  "results_for i rs = map (\<lambda>((_, q), v). (q, v)) (filter (\<lambda>((p, _), _). p = i) rs)"

lemma map_of_results_for: "map_of (results_for i rs) j = map_of rs (i, j)"
  by (induction rs) (auto simp: results_for_def)

lemma distinct_results_for:
  "distinct (map fst rs) \<Longrightarrow> distinct (map fst (results_for i rs))"
  by (induction rs) (force simp: results_for_def image_iff)+

lemma repo_GetResults_cases:
  assumes inv: "pg_inv cod st" and run: "repo_GetResults cod i st = (r, st')"
  shows "pg_tables st' = pg_tables st \<and> pg_txs st' = pg_txs st"
    and "r = Inl e \<Longrightarrow> CodeOf e = CodeUnavailable"
    and "r = Inr m \<Longrightarrow> \<exists>c. pg_uuid cod i = Some c \<and> (\<forall>j. map_option sint (map_of m j) = pg_durable st c j)"
proof -
  show "pg_tables st' = pg_tables st \<and> pg_txs st' = pg_txs st"
    "r = Inl e \<Longrightarrow> CodeOf e = CodeUnavailable"
    using run by (auto simp: repo_GetResults_def pg_query_eq split: go_try_splits)
  assume "r = Inr m"
  then obtain c where c: "pg_uuid cod i = Some c"
    and m: "m = foldl (\<lambda>m (k, v). AList.update k (int64_of v) m) [] (results_for c (t_results (pg_tables st)))"
    using run by (auto simp: repo_GetResults_def pg_query_eq uuid_arg_def results_for_def
        split: go_try_splits option.splits)
  have ok: "tables_ok cod (pg_tables st)" using inv by (simp add: pg_inv_def)
  let ?rows = "results_for c (t_results (pg_tables st))"
  have "distinct (map fst (map (\<lambda>(k, v). (k, int64_of v)) ?rows))"
    using distinct_results_for [of "t_results (pg_tables st)" c] ok
    by (simp add: tables_ok_def o_def case_prod_beta)
  then have "map_of m j = map_option int64_of (map_of ?rows j)" for j
    by (simp add: m map_of_foldl_update map_of_rev_distinct map_of_map [of int64_of, symmetric])
      (simp add: map_of_map)
  then have "map_option sint (map_of m j) = pg_durable st c j" for j
    using pg_durable_range [OF ok, of c j]
    by (cases "pg_durable st c j") (simp_all add: map_of_results_for pg_durable_def sint_int64_of min_int64_def)
  with c show "\<exists>c. pg_uuid cod i = Some c \<and> (\<forall>j. map_option sint (map_of m j) = pg_durable st c j)"
    by blast
qed

lemma set_update_subset: "set (AList.update k v xs) \<subseteq> insert (k, v) (set xs)"
  by (induction xs) auto

definition known_results :: "tables \<Rightarrow> result_row list \<Rightarrow> bool" where
  "known_results t rs \<longleftrightarrow> distinct (map fst rs)
     \<and> (\<forall>((p, i), v) \<in> set rs. p \<in> row_id ` set (t_polls t) \<and> i \<in> opt_id ` set (t_options t)
          \<and> 0 \<le> v \<and> v \<le> max_int64)"

lemma greatest_known:
  assumes "known_results t rs" and "p \<in> row_id ` set (t_polls t)" and "i \<in> opt_id ` set (t_options t)"
    and "0 \<le> v" and "v \<le> max_int64"
  shows "known_results t (greatest (p, i) v rs)"
proof (cases "map_of rs (p, i)")
  case None
  then have "(p, i) \<notin> fst ` set rs" by (simp add: map_of_eq_None_iff)
  with assms None show ?thesis by (auto simp: known_results_def greatest_def)
next
  case (Some w)
  then have "0 \<le> w \<and> w \<le> max_int64" using assms(1) by (auto simp: known_results_def dest!: map_of_SomeD)
  with assms Some set_update_subset [of "(p, i)" "max w v" rs] show ?thesis
    by (fastforce simp: known_results_def greatest_def distinct_update)
qed

lemma greatest_all_known:
  assumes "known_results t rs" and "p \<in> row_id ` set (t_polls t)"
    and "\<forall>(i, v) \<in> set xs. i \<in> opt_id ` set (t_options t) \<and> 0 \<le> v \<and> v \<le> max_int64"
  shows "known_results t (foldl (\<lambda>rs (i, v). greatest (p, i) v rs) rs xs)"
  using assms
proof (induction xs arbitrary: rs)
  case (Cons x xs)
  then show ?case using greatest_known [of t rs p "fst x" "snd x"] by (cases x) auto
qed simp

lemma map_of_greatest:
  "map_of (greatest k v rs) k' =
     (if k' = k then Some (case map_of rs k of None \<Rightarrow> v | Some w \<Rightarrow> max w v) else map_of rs k')"
  by (auto simp: greatest_def update_conv' map_add_def split: option.splits)

lemma map_of_greatest_all:
  assumes "distinct (map fst xs)"
  shows "map_of (foldl (\<lambda>rs (i, v). greatest (p, i) v rs) rs xs) (q, j) =
    (if q = p then
       (case map_of xs j of None \<Rightarrow> map_of rs (q, j)
        | Some v \<Rightarrow> Some (case map_of rs (q, j) of None \<Rightarrow> v | Some w \<Rightarrow> max w v))
     else map_of rs (q, j))"
  using assms
proof (induction xs arbitrary: rs)
  case (Cons x xs)
  obtain i v where x: "x = (i, v)" by (cases x)
  with Cons.prems have "map_of xs i = None" by (simp add: map_of_eq_None_iff)
  moreover have "map_of (greatest (p, i) v rs) (q, j) = map_of rs (q, j)" if "j \<noteq> i"
    using that by (simp add: map_of_greatest)
  ultimately show ?case using Cons x
    by (cases "j = i"; cases "map_of xs j") (simp_all add: map_of_greatest)
qed simp

lemma uuid_args_canonical: "\<forall>k \<in> set ks. pg_uuid cod k = Some k \<Longrightarrow> uuid_args cod ks = Some ks"
  by (induction ks) auto

lemma zip_counts:
  "zip (map fst m) (map (\<lambda>(_, v). sint v) m) = map (\<lambda>(k, v). (k, sint (v :: int64))) m"
  by (simp add: zip_map_map case_prod_beta zip_same_conv_map)

lemma upsert_effect:
  assumes ok: "tables_ok cod t" and m: "distinct (map fst m)"
    and ups: "upsert_results p (map fst m) (map (\<lambda>(_, v). sint v) m) t = Inr (u, t')"
  shows "tables_ok cod t'" "t_polls t' = t_polls t" "t_options t' = t_options t"
    and "map_of (t_results t') (q, j) = raised p m (\<lambda>q j. map_of (t_results t) (q, j)) q j"
proof -
  let ?xs = "map (\<lambda>(k, v). (k, sint (v :: int64))) m"
  from ups have p: "p \<in> row_id ` set (t_polls t)" and ids: "fst ` set m \<subseteq> opt_id ` set (t_options t)"
    and nn: "list_all (\<lambda>v. 0 \<le> v) (map (\<lambda>(_, v). sint v) m)"
    and t': "t' = t\<lparr>t_results := foldl (\<lambda>rs (i, v). greatest (p, i) v rs) (t_results t) ?xs\<rparr>"
    by (simp_all add: upsert_results_def zip_counts split: if_splits)
  have "\<forall>(i, v) \<in> set ?xs. i \<in> opt_id ` set (t_options t) \<and> 0 \<le> v \<and> v \<le> max_int64"
  proof (clarify)
    fix i v
    assume "(i, v) \<in> set ?xs"
    then obtain w where "(i, w) \<in> set m" and v: "v = sint w" by auto
    then have "i \<in> fst ` set m" and "v \<in> set (map (\<lambda>(_, v). sint v) m)" by force+
    with ids nn sint_int64_bounds(2) [of w] v
    show "i \<in> opt_id ` set (t_options t) \<and> 0 \<le> v \<and> v \<le> max_int64"
      unfolding list_all_iff by blast
  qed
  from greatest_all_known [OF _ p this, of "t_results t"] ok show "tables_ok cod t'"
    by (simp add: t' tables_ok_def known_results_def)
  show "t_polls t' = t_polls t" "t_options t' = t_options t" by (simp_all add: t')
  have "distinct (map fst ?xs)" using m by (simp add: o_def case_prod_beta)
  from map_of_greatest_all [OF this, of p "t_results t" q j]
  show "map_of (t_results t') (q, j) = raised p m (\<lambda>q j. map_of (t_results t) (q, j)) q j"
    by (simp add: t' raised_def map_of_map split: option.split)
qed

lemma repo_SaveResults_cases:
  assumes inv: "pg_inv cod st" and m: "distinct (map fst m)"
    and canon: "\<forall>k \<in> fst ` set m. pg_uuid cod k = Some k" and c: "pg_uuid cod i = Some c"
    and run: "repo_SaveResults cod i m st = (r, st')"
  shows "pg_inv cod st' \<and> pg_stored st' = pg_stored st"
    and "r = Inr u \<Longrightarrow> pg_durable st' = raised c m (pg_durable st)"
    and "r = Inl e \<Longrightarrow> CodeOf e = CodeUnavailable
      \<and> (pg_durable st' = pg_durable st \<or> pg_durable st' = raised c m (pg_durable st))"
proof -
  let ?ups = "upsert_results c (map fst m) (map (\<lambda>(_, v). sint v) m)"
  have ok: "tables_ok cod (pg_tables st)" using inv by (simp add: pg_inv_def)
  have args: "uuid_args cod (map fst m) = Some (map fst m)" using canon by (intro uuid_args_canonical) simp
  consider (nothing) "m = []" "r = Inr ()" "st' = st"
    | (failed) e where "r = Inl e" "CodeOf e = CodeUnavailable" "st' = pg_tick st"
    | (saved) u t' where "?ups (pg_tables st) = Inr (u, t')" "st' = (pg_tick st)\<lparr>pg_tables := t'\<rparr>"
        "r = Inr () \<or> (\<exists>e. r = Inl e \<and> CodeOf e = CodeUnavailable)"
    using run c args
    by (cases "?ups (pg_tables st)")
      (auto simp: repo_SaveResults_def pg_exec_eq uuid_arg_def split: go_try_splits if_splits)
  then have "(pg_inv cod st' \<and> pg_stored st' = pg_stored st)
    \<and> (r = Inr u \<longrightarrow> pg_durable st' = raised c m (pg_durable st))
    \<and> (r = Inl e \<longrightarrow> CodeOf e = CodeUnavailable
      \<and> (pg_durable st' = pg_durable st \<or> pg_durable st' = raised c m (pg_durable st)))"
  proof cases
    case nothing
    then show ?thesis using inv by (simp add: raised_def fun_eq_iff)
  next
    case failed
    with same_tables [of st' st cod] inv show ?thesis by auto
  next
    case saved
    note eff = upsert_effect [OF ok m saved(1)]
    have "pg_durable st' = raised c m (pg_durable st)"
      using eff(4) saved(2) by (simp add: pg_durable_def [abs_def] fun_eq_iff raised_def)
    moreover have "pg_inv cod st' \<and> pg_stored st' = pg_stored st"
      using inv eff(1-3) saved(2)
      by (simp add: pg_inv_def pg_stored_def stored_poll_def options_of_def fun_eq_iff)
    ultimately show ?thesis using saved(3) by auto
  qed
  then show "pg_inv cod st' \<and> pg_stored st' = pg_stored st"
    and "r = Inr u \<Longrightarrow> pg_durable st' = raised c m (pg_durable st)"
    and "r = Inl e \<Longrightarrow> CodeOf e = CodeUnavailable
      \<and> (pg_durable st' = pg_durable st \<or> pg_durable st' = raised c m (pg_durable st))" by blast+
qed

subsection \<open>The transaction of a new poll\<close>

lemma join_tables_simps [simp]:
  "t_polls (join_tables t u) = t_polls t @ t_polls u"
  "t_options (join_tables t u) = t_options t @ t_options u"
  "t_results (join_tables t u) = t_results t @ t_results u"
  by (simp_all add: join_tables_def)

lemma join_empty [simp]: "join_tables t empty_tables = t"
  by (simp add: join_tables_def empty_tables_def)

lemma known_join:
  "poll_known db own i \<longleftrightarrow> i \<in> row_id ` set (t_polls (join_tables db own))"
  "option_known db own i \<longleftrightarrow> i \<in> opt_id ` set (t_options (join_tables db own))"
  by (auto simp: poll_known_def option_known_def)

text \<open>A transaction that is open with its own rows, and one that has failed.\<close>

definition tx_at :: "nat \<Rightarrow> tables \<Rightarrow> tables \<Rightarrow> pg_state \<Rightarrow> bool" where
  "tx_at n db own st \<longleftrightarrow> pg_tables st = db \<and> pg_txs st = [n \<mapsto> TxOpen own]"

definition tx_failed :: "nat \<Rightarrow> tables \<Rightarrow> (goerror + unit) \<times> pg_state \<Rightarrow> bool" where
  "tx_failed n db r \<longleftrightarrow> pg_tables (snd r) = db \<and> dom (pg_txs (snd r)) \<subseteq> {n}
     \<and> (\<exists>e. fst r = Inl e \<and> CodeOf e = CodeUnavailable)"

lemma tx_exec_cases:
  assumes "tx_at n db own st"
  obtains (ran) own' st' where "tx_exec n stmt st = (Inr (), st')" "stmt db own = Some own'" "tx_at n db own' st'"
    | (failed) e st' where "tx_exec n stmt st = (Inl e, st')" "pg_tables st' = db" "dom (pg_txs st') \<subseteq> {n}"
  using assms
  by (cases "pg_fate_of st = PgDone"; cases "stmt db own") (auto simp: tx_at_def tx_exec_def Let_def)

text \<open>A statement of \<open>pollTx\<close>, followed by the rest of the transaction.\<close>

lemma tx_step:
  assumes at: "tx_at n db own st"
    and op: "f st = go_try (tx_exec n stmt st) (tx_failure c m) (\<lambda>_ st. (Inr (), st))"
    and P: "\<And>x. tx_failed n db x \<Longrightarrow> P x"
    and k: "\<And>own' st'. stmt db own = Some own' \<Longrightarrow> tx_at n db own' st' \<Longrightarrow> P (k () st')"
  shows "P (go_try (f st) (Wrapped t) k)"
  using at
proof (cases rule: tx_exec_cases [where stmt = stmt])
  case (ran own' st')
  with k op show ?thesis by simp
next
  case (failed e st')
  then have "tx_failed n db (Inl (Wrapped t (tx_failure c m e)), st')" by (simp add: tx_failed_def)
  with failed P op show ?thesis by simp
qed

lemmas tx_steps =
  tx_step [where f = "pollTx_InsertPoll cod n p" and n = n, OF _ pollTx_InsertPoll_def]
  tx_step [where f = "pollTx_InsertPollOptions cod n p" and n = n, OF _ pollTx_InsertPollOptions_def]
  tx_step [where f = "pollTx_InsertZeroResults cod n p" and n = n, OF _ pollTx_InsertZeroResults_def]
  for cod n p

lemma tx_commit_step:
  assumes "tx_at n db own st" and "tx_commit n st = (q, st')"
  shows "pg_txs st' = Map.empty \<and>
    (pg_tables st' = db \<and> (\<exists>e. q = Inl e) \<or> pg_tables st' = join_tables db own)"
  using assms by (auto simp: tx_at_def tx_commit_def Let_def fun_eq_iff split: pg_fate.splits)

lemma rollback_closes:
  "pg_tables (snd (pollTx_Rollback n st)) = pg_tables st"
  "pg_txs (snd (pollTx_Rollback n st)) = (pg_txs st)(n := None)"
  by (auto simp: pollTx_Rollback_def fun_eq_iff split: option.splits)

definition new_rows :: "pg_codec \<Rightarrow> poll \<Rightarrow> tables \<Rightarrow> tables \<Rightarrow> bool" where
  "new_rows cod p db own \<longleftrightarrow>
     (\<exists>o1 o2. insert_poll cod p db empty_tables = Some o1
        \<and> copy_options cod (p_id p) (p_options p) db o1 = Some o2
        \<and> copy_results cod (p_id p) (p_options p) db o2 = Some own)"

text \<open>All or nothing: the rows of the poll are committed together, or no table changes.\<close>

lemma store_new_cases:
  assumes closed: "pg_txs st = Map.empty" and run: "store_new (NewPollRepository cod) p st = (r, st')"
  shows "pg_txs st' = Map.empty \<and> (\<forall>e. r = Inl e \<longrightarrow> CodeOf e = CodeUnavailable)
    \<and> (pg_tables st' = pg_tables st \<and> (\<exists>e. r = Inl e)
       \<or> (\<exists>own. new_rows cod p (pg_tables st) own \<and> pg_tables st' = join_tables (pg_tables st) own))"
proof (cases "pg_fate_of st = PgDone")
  case False
  with run closed show ?thesis
    by (auto simp: store_new_def NewPollRepository_def repo_BeginTx_def)
next
  case True
  let ?n = "pg_next_tx st"
  define s0 where "s0 = (pg_tick st)\<lparr>pg_txs := (pg_txs st)(?n \<mapsto> TxOpen empty_tables), pg_next_tx := ?n + 1\<rparr>"
  have s0: "pg_tables s0 = pg_tables st" "pg_txs s0 = [?n \<mapsto> TxOpen empty_tables]"
    by (simp_all add: s0_def closed)
  define body where "body =
     go_try (pollTx_InsertPoll cod ?n p s0) (Wrapped ''create poll'') (\<lambda>_ s.
     go_try (pollTx_InsertPollOptions cod ?n p s) (Wrapped ''create poll'') (\<lambda>_ s.
     go_try (pollTx_InsertZeroResults cod ?n p s) (Wrapped ''create poll'') (\<lambda>_ s.
     go_try (pollTx_Commit ?n s) (Wrapped ''create poll'') (\<lambda>_ s. (Inr (), s)))))"
  have r: "r = fst body" "st' = snd (pollTx_Rollback ?n (snd body))"
    using run True by (auto simp: store_new_def NewPollRepository_def repo_BeginTx_def pollTx_def
        body_def s0_def split: prod.splits)
  define P where "P x \<longleftrightarrow> tx_failed ?n (pg_tables st) x \<or>
      (\<exists>own. new_rows cod p (pg_tables st) own \<and> pg_tables (snd x) = join_tables (pg_tables st) own
        \<and> dom (pg_txs (snd x)) \<subseteq> {?n} \<and> (\<forall>e. fst x = Inl e \<longrightarrow> CodeOf e = CodeUnavailable))"
    for x :: "(goerror + unit) \<times> pg_state"
  have P: "P x" if "tx_failed ?n (pg_tables st) x" for x using that by (simp add: P_def)
  have at0: "tx_at ?n (pg_tables st) empty_tables s0" by (simp add: tx_at_def s0)
  have "P body"
    unfolding body_def
  proof (rule tx_steps(1) [where P = P, OF at0 P], assumption,
      rule tx_steps(2) [where P = P, OF _ P], assumption+,
      rule tx_steps(3) [where P = P, OF _ P], assumption+)
    fix o1 s1 o2 s2 own s3
    assume rows: "insert_poll cod p (pg_tables st) empty_tables = Some o1"
      "copy_options cod (p_id p) (p_options p) (pg_tables st) o1 = Some o2"
      "copy_results cod (p_id p) (p_options p) (pg_tables st) o2 = Some own"
      and at: "tx_at ?n (pg_tables st) own s3"
    obtain q s4 where c: "tx_commit ?n s3 = (q, s4)" by fastforce
    have "new_rows cod p (pg_tables st) own" using rows by (auto simp: new_rows_def)
    with tx_commit_step [OF at c]
    show "P (go_try (pollTx_Commit ?n s3) (Wrapped ''create poll'') (\<lambda>_ s. (Inr (), s)))"
      by (auto simp: P_def pollTx_Commit_def c tx_failed_def split: go_try_splits sum.splits)
  qed
  then show ?thesis
    using r rollback_closes [of ?n "snd body"] by (auto simp: P_def tx_failed_def fun_eq_iff)
qed

subsection \<open>The rows a new poll adds\<close>

lemma codec_canonical: "codec_ok cod \<Longrightarrow> pg_uuid cod s = Some c \<Longrightarrow> pg_uuid cod c = Some c"
  by (simp add: codec_ok_def)

lemma join_append:
  "join_tables db (own\<lparr>t_polls := t_polls own @ ps\<rparr>) =
     join_tables db own \<lparr>t_polls := t_polls (join_tables db own) @ ps\<rparr>"
  "join_tables db (own\<lparr>t_options := t_options own @ qs\<rparr>) =
     join_tables db own \<lparr>t_options := t_options (join_tables db own) @ qs\<rparr>"
  "join_tables db (own\<lparr>t_results := t_results own @ rs\<rparr>) =
     join_tables db own \<lparr>t_results := t_results (join_tables db own) @ rs\<rparr>"
  by (simp_all add: join_tables_def)

lemma tables_ok_option:
  assumes "tables_ok cod t" and "option_row_ok r" and "pg_uuid cod (opt_id r) = Some (opt_id r)"
    and "opt_poll_id r \<in> row_id ` set (t_polls t)" and "opt_id r \<notin> opt_id ` set (t_options t)"
    and "(opt_poll_id r, opt_position r) \<notin> (\<lambda>q. (opt_poll_id q, opt_position q)) ` set (t_options t)"
  shows "tables_ok cod (t\<lparr>t_options := t_options t @ [r]\<rparr>)"
proof -
  have "\<forall>((p, i), v) \<in> set (t_results t). p \<in> row_id ` set (t_polls t)
      \<and> i \<in> opt_id ` set (t_options t @ [r]) \<and> 0 \<le> v \<and> v \<le> max_int64"
    using assms(1) by (fastforce simp: tables_ok_def)
  with assms show ?thesis by (simp add: tables_ok_def)
qed

lemma tables_ok_result:
  assumes "tables_ok cod t" and "(p, i) \<notin> fst ` set (t_results t)"
    and "p \<in> row_id ` set (t_polls t)" and "i \<in> opt_id ` set (t_options t)"
  shows "tables_ok cod (t\<lparr>t_results := t_results t @ [((p, i), 0)]\<rparr>)"
  using assms by (simp add: tables_ok_def max_int64_def)

lemma insert_poll_rows:
  assumes "codec_ok cod" and "tables_ok cod db" and "insert_poll cod p db empty_tables = Some o1"
  shows "\<exists>row. poll_row_of cod p = Some row \<and> row_id row \<notin> row_id ` set (t_polls db)
    \<and> o1 = empty_tables\<lparr>t_polls := [row]\<rparr> \<and> tables_ok cod (join_tables db o1)"
proof -
  from assms(3) obtain row where row: "poll_row_of cod p = Some row" "poll_row_ok row"
    "row_id row \<notin> row_id ` set (t_polls db)" and o1: "o1 = empty_tables\<lparr>t_polls := [row]\<rparr>"
    by (auto simp: insert_poll_def known_join empty_tables_def split: option.splits if_splits)
  have "pg_uuid cod (row_id row) = Some (row_id row)"
    using row(1) codec_canonical [OF assms(1)] by (auto simp: poll_row_of_def split: option.splits if_splits)
  with assms(2) row(2,3) have "tables_ok cod (join_tables db o1)"
    by (auto simp: tables_ok_def o1 empty_tables_def)
  with row(1,3) o1 show ?thesis by blast
qed

lemma option_row_added:
  assumes cod: "codec_ok cod" and ok: "tables_ok cod (join_tables db own)"
    and r: "option_row_of cod pid x = Some r" and ins: "option_insertable db own r"
  shows "tables_ok cod (join_tables db (own\<lparr>t_options := t_options own @ [r]\<rparr>))"
proof -
  have "pg_uuid cod (opt_id r) = Some (opt_id r)"
    using r codec_canonical [OF cod] by (auto simp: option_row_of_def split: option.splits if_splits)
  moreover have "option_row_ok r" "opt_poll_id r \<in> row_id ` set (t_polls (join_tables db own))"
    "opt_id r \<notin> opt_id ` set (t_options (join_tables db own))"
    "\<forall>q \<in> set (t_options (join_tables db own)).
       (opt_poll_id q, opt_position q) \<noteq> (opt_poll_id r, opt_position r)"
    using ins by (auto simp: option_insertable_def known_join)
  ultimately show ?thesis
    unfolding join_append using ok by (intro tables_ok_option) auto
qed

lemma copy_options_rows:
  assumes "codec_ok cod" and "tables_ok cod (join_tables db own)" and "copy_options cod pid xs db own = Some own'"
  shows "\<exists>rs. map (option_row_of cod pid) xs = map Some rs
    \<and> own' = own\<lparr>t_options := t_options own @ rs\<rparr> \<and> tables_ok cod (join_tables db own')"
  using assms(2,3)
proof (induction xs arbitrary: own)
  case (Cons x xs)
  then obtain r where r: "option_row_of cod pid x = Some r" "option_insertable db own r"
    and rest: "copy_options cod pid xs db (own\<lparr>t_options := t_options own @ [r]\<rparr>) = Some own'"
    by (auto split: option.splits if_splits)
  from Cons.IH [OF option_row_added [OF assms(1) Cons.prems(1) r] rest] obtain rs where
    "map (option_row_of cod pid) xs = map Some rs" "own' = own\<lparr>t_options := t_options own @ r # rs\<rparr>"
    "tables_ok cod (join_tables db own')" by auto
  with r(1) show ?case by (intro exI [of _ "r # rs"]) simp
qed (auto intro: exI [of _ "[]"])

lemma copy_results_rows:
  assumes "tables_ok cod (join_tables db own)" and "copy_results cod pid xs db own = Some own'"
    and "pg_uuid cod pid = Some pid" and "\<forall>x \<in> set xs. pg_uuid cod (o_id x) = Some (o_id x)"
  shows "own' = own\<lparr>t_results := t_results own @ map (\<lambda>x. ((pid, o_id x), 0)) xs\<rparr>
    \<and> tables_ok cod (join_tables db own')"
  using assms
proof (induction xs arbitrary: own)
  case (Cons x xs)
  then have ins: "result_insertable db own pid (o_id x)"
    and rest: "copy_results cod pid xs db (own\<lparr>t_results := t_results own @ [((pid, o_id x), 0)]\<rparr>) = Some own'"
    by (auto split: if_splits)
  from ins have "(pid, o_id x) \<notin> fst ` set (t_results (join_tables db own))"
    "pid \<in> row_id ` set (t_polls (join_tables db own))"
    "o_id x \<in> opt_id ` set (t_options (join_tables db own))"
    by (auto simp: result_insertable_def known_join)
  with Cons.prems(1)
  have "tables_ok cod (join_tables db (own\<lparr>t_results := t_results own @ [((pid, o_id x), 0)]\<rparr>))"
    unfolding join_append by (intro tables_ok_result)
  from Cons.IH [OF this rest Cons.prems(3)] Cons.prems(4) show ?case by auto
qed simp

lemma option_rows_read_back:
  assumes "map (option_row_of cod pid) xs = map Some rs" and "pg_uuid cod pid = Some pid"
    and "\<forall>x \<in> set xs. pg_uuid cod (o_id x) = Some (o_id x)"
  shows "map option_of_row rs = xs" "\<forall>q \<in> set rs. opt_poll_id q = pid" "map opt_position rs = map o_position xs"
proof -
  have "map option_of_row rs = xs \<and> (\<forall>q \<in> set rs. opt_poll_id q = pid) \<and> map opt_position rs = map o_position xs"
    using assms
  proof (induction xs arbitrary: rs)
    case (Cons x xs)
    then obtain r rs' where rs: "rs = r # rs'" and "option_row_of cod pid x = Some r"
      and rest: "map (option_row_of cod pid) xs = map Some rs'"
      by (cases rs) auto
    then have "option_of_row r = x \<and> opt_poll_id r = pid \<and> opt_position r = o_position x"
      using Cons.prems by (auto simp: option_row_of_def option_of_row_def split: if_splits)
    with Cons.IH [OF rest] Cons.prems rs show ?case by simp
  qed simp
  then show "map option_of_row rs = xs" "\<forall>q \<in> set rs. opt_poll_id q = pid"
    "map opt_position rs = map o_position xs" by blast+
qed

lemma sorted_positions:
  assumes "map opt_position rs = map int [0 ..< n]"
  shows "sort_key (\<lambda>q. (opt_position q, opt_id q)) rs = rs"
proof (rule sort_key_id_if_sorted)
  have "sorted_wrt (<) (map opt_position rs)" unfolding assms by (simp add: sorted_wrt_map)
  then have "sorted_wrt (\<lambda>a b. opt_position a < opt_position b) rs" by (simp add: sorted_wrt_map)
  then show "sorted (map (\<lambda>q. (opt_position q, opt_id q)) rs)"
    unfolding sorted_map by (rule sorted_wrt_mono_rel [rotated]) (simp add: less_eq_prod_def)
qed

lemma find_append:
  "find P (xs @ ys) = (case find P xs of None \<Rightarrow> find P ys | Some x \<Rightarrow> Some x)"
  by (induction xs) simp_all

text \<open>No row refers to a poll that does not exist.\<close>

lemma no_orphans:
  assumes "tables_ok cod t" and "c \<notin> row_id ` set (t_polls t)"
  shows "filter (\<lambda>q. opt_poll_id q = c) (t_options t) = []" and "map_of (t_results t) (c, j) = None"
proof -
  have "opt_poll_id ` set (t_options t) \<subseteq> row_id ` set (t_polls t)"
    using assms(1) by (simp add: tables_ok_def)
  with assms(2) show "filter (\<lambda>q. opt_poll_id q = c) (t_options t) = []"
    by (auto simp: filter_empty_conv)
  have "\<forall>((p, i), v) \<in> set (t_results t). p \<in> row_id ` set (t_polls t)"
    using assms(1) unfolding tables_ok_def by fast
  with assms(2) show "map_of (t_results t) (c, j) = None"
    by (auto simp: map_of_eq_None_iff)
qed

text \<open>The poll that a committed row and its option rows read back as; every other poll reads as before.\<close>

lemma joined_poll:
  assumes ok: "tables_ok cod db" and row: "row_id row = c" "c \<notin> row_id ` set (t_polls db)"
    and rs: "\<forall>q \<in> set rs. opt_poll_id q = c" "sort_key (\<lambda>q. (opt_position q, opt_id q)) rs = rs"
    and same: "(poll_of_row row)\<lparr>p_options := map option_of_row rs\<rparr> = p"
  shows "stored_poll (join_tables db \<lparr>t_polls = [row], t_options = rs, t_results = zs\<rparr>)
    = (stored_poll db)(c \<mapsto> p)"
proof
  fix k
  have none: "filter (\<lambda>q. opt_poll_id q = c) (t_options db) = []" using no_orphans(1) [OF ok row(2)] .
  have own: "filter (\<lambda>q. opt_poll_id q = k) rs = (if k = c then rs else [])"
    using rs(1) by (auto simp: filter_id_conv filter_empty_conv)
  have "find (\<lambda>r. row_id r = c) (t_polls db) = None" using row(2) by (simp add: find_row_None)
  then have find: "find (\<lambda>r. row_id r = k) (t_polls db @ [row])
      = (if k = c then Some row else find (\<lambda>r. row_id r = k) (t_polls db))"
    using row(1) by (auto simp: find_append split: option.split)
  show "stored_poll (join_tables db \<lparr>t_polls = [row], t_options = rs, t_results = zs\<rparr>) k
      = ((stored_poll db)(c \<mapsto> p)) k"
    using none own find rs(2) same by (cases "k = c") (simp_all add: stored_poll_def options_of_def)
qed

text \<open>The counts of a new poll start at zero.\<close>

lemma joined_zeros:
  assumes ok: "tables_ok cod db" and fresh: "p_id p \<notin> row_id ` set (t_polls db)"
  shows "(\<lambda>q j. map_of (t_results (join_tables db
      \<lparr>t_polls = ps, t_options = rs, t_results = map (\<lambda>x. ((p_id p, o_id x), 0)) (p_options p)\<rparr>)) (q, j))
    = zeroed p (\<lambda>q j. map_of (t_results db) (q, j))"
proof -
  have unknown: "map_of (t_results db) (p_id p, j) = None" for j by (rule no_orphans(2) [OF ok fresh])
  have zeros: "map_of (map (\<lambda>x. ((p_id p, o_id x), 0 :: int)) xs) (q, j) =
      (if q = p_id p \<and> j \<in> o_id ` set xs then Some 0 else None)" for xs :: "poll_option list" and q j
    by (induction xs) auto
  show ?thesis
    using unknown by (auto simp: fun_eq_iff zeroed_def map_add_def zeros OptionIDs_def split: option.split)
qed

lemma new_rows_effect:
  assumes cod: "codec_ok cod" and ok: "tables_ok cod db" and p: "new_poll_ok (pg_uuid cod) p"
    and new: "new_rows cod p db own"
  shows "tables_ok cod (join_tables db own)" "stored_poll db (p_id p) = None"
    and "stored_poll (join_tables db own) = (stored_poll db)(p_id p \<mapsto> stamped (pg_time cod) p)"
    and "(\<lambda>q j. map_of (t_results (join_tables db own)) (q, j)) = zeroed p (\<lambda>q j. map_of (t_results db) (q, j))"
proof -
  from new obtain o1 o2 where steps: "insert_poll cod p db empty_tables = Some o1"
    "copy_options cod (p_id p) (p_options p) db o1 = Some o2"
    "copy_results cod (p_id p) (p_options p) db o2 = Some own" by (auto simp: new_rows_def)
  from p have canon: "pg_uuid cod (p_id p) = Some (p_id p)"
    "\<forall>x \<in> set (p_options p). pg_uuid cod (o_id x) = Some (o_id x)"
    by (auto simp: new_poll_ok_def OptionIDs_def)
  from insert_poll_rows [OF cod ok steps(1)] obtain row where
    row: "poll_row_of cod p = Some row" "row_id row \<notin> row_id ` set (t_polls db)"
      "o1 = empty_tables\<lparr>t_polls := [row]\<rparr>" "tables_ok cod (join_tables db o1)" by blast
  from copy_options_rows [OF cod row(4) steps(2)] obtain rs where
    rs: "map (option_row_of cod (p_id p)) (p_options p) = map Some rs"
      "o2 = o1\<lparr>t_options := rs\<rparr>" "tables_ok cod (join_tables db o2)"
    by (auto simp: row(3) empty_tables_def)
  note res = copy_results_rows [OF rs(3) steps(3) canon]
  note rbk = option_rows_read_back [OF rs(1) canon]
  have own: "own = \<lparr>t_polls = [row], t_options = rs,
      t_results = map (\<lambda>x. ((p_id p, o_id x), 0)) (p_options p)\<rparr>"
    using res by (simp add: rs(2) row(3) empty_tables_def)
  have rid: "row_id row = p_id p" and same_poll:
    "(poll_of_row row)\<lparr>p_options := p_options p\<rparr> = stamped (pg_time cod) p"
    using row(1) canon(1) p
    by (auto simp: poll_row_of_def poll_of_row_def stamped_def new_poll_ok_def split: if_splits)
  show "tables_ok cod (join_tables db own)" using res by blast
  show fresh: "stored_poll db (p_id p) = None" using row(2) rid by (simp add: stored_poll_None)
  have sorted: "sort_key (\<lambda>q. (opt_position q, opt_id q)) rs = rs"
    using sorted_positions [of rs "length (p_options p)"] rbk(3) p by (simp add: new_poll_ok_def)
  have opts: "\<forall>q \<in> set rs. opt_poll_id q = p_id p" using rbk(2) by auto
  have fresh': "p_id p \<notin> row_id ` set (t_polls db)" using row(2) rid by simp
  show "stored_poll (join_tables db own) = (stored_poll db)(p_id p \<mapsto> stamped (pg_time cod) p)"
    unfolding own using rbk(1) same_poll by (intro joined_poll [OF ok rid fresh' opts sorted]) simp
  show "(\<lambda>q j. map_of (t_results (join_tables db own)) (q, j)) = zeroed p (\<lambda>q j. map_of (t_results db) (q, j))"
    unfolding own by (rule joined_zeros [OF ok fresh'])
qed

subsection \<open>The contract holds of the repository\<close>

lemma NewPollRepository_simps [simp]:
  "pr_BeginTx (NewPollRepository cod) = repo_BeginTx cod"
  "pr_GetPoll (NewPollRepository cod) = repo_GetPoll cod"
  "pr_CountPolls (NewPollRepository cod) = repo_CountPolls"
  "pr_ListPollPage (NewPollRepository cod) = repo_ListPollPage"
  "pr_ListOptionsByPollIDs (NewPollRepository cod) = repo_ListOptionsByPollIDs cod"
  "pr_UpdatePollStatus (NewPollRepository cod) = repo_UpdatePollStatus cod"
  "pr_GetPollStatus (NewPollRepository cod) = repo_GetPollStatus cod"
  "pr_GetResults (NewPollRepository cod) = repo_GetResults cod"
  "pr_SaveResults (NewPollRepository cod) = repo_SaveResults cod"
  "pr_Ping (NewPollRepository cod) = repo_Ping"
  by (simp_all add: NewPollRepository_def)

lemma pg_invD:
  assumes "pg_inv cod st"
  shows "codec_ok cod" "tables_ok cod (pg_tables st)" "pg_txs st = Map.empty"
    "distinct (map row_id (t_polls (pg_tables st)))"
  using assms by (simp_all add: pg_inv_def tables_ok_def)

lemma store_new_observed:
  assumes inv: "pg_inv cod st" and p: "new_poll_ok (pg_uuid cod) p"
    and run: "store_new (NewPollRepository cod) p st = (r, st')"
  shows "pg_inv cod st' \<and> (\<forall>e. r = Inl e \<longrightarrow> CodeOf e = CodeUnavailable)
    \<and> (pg_stored st' = pg_stored st \<and> pg_durable st' = pg_durable st \<and> (\<exists>e. r = Inl e)
       \<or> pg_stored st (p_id p) = None
         \<and> pg_stored st' = (pg_stored st)(p_id p \<mapsto> stamped (pg_time cod) p)
         \<and> pg_durable st' = zeroed p (pg_durable st))"
proof -
  note cases = store_new_cases [OF pg_invD(3) [OF inv] run]
  from cases have "(pg_tables st' = pg_tables st \<and> (\<exists>e. r = Inl e))
      \<or> (\<exists>own. new_rows cod p (pg_tables st) own \<and> pg_tables st' = join_tables (pg_tables st) own)" by blast
  then show ?thesis
  proof (elim disjE conjE exE)
    fix e
    assume "pg_tables st' = pg_tables st" "r = Inl e"
    with cases inv show ?thesis
      using same_tables [of st' st cod] pg_invD(3) [OF inv] by auto
  next
    fix own
    assume new: "new_rows cod p (pg_tables st) own" and t: "pg_tables st' = join_tables (pg_tables st) own"
    note eff = new_rows_effect [OF pg_invD(1,2) [OF inv] p new]
    have "pg_inv cod st'" using eff(1) cases t pg_invD(1) [OF inv] by (simp add: pg_inv_def)
    moreover have "pg_stored st (p_id p) = None"
      "pg_stored st' = (pg_stored st)(p_id p \<mapsto> stamped (pg_time cod) p)"
      using eff(2,3) t by (simp_all add: pg_stored_def [abs_def])
    moreover have "pg_durable st' = zeroed p (pg_durable st)"
      using eff(4) t by (simp add: pg_durable_def [abs_def])
    ultimately show ?thesis using cases by blast
  qed
qed

interpretation pg_repository: poll_repository "NewPollRepository cod" "pg_uuid cod" "pg_time cod"
    pg_stored pg_durable "pg_inv cod" for cod
proof (unfold_locales, goal_cases)
  case (1 s c p)
  then show ?case using stored_poll_sound [OF pg_invD(2)] by (simp add: pg_stored_def)
next
  case (2 s c i v)
  then show ?case using pg_durable_range [OF pg_invD(2)] by blast
next
  case (3 s i r s')
  then show ?case
    using repo_GetPoll_cases(1) [OF pg_invD(4), of cod s cod i r s'] same_tables [of s' s cod] by simp
next
  case (4 s i p s')
  with repo_GetPoll_cases(2) [OF pg_invD(4) [OF 4(1)], of cod i "Inr p" s' p] obtain c where
    c: "pg_uuid cod i = Some c" "stored_poll (pg_tables s) c = Some p" by auto
  with stored_poll_sound [OF pg_invD(2) [OF 4(1)] c(2)] show ?case
    by (simp add: stored_poll_ok_def pg_stored_def)
next
  case (5 s i e s')
  with repo_GetPoll_cases(3) [OF pg_invD(4) [OF 5(1)], of cod i "Inl e" s' e] show ?case
    by (simp add: pg_stored_def)
next
  case (6 s i rs s')
  then show ?case
    using repo_GetPollStatus_cases(1) [of cod i s rs s'] same_tables [of s' s cod] by simp
next
  case (7 s i t s')
  with repo_GetPollStatus_cases(2) [of cod i s "Inr t" s' t] obtain c row where
    c: "pg_uuid cod i = Some c" "find (\<lambda>r. row_id r = c) (t_polls (pg_tables s)) = Some row"
      "row_status row = t" by auto
  let ?p = "(poll_of_row row)\<lparr>p_options := map option_of_row (options_of (pg_tables s) c)\<rparr>"
  from c(2) find_row_Some [OF c(2)] have "pg_stored s c = Some ?p" "p_id ?p = c" "p_status ?p = t"
    using c(3) by (simp_all add: pg_stored_def stored_poll_def poll_of_row_def)
  with c(1) show ?case by metis
next
  case (8 s i e s')
  with repo_GetPollStatus_cases(3) [of cod i s "Inl e" s' e] show ?case by (simp add: pg_stored_def)
next
  case (9 s i fr to at u s')
  with repo_UpdatePollStatus_cases [OF 9(1), of i fr to at "Inr u" s'] show ?case
    by (simp add: status_changed_def)
next
  case (10 s i fr to at e s')
  with repo_UpdatePollStatus_cases [OF 10(1), of i fr to at "Inl e" s'] show ?case
    by (auto simp: status_changed_def status_refused_def)
next
  case (11 s i rm s')
  then show ?case
    using repo_GetResults_cases(1) [OF 11(1), of i rm s'] same_tables [of s' s cod] by simp
next
  case (12 s i m s')
  then show ?case using repo_GetResults_cases(3) [OF 12(1), of i "Inr m" s' m] by simp
next
  case (13 s i e s')
  then show ?case using repo_GetResults_cases(2) [OF 13(1), of i "Inl e" s' e] by simp
next
  case (14 s m i c u s')
  then show ?case using repo_SaveResults_cases [OF 14(1-4) 14(5) [unfolded NewPollRepository_simps]] by auto
next
  case (15 s m i c e s')
  then show ?case using repo_SaveResults_cases [OF 15(1-4) 15(5) [unfolded NewPollRepository_simps]] by auto
next
  case (16 s p u s')
  then show ?case using store_new_observed [OF 16(1-3)] by simp
next
  case (17 s p e s')
  then show ?case using store_new_observed [OF 17(1-3)] by auto
next
  case (18 s c i v)
  then have "((c, i), v) \<in> set (t_results (pg_tables s))"
    by (simp add: pg_durable_def map_of_SomeD)
  with pg_invD(2) [OF 18(1)] show ?case
    by (auto simp: pg_stored_def stored_poll_None tables_ok_def)
qed

end
