(* ===== verification/Vote_Service.thy ===== *)
theory Vote_Service
  imports Ports Go_Hash
begin

text \<open>
  The vote service (\<open>internal/service/vote.go\<close>): \<open>Cast\<close> checks a ballot against the
  poll's configuration, asks the abuse guard and hands the ballot to the vote store under
  the voter's hash. \<open>uuid.Validate\<close> of \<open>google/uuid\<close> is a parameter. The lemmas, proved
  once for every vote store and poll loader that keep their contracts, say when a ballot
  is counted, that it is counted at most once per voter, and how every failure is
  classified.
\<close>

record VoteCommand =
  vc_PollID :: string
  vc_OptionIDs :: "string list"
  vc_VoterToken :: string
  vc_ClientIP :: string

record 's VoteService =
  vsv_polls :: "'s PollLoader"
  vsv_store :: "'s VoteStore"
  vsv_now :: "'s \<Rightarrow> instant"

definition VoterHash :: "string \<Rightarrow> string \<Rightarrow> string" where
  "VoterHash pollID voterToken =
     hex_encode (take 16 (Sum256 (string_bytes pollID @ [0] @ string_bytes voterToken)))"

definition cast_ballot :: "'s VoteService \<Rightarrow> VoteCommand \<Rightarrow> ('s, unit) action" where
  "cast_ballot svc cmd s =
     go_try (vs_CastBallot (vsv_store svc)
         \<lparr>b_PollID = vc_PollID cmd, b_VoterHash = VoterHash (vc_PollID cmd) (vc_VoterToken cmd),
          b_OptionIDs = vc_OptionIDs cmd\<rparr> s)
       (Wrapped ''cast vote'') (\<lambda>_ s. (Inr (), s))"

definition vote_Cast :: "(string \<Rightarrow> bool) \<Rightarrow> 's VoteService \<Rightarrow> VoteCommand \<Rightarrow> ('s, unit) action" where
  "vote_Cast valid svc cmd s =
     (if \<not> valid (vc_PollID cmd) then (Inl ErrPollNotFound, s)
      else if trim_space (vc_VoterToken cmd) = []
      then (Inl (NewError CodeInvalidRequest ''voter token is required''), s)
      else go_try (pl_Poll (vsv_polls svc) (vc_PollID cmd) s) (Wrapped ''cast vote'') (\<lambda>p s.
        (case CheckOpenAt p (vsv_now svc s) of
           Inl e \<Rightarrow> (Inl (Wrapped ''cast vote'' e), s)
         | Inr _ \<Rightarrow>
             (case ValidateBallot p (vc_OptionIDs cmd) of
                Inl e \<Rightarrow> (Inl (Wrapped ''cast vote'' e), s)
              | Inr _ \<Rightarrow>
                  go_try (vs_Guard (vsv_store svc)
                      \<lparr>g_ClientIP = vc_ClientIP cmd, g_PollID = vc_PollID cmd\<rparr> s)
                    (Wrapped ''cast vote'') (\<lambda>verdict s.
                      if verdict = VerdictRateLimited
                      then (Inl (NewError CodeRateLimited ''too many requests, please retry shortly''), s)
                      else if verdict = VerdictQuotaExceeded
                      then (Inl (NewError CodeQuotaExceeded ''vote limit for this network has been reached''), s)
                      else cast_ballot svc cmd s)))))"

subsection \<open>The voter's identity\<close>

lemma VoterHash_form: "length (VoterHash p t) = 32" "list_all is_hex (VoterHash p t)" "VoterHash p t \<noteq> []"
proof -
  show len: "length (VoterHash p t) = 32" by (simp add: VoterHash_def length_hex_encode)
  show "list_all is_hex (VoterHash p t)" by (simp add: VoterHash_def list_all_iff hex_encode_is_hex)
  show "VoterHash p t \<noteq> []" using len by auto
qed

text \<open>
  The separator makes the digest's input unambiguous: two voters collide only when
  SHA-256, cut to 16 bytes, collides.
\<close>

lemma VoterHash_collision:
  assumes "CHR 0x00 \<notin> set p" and "CHR 0x00 \<notin> set q" and "VoterHash p t = VoterHash q u" and "(p, t) \<noteq> (q, u)"
  shows "\<exists>x y. x \<noteq> y \<and> take 16 (Sum256 x) = take 16 (Sum256 y)"
proof -
  have nul: "string_bytes p @ [0] @ string_bytes t \<noteq> string_bytes q @ [0] @ string_bytes u"
  proof
    assume "string_bytes p @ [0] @ string_bytes t = string_bytes q @ [0] @ string_bytes u"
    moreover have "string_bytes v @ [0] @ string_bytes w = string_bytes (v @ [CHR 0x00] @ w)" for v w
      by (simp add: string_bytes_def byte_of_def)
    ultimately have "string_bytes (p @ [CHR 0x00] @ t) = string_bytes (q @ [CHR 0x00] @ u)" by simp
    then have "p @ CHR 0x00 # t = q @ CHR 0x00 # u" using string_bytes_inj by fastforce
    moreover have "cut (CHR 0x00) (p @ CHR 0x00 # t) = Some (p, t)"
      "cut (CHR 0x00) (q @ CHR 0x00 # u) = Some (q, u)"
      using assms(1,2) by (simp_all add: cut_Some)
    ultimately have "Some (p, t) = Some (q, u)" by (simp only:)
    with assms(4) show False by simp
  qed
  from assms(3) have "take 16 (Sum256 (string_bytes p @ [0] @ string_bytes t)) =
      take 16 (Sum256 (string_bytes q @ [0] @ string_bytes u))"
    unfolding VoterHash_def by (rule hex_encode_inj)
  with nul show ?thesis by blast
qed

subsection \<open>Casting against the contracts\<close>

definition cast_ballot_of :: "VoteCommand \<Rightarrow> Ballot" where
  "cast_ballot_of cmd = \<lparr>b_PollID = vc_PollID cmd,
     b_VoterHash = VoterHash (vc_PollID cmd) (vc_VoterToken cmd), b_OptionIDs = vc_OptionIDs cmd\<rparr>"

lemma cast_ballot_of_simps [simp]:
  "b_PollID (cast_ballot_of cmd) = vc_PollID cmd"
  "b_VoterHash (cast_ballot_of cmd) = VoterHash (vc_PollID cmd) (vc_VoterToken cmd)"
  "b_OptionIDs (cast_ballot_of cmd) = vc_OptionIDs cmd"
  by (simp_all add: cast_ballot_of_def)

text \<open>
  \<open>serves s i p\<close>: the loader may answer \<open>p\<close> for the poll \<open>i\<close>.
\<close>

locale voting = vote_store S votes voted tracked hash_ok invar
  for S :: "'s VoteStore" and votes voted tracked hash_ok invar +
  fixes L :: "'s PollLoader"
    and now :: "'s \<Rightarrow> instant"
    and serves :: "'s \<Rightarrow> string \<Rightarrow> poll \<Rightarrow> bool"
  assumes loader_frame: "invar s \<Longrightarrow> pl_Poll L i s = (r, s') \<Longrightarrow>
      invar s' \<and> votes s' = votes s \<and> voted s' = voted s \<and> tracked s' = tracked s \<and> now s' = now s"
    and loader_serves: "invar s \<Longrightarrow> pl_Poll L i s = (Inr p, s') \<Longrightarrow> serves s i p"
    and loader_error: "invar s \<Longrightarrow> pl_Poll L i s = (Inl e, s') \<Longrightarrow> CodeOf e \<in> {CodeNotFound, CodeUnavailable}"
    and voter_hash: "hash_ok (VoterHash i t)"
begin

definition svc :: "'s VoteService" where
  "svc = \<lparr>vsv_polls = L, vsv_store = S, vsv_now = now\<rparr>"

text \<open>The ballot was checked against a served configuration before the store saw it.\<close>

definition checked :: "VoteCommand \<Rightarrow> 's \<Rightarrow> bool" where
  "checked cmd s \<longleftrightarrow> trim_space (vc_VoterToken cmd) \<noteq> []
     \<and> (\<exists>p. serves s (vc_PollID cmd) p \<and> open_at p (now s) \<and> admissible p (vc_OptionIDs cmd))"

definition untouched :: "'s \<Rightarrow> 's \<Rightarrow> bool" where
  "untouched s s' \<longleftrightarrow> invar s' \<and> votes s' = votes s \<and> voted s' = voted s \<and> tracked s' = tracked s"

definition rejection_codes :: "string set" where
  "rejection_codes = {CodeNotFound, CodeInvalidRequest, CodeConflict, CodeUnavailable, CodeRateLimited, CodeQuotaExceeded}"

text \<open>Either the vote store is not asked and nothing changes, or the ballot was checked.\<close>

lemma cast_reaches_store:
  assumes inv: "invar s" and run: "vote_Cast valid svc cmd s = (r, s')"
  obtains (rejected) e where "r = Inl e" "CodeOf e \<in> rejection_codes" "untouched s s'"
    | (asked) s1 where "untouched s s1" "valid (vc_PollID cmd)" "checked cmd s" "cast_ballot svc cmd s1 = (r, s')"
proof -
  note result = that
  have here: "untouched s s" using inv by (simp add: untouched_def)
  show ?thesis
  proof (cases "valid (vc_PollID cmd) \<and> trim_space (vc_VoterToken cmd) \<noteq> []")
    case False
    with run here show ?thesis
      by (auto intro!: rejected simp: vote_Cast_def rejection_codes_def split: if_splits)
  next
    case True
    obtain q s1 where q: "pl_Poll L (vc_PollID cmd) s = (q, s1)" by fastforce
    note fr = loader_frame [OF inv q]
    then have un1: "untouched s s1" by (simp add: untouched_def)
    show ?thesis
    proof (cases q)
      case (Inl e)
      with run q True loader_error [OF inv] un1 show ?thesis
        by (intro rejected [of "Wrapped ''cast vote'' e"]) (auto simp: vote_Cast_def svc_def rejection_codes_def)
    next
      case (Inr p)
      note serve = loader_serves [OF inv q [unfolded Inr]]
      show ?thesis
      proof (cases "open_at p (now s) \<and> admissible p (vc_OptionIDs cmd)")
        case False
        then obtain e where "r = Inl (Wrapped ''cast vote'' e)" "s' = s1" "CodeOf e \<in> {CodeConflict, CodeInvalidRequest}"
          using run q Inr True fr CheckOpenAt_Inr [of p "now s"] ValidateBallot_Inr [of p "vc_OptionIDs cmd"]
          by (auto simp: vote_Cast_def svc_def split: sum.splits dest: CheckOpenAt_Inl ValidateBallot_Inl)
        with un1 show ?thesis by (intro rejected) (auto simp: rejection_codes_def)
      next
        case ok: True
        then have pass: "CheckOpenAt p (now s) = Inr ()" "ValidateBallot p (vc_OptionIDs cmd) = Inr ()"
          by (simp_all add: CheckOpenAt_Inr ValidateBallot_Inr)
        obtain g s2 where g: "vs_Guard S \<lparr>g_ClientIP = vc_ClientIP cmd, g_PollID = vc_PollID cmd\<rparr> s1 = (g, s2)"
          by fastforce
        have un2: "untouched s s2" using guard_frame [of s1, OF _ g] fr by (simp add: untouched_def)
        have chk: "checked cmd s" using True serve ok by (auto simp: checked_def)
        show ?thesis
        proof (cases "\<exists>v. g = Inr v \<and> v \<noteq> VerdictRateLimited \<and> v \<noteq> VerdictQuotaExceeded")
          case True': True
          with run q Inr True fr pass g have "cast_ballot svc cmd s2 = (r, s')"
            by (auto simp: vote_Cast_def svc_def)
          with un2 True chk show ?thesis by (intro asked [of s2]) simp_all
        next
          case False
          with run q Inr True fr pass g guard_error [of _ s1] have
            "s' = s2" "\<exists>e. r = Inl e \<and> CodeOf e \<in> {CodeUnavailable, CodeRateLimited, CodeQuotaExceeded}"
            by (auto simp: vote_Cast_def svc_def split: go_try_splits if_splits)
          with un2 show ?thesis by (auto intro!: rejected simp: rejection_codes_def)
        qed
      qed
    qed
  qed
qed

text \<open>
  Every outcome of \<open>Cast\<close>: accepted and counted; refused with nothing changed; or, when the
  store answered with an error, possibly counted although the voter was told otherwise.
\<close>

lemma cast_outcome:
  assumes inv: "invar s" and room: "\<And>i. votes s (vc_PollID cmd) i < max_int64"
    and run: "vote_Cast valid svc cmd s = (r, s')"
  shows "(\<exists>e. r = Inl e \<and> CodeOf e \<in> insert CodeAlreadyVoted rejection_codes) \<and> untouched s s'
    \<or> checked cmd s \<and> valid (vc_PollID cmd) \<and> invar s' \<and> tracked s' = tracked s
      \<and> \<not> voted s (vc_PollID cmd) (VoterHash (vc_PollID cmd) (vc_VoterToken cmd))
      \<and> voted s' (vc_PollID cmd) (VoterHash (vc_PollID cmd) (vc_VoterToken cmd))
      \<and> votes s' = add_ballot (cast_ballot_of cmd) (votes s)
      \<and> (\<forall>e. r = Inl e \<longrightarrow> CodeOf e \<in> {CodeAlreadyVoted, CodeUnavailable})"
  using inv run
proof (cases rule: cast_reaches_store)
  case (rejected e)
  then show ?thesis by simp
next
  case (asked s1)
  let ?b = "cast_ballot_of cmd"
  let ?h = "VoterHash (vc_PollID cmd) (vc_VoterToken cmd)"
  have hash: "hash_ok (b_VoterHash ?b)" by (simp add: voter_hash)
  obtain q s2 where q: "vs_CastBallot S ?b s1 = (q, s2)" by fastforce
  have s': "s' = s2" and r: "r = (case q of Inl e \<Rightarrow> Inl (Wrapped ''cast vote'' e) | Inr _ \<Rightarrow> Inr ())"
    using asked(4) q by (auto simp: cast_ballot_def svc_def cast_ballot_of_def split: go_try_splits)
  have un: "invar s1" "votes s1 = votes s" "voted s1 = voted s" "tracked s1 = tracked s"
    using asked(1) by (simp_all add: untouched_def)
  show ?thesis
  proof (cases "voted s (vc_PollID cmd) ?h")
    case True
    with cast_again [OF un(1) hash _ q] un r s' show ?thesis
      by (auto simp: untouched_def rejection_codes_def)
  next
    case False
    have "ballot_room (votes s1) ?b"
      using asked(3) room by (auto simp: ballot_room_def checked_def admissible_def un(2))
    note fresh = cast_fresh [OF un(1) hash this _ q]
    show ?thesis
    proof (cases q)
      case (Inl e)
      with fresh False un r s' asked(2,3) show ?thesis by (auto simp: untouched_def rejection_codes_def)
    next
      case (Inr u)
      with fresh False un r s' asked(2,3) show ?thesis by (auto simp: untouched_def rejection_codes_def)
    qed
  qed
qed

text \<open>A voter who was counted is refused from then on, whatever the second ballot says.\<close>

lemma cast_second:
  assumes inv: "invar s" and voted: "voted s (vc_PollID cmd) (VoterHash (vc_PollID cmd) (vc_VoterToken cmd))"
    and run: "vote_Cast valid svc cmd s = (r, s')"
  shows "untouched s s'" and "\<exists>e. r = Inl e \<and> CodeOf e \<in> insert CodeAlreadyVoted rejection_codes"
proof -
  have "untouched s s' \<and> (\<exists>e. r = Inl e \<and> CodeOf e \<in> insert CodeAlreadyVoted rejection_codes)"
    using inv run
  proof (cases rule: cast_reaches_store)
    case (asked s1)
    let ?b = "cast_ballot_of cmd"
    obtain q s2 where q: "vs_CastBallot S ?b s1 = (q, s2)" by fastforce
    have s': "s' = s2" and r: "r = (case q of Inl e \<Rightarrow> Inl (Wrapped ''cast vote'' e) | Inr _ \<Rightarrow> Inr ())"
      using asked(4) q by (auto simp: cast_ballot_def svc_def cast_ballot_of_def split: go_try_splits)
    have un: "invar s1" "votes s1 = votes s" "voted s1 = voted s" "tracked s1 = tracked s"
      using asked(1) by (simp_all add: untouched_def)
    from cast_again [OF un(1) _ _ q] voted un r s' show ?thesis
      by (auto simp: untouched_def rejection_codes_def voter_hash)
  qed auto
  then show "untouched s s'" and "\<exists>e. r = Inl e \<and> CodeOf e \<in> insert CodeAlreadyVoted rejection_codes"
    by blast+
qed

end

end
