(* ===== verification/Poll_Service.thy ===== *)
theory Poll_Service
  imports Repository_Port Go_Strings "HOL-Library.AList"
begin

text \<open>
  The poll service (\<open>internal/service/poll.go\<close>): building, storing, listing and reading
  polls, the status transitions and the results. \<open>uuid.Validate\<close> and \<open>uuid.NewString\<close>
  of \<open>google/uuid\<close> are parameters (the second draws from the state). The lemmas here are
  about the checks on a new poll and about the pure parts; what the handlers do to the
  stores is in \<open>Poll_Service_Laws\<close>.
\<close>

record PollLimits =
  pl_MaxQuestionLength :: int
  pl_MaxOptionLength :: int
  pl_MaxOptions :: int
  pl_MaxPageSize :: int
  pl_DefaultPageSize :: int

record CreatePollCommand =
  cp_Question :: string
  cp_Type :: poll_type
  cp_MaxChoices :: int
  cp_Options :: "string list"
  cp_StartsAt :: "instant option"
  cp_EndsAt :: "instant option"

record PollResults =
  res_Poll :: poll
  res_Counts :: "(string \<times> int64) list"
  res_Total :: int64

record PollPage =
  pg_Items :: "poll list"
  pg_Total :: int
  pg_Limit :: int
  pg_Offset :: int

record 's PollService =
  psv_repo :: "'s PollRepository"
  psv_store :: "'s VoteStore"
  psv_cache :: "'s PollLoader"
  psv_limits :: PollLimits
  psv_now :: "'s \<Rightarrow> instant"
  psv_valid :: "string \<Rightarrow> bool"
  psv_NewString :: "'s \<Rightarrow> string \<times> 's"

subsection \<open>Building a poll\<close>

text \<open>The loop over the options: blank ones are skipped, \<open>seen\<close> is the set of texts so far.\<close>

fun collect_texts :: "int \<Rightarrow> string set \<Rightarrow> string list \<Rightarrow> string list \<Rightarrow> goerror + string list" where
  "collect_texts maxLength seen texts [] = Inr texts"
| "collect_texts maxLength seen texts (raw # raws) =
     (let t = trim_space raw
      in if t = [] then collect_texts maxLength seen texts raws
         else if maxLength < int (rune_count t)
         then Inl (NewError CodeInvalidRequest ''option text is too long'')
         else if t \<in> seen then Inl (NewError CodeInvalidRequest ''options must be distinct'')
         else collect_texts maxLength (insert t seen) (texts @ [t]) raws)"

definition choose_max :: "poll_type \<Rightarrow> int \<Rightarrow> string list \<Rightarrow> goerror + int" where
  "choose_max pollType maxChoices texts =
     (if pollType = PollTypeSingle then Inr 1
      else if pollType = PollTypeMultiple
      then (let m = (if maxChoices \<le> 0 then int (length texts) else maxChoices)
            in if int (length texts) < m
               then Inl (NewError CodeInvalidRequest ''max_choices exceeds the number of options'')
               else Inr m)
      else Inr maxChoices)"

fun draw_options :: "('s \<Rightarrow> string \<times> 's) \<Rightarrow> int \<Rightarrow> string list \<Rightarrow> 's \<Rightarrow> poll_option list \<times> 's" where
  "draw_options draw i [] s = ([], s)"
| "draw_options draw i (t # ts) s =
     (case draw s of (u, s1) \<Rightarrow>
        case draw_options draw (i + 1) ts s1 of (os, s2) \<Rightarrow>
          (\<lparr>o_id = u, o_text = t, o_position = i\<rparr> # os, s2))"

definition poll_fields :: "PollLimits \<Rightarrow> CreatePollCommand \<Rightarrow> goerror + string \<times> poll_type \<times> string list \<times> int" where
  "poll_fields lim cmd =
     (let question = trim_space (cp_Question cmd)
      in if question = [] then Inl (NewError CodeInvalidRequest ''question is required'')
         else if pl_MaxQuestionLength lim < int (rune_count question)
         then Inl (NewError CodeInvalidRequest ''question is too long'')
         else let pollType = (if cp_Type cmd = [] then PollTypeSingle else cp_Type cmd)
         in if \<not> PollType_Valid pollType
            then Inl (NewError CodeInvalidRequest ''unsupported poll type'')
            else case collect_texts (pl_MaxOptionLength lim) {} [] (cp_Options cmd) of
              Inl e \<Rightarrow> Inl e
            | Inr texts \<Rightarrow>
                if length texts < 2
                then Inl (NewError CodeInvalidRequest ''at least two options are required'')
                else if pl_MaxOptions lim < int (length texts)
                then Inl (NewError CodeInvalidRequest ''too many options'')
                else case choose_max pollType (cp_MaxChoices cmd) texts of
                  Inl e \<Rightarrow> Inl e
                | Inr maxChoices \<Rightarrow>
                    if (case (cp_StartsAt cmd, cp_EndsAt cmd) of
                          (Some a, Some b) \<Rightarrow> \<not> a < b | _ \<Rightarrow> False)
                    then Inl (NewError CodeInvalidRequest ''ends_at must be after starts_at'')
                    else Inr (question, pollType, texts, maxChoices))"

definition buildPoll :: "'s PollService \<Rightarrow> CreatePollCommand \<Rightarrow> ('s, poll) action" where
  "buildPoll svc cmd s =
     (case poll_fields (psv_limits svc) cmd of
        Inl e \<Rightarrow> (Inl e, s)
      | Inr (question, pollType, texts, maxChoices) \<Rightarrow>
          (case psv_NewString svc s of (u, s1) \<Rightarrow>
             case draw_options (psv_NewString svc) 0 texts s1 of (os, s2) \<Rightarrow>
               (Inr \<lparr>p_id = u, p_question = question, p_type = pollType, p_max_choices = maxChoices,
                     p_status = PollStatusDraft, p_options = os, p_created_at = psv_now svc s1,
                     p_starts_at = cp_StartsAt cmd, p_ends_at = cp_EndsAt cmd, p_finished_at = None\<rparr>, s2)))"

definition poll_Create :: "'s PollService \<Rightarrow> CreatePollCommand \<Rightarrow> ('s, poll) action" where
  "poll_Create svc cmd s =
     go_try (buildPoll svc cmd s) (Wrapped ''build poll'') (\<lambda>p s.
       go_try (store_new (psv_repo svc) p s) id (\<lambda>_ s. (Inr p, s)))"

subsection \<open>Reading\<close>

definition poll_Get :: "'s PollService \<Rightarrow> string \<Rightarrow> ('s, poll) action" where
  "poll_Get svc pollID s =
     (if \<not> psv_valid svc pollID then (Inl ErrPollNotFound, s)
      else go_try (pl_Poll (psv_cache svc) pollID s) (Wrapped ''get poll'') (\<lambda>p s. (Inr p, s)))"

definition page_limits :: "PollLimits \<Rightarrow> int \<Rightarrow> int \<Rightarrow> int \<times> int" where
  "page_limits lim limit offset =
     (let l = (if limit \<le> 0 then pl_DefaultPageSize lim else limit);
          l' = (if pl_MaxPageSize lim < l then pl_MaxPageSize lim else l)
      in (l', if offset < 0 then 0 else offset))"

definition with_options :: "(string \<times> poll_option list) list \<Rightarrow> poll \<Rightarrow> poll" where
  "with_options os p = p\<lparr>p_options := (case map_of os (p_id p) of None \<Rightarrow> [] | Some l \<Rightarrow> l)\<rparr>"

definition poll_List :: "'s PollService \<Rightarrow> int \<Rightarrow> int \<Rightarrow> ('s, PollPage) action" where
  "poll_List svc limit0 offset0 s =
     (case page_limits (psv_limits svc) limit0 offset0 of (limit, offset) \<Rightarrow>
        go_try (pr_CountPolls (psv_repo svc) s) (Wrapped ''list polls'') (\<lambda>total s.
        go_try (pr_ListPollPage (psv_repo svc) limit offset s) (Wrapped ''list polls'') (\<lambda>polls s.
        go_try (pr_ListOptionsByPollIDs (psv_repo svc) (map p_id polls) s) (Wrapped ''list polls'')
          (\<lambda>optionsByPoll s.
            (Inr \<lparr>pg_Items = map (with_options optionsByPoll) polls, pg_Total = total,
                  pg_Limit = limit, pg_Offset = offset\<rparr>, s)))))"

subsection \<open>Status transitions\<close>

definition poll_transition ::
  "'s PollService \<Rightarrow> string \<Rightarrow> poll_status list \<Rightarrow> poll_status \<Rightarrow> ('s, poll) action"
where
  "poll_transition svc pollID from to s =
     (if \<not> psv_valid svc pollID then (Inl ErrPollNotFound, s)
      else case pr_UpdatePollStatus (psv_repo svc) pollID from to (psv_now svc s) s of
        (Inl e, s1) \<Rightarrow>
          if is_not_updated e
          then go_try (pr_GetPollStatus (psv_repo svc) pollID s1) (Wrapped ''transition poll'')
                 (\<lambda>current s. (Inl (NewError CodeConflict
                    (''cannot change poll status from '' @ current @ '' to '' @ to)), s))
          else (Inl (Wrapped ''transition poll'' e), s1)
      | (Inr _, s1) \<Rightarrow>
          go_try (pr_GetPoll (psv_repo svc) pollID s1) (Wrapped ''transition poll'') (\<lambda>p s. (Inr p, s)))"

text \<open>A failed invalidation is logged and ignored.\<close>

definition poll_invalidate :: "'s PollService \<Rightarrow> string \<Rightarrow> ('s, unit) action" where
  "poll_invalidate svc pollID s = (Inr (), snd (pl_Invalidate (psv_cache svc) pollID s))"

definition poll_Activate :: "'s PollService \<Rightarrow> string \<Rightarrow> ('s, poll) action" where
  "poll_Activate svc pollID s =
     go_try (poll_transition svc pollID [PollStatusDraft] PollStatusActive s) (Wrapped ''activate poll'')
       (\<lambda>p s. go_try (vs_TrackPoll (psv_store svc) (p_id p) s) (Wrapped ''activate poll'')
         (\<lambda>_ s. go_try (poll_invalidate svc (p_id p) s) (Wrapped ''activate poll'')
           (\<lambda>_ s. (Inr p, s))))"

definition poll_Finish :: "'s PollService \<Rightarrow> string \<Rightarrow> ('s, poll) action" where
  "poll_Finish svc pollID s =
     go_try (poll_transition svc pollID [PollStatusDraft, PollStatusActive] PollStatusFinished s)
       (Wrapped ''finish poll'')
       (\<lambda>p s. go_try (poll_invalidate svc (p_id p) s) (Wrapped ''finish poll'') (\<lambda>_ s. (Inr p, s)))"

subsection \<open>Results\<close>

text \<open>A map that was not read is nil, which reads as zero everywhere.\<close>

definition merged_count :: "(string \<times> int64) list \<Rightarrow> (string \<times> int64) list \<Rightarrow> string \<Rightarrow> int64" where
  "merged_count durable live i =
     (if lookup0 durable i <s lookup0 live i then lookup0 live i else lookup0 durable i)"

fun merge_counts ::
  "(string \<times> int64) list \<Rightarrow> (string \<times> int64) list \<Rightarrow> string list
     \<Rightarrow> (string \<times> int64) list \<Rightarrow> int64 \<Rightarrow> (string \<times> int64) list \<times> int64"
where
  "merge_counts durable live [] counts acc = (counts, acc)"
| "merge_counts durable live (i # ids) counts acc =
     merge_counts durable live ids (AList.update i (merged_count durable live i) counts)
       (acc + merged_count durable live i)"

definition map_or_nil :: "goerror + ('k \<times> 'v) list \<Rightarrow> ('k \<times> 'v) list" where
  "map_or_nil r = (case r of Inl _ \<Rightarrow> [] | Inr m \<Rightarrow> m)"

definition poll_Results :: "'s PollService \<Rightarrow> string \<Rightarrow> ('s, PollResults) action" where
  "poll_Results svc pollID s =
     go_try (poll_Get svc pollID s) (Wrapped ''results'') (\<lambda>p s.
       case pr_GetResults (psv_repo svc) pollID s of (durable, s1) \<Rightarrow>
       case vs_Counters (psv_store svc) pollID (OptionIDs p) s1 of (live, s2) \<Rightarrow>
         (case (durable, live) of
            (Inl _, Inl e) \<Rightarrow>
              (Inl (Wrapped ''results'' (WrapError CodeUnavailable e ''results are temporarily unavailable'')), s2)
          | _ \<Rightarrow>
              (case merge_counts (map_or_nil durable) (map_or_nil live) (OptionIDs p) [] 0 of
                 (counts, acc) \<Rightarrow> (Inr \<lparr>res_Poll = p, res_Counts = counts, res_Total = acc\<rparr>, s2))))"

subsection \<open>What a built poll is\<close>

text \<open>The texts of the options that are kept, in order.\<close>

definition option_texts :: "string list \<Rightarrow> string list" where
  "option_texts raws = filter (\<lambda>t. t \<noteq> []) (map trim_space raws)"

lemma collect_texts_Inr:
  "collect_texts n seen texts raws = Inr ts \<longleftrightarrow>
     ts = texts @ option_texts raws \<and> distinct (option_texts raws)
     \<and> set (option_texts raws) \<inter> seen = {} \<and> (\<forall>t \<in> set (option_texts raws). int (rune_count t) \<le> n)"
  by (induction raws arbitrary: seen texts) (auto simp: option_texts_def Let_def)

lemma collect_texts_Inl: "collect_texts n seen texts raws = Inl e \<Longrightarrow> CodeOf e = CodeInvalidRequest"
  by (induction raws arbitrary: seen texts) (auto simp: Let_def split: if_splits)

definition window_ok :: "instant option \<Rightarrow> instant option \<Rightarrow> bool" where
  "window_ok a b \<longleftrightarrow> (\<forall>s e. a = Some s \<longrightarrow> b = Some e \<longrightarrow> s < e)"

text \<open>The specification of a valid command, and of what is built from it.\<close>

definition command_ok :: "PollLimits \<Rightarrow> CreatePollCommand \<Rightarrow> bool" where
  "command_ok lim cmd \<longleftrightarrow>
     trim_space (cp_Question cmd) \<noteq> []
     \<and> int (rune_count (trim_space (cp_Question cmd))) \<le> pl_MaxQuestionLength lim
     \<and> cp_Type cmd \<in> {[], PollTypeSingle, PollTypeMultiple}
     \<and> distinct (option_texts (cp_Options cmd))
     \<and> (\<forall>t \<in> set (option_texts (cp_Options cmd)). int (rune_count t) \<le> pl_MaxOptionLength lim)
     \<and> 2 \<le> length (option_texts (cp_Options cmd))
     \<and> int (length (option_texts (cp_Options cmd))) \<le> pl_MaxOptions lim
     \<and> (cp_Type cmd = PollTypeMultiple \<longrightarrow> cp_MaxChoices cmd \<le> int (length (option_texts (cp_Options cmd))))
     \<and> window_ok (cp_StartsAt cmd) (cp_EndsAt cmd)"

definition chosen_type :: "CreatePollCommand \<Rightarrow> poll_type" where
  "chosen_type cmd = (if cp_Type cmd = [] then PollTypeSingle else cp_Type cmd)"

definition chosen_max :: "CreatePollCommand \<Rightarrow> int" where
  "chosen_max cmd =
     (if chosen_type cmd = PollTypeSingle then 1
      else if cp_MaxChoices cmd \<le> 0 then int (length (option_texts (cp_Options cmd)))
      else cp_MaxChoices cmd)"

lemma window_check:
  "(case (a, b) of (Some x, Some y) \<Rightarrow> \<not> x < y | _ \<Rightarrow> False) \<longleftrightarrow> \<not> window_ok a b"
  by (cases a; cases b) (auto simp: window_ok_def)

lemma choose_max_chosen:
  assumes "PollType_Valid (chosen_type cmd)" and "2 \<le> length (option_texts (cp_Options cmd))"
  shows "choose_max (chosen_type cmd) (cp_MaxChoices cmd) (option_texts (cp_Options cmd)) =
    (if cp_Type cmd = PollTypeMultiple \<and> int (length (option_texts (cp_Options cmd))) < cp_MaxChoices cmd
     then Inl (NewError CodeInvalidRequest ''max_choices exceeds the number of options'')
     else Inr (chosen_max cmd))"
  using assms by (auto simp: choose_max_def chosen_max_def chosen_type_def PollType_Valid_def Let_def)

lemma poll_fields_Inr:
  "poll_fields lim cmd = Inr x \<longleftrightarrow> command_ok lim cmd
     \<and> x = (trim_space (cp_Question cmd), chosen_type cmd, option_texts (cp_Options cmd), chosen_max cmd)"
proof (cases "collect_texts (pl_MaxOptionLength lim) {} [] (cp_Options cmd)")
  case (Inl e)
  then have "\<not> (distinct (option_texts (cp_Options cmd))
      \<and> (\<forall>t \<in> set (option_texts (cp_Options cmd)). int (rune_count t) \<le> pl_MaxOptionLength lim))"
    using collect_texts_Inr [of "pl_MaxOptionLength lim" "{}" "[]" "cp_Options cmd"] by auto
  with Inl show ?thesis by (auto simp: poll_fields_def command_ok_def Let_def)
next
  case (Inr ts)
  then have ts: "ts = option_texts (cp_Options cmd)" "distinct (option_texts (cp_Options cmd))"
    "\<forall>t \<in> set (option_texts (cp_Options cmd)). int (rune_count t) \<le> pl_MaxOptionLength lim"
    by (simp_all add: collect_texts_Inr)
  have type: "PollType_Valid (chosen_type cmd) \<longleftrightarrow> cp_Type cmd \<in> {[], PollTypeSingle, PollTypeMultiple}"
    by (auto simp: chosen_type_def PollType_Valid_def)
  show ?thesis
    unfolding poll_fields_def Let_def Inr chosen_type_def [symmetric] window_check command_ok_def ts(1)
    using ts(2,3) type choose_max_chosen [of cmd] by auto
qed

lemma poll_fields_Inl: "poll_fields lim cmd = Inl e \<Longrightarrow> CodeOf e = CodeInvalidRequest"
  by (auto simp: poll_fields_def choose_max_def Let_def split: if_splits sum.splits
      dest: collect_texts_Inl)

text \<open>
  C9. Building a poll accepts exactly the valid commands: a question and at least two
  distinct options after trimming, all within their length limits (counted in runes), not
  too many options, a known type, a limit of choices that the options can fill, and a
  window that ends after it starts. It keeps the trimmed texts, and defaults the type to
  single and the limit of a multiple poll to all options; anything else is "invalid
  request".
\<close>

theorem build_decides:
  "case poll_fields lim cmd of
     Inr x \<Rightarrow> command_ok lim cmd
       \<and> x = (trim_space (cp_Question cmd), chosen_type cmd, option_texts (cp_Options cmd), chosen_max cmd)
   | Inl e \<Rightarrow> \<not> command_ok lim cmd \<and> CodeOf e = CodeInvalidRequest"
proof (cases "poll_fields lim cmd")
  case (Inl e)
  with poll_fields_Inl [OF Inl] poll_fields_Inr [of lim cmd] show ?thesis by auto
next
  case (Inr x)
  with poll_fields_Inr [of lim cmd x] show ?thesis by simp
qed

lemma draw_options_shape:
  assumes "draw_options draw i ts s = (os, s')"
  shows "map o_text os = ts" "map o_position os = map (\<lambda>k. i + int k) [0 ..< length ts]"
proof -
  have "map o_text os = ts \<and> map o_position os = map (\<lambda>k. i + int k) [0 ..< length ts]"
    using assms
  proof (induction ts arbitrary: i s os)
    case (Cons t ts)
    then obtain u s1 os' where "draw s = (u, s1)" "draw_options draw (i + 1) ts s1 = (os', s')"
      "os = \<lparr>o_id = u, o_text = t, o_position = i\<rparr> # os'"
      by (auto split: prod.splits)
    with Cons.IH [OF this(2)] show ?case
      by (simp add: upt_conv_Cons map_Suc_upt [symmetric] del: upt_Suc)
  qed simp
  then show "map o_text os = ts" "map o_position os = map (\<lambda>k. i + int k) [0 ..< length ts]" by blast+
qed

lemma draw_options_ids:
  assumes "draw_options draw i ts s = (os, s')" and "Q s"
    and "\<And>s u s'. Q s \<Longrightarrow> draw s = (u, s') \<Longrightarrow> P u \<and> Q s'"
  shows "\<forall>x \<in> set os. P (o_id x)"
  using assms(1,2)
proof (induction ts arbitrary: i s os)
  case (Cons t ts)
  then obtain u s1 os' where d: "draw s = (u, s1)" "draw_options draw (i + 1) ts s1 = (os', s')"
    "os = \<lparr>o_id = u, o_text = t, o_position = i\<rparr> # os'"
    by (auto split: prod.splits)
  with Cons.IH [OF d(2)] assms(3) [OF Cons.prems(2) d(1)] show ?case by simp
qed simp

subsection \<open>Merging and paging\<close>

lemma sint_merged: "sint (merged_count d l i) = max (sint (lookup0 d i)) (sint (lookup0 l i))"
  by (simp add: merged_count_def word_sless_alt max_def)

lemma merge_counts_value:
  assumes "merge_counts d l ids counts acc = (m, t)"
  shows "lookup0 m i = (if i \<in> set ids then merged_count d l i else lookup0 counts i)"
    and "t = acc + (\<Sum>i\<leftarrow>ids. merged_count d l i)"
    and "fst ` set m = fst ` set counts \<union> set ids"
proof -
  have "lookup0 m i = (if i \<in> set ids then merged_count d l i else lookup0 counts i)
      \<and> t = acc + (\<Sum>i\<leftarrow>ids. merged_count d l i) \<and> fst ` set m = fst ` set counts \<union> set ids"
    using assms
  proof (induction d l ids counts acc rule: merge_counts.induct)
    case (2 d l k ids counts acc)
    have "fst ` set (AList.update k v counts) = insert k (fst ` set counts)" for v
      by (simp add: dom_map_of_conv_image_fst [symmetric] update_conv')
    with 2 show ?case by (auto simp: lookup0_update add.assoc)
  qed auto
  then show "lookup0 m i = (if i \<in> set ids then merged_count d l i else lookup0 counts i)"
    and "t = acc + (\<Sum>i\<leftarrow>ids. merged_count d l i)" and "fst ` set m = fst ` set counts \<union> set ids"
    by blast+
qed

text \<open>The sum of counts that fit is the sum of their values.\<close>

lemma sint_sum_list:
  assumes "\<And>x. x \<in> set xs \<Longrightarrow> 0 \<le> sint (f x :: int64)" and "(\<Sum>x\<leftarrow>xs. sint (f x)) \<le> max_int64"
  shows "sint (\<Sum>x\<leftarrow>xs. f x) = (\<Sum>x\<leftarrow>xs. sint (f x))"
  using assms
proof (induction xs)
  case (Cons x xs)
  have pos: "0 \<le> (\<Sum>x\<leftarrow>xs. sint (f x))" using Cons.prems(1) by (intro sum_list_nonneg) auto
  have px: "0 \<le> sint (f x)" using Cons.prems(1) by simp
  have "sint (\<Sum>x\<leftarrow>xs. f x) = (\<Sum>x\<leftarrow>xs. sint (f x))"
    using Cons.prems(2) px by (intro Cons.IH Cons.prems(1)) simp_all
  with Cons.prems(2) pos px show ?case
    by (simp add: sint_int64_add min_int64_def)
qed simp

definition limits_ok :: "PollLimits \<Rightarrow> bool" where
  "limits_ok lim \<longleftrightarrow> 1 \<le> pl_DefaultPageSize lim \<and> pl_DefaultPageSize lim \<le> pl_MaxPageSize lim"

lemma page_limits_range:
  assumes "limits_ok lim" and "page_limits lim l k = (limit, offset)"
  shows "1 \<le> limit" "limit \<le> pl_MaxPageSize lim" "0 \<le> offset"
    and "1 \<le> l \<Longrightarrow> l \<le> pl_MaxPageSize lim \<Longrightarrow> limit = l" and "0 \<le> k \<Longrightarrow> offset = k"
  using assms by (auto simp: page_limits_def limits_ok_def Let_def split: if_splits)

end
