(* ===== verification/Poll_Service_Laws.thy ===== *)
theory Poll_Service_Laws
  imports Poll_Service
begin

text \<open>
  What the poll service does to its stores, proved once for every durable store, vote store
  and poll loader that keep their contracts and leave each other's data alone (the locale
  \<open>backend\<close>).
\<close>

locale backend = repo: poll_repository R canon stamp stored durable invar
    + store: vote_store S votes voted tracked hash_ok invar
  for R :: "'s PollRepository" and canon stamp stored durable
    and S :: "'s VoteStore" and votes voted tracked hash_ok and invar +
  fixes L :: "'s PollLoader"
    and now :: "'s \<Rightarrow> instant"
    and draw :: "'s \<Rightarrow> string \<times> 's"
    and valid :: "string \<Rightarrow> bool"
    and limits :: PollLimits
  assumes repo_get_votes: "invar s \<Longrightarrow> pr_GetPoll R i s = (r1, s') \<Longrightarrow>
      votes s' = votes s \<and> voted s' = voted s \<and> tracked s' = tracked s"
    and repo_update_votes: "invar s \<Longrightarrow> pr_UpdatePollStatus R i fr to at s = (r2, s') \<Longrightarrow>
      votes s' = votes s \<and> voted s' = voted s \<and> tracked s' = tracked s"
    and repo_status_votes: "invar s \<Longrightarrow> pr_GetPollStatus R i s = (r3, s') \<Longrightarrow>
      votes s' = votes s \<and> voted s' = voted s \<and> tracked s' = tracked s"
    and repo_results_votes: "invar s \<Longrightarrow> pr_GetResults R i s = (r4, s') \<Longrightarrow>
      votes s' = votes s \<and> voted s' = voted s \<and> tracked s' = tracked s"
    and repo_save_votes: "invar s \<Longrightarrow> pr_SaveResults R i m s = (r2, s') \<Longrightarrow>
      votes s' = votes s \<and> voted s' = voted s \<and> tracked s' = tracked s"
    and repo_create_votes: "invar s \<Longrightarrow> store_new R p s = (r2, s') \<Longrightarrow>
      votes s' = votes s \<and> voted s' = voted s \<and> tracked s' = tracked s"
    and store_counters_polls: "invar s \<Longrightarrow> vs_Counters S i ids s = (r4, s') \<Longrightarrow>
      stored s' = stored s \<and> durable s' = durable s \<and> now s' = now s"
    and store_track_polls: "invar s \<Longrightarrow> vs_TrackPoll S i s = (r2, s') \<Longrightarrow>
      stored s' = stored s \<and> durable s' = durable s"
    and store_untrack_polls: "invar s \<Longrightarrow> vs_UntrackPoll S i s = (r2, s') \<Longrightarrow>
      stored s' = stored s \<and> durable s' = durable s \<and> now s' = now s"
    and store_tracked_polls: "invar s \<Longrightarrow> vs_TrackedPolls S s = (r5, s') \<Longrightarrow>
      stored s' = stored s \<and> durable s' = durable s \<and> now s' = now s"
    and repo_now: "invar s \<Longrightarrow> pr_GetPoll R i s = (r1, s') \<Longrightarrow> now s' = now s"
      "invar s \<Longrightarrow> pr_SaveResults R i m s = (r2, s') \<Longrightarrow> now s' = now s"
    and load_frame: "invar s \<Longrightarrow> pl_Poll L i s = (r1, s') \<Longrightarrow> invar s' \<and> stored s' = stored s
      \<and> durable s' = durable s \<and> votes s' = votes s \<and> voted s' = voted s \<and> tracked s' = tracked s"
    and load_error: "invar s \<Longrightarrow> pl_Poll L i s = (Inl e, s') \<Longrightarrow> CodeOf e \<in> {CodeNotFound, CodeUnavailable}"
    and invalidate_frame: "invar s \<Longrightarrow> pl_Invalidate L i s = (r2, s') \<Longrightarrow> invar s' \<and> stored s' = stored s
      \<and> durable s' = durable s \<and> votes s' = votes s \<and> voted s' = voted s \<and> tracked s' = tracked s"
    and draw_canon: "invar s \<Longrightarrow> draw s = (u, s') \<Longrightarrow> canon u = Some u"
    and draw_frame: "invar s \<Longrightarrow> draw s = (u, s') \<Longrightarrow> invar s' \<and> stored s' = stored s
      \<and> durable s' = durable s \<and> votes s' = votes s \<and> voted s' = voted s \<and> tracked s' = tracked s"
begin

definition svc :: "'s PollService" where
  "svc = \<lparr>psv_repo = R, psv_store = S, psv_cache = L, psv_limits = limits, psv_now = now,
     psv_valid = valid, psv_NewString = draw\<rparr>"

lemma svc_simps [simp]:
  "psv_repo svc = R" "psv_store svc = S" "psv_cache svc = L" "psv_limits svc = limits"
  "psv_now svc = now" "psv_valid svc = valid" "psv_NewString svc = draw"
  by (simp_all add: svc_def)

definition same_votes :: "'s \<Rightarrow> 's \<Rightarrow> bool" where
  "same_votes s s' \<longleftrightarrow> votes s' = votes s \<and> voted s' = voted s"

definition same_all :: "'s \<Rightarrow> 's \<Rightarrow> bool" where
  "same_all s s' \<longleftrightarrow> invar s' \<and> stored s' = stored s \<and> durable s' = durable s
     \<and> votes s' = votes s \<and> voted s' = voted s \<and> tracked s' = tracked s"

lemma same_all_trans: "same_all s s' \<Longrightarrow> same_all s' s'' \<Longrightarrow> same_all s s''"
  by (simp add: same_all_def)

lemma same_all_refl: "invar s \<Longrightarrow> same_all s s"
  by (simp add: same_all_def)

subsection \<open>Creating\<close>

lemma draw_options_frame:
  "invar s \<Longrightarrow> draw_options draw i ts s = (os, s') \<Longrightarrow> same_all s s'"
proof (induction ts arbitrary: i s os)
  case (Cons t ts)
  obtain u s1 where d: "draw s = (u, s1)" by fastforce
  obtain os' where rest: "draw_options draw (i + 1) ts s1 = (os', s')"
    using Cons.prems(2) d by (auto split: prod.splits)
  have s: "same_all s s1" using draw_frame [OF Cons.prems(1) d] by (simp add: same_all_def)
  then have "same_all s1 s'" using Cons.IH [OF _ rest] by (simp add: same_all_def)
  with s show ?case by (rule same_all_trans)
qed (simp add: same_all_refl)

text \<open>A valid command builds a draft with fresh ids; an invalid one changes nothing.\<close>

lemma build_outcome:
  assumes inv: "invar s" and run: "buildPoll svc cmd s = (r, s')"
  shows "(\<exists>e. r = Inl e \<and> CodeOf e = CodeInvalidRequest \<and> \<not> command_ok limits cmd \<and> s' = s)
    \<or> (\<exists>p. r = Inr p \<and> command_ok limits cmd \<and> same_all s s' \<and> new_poll_ok canon p
        \<and> p_question p = trim_space (cp_Question cmd) \<and> p_type p = chosen_type cmd
        \<and> p_max_choices p = chosen_max cmd \<and> p_status p = PollStatusDraft
        \<and> map o_text (p_options p) = option_texts (cp_Options cmd)
        \<and> p_starts_at p = cp_StartsAt cmd \<and> p_ends_at p = cp_EndsAt cmd)"
proof (cases "poll_fields limits cmd")
  case (Inl e)
  moreover from this have "\<not> command_ok limits cmd" using poll_fields_Inr [of limits cmd] by auto
  ultimately show ?thesis using run poll_fields_Inl [OF Inl] by (auto simp: buildPoll_def)
next
  case (Inr x)
  then have ok: "command_ok limits cmd" and x: "x = (trim_space (cp_Question cmd), chosen_type cmd,
      option_texts (cp_Options cmd), chosen_max cmd)"
    by (simp_all add: poll_fields_Inr)
  obtain u s1 where d: "draw s = (u, s1)" by fastforce
  obtain os s2 where rest: "draw_options draw 0 (option_texts (cp_Options cmd)) s1 = (os, s2)" by fastforce
  have s1: "same_all s s1" using draw_frame [OF inv d] by (simp add: same_all_def)
  then have s2: "same_all s s2"
    using draw_options_frame [OF _ rest] by (auto simp: same_all_def)
  note shape = draw_options_shape [OF rest]
  have ids: "\<forall>x \<in> set os. canon (o_id x) = Some (o_id x)"
    using s1 draw_canon draw_frame
    by (intro draw_options_ids [OF rest, where Q = invar]) (auto simp: same_all_def)
  let ?p = "\<lparr>p_id = u, p_question = trim_space (cp_Question cmd), p_type = chosen_type cmd,
      p_max_choices = chosen_max cmd, p_status = PollStatusDraft, p_options = os, p_created_at = now s1,
      p_starts_at = cp_StartsAt cmd, p_ends_at = cp_EndsAt cmd, p_finished_at = None\<rparr>"
  have r: "r = Inr ?p" "s' = s2" using run Inr x d rest by (auto simp: buildPoll_def)
  have "length os = length (option_texts (cp_Options cmd))" using arg_cong [OF shape(1), of length] by simp
  then have "new_poll_ok canon ?p"
    using ids shape(2) draw_canon [OF inv d] by (auto simp: new_poll_ok_def OptionIDs_def)
  with r ok s2 shape(1) show ?thesis by auto
qed

lemma create_outcome:
  assumes inv: "invar s" and run: "poll_Create svc cmd s = (r, s')"
  shows "invar s' \<and> votes s' = votes s \<and> voted s' = voted s \<and> tracked s' = tracked s
    \<and> ((\<exists>e. r = Inl e \<and> CodeOf e = CodeInvalidRequest \<and> \<not> command_ok limits cmd \<and> s' = s)
       \<or> command_ok limits cmd
         \<and> ((\<exists>e. r = Inl e \<and> CodeOf e = CodeUnavailable) \<and> stored s' = stored s \<and> durable s' = durable s
            \<or> (\<exists>p. (r = Inr p \<or> (\<exists>e. r = Inl e \<and> CodeOf e = CodeUnavailable))
                \<and> stored s (p_id p) = None \<and> p_status p = PollStatusDraft
                \<and> p_question p = trim_space (cp_Question cmd) \<and> p_type p = chosen_type cmd
                \<and> p_max_choices p = chosen_max cmd
                \<and> map o_text (p_options p) = option_texts (cp_Options cmd)
                \<and> stored s' = (stored s)(p_id p \<mapsto> stamped stamp p)
                \<and> durable s' = zeroed p (durable s))))"
proof -
  obtain q s1 where b: "buildPoll svc cmd s = (q, s1)" by fastforce
  from build_outcome [OF inv b] show ?thesis
  proof (elim disjE exE conjE)
    fix e
    assume "q = Inl e" "CodeOf e = CodeInvalidRequest" "\<not> command_ok limits cmd" "s1 = s"
    with run b inv show ?thesis by (auto simp: poll_Create_def)
  next
    fix p
    assume q: "q = Inr p" and ok: "command_ok limits cmd" and same: "same_all s s1" and new: "new_poll_ok canon p"
      and fields: "p_question p = trim_space (cp_Question cmd)" "p_type p = chosen_type cmd"
      "p_max_choices p = chosen_max cmd" "p_status p = PollStatusDraft"
      "map o_text (p_options p) = option_texts (cp_Options cmd)"
    have inv1: "invar s1" and views: "stored s1 = stored s" "durable s1 = durable s" "votes s1 = votes s"
      "voted s1 = voted s" "tracked s1 = tracked s"
      using same by (simp_all add: same_all_def)
    obtain x s2 where x: "store_new R p s1 = (x, s2)" by fastforce
    have s': "s' = s2" and r: "r = (case x of Inl e \<Rightarrow> Inl e | Inr _ \<Rightarrow> Inr p)"
      using run b q x by (auto simp: poll_Create_def split: go_try_splits)
    note votes = repo_create_votes [OF inv1 x]
    show ?thesis
    proof (cases x)
      case (Inl e)
      from repo.create_error [OF inv1 new x [unfolded Inl]] votes s' r Inl ok fields show ?thesis
        by (auto simp: views)
    next
      case (Inr u)
      from repo.create_done [OF inv1 new x [unfolded Inr]] votes s' r Inr ok fields show ?thesis
        by (auto simp: views)
    qed
  qed
qed

subsection \<open>Transitions\<close>

text \<open>\<open>moved s s' i from to\<close>: the poll named by \<open>i\<close> had a status in \<open>from\<close> and has \<open>to\<close> now.\<close>

definition moved :: "'s \<Rightarrow> 's \<Rightarrow> string \<Rightarrow> poll_status list \<Rightarrow> poll_status \<Rightarrow> poll \<Rightarrow> bool" where
  "moved s s' i fr to p \<longleftrightarrow> canon i = Some (p_id p) \<and> stored s (p_id p) = Some p \<and> p_status p \<in> set fr
     \<and> stored s' = (stored s)(p_id p \<mapsto> with_status stamp to (now s) p)"

definition kept :: "'s \<Rightarrow> 's \<Rightarrow> bool" where
  "kept s s' \<longleftrightarrow> invar s' \<and> durable s' = durable s \<and> votes s' = votes s \<and> voted s' = voted s"

lemma with_status_id [simp]: "p_id (with_status st to at p) = p_id p" "p_status (with_status st to at p) = to"
  by (simp_all add: with_status_def)

lemma transition_outcome:
  assumes inv: "invar s" and run: "poll_transition svc i fr to s = (r, s')"
  shows "kept s s' \<and> tracked s' = tracked s
    \<and> (stored s' = stored s \<and> (\<exists>e. r = Inl e \<and> CodeOf e \<in> {CodeNotFound, CodeConflict, CodeUnavailable})
       \<or> (\<exists>p. valid i \<and> moved s s' i fr to p
            \<and> (r = Inr (with_status stamp to (now s) p) \<or> (\<exists>e. r = Inl e \<and> CodeOf e = CodeUnavailable))))"
proof (cases "valid i")
  case False
  with run inv show ?thesis by (auto simp: poll_transition_def kept_def)
next
  case True
  obtain q s1 where q: "pr_UpdatePollStatus R i fr to (now s) s = (q, s1)" by fastforce
  note votes1 = repo_update_votes [OF inv q]
  show ?thesis
  proof (cases q)
    case (Inr u)
    note upd = repo.update_done [OF inv q [unfolded Inr]]
    then obtain p where m: "moved s s1 i fr to p" by (auto simp: moved_def)
    have inv1: "invar s1" using upd by simp
    obtain x s2 where x: "pr_GetPoll R i s1 = (x, s2)" by fastforce
    have s': "s' = s2" and r: "r = (case x of Inl e \<Rightarrow> Inl (Wrapped ''transition poll'' e) | Inr p \<Rightarrow> Inr p)"
      using run True q Inr x by (auto simp: poll_transition_def split: go_try_splits)
    have here: "canon i = Some (p_id p)" "stored s1 (p_id p) = Some (with_status stamp to (now s) p)"
      using m by (auto simp: moved_def)
    note fr = repo.get_poll_frame [OF inv1 x] repo_get_votes [OF inv1 x]
    have "kept s s'" "tracked s' = tracked s" using fr votes1 upd s' by (simp_all add: kept_def)
    moreover have "moved s s' i fr to p" using m fr s' by (simp add: moved_def)
    moreover have "r = Inr (with_status stamp to (now s) p) \<or> (\<exists>e. r = Inl e \<and> CodeOf e = CodeUnavailable)"
      using repo.get_poll_present [OF inv1 here x] r by auto
    ultimately show ?thesis using True by blast
  next
    case (Inl e)
    note upd = repo.update_error [OF inv q [unfolded Inl]]
    then have inv1: "invar s1" and dur: "durable s1 = durable s" by blast+
    show ?thesis
    proof (cases "is_not_updated e")
      case nu: True
      then have same: "stored s1 = stored s" using upd by blast
      obtain x s2 where x: "pr_GetPollStatus R i s1 = (x, s2)" by fastforce
      have s': "s' = s2" and r: "r = (case x of Inl e \<Rightarrow> Inl (Wrapped ''transition poll'' e)
          | Inr current \<Rightarrow> Inl (NewError CodeConflict (''cannot change poll status from '' @ current @ '' to '' @ to)))"
        using run True q Inl nu x by (auto simp: poll_transition_def split: go_try_splits)
      have "\<exists>e. r = Inl e \<and> CodeOf e \<in> {CodeNotFound, CodeConflict, CodeUnavailable}"
        using r repo.status_error [OF inv1] x by (cases x) auto
      with repo.status_frame [OF inv1 x] repo_status_votes [OF inv1 x] votes1 s' same dur show ?thesis
        by (simp add: kept_def)
    next
      case False
      then have "r = Inl (Wrapped ''transition poll'' e)" "s' = s1"
        using run True q Inl by (auto simp: poll_transition_def)
      with False upd votes1 True show ?thesis by (auto simp: kept_def moved_def)
    qed
  qed
qed

text \<open>
  Activation: a draft becomes active and tracked. When tracking fails after the status was
  committed, the poll stays active without being tracked.
\<close>

lemma activate_outcome:
  assumes inv: "invar s" and run: "poll_Activate svc i s = (r, s')"
  shows "kept s s'
    \<and> (stored s' = stored s \<and> tracked s' = tracked s
         \<and> (\<exists>e. r = Inl e \<and> CodeOf e \<in> {CodeNotFound, CodeConflict, CodeUnavailable})
       \<or> (\<exists>p. moved s s' i [PollStatusDraft] PollStatusActive p
            \<and> (r = Inr (with_status stamp PollStatusActive (now s) p) \<and> tracked s' = insert (p_id p) (tracked s)
               \<or> (\<exists>e. r = Inl e \<and> CodeOf e = CodeUnavailable) \<and> tracked s' \<in> {tracked s, insert (p_id p) (tracked s)})))"
proof -
  obtain q s1 where q: "poll_transition svc i [PollStatusDraft] PollStatusActive s = (q, s1)" by fastforce
  note tr = transition_outcome [OF inv q]
  show ?thesis
  proof (cases q)
    case (Inl e)
    with run q have "r = Inl (Wrapped ''activate poll'' e)" "s' = s1" by (auto simp: poll_Activate_def)
    with tr Inl show ?thesis by auto
  next
    case (Inr p')
    with tr obtain p where m: "moved s s1 i [PollStatusDraft] PollStatusActive p"
      and p': "p' = with_status stamp PollStatusActive (now s) p" by auto
    have inv1: "invar s1" using tr by (simp add: kept_def)
    obtain x s2 where x: "vs_TrackPoll S (p_id p) s1 = (x, s2)" by fastforce
    note tk = store.track_frame [OF inv1 x] store_track_polls [OF inv1 x]
    show ?thesis
    proof (cases x)
      case (Inl e)
      with run q Inr x p' have "r = Inl (Wrapped ''activate poll'' e)" "s' = s2"
        by (auto simp: poll_Activate_def)
      with tk tr m store.track_error [OF x [unfolded Inl]] show ?thesis by (auto simp: kept_def moved_def)
    next
      case ok: (Inr u)
      obtain y s3 where y: "pl_Invalidate L (p_id p) s2 = (y, s3)" by fastforce
      from run q Inr x ok y p' have "r = Inr p'" "s' = s3"
        by (auto simp: poll_Activate_def poll_invalidate_def)
      with tk ok tr m p' invalidate_frame [OF _ y] show ?thesis by (auto simp: kept_def moved_def)
    qed
  qed
qed

lemma finish_outcome:
  assumes inv: "invar s" and run: "poll_Finish svc i s = (r, s')"
  shows "kept s s' \<and> tracked s' = tracked s
    \<and> (stored s' = stored s \<and> (\<exists>e. r = Inl e \<and> CodeOf e \<in> {CodeNotFound, CodeConflict, CodeUnavailable})
       \<or> (\<exists>p. moved s s' i [PollStatusDraft, PollStatusActive] PollStatusFinished p
            \<and> (r = Inr (with_status stamp PollStatusFinished (now s) p)
               \<or> (\<exists>e. r = Inl e \<and> CodeOf e = CodeUnavailable))))"
proof -
  obtain q s1 where q: "poll_transition svc i [PollStatusDraft, PollStatusActive] PollStatusFinished s = (q, s1)"
    by fastforce
  note tr = transition_outcome [OF inv q]
  show ?thesis
  proof (cases q)
    case (Inl e)
    with run q have "r = Inl (Wrapped ''finish poll'' e)" "s' = s1" by (auto simp: poll_Finish_def)
    with tr Inl show ?thesis by auto
  next
    case (Inr p')
    obtain y s3 where y: "pl_Invalidate L (p_id p') s1 = (y, s3)" by fastforce
    from run q Inr y have "r = Inr p'" "s' = s3" by (auto simp: poll_Finish_def poll_invalidate_def)
    with tr Inr invalidate_frame [OF _ y] show ?thesis by (auto simp: kept_def moved_def)
  qed
qed

subsection \<open>Results\<close>

lemma get_outcome:
  assumes inv: "invar s" and run: "poll_Get svc i s = (r, s')"
  shows "same_all s s'"
    and "r = Inl e \<Longrightarrow> CodeOf e \<in> {CodeNotFound, CodeUnavailable}"
    and "r = Inr p \<Longrightarrow> valid i \<and> pl_Poll L i s = (Inr p, s')"
proof -
  obtain q s1 where q: "pl_Poll L i s = (q, s1)" by fastforce
  have "same_all s s' \<and> (r = Inl e \<longrightarrow> CodeOf e \<in> {CodeNotFound, CodeUnavailable})
    \<and> (r = Inr p \<longrightarrow> valid i \<and> pl_Poll L i s = (Inr p, s'))"
  proof (cases "valid i")
    case False
    with run inv show ?thesis by (auto simp: poll_Get_def same_all_def)
  next
    case True
    show ?thesis
    proof (cases q)
      case (Inl e')
      with run True q load_frame [OF inv q] load_error [OF inv q [unfolded Inl]] show ?thesis
        by (auto simp: poll_Get_def same_all_def)
    next
      case (Inr p')
      with run True q load_frame [OF inv q] show ?thesis by (auto simp: poll_Get_def same_all_def)
    qed
  qed
  then show "same_all s s'" "r = Inl e \<Longrightarrow> CodeOf e \<in> {CodeNotFound, CodeUnavailable}"
    "r = Inr p \<Longrightarrow> valid i \<and> pl_Poll L i s = (Inr p, s')" by blast+
qed

text \<open>
  What a source contributes: its count when it was read, nothing when it was not. \<open>dok\<close> and
  \<open>lok\<close> say which of the two was read.
\<close>

definition durable_count :: "'s \<Rightarrow> string \<Rightarrow> string \<Rightarrow> int" where
  "durable_count s i j =
     (case canon i of None \<Rightarrow> 0 | Some c \<Rightarrow> (case durable s c j of None \<Rightarrow> 0 | Some v \<Rightarrow> v))"

definition shown_count :: "'s \<Rightarrow> string \<Rightarrow> bool \<Rightarrow> bool \<Rightarrow> string \<Rightarrow> int" where
  "shown_count s i dok lok j =
     max (if dok then durable_count s i j else 0) (if lok then votes s i j else 0)"

text \<open>What merging the two reads gives, when at least one of them succeeded.\<close>

lemma results_merge:
  assumes inv: "invar s" and room: "\<And>j. votes s i j \<le> max_int64"
    and d: "pr_GetResults R i s = (d, s2)" and l: "vs_Counters S i ids s2 = (l, s3)"
    and one: "\<not> ((\<exists>x. d = Inl x) \<and> (\<exists>y. l = Inl y))"
    and m: "merge_counts (map_or_nil d) (map_or_nil l) ids [] 0 = (m, t)"
  shows "fst ` set m = set ids" "t = (\<Sum>j\<leftarrow>ids. lookup0 m j)"
    and "\<forall>j \<in> set ids. sint (lookup0 m j) = shown_count s i (\<not> isl d) (\<not> isl l) j"
proof -
  note mv = merge_counts_value [OF m]
  note dfr = repo.results_frame [OF inv d] repo_results_votes [OF inv d]
  define dok where "dok \<longleftrightarrow> \<not> isl d"
  define lok where "lok \<longleftrightarrow> \<not> isl l"
  have dv: "sint (lookup0 (map_or_nil d) j) = (if dok then durable_count s i j else 0)" for j
  proof (cases d)
    case (Inr x)
    from repo.results_value [OF inv d [unfolded Inr]] obtain c where
      "canon i = Some c" "map_option sint (map_of x j) = durable s c j" by blast
    with Inr show ?thesis
      by (cases "map_of x j"; cases "durable s c j") (auto simp: dok_def map_or_nil_def lookup0_def durable_count_def)
  qed (simp add: dok_def map_or_nil_def)
  have lv: "sint (lookup0 (map_or_nil l) j) = (if lok then votes s i j else 0)" if "j \<in> set ids" for j
  proof (cases l)
    case (Inr y)
    have "invar s2" "votes s2 i j \<le> max_int64" using room [of j] dfr by simp_all
    from store.counters_value [OF this(1) l [unfolded Inr] that this(2)] Inr dfr show ?thesis
      by (simp add: lok_def map_or_nil_def)
  qed (simp add: lok_def map_or_nil_def)
  have "\<forall>j \<in> set ids. sint (lookup0 m j) = shown_count s i dok lok j"
    using mv(1) dv lv by (simp add: sint_merged shown_count_def)
  then show "\<forall>j \<in> set ids. sint (lookup0 m j) = shown_count s i (\<not> isl d) (\<not> isl l) j" by (simp only: dok_def lok_def)
  show "t = (\<Sum>j\<leftarrow>ids. lookup0 m j)" using mv(1,2) by (auto intro!: arg_cong [of _ _ sum_list])
  show "fst ` set m = set ids" using mv(3) by simp
qed

text \<open>The two reads of a result, made one after the other once the poll is loaded, and the merged counts.\<close>

definition merged_reads :: "'s \<Rightarrow> string \<Rightarrow> PollResults \<Rightarrow> bool" where
  "merged_reads s i res \<longleftrightarrow> (\<exists>s1 d s2 l. pl_Poll L i s = (Inr (res_Poll res), s1)
     \<and> pr_GetResults R i s1 = (d, s2) \<and> fst (vs_Counters S i (OptionIDs (res_Poll res)) s2) = l \<and> \<not> (isl d \<and> isl l)
     \<and> (\<forall>j \<in> set (OptionIDs (res_Poll res)). sint (lookup0 (res_Counts res) j) = shown_count s i (\<not> isl d) (\<not> isl l) j))"

lemma results_outcome:
  assumes inv: "invar s" and room: "\<And>j. votes s i j \<le> max_int64"
    and run: "poll_Results svc i s = (r, s')"
  shows "same_all s s'"
    and "r = Inl e \<Longrightarrow> CodeOf e \<in> {CodeNotFound, CodeUnavailable}"
    and "r = Inr res \<Longrightarrow> valid i \<and> merged_reads s i res
      \<and> fst ` set (res_Counts res) = set (OptionIDs (res_Poll res))
      \<and> res_Total res = (\<Sum>j\<leftarrow>OptionIDs (res_Poll res). lookup0 (res_Counts res) j)"
proof -
  obtain g s1 where g: "poll_Get svc i s = (g, s1)" by fastforce
  note get = get_outcome [OF inv g]
  have "same_all s s' \<and> (r = Inl e \<longrightarrow> CodeOf e \<in> {CodeNotFound, CodeUnavailable})
    \<and> (r = Inr res \<longrightarrow> valid i \<and> merged_reads s i res
      \<and> fst ` set (res_Counts res) = set (OptionIDs (res_Poll res))
      \<and> res_Total res = (\<Sum>j\<leftarrow>OptionIDs (res_Poll res). lookup0 (res_Counts res) j))"
  proof (cases g)
    case (Inl e')
    with run g get(1,2) show ?thesis by (auto simp: poll_Results_def)
  next
    case (Inr p)
    have inv1: "invar s1" and views: "stored s1 = stored s" "durable s1 = durable s" "votes s1 = votes s"
      "voted s1 = voted s" "tracked s1 = tracked s"
      using get(1) by (simp_all add: same_all_def)
    obtain d s2 where d: "pr_GetResults R i s1 = (d, s2)" by fastforce
    obtain l s3 where l: "vs_Counters S i (OptionIDs p) s2 = (l, s3)" by fastforce
    note dfr = repo.results_frame [OF inv1 d] repo_results_votes [OF inv1 d]
    have inv2: "invar s2" using dfr by simp
    note lfr = store.counters_frame [OF inv2 l] store_counters_polls [OF inv2 l]
    have same: "same_all s s3" using dfr lfr views by (simp add: same_all_def)
    have served: "valid i" "pl_Poll L i s = (Inr p, s1)"
      using g Inr by (auto simp: poll_Get_def split: if_splits go_try_splits)
    show ?thesis
    proof (cases "(\<exists>x. d = Inl x) \<and> (\<exists>y. l = Inl y)")
      case True
      with run g Inr d l same show ?thesis by (auto simp: poll_Results_def)
    next
      case False
      obtain m t where m: "merge_counts (map_or_nil d) (map_or_nil l) (OptionIDs p) [] 0 = (m, t)" by fastforce
      from run g Inr d l False m have r: "r = Inr \<lparr>res_Poll = p, res_Counts = m, res_Total = t\<rparr>" "s' = s3"
        by (auto simp: poll_Results_def split: sum.splits)
      have "votes s1 i j \<le> max_int64" for j using room views by simp
      note merged = results_merge [OF inv1 this d l False m]
      have "shown_count s1 = shown_count s" unfolding fun_eq_iff shown_count_def durable_count_def views by simp
      note counts = merged(3) [unfolded this]
      have one: "\<not> (isl d \<and> isl l)" using False by (cases d; cases l) simp_all
      have "merged_reads s i \<lparr>res_Poll = p, res_Counts = m, res_Total = t\<rparr>"
        unfolding merged_reads_def PollResults.select_convs
        by (intro exI [of _ s1] exI [of _ d] exI [of _ s2] exI [of _ l] conjI served(2) d one counts) (simp add: l)
      then show ?thesis
        using r same by (simp, intro impI, hypsubst, simp only: PollResults.select_convs, intro conjI served(1) merged)
    qed
  qed
  then show "same_all s s'" "r = Inl e \<Longrightarrow> CodeOf e \<in> {CodeNotFound, CodeUnavailable}"
    and "r = Inr res \<Longrightarrow> valid i \<and> merged_reads s i res
      \<and> fst ` set (res_Counts res) = set (OptionIDs (res_Poll res))
      \<and> res_Total res = (\<Sum>j\<leftarrow>OptionIDs (res_Poll res). lookup0 (res_Counts res) j)" by blast+
qed

end

end
