(* ===== verification/Contexts.thy ===== *)
theory Contexts
  imports VS_Prelude
begin

text \<open>
  Deadlines (\<open>context.WithTimeout\<close>). The context of a Go call is part of the state: how to
  tell the time, the deadline in force, and how to put another one in force. What a passed
  deadline does to a call is a matter of the state's operations (\<open>Interleaving\<close>).
\<close>

record 's contexts =
  cx_now :: "'s \<Rightarrow> instant"
  cx_deadline :: "'s \<Rightarrow> instant option"
  cx_use :: "instant option \<Rightarrow> 's \<Rightarrow> 's"

text \<open>The deadline of the derived context: the parent's when that comes first.\<close>

definition WithTimeout :: "'s contexts \<Rightarrow> duration \<Rightarrow> 's \<Rightarrow> instant option" where
  "WithTimeout cx timeout s =
     (let d = cx_now cx s + timeout
      in case cx_deadline cx s of None \<Rightarrow> Some d | Some cur \<Rightarrow> if cur < d then Some cur else Some d)"

text \<open>A body run under the derived context, which ends with the function that made it.\<close>

definition with_timeout :: "'s contexts \<Rightarrow> duration \<Rightarrow> ('s \<Rightarrow> 'b \<times> 's) \<Rightarrow> 's \<Rightarrow> 'b \<times> 's" where
  "with_timeout cx timeout body s =
     (case body (cx_use cx (WithTimeout cx timeout s) s) of (r, s1) \<Rightarrow> (r, cx_use cx (cx_deadline cx s) s1))"

definition contexts_law :: "'s contexts \<Rightarrow> bool" where
  "contexts_law cx \<longleftrightarrow> (\<forall>d s. cx_now cx (cx_use cx d s) = cx_now cx s)"

text \<open>Where nothing happens while a body runs, its deadline cannot pass.\<close>

definition still :: "('s \<Rightarrow> instant) \<Rightarrow> 's contexts" where
  "still now = \<lparr>cx_now = now, cx_deadline = (\<lambda>_. None), cx_use = (\<lambda>_ s. s)\<rparr>"

lemma still_simps [simp]:
  "cx_now (still now) = now" "cx_deadline (still now) s = None" "cx_use (still now) d s = s" "contexts_law (still now)"
  by (simp_all add: still_def contexts_law_def)

lemma with_timeout_still [simp]: "with_timeout (still now) d body = body"
  by (simp add: with_timeout_def fun_eq_iff split: prod.split)

lemma with_timeout_keeps:
  assumes "P (snd (body (cx_use cx (WithTimeout cx d s) s)))" and "\<And>d s. P s \<Longrightarrow> P (cx_use cx d s)"
  shows "P (snd (with_timeout cx d body s))"
  using assms by (auto simp: with_timeout_def split: prod.split)

end
