(* ===== verification/Sync_Service.thy ===== *)
theory Sync_Service
  imports Poll_Service_Laws Contexts
begin

text \<open>
  The synchroniser (\<open>internal/service/sync.go\<close>) and its one-shot job
  (\<open>internal/syncjob/job.go\<close>): the live counters of every tracked poll are written to the
  durable store, and a poll that is missing or has been finished for long enough is no
  longer tracked. The lemmas, proved in the locale \<open>backend\<close>, say that durable counts
  only grow, that a successful pass covers every tracked poll, and when a poll is dropped.
\<close>

record Report =
  rp_Tracked :: int
  rp_Failed :: int

record 's SyncService =
  sy_repo :: "'s PollRepository"
  sy_store :: "'s VoteStore"
  sy_settleAfter :: duration
  sy_now :: "'s \<Rightarrow> instant"

definition sync_settled :: "'s SyncService \<Rightarrow> poll \<Rightarrow> 's \<Rightarrow> bool" where
  "sync_settled svc p s =
     (if p_status p \<noteq> PollStatusFinished then False
      else case p_finished_at p of None \<Rightarrow> False
        | Some t \<Rightarrow> sy_settleAfter svc \<le> time_sub (sy_now svc s) t)"

definition syncPoll :: "'s SyncService \<Rightarrow> string \<Rightarrow> ('s, unit) action" where
  "syncPoll svc pollID s =
     (case pr_GetPoll (sy_repo svc) pollID s of
        (Inl e, s1) \<Rightarrow>
          if CodeOf e = CodeNotFound
          then go_try (vs_UntrackPoll (sy_store svc) pollID s1) (Wrapped ''untrack missing poll'')
                 (\<lambda>_ s. (Inr (), s))
          else (Inl (Wrapped (''sync poll '' @ pollID) e), s1)
      | (Inr p, s1) \<Rightarrow>
          go_try (vs_Counters (sy_store svc) pollID (OptionIDs p) s1) (Wrapped (''sync poll '' @ pollID))
            (\<lambda>counts s. go_try (pr_SaveResults (sy_repo svc) pollID counts s) (Wrapped (''sync poll '' @ pollID))
              (\<lambda>_ s. if sync_settled svc p s
                then go_try (vs_UntrackPoll (sy_store svc) pollID s) (Wrapped ''untrack settled poll'')
                       (\<lambda>_ s. (Inr (), s))
                else (Inr (), s))))"

text \<open>The loop: a failed poll is counted and logged, and the loop goes on.\<close>

fun sync_all :: "'s SyncService \<Rightarrow> string list \<Rightarrow> int \<Rightarrow> 's \<Rightarrow> int \<times> 's" where
  "sync_all svc [] failed s = (failed, s)"
| "sync_all svc (i # ids) failed s =
     (case syncPoll svc i s of
        (Inl e, s1) \<Rightarrow> sync_all svc ids (failed + 1) s1
      | (Inr _, s1) \<Rightarrow> sync_all svc ids failed s1)"

text \<open>The report is returned beside the error; both halves are kept.\<close>

definition sync_Sync :: "'s SyncService \<Rightarrow> 's \<Rightarrow> (Report \<times> goerror option) \<times> 's" where
  "sync_Sync svc s =
     (case vs_TrackedPolls (sy_store svc) s of
        (Inl e, s1) \<Rightarrow> ((\<lparr>rp_Tracked = 0, rp_Failed = 0\<rparr>, Some (Wrapped ''sync'' e)), s1)
      | (Inr ids, s1) \<Rightarrow>
          (case sync_all svc ids 0 s1 of (failed, s2) \<Rightarrow>
             let report = \<lparr>rp_Tracked = int (length ids), rp_Failed = failed\<rparr>
             in if 0 < failed
                then ((report, Some (ErrText (''failed to synchronise '' @ itoa failed @ '' of ''
                        @ itoa (rp_Tracked report) @ '' polls''))), s2)
                else ((report, None), s2)))"

subsection \<open>The job\<close>

record 's Job =
  jb_synchroniser :: "'s \<Rightarrow> (Report \<times> goerror option) \<times> 's"
  jb_timeout :: duration

definition NewJob :: "('s \<Rightarrow> (Report \<times> goerror option) \<times> 's) \<Rightarrow> duration \<Rightarrow> 's Job" where
  "NewJob sync timeout =
     \<lparr>jb_synchroniser = sync, jb_timeout = (if timeout \<le> 0 then 30 * second else timeout)\<rparr>"

definition job_RunOnce :: "'s contexts \<Rightarrow> 's Job \<Rightarrow> ('s, unit) action" where
  "job_RunOnce cx j s =
     (case with_timeout cx (jb_timeout j) (jb_synchroniser j) s of
        ((report, Some e), s1) \<Rightarrow> (Inl (Wrapped ''sync'' e), s1)
      | ((report, None), s1) \<Rightarrow> (Inr (), s1))"

subsection \<open>What a pass does\<close>

lemma is_settled:
  "sync_settled svc p s \<longleftrightarrow> p_status p = PollStatusFinished
     \<and> (\<exists>t. p_finished_at p = Some t \<and> sy_settleAfter svc \<le> time_sub (sy_now svc s) t)"
  by (auto simp: sync_settled_def split: option.splits)

context backend
begin

definition syncer :: "duration \<Rightarrow> 's SyncService" where
  "syncer d = \<lparr>sy_repo = R, sy_store = S, sy_settleAfter = d, sy_now = now\<rparr>"

lemma syncer_simps [simp]:
  "sy_repo (syncer d) = R" "sy_store (syncer d) = S" "sy_settleAfter (syncer d) = d" "sy_now (syncer d) = now"
  by (simp_all add: syncer_def)

text \<open>
  What no part of a pass disturbs: the polls and the votes; durable counts only grow, to
  live counts of the same poll, and tracked polls are only dropped.
\<close>

definition pass :: "'s \<Rightarrow> 's \<Rightarrow> bool" where
  "pass s s' \<longleftrightarrow> invar s' \<and> stored s' = stored s \<and> votes s' = votes s \<and> voted s' = voted s
     \<and> tracked s' \<subseteq> tracked s
     \<and> (\<forall>c j v. durable s c j = Some v \<longrightarrow> (\<exists>w. durable s' c j = Some w \<and> v \<le> w))
     \<and> (\<forall>c j v. durable s' c j = Some v \<longrightarrow>
           durable s c j = Some v \<or> (\<exists>i. canon i = Some c \<and> v = votes s i j))"

lemma pass_refl: "invar s \<Longrightarrow> pass s s"
  by (simp add: pass_def)

lemma pass_trans: "pass s s' \<Longrightarrow> pass s' s'' \<Longrightarrow> pass s s''"
  unfolding pass_def by (metis order_trans subset_trans)

text \<open>A poll is covered when it does not exist or each of its live counts is durable.\<close>

definition covered :: "('s \<Rightarrow> string \<Rightarrow> string \<Rightarrow> int) \<Rightarrow> 's \<Rightarrow> 's \<Rightarrow> string \<Rightarrow> bool" where
  "covered v s s' i \<longleftrightarrow>
     (\<exists>c. canon i = Some c \<and> (case stored s c of None \<Rightarrow> True
        | Some p \<Rightarrow> \<forall>j \<in> set (OptionIDs p). \<exists>w. durable s' c j = Some w \<and> v s i j \<le> w))"

lemma pass_durable: "pass s s' \<Longrightarrow> \<exists>w. durable s c j = Some w \<and> v \<le> w \<Longrightarrow> \<exists>w. durable s' c j = Some w \<and> v \<le> w"
  unfolding pass_def by (meson order_trans)

lemma covered_pass:
  assumes "covered v s s1 i" and "pass s1 s2"
  shows "covered v s s2 i"
proof -
  from assms(1) obtain c where "canon i = Some c" "case stored s c of None \<Rightarrow> True
        | Some p \<Rightarrow> \<forall>j \<in> set (OptionIDs p). \<exists>w. durable s1 c j = Some w \<and> v s i j \<le> w"
    by (auto simp: covered_def)
  with pass_durable [OF assms(2), of c] show ?thesis
    unfolding covered_def by (intro exI [of _ c]) (auto split: option.splits)
qed

text \<open>The reasons for which a pass stops tracking a poll.\<close>

definition dropped_ok :: "duration \<Rightarrow> 's \<Rightarrow> string \<Rightarrow> bool" where
  "dropped_ok d s i \<longleftrightarrow> (\<exists>c. canon i = Some c \<and> (case stored s c of None \<Rightarrow> True
     | Some p \<Rightarrow> p_status p = PollStatusFinished
         \<and> (\<exists>t. p_finished_at p = Some t \<and> d \<le> time_sub (now s) t)))"

lemma counts_canonical:
  assumes inv: "invar s" and p: "stored s c = Some p" and m: "set (map fst m) = set (OptionIDs p)"
  shows "\<forall>k \<in> fst ` set m. canon k = Some k"
  using repo.stored_ok [OF inv p] m by (auto simp: stored_poll_ok_def)

lemma covered_start:
  "covered votes s1 s2 i \<Longrightarrow> stored s1 = stored s \<Longrightarrow> votes s1 = votes s \<Longrightarrow> covered votes s s2 i"
  by (simp add: covered_def cong: option.case_cong)

lemma untrack_pass:
  assumes "invar s" and "vs_UntrackPoll S i s = (r, s')"
  shows "pass s s'" and "tracked s' \<in> {tracked s, tracked s - {i}}" and "durable s' = durable s"
  using store.untrack_frame [OF assms] store_untrack_polls [OF assms] by (auto simp: pass_def)

lemma raised_live:
  assumes inv: "invar s" and c: "canon i = Some c" "stored s c = Some p"
    and x: "vs_Counters S i (OptionIDs p) s = (Inr m, s1)" and room: "\<And>j. votes s i j \<le> max_int64"
    and new: "raised c m (durable s) q j = Some v"
  shows "durable s q j = Some v \<or> (\<exists>i. canon i = Some q \<and> v = votes s i j)"
proof (cases "durable s q j = Some v")
  case False
  with new obtain y where y: "q = c" "map_of m j = Some y" "v = sint y"
    by (auto simp: raised_def max_def split: if_splits option.splits)
  have "j \<in> fst ` set m" using map_of_SomeD [OF y(2)] by force
  then have "j \<in> set (OptionIDs p)" using store.counters_keys [OF x] by simp
  from store.counters_value [OF inv x this room] y have "v = votes s i j" by (simp add: lookup0_def)
  with c(1) y(1) show ?thesis by blast
qed simp

text \<open>Reading the live counters of a poll and saving them.\<close>

lemma save_step:
  assumes inv: "invar s" and room: "\<And>j. votes s i j \<le> max_int64"
    and c: "canon i = Some c" "stored s c = Some p"
    and x: "vs_Counters S i (OptionIDs p) s = (Inr m, s1)" and y: "pr_SaveResults R i m s1 = (r, s2)"
  shows "pass s s2" and "tracked s2 = tracked s" and "now s2 = now s" and "r = Inr u \<Longrightarrow> covered votes s s2 i"
proof -
  note fr = store.counters_frame [OF inv x] store_counters_polls [OF inv x]
  have inv1: "invar s1" using fr by simp
  have keys: "distinct (map fst m)" "set (map fst m) = set (OptionIDs p)"
    using store.counters_keys [OF x] by blast+
  have canon: "\<forall>k \<in> fst ` set m. canon k = Some k"
    using counts_canonical [OF inv1, of c p m] c(2) keys(2) fr by simp
  note save = repo.save_done [OF inv1 keys(1) canon c(1)] repo.save_error [OF inv1 keys(1) canon c(1)]
  note fr2 = repo_save_votes [OF inv1 y] repo_now(2) [OF inv1 y]
  have "invar s2 \<and> stored s2 = stored s" using save y fr by (cases r) auto
  moreover have "durable s2 q j = Some v \<longrightarrow> durable s q j = Some v \<or> (\<exists>i. canon i = Some q \<and> v = votes s i j)" for q j v
  proof
    assume new: "durable s2 q j = Some v"
    have "durable s2 = durable s \<or> durable s2 = raised c m (durable s)"
      using save y fr by (cases r) auto
    then show "durable s q j = Some v \<or> (\<exists>i. canon i = Some q \<and> v = votes s i j)"
      using new c raised_live [OF inv c x room, of q j v] by auto
  qed
  ultimately show "pass s s2"
    using fr fr2 repo.save_grows [OF inv1 keys(1) canon c(1) y] by (simp add: pass_def)
  show "tracked s2 = tracked s" "now s2 = now s" using fr fr2 by simp_all
  assume r: "r = Inr u"
  with save(1) y fr have dur: "durable s2 = raised c m (durable s)" by simp
  have "\<exists>w. durable s2 c j = Some w \<and> votes s i j \<le> w" if j: "j \<in> set (OptionIDs p)" for j
  proof -
    have "j \<in> fst ` set m" using keys(2) j by simp
    then obtain v where v: "map_of m j = Some v" by (metis domIff dom_map_of_conv_image_fst not_None_eq)
    from store.counters_value [OF inv x j room] have "sint v = votes s i j" using v by (simp add: lookup0_def)
    with v dur show ?thesis by (auto simp: raised_def split: option.splits)
  qed
  then show "covered votes s s2 i" using c by (simp add: covered_def)
qed

lemma syncPoll_present:
  assumes inv: "invar s" and room: "\<And>j. votes s i j \<le> max_int64"
    and g: "pr_GetPoll R i s = (Inr p, s1)" and run: "syncPoll (syncer d) i s = (r, s')"
  shows "pass s s' \<and> (r = Inr u \<longrightarrow> covered votes s s' i
    \<and> (i \<in> tracked s \<longrightarrow> i \<notin> tracked s' \<longrightarrow> dropped_ok d s i))"
proof -
  note fr = repo.get_poll_frame [OF inv g] repo_get_votes [OF inv g] repo_now(1) [OF inv g]
  have inv1: "invar s1" and p01: "pass s s1" and room1: "\<And>j. votes s1 i j \<le> max_int64"
    using fr room by (simp_all add: pass_def)
  have c: "canon i = Some (p_id p)" "stored s (p_id p) = Some p" using repo.get_poll_found [OF inv g] by simp_all
  have c1: "stored s1 (p_id p) = Some p" using c(2) fr by simp
  obtain x s2 where x: "vs_Counters S i (OptionIDs p) s1 = (x, s2)" by fastforce
  show ?thesis
  proof (cases x)
    case (Inl e)
    have "pass s1 s2" using store.counters_frame [OF inv1 x] store_counters_polls [OF inv1 x] by (simp add: pass_def)
    with run g Inl x pass_trans [OF p01] show ?thesis by (auto simp: syncPoll_def)
  next
    case (Inr m)
    obtain y s3 where y: "pr_SaveResults R i m s2 = (y, s3)" by fastforce
    note sv = save_step [OF inv1 room1 c(1) c1 x [unfolded Inr] y]
    have p03: "pass s s3" and tr3: "tracked s3 = tracked s" using pass_trans [OF p01 sv(1)] sv(2) fr by simp_all
    have cov: "covered votes s s3 i" if "y = Inr u'" for u'
      using sv(4) [OF that] fr covered_start by simp
    show ?thesis
    proof (cases "(\<exists>u'. y = Inr u') \<and> sync_settled (syncer d) p s3")
      case False
      with run g Inr x y have "s' = s3" "r = Inr u \<longrightarrow> (\<exists>u'. y = Inr u')"
        by (auto simp: syncPoll_def split: go_try_splits if_splits)
      with p03 cov tr3 show ?thesis by auto
    next
      case True
      have "now s3 = now s" using sv(3) fr by simp
      with True c have why: "dropped_ok d s i" by (simp add: is_settled dropped_ok_def)
      obtain z s4 where z: "vs_UntrackPoll S i s3 = (z, s4)" by fastforce
      have s': "s' = s4" using run g Inr x y True z by (auto simp: syncPoll_def split: go_try_splits)
      have "pass s3 s4" using untrack_pass(1) [OF _ z] p03 by (simp add: pass_def)
      with s' pass_trans [OF p03] covered_pass [OF cov] why True show ?thesis by blast
    qed
  qed
qed

lemma syncPoll_missing:
  assumes inv: "invar s" and g: "pr_GetPoll R i s = (Inl e, s1)" and run: "syncPoll (syncer d) i s = (r, s')"
  shows "pass s s' \<and> (r = Inr u \<longrightarrow> covered votes s s' i \<and> dropped_ok d s i)"
proof -
  note fr = repo.get_poll_frame [OF inv g] repo_get_votes [OF inv g]
  have inv1: "invar s1" and p01: "pass s s1" using fr by (simp_all add: pass_def)
  show ?thesis
  proof (cases "CodeOf e = CodeNotFound")
    case False
    with run g p01 show ?thesis by (auto simp: syncPoll_def)
  next
    case True
    obtain x s2 where x: "vs_UntrackPoll S i s1 = (x, s2)" by fastforce
    have "s' = s2" using run g True x by (auto simp: syncPoll_def split: go_try_splits)
    moreover have "\<exists>c. canon i = Some c \<and> stored s c = None"
      using repo.get_poll_error [OF inv g] True by simp
    then have "covered votes s s2 i" "dropped_ok d s i" by (auto simp: covered_def dropped_ok_def)
    ultimately show ?thesis using untrack_pass(1) [OF inv1 x] pass_trans [OF p01] by blast
  qed
qed

lemma syncPoll_outcome:
  assumes inv: "invar s" and room: "\<And>j. votes s i j \<le> max_int64"
    and run: "syncPoll (syncer d) i s = (r, s')"
  shows "pass s s'" and "r = Inr u \<Longrightarrow> covered votes s s' i"
    and "r = Inr u \<Longrightarrow> i \<in> tracked s \<Longrightarrow> i \<notin> tracked s' \<Longrightarrow> dropped_ok d s i"
proof -
  obtain g s1 where g: "pr_GetPoll R i s = (g, s1)" by fastforce
  have "pass s s' \<and> (r = Inr u \<longrightarrow> covered votes s s' i
    \<and> (i \<in> tracked s \<longrightarrow> i \<notin> tracked s' \<longrightarrow> dropped_ok d s i))"
    using syncPoll_present [OF inv room _ run] syncPoll_missing [OF inv _ run] g by (cases g) auto
  then show "pass s s'" and "r = Inr u \<Longrightarrow> covered votes s s' i"
    and "r = Inr u \<Longrightarrow> i \<in> tracked s \<Longrightarrow> i \<notin> tracked s' \<Longrightarrow> dropped_ok d s i" by blast+
qed

text \<open>The loop over the tracked polls.\<close>

lemma sync_all_outcome:
  assumes "invar s" and "\<And>i j. votes s i j \<le> max_int64" and "sync_all (syncer d) ids failed s = (n, s')"
  shows "pass s s' \<and> failed \<le> n \<and> (n = failed \<longrightarrow> (\<forall>i \<in> set ids. covered votes s s' i))"
  using assms
proof (induction ids arbitrary: failed s)
  case (Cons i ids)
  obtain r s1 where r: "syncPoll (syncer d) i s = (r, s1)" by fastforce
  note one = syncPoll_outcome [OF Cons.prems(1,2) r]
  then have inv1: "invar s1" and st: "stored s1 = stored s" "votes s1 = votes s" by (simp_all add: pass_def)
  have room1: "votes s1 i j \<le> max_int64" for i j using Cons.prems(2) st by simp
  have rest: "sync_all (syncer d) ids (if \<exists>e. r = Inl e then failed + 1 else failed) s1 = (n, s')"
    using Cons.prems(3) r by (cases r) auto
  note IH = Cons.IH [OF inv1 room1 rest]
  have "pass s s'" using one(1) IH pass_trans by blast
  moreover have "\<forall>k \<in> set (i # ids). covered votes s s' k" if "n = failed"
  proof -
    have ok: "\<nexists>e. r = Inl e" using IH that by (auto split: if_splits)
    then obtain u where "r = Inr u" by (cases r) auto
    with one(2) covered_pass IH have "covered votes s s' i" by blast
    moreover have "\<forall>k \<in> set ids. covered votes s s' k" using IH ok that st covered_start by auto
    ultimately show ?thesis by simp
  qed
  moreover have "failed \<le> n" using IH by (auto split: if_splits)
  ultimately show ?case by blast
qed (simp add: pass_refl)

lemma sync_outcome:
  assumes inv: "invar s" and room: "\<And>i j. votes s i j \<le> max_int64"
    and run: "sync_Sync (syncer d) s = ((report, err), s')"
  shows "pass s s'" and "err = None \<Longrightarrow> rp_Failed report = 0 \<and> rp_Tracked report = int (card (tracked s))
      \<and> (\<forall>i \<in> tracked s. covered votes s s' i)"
proof -
  obtain t s1 where t: "vs_TrackedPolls S s = (t, s1)" by fastforce
  note fr = store.tracked_list [OF inv t] store_tracked_polls [OF inv t]
  have p01: "pass s s1" using fr by (simp add: pass_def)
  have "pass s s' \<and> (err = None \<longrightarrow> rp_Failed report = 0 \<and> rp_Tracked report = int (card (tracked s))
      \<and> (\<forall>i \<in> tracked s. covered votes s s' i))"
  proof (cases t)
    case (Inl e)
    with run t p01 show ?thesis by (auto simp: sync_Sync_def)
  next
    case (Inr ids)
    obtain n s2 where n: "sync_all (syncer d) ids 0 s1 = (n, s2)" by fastforce
    have room1: "votes s1 i j \<le> max_int64" for i j using room fr by simp
    from fr have inv1: "invar s1" by simp
    note all = sync_all_outcome [OF inv1 room1 n]
    have s': "s' = s2" and err: "err = None \<longrightarrow> n = 0 \<and> report = \<lparr>rp_Tracked = int (length ids), rp_Failed = 0\<rparr>"
      using run t Inr n all by (auto simp: sync_Sync_def Let_def split: if_splits)
    have "distinct ids" "set ids = tracked s" using fr Inr by simp_all
    then have "int (length ids) = int (card (tracked s))" using distinct_card by fastforce
    moreover have "covered votes s s2 i" if "n = 0" "i \<in> tracked s" for i
      using all that \<open>set ids = tracked s\<close> fr covered_start by auto
    ultimately show ?thesis using all s' err pass_trans [OF p01] by auto
  qed
  then show "pass s s'" and "err = None \<Longrightarrow> rp_Failed report = 0 \<and> rp_Tracked report = int (card (tracked s))
      \<and> (\<forall>i \<in> tracked s. covered votes s s' i)" by blast+
qed

end

end
