(* ===== verification/World.thy ===== *)
theory World
  imports Redis_Apart Repository_Contract Vote_Service Sync_Service
begin

text \<open>
  The processes put together (\<open>cmd/api/main.go\<close>, \<open>cmd/worker/main.go\<close>): the services on
  the PostgreSQL repository, the Redis vote store and the two-tier poll cache of one
  replica. A world is the state of all of them; what the repository does not define (the
  servers, the uuid library, the JSON codec, the hash seed) and the configuration are the
  parameters of an environment. Operations run one after another, and one clock serves
  the process and the servers.
\<close>

record env =
  ev_rd :: redis_cmds
  ev_cod :: pg_codec
  ev_json :: json_codec
  ev_store :: store_config
  ev_cache :: cache_config
  ev_limits :: PollLimits
  ev_settle :: duration
  ev_valid :: "string \<Rightarrow> bool"
  ev_uuid :: "nat \<Rightarrow> string"
  ev_hash :: "string \<Rightarrow> 64 word"

record world =
  w_pg :: pg_state
  w_redis :: redis_state
  w_local :: "entry ttl"
  w_drawn :: nat

definition clock :: "world \<Rightarrow> instant" where "clock w = rs_now (w_redis w)"

definition on_pg :: "(pg_state, 'a) action \<Rightarrow> (world, 'a) action" where
  "on_pg f w = (case f (w_pg w) of (r, p) \<Rightarrow> (r, w\<lparr>w_pg := p\<rparr>))"

definition on_redis :: "(redis_state, 'a) action \<Rightarrow> (world, 'a) action" where
  "on_redis f w = (case f (w_redis w) of (r, d) \<Rightarrow> (r, w\<lparr>w_redis := d\<rparr>))"

text \<open>\<open>uuid.NewString\<close>: the next id of the environment's supply\<close>

definition NewString :: "env \<Rightarrow> world \<Rightarrow> string \<times> world" where
  "NewString ev w = (ev_uuid ev (w_drawn w), w\<lparr>w_drawn := w_drawn w + 1\<rparr>)"

subsection \<open>Wiring\<close>

definition tx_on_pg :: "pg_state PollTx \<Rightarrow> world PollTx" where
  "tx_on_pg tx = \<lparr>
     tx_InsertPoll = (\<lambda>p. on_pg (tx_InsertPoll tx p)),
     tx_InsertPollOptions = (\<lambda>p. on_pg (tx_InsertPollOptions tx p)),
     tx_InsertZeroResults = (\<lambda>p. on_pg (tx_InsertZeroResults tx p)),
     tx_Commit = on_pg (tx_Commit tx),
     tx_Rollback = on_pg (tx_Rollback tx)\<rparr>"

definition repo_on_pg :: "pg_state PollRepository \<Rightarrow> world PollRepository" where
  "repo_on_pg R = \<lparr>
     pr_BeginTx = (\<lambda>w. case on_pg (pr_BeginTx R) w of (Inl e, w) \<Rightarrow> (Inl e, w)
                          | (Inr tx, w) \<Rightarrow> (Inr (tx_on_pg tx), w)),
     pr_GetPoll = (\<lambda>i. on_pg (pr_GetPoll R i)),
     pr_CountPolls = on_pg (pr_CountPolls R),
     pr_ListPollPage = (\<lambda>l k. on_pg (pr_ListPollPage R l k)),
     pr_ListOptionsByPollIDs = (\<lambda>ids. on_pg (pr_ListOptionsByPollIDs R ids)),
     pr_UpdatePollStatus = (\<lambda>i fr to at. on_pg (pr_UpdatePollStatus R i fr to at)),
     pr_GetPollStatus = (\<lambda>i. on_pg (pr_GetPollStatus R i)),
     pr_GetResults = (\<lambda>i. on_pg (pr_GetResults R i)),
     pr_SaveResults = (\<lambda>i m. on_pg (pr_SaveResults R i m)),
     pr_Ping = on_pg (pr_Ping R)\<rparr>"

definition store_on_redis :: "redis_state VoteStore \<Rightarrow> world VoteStore" where
  "store_on_redis S = \<lparr>
     vs_Guard = (\<lambda>req. on_redis (vs_Guard S req)),
     vs_CastBallot = (\<lambda>b. on_redis (vs_CastBallot S b)),
     vs_Counters = (\<lambda>i ids. on_redis (vs_Counters S i ids)),
     vs_TrackPoll = (\<lambda>i. on_redis (vs_TrackPoll S i)),
     vs_TrackedPolls = on_redis (vs_TrackedPolls S),
     vs_UntrackPoll = (\<lambda>i. on_redis (vs_UntrackPoll S i)),
     vs_Ping = on_redis (vs_Ping S)\<rparr>"

definition tier_on_redis :: "redis_state SharedStore \<Rightarrow> world SharedStore" where
  "tier_on_redis T = \<lparr>ss_Get = (\<lambda>k. on_redis (ss_Get T k)),
     ss_Set = (\<lambda>k en d. on_redis (ss_Set T k en d)), ss_Delete = (\<lambda>k. on_redis (ss_Delete T k))\<rparr>"

definition main_repo :: "env \<Rightarrow> world PollRepository" where
  "main_repo ev = repo_on_pg (NewPollRepository (ev_cod ev))"

definition main_store :: "env \<Rightarrow> world VoteStore" where
  "main_store ev = store_on_redis (Store (ev_rd ev) (ev_store ev))"

definition main_cache :: "env \<Rightarrow> world Cache" where
  "main_cache ev = \<lparr>
     ca_local = w_local,
     ca_set_local = (\<lambda>l w. w\<lparr>w_local := l\<rparr>),
     ca_now = clock,
     ca_shared = tier_on_redis (NewRedisStore (ev_rd ev) (ev_json ev)),
     ca_origin = pr_GetPoll (main_repo ev),
     ca_cfg = ev_cache ev,
     ca_flight = (\<lambda>_ _. None)\<rparr>"

definition main_votes :: "env \<Rightarrow> world VoteService" where
  "main_votes ev = \<lparr>vsv_polls = CacheLoader (main_cache ev), vsv_store = main_store ev, vsv_now = clock\<rparr>"

definition main_polls :: "env \<Rightarrow> world PollService" where
  "main_polls ev = \<lparr>psv_repo = main_repo ev, psv_store = main_store ev,
     psv_cache = CacheLoader (main_cache ev), psv_limits = ev_limits ev, psv_now = clock,
     psv_valid = ev_valid ev, psv_NewString = NewString ev\<rparr>"

definition worker_sync :: "env \<Rightarrow> world SyncService" where
  "worker_sync ev = \<lparr>sy_repo = main_repo ev, sy_store = main_store ev,
     sy_settleAfter = ev_settle ev, sy_now = clock\<rparr>"

subsection \<open>The requests and the job\<close>

definition do_Cast :: "env \<Rightarrow> VoteCommand \<Rightarrow> (world, unit) action" where
  "do_Cast ev = vote_Cast (ev_valid ev) (main_votes ev)"

definition do_Create :: "env \<Rightarrow> CreatePollCommand \<Rightarrow> (world, poll) action" where
  "do_Create ev = poll_Create (main_polls ev)"

definition do_Activate :: "env \<Rightarrow> string \<Rightarrow> (world, poll) action" where
  "do_Activate ev = poll_Activate (main_polls ev)"

definition do_Finish :: "env \<Rightarrow> string \<Rightarrow> (world, poll) action" where
  "do_Finish ev = poll_Finish (main_polls ev)"

definition do_Get :: "env \<Rightarrow> string \<Rightarrow> (world, poll) action" where
  "do_Get ev = poll_Get (main_polls ev)"

definition do_Results :: "env \<Rightarrow> string \<Rightarrow> (world, PollResults) action" where
  "do_Results ev = poll_Results (main_polls ev)"

definition do_List :: "env \<Rightarrow> int \<Rightarrow> int \<Rightarrow> (world, PollPage) action" where
  "do_List ev = poll_List (main_polls ev)"

definition do_Sync :: "env \<Rightarrow> world \<Rightarrow> (Report \<times> goerror option) \<times> world" where
  "do_Sync ev = sync_Sync (worker_sync ev)"

lemma main_simps [simp]:
  "vs_Guard (main_store ev) req = on_redis (store_Guard (ev_rd ev) (ev_store ev) req)"
  "vs_CastBallot (main_store ev) b = on_redis (store_CastBallot (ev_rd ev) (ev_store ev) b)"
  "vs_Counters (main_store ev) i ids = on_redis (store_Counters (ev_rd ev) (ev_store ev) i ids)"
  "vs_TrackPoll (main_store ev) i = on_redis (store_TrackPoll (ev_rd ev) i)"
  "vs_TrackedPolls (main_store ev) = on_redis (store_TrackedPolls (ev_rd ev))"
  "vs_UntrackPoll (main_store ev) i = on_redis (store_UntrackPoll (ev_rd ev) i)"
  "pr_GetPoll (main_repo ev) i = on_pg (repo_GetPoll (ev_cod ev) i)"
  "pr_CountPolls (main_repo ev) = on_pg repo_CountPolls"
  "pr_ListPollPage (main_repo ev) l k = on_pg (repo_ListPollPage l k)"
  "pr_ListOptionsByPollIDs (main_repo ev) is = on_pg (repo_ListOptionsByPollIDs (ev_cod ev) is)"
  "pr_UpdatePollStatus (main_repo ev) i fr to at = on_pg (repo_UpdatePollStatus (ev_cod ev) i fr to at)"
  "pr_GetPollStatus (main_repo ev) i = on_pg (repo_GetPollStatus (ev_cod ev) i)"
  "pr_GetResults (main_repo ev) i = on_pg (repo_GetResults (ev_cod ev) i)"
  "pr_SaveResults (main_repo ev) i m = on_pg (repo_SaveResults (ev_cod ev) i m)"
  by (simp_all add: main_store_def store_on_redis_def main_repo_def repo_on_pg_def)

lemma tier_simps [simp]:
  "ss_Get (ca_shared (main_cache ev)) k = on_redis (rstore_Get (ev_rd ev) (ev_json ev) k)"
  "ss_Set (ca_shared (main_cache ev)) k en d = on_redis (rstore_Set (ev_rd ev) (ev_json ev) k en d)"
  "ss_Delete (ca_shared (main_cache ev)) k = on_redis (rstore_Delete (ev_rd ev) k)"
  "ca_local (main_cache ev) = w_local"
  "ca_set_local (main_cache ev) l w = w\<lparr>w_local := l\<rparr>"
  "ca_now (main_cache ev) = clock"
  "ca_origin (main_cache ev) i = on_pg (repo_GetPoll (ev_cod ev) i)"
  "ca_cfg (main_cache ev) = ev_cache ev"
  "ca_flight (main_cache ev) k w = None"
  by (simp_all add: main_cache_def tier_on_redis_def)

lemma on_pg_eq: "on_pg f w = (r, w') \<longleftrightarrow> (\<exists>p. f (w_pg w) = (r, p) \<and> w' = w\<lparr>w_pg := p\<rparr>)"
  by (auto simp: on_pg_def split: prod.splits)

lemma on_redis_eq: "on_redis f w = (r, w') \<longleftrightarrow> (\<exists>d. f (w_redis w) = (r, d) \<and> w' = w\<lparr>w_redis := d\<rparr>)"
  by (auto simp: on_redis_def split: prod.splits)

lemma on_run [simp]:
  "fst (on_pg f w) = fst (f (w_pg w))" "snd (on_pg f w) = w\<lparr>w_pg := snd (f (w_pg w))\<rparr>"
  "fst (on_redis g w) = fst (g (w_redis w))" "snd (on_redis g w) = w\<lparr>w_redis := snd (g (w_redis w))\<rparr>"
  by (simp_all add: on_pg_def on_redis_def split: prod.splits)

text \<open>A transaction on the world is the same transaction on the database.\<close>

lemma go_try_on_pg:
  "go_try (on_pg f w) g (\<lambda>v w. on_pg (k v) w) = on_pg (\<lambda>s. go_try (f s) g k) w"
  by (auto simp: on_pg_def split: prod.splits go_try_splits)

lemma tx_on_pg_simps [simp]:
  "tx_InsertPoll (tx_on_pg tx) p = on_pg (tx_InsertPoll tx p)"
  "tx_InsertPollOptions (tx_on_pg tx) p = on_pg (tx_InsertPollOptions tx p)"
  "tx_InsertZeroResults (tx_on_pg tx) p = on_pg (tx_InsertZeroResults tx p)"
  "tx_Commit (tx_on_pg tx) = on_pg (tx_Commit tx)"
  "tx_Rollback (tx_on_pg tx) = on_pg (tx_Rollback tx)"
  by (simp_all add: tx_on_pg_def)

lemma store_new_on_pg: "store_new (repo_on_pg R) p = on_pg (store_new R p)"
proof (rule ext)
  fix w :: world
  let ?c = "Wrapped ''create poll''"
  define body where "body tx s = go_try (tx_InsertPoll tx p s) ?c (\<lambda>_ s.
            go_try (tx_InsertPollOptions tx p s) ?c (\<lambda>_ s.
            go_try (tx_InsertZeroResults tx p s) ?c (\<lambda>_ s.
            go_try (tx_Commit tx s) ?c (\<lambda>_ s. (Inr (), s)))))" for tx :: "pg_state PollTx" and s
  have pure: "(\<lambda>_ w. (Inr (), w)) = (\<lambda>_ w. on_pg (\<lambda>s. (Inr (), s)) w)"
    by (simp add: on_pg_def)
  have wbody: "go_try (on_pg (tx_InsertPoll tx p) w) ?c (\<lambda>_ s.
            go_try (on_pg (tx_InsertPollOptions tx p) s) ?c (\<lambda>_ s.
            go_try (on_pg (tx_InsertZeroResults tx p) s) ?c (\<lambda>_ s.
            go_try (on_pg (tx_Commit tx) s) ?c (\<lambda>_ s. (Inr (), s)))))
        = on_pg (body tx) w" for tx w
    unfolding pure body_def [abs_def] by (simp add: go_try_on_pg)
  obtain r s where b: "pr_BeginTx R (w_pg w) = (r, s)" by fastforce
  show "store_new (repo_on_pg R) p w = on_pg (store_new R p) w"
  proof (cases r)
    case (Inl e)
    with b show ?thesis by (simp add: store_new_def repo_on_pg_def on_pg_def)
  next
    case (Inr tx)
    have started: "pr_BeginTx (repo_on_pg R) w = (Inr (tx_on_pg tx), w\<lparr>w_pg := s\<rparr>)"
      using b Inr by (simp add: repo_on_pg_def on_pg_def)
    obtain q s1 where run: "body tx s = (q, s1)" by fastforce
    have "store_new R p (w_pg w) = (q, snd (tx_Rollback tx s1))"
      using b Inr run by (simp add: store_new_def body_def [symmetric])
    moreover have "store_new (repo_on_pg R) p w = (q, w\<lparr>w_pg := snd (tx_Rollback tx s1)\<rparr>)"
      using run by (simp add: store_new_def started wbody) (simp add: on_pg_def split: prod.splits)
    ultimately show ?thesis by (simp add: on_pg_def)
  qed
qed

end
