(* ===== verification/World_Laws.thy ===== *)
theory World_Laws
  imports World
begin

text \<open>
  The contracts on the running system: every component's contract, proved on its own
  state, is carried over to the world, where the components share one state and leave each
  other's part of it alone. The interpretations at the end give the service lemmas for the
  requests and the job as they are wired.
\<close>

subsection \<open>The invariant and the views of a world\<close>

definition base_inv :: "env \<Rightarrow> world \<Rightarrow> bool" where
  "base_inv ev w \<longleftrightarrow> store_ready (ev_rd ev) (ev_store ev) (w_redis w) \<and> pg_inv (ev_cod ev) (w_pg w)
     \<and> tier_inv (ev_rd ev) (ev_json ev) (w_redis w) \<and> config_ok (ev_cache ev)
     \<and> (\<forall>n. pg_uuid (ev_cod ev) (ev_uuid ev n) = Some (ev_uuid ev n))"

definition world_inv :: "env \<Rightarrow> world \<Rightarrow> bool" where
  "world_inv ev w \<longleftrightarrow> base_inv ev w \<and> ttl_ok (w_local w)"

definition w_stored :: "world \<Rightarrow> string \<Rightarrow> poll option" where
  "w_stored w = pg_stored (w_pg w)"

definition w_durable :: "world \<Rightarrow> string \<Rightarrow> string \<Rightarrow> int option" where
  "w_durable w = pg_durable (w_pg w)"

definition w_votes :: "env \<Rightarrow> world \<Rightarrow> string \<Rightarrow> string \<Rightarrow> int" where
  "w_votes ev w = store_votes (ev_store ev) (w_redis w)"

definition w_voted :: "env \<Rightarrow> world \<Rightarrow> string \<Rightarrow> string \<Rightarrow> bool" where
  "w_voted ev w = voted_ok (ev_store ev) (w_redis w)"

definition w_tracked :: "world \<Rightarrow> string set" where
  "w_tracked w = store_tracked (w_redis w)"

lemmas views = w_stored_def w_durable_def w_votes_def w_voted_def w_tracked_def clock_def

lemma world_invD:
  assumes "world_inv ev w"
  shows "store_ready (ev_rd ev) (ev_store ev) (w_redis w)" "pg_inv (ev_cod ev) (w_pg w)"
    "tier_inv (ev_rd ev) (ev_json ev) (w_redis w)" "ttl_ok (w_local w)" "config_ok (ev_cache ev)"
    "redis_ok (ev_rd ev)" "pg_uuid (ev_cod ev) (ev_uuid ev n) = Some (ev_uuid ev n)"
  using assms by (simp_all add: world_inv_def base_inv_def store_ready_def)

lemma world_inv_upd:
  assumes "world_inv ev w"
  shows "pg_inv (ev_cod ev) p \<Longrightarrow> world_inv ev (w\<lparr>w_pg := p\<rparr>)"
    and "store_ready (ev_rd ev) (ev_store ev) d \<Longrightarrow> tier_inv (ev_rd ev) (ev_json ev) d \<Longrightarrow> world_inv ev (w\<lparr>w_redis := d\<rparr>)"
    and "ttl_ok l \<Longrightarrow> world_inv ev (w\<lparr>w_local := l\<rparr>)" and "world_inv ev (w\<lparr>w_drawn := n\<rparr>)"
  using assms by (simp_all add: world_inv_def base_inv_def)

subsection \<open>The durable store\<close>

lemma repo_lift:
  "pr_GetPoll (main_repo ev) i = on_pg (pr_GetPoll (NewPollRepository (ev_cod ev)) i)"
  "pr_UpdatePollStatus (main_repo ev) i fr to at = on_pg (pr_UpdatePollStatus (NewPollRepository (ev_cod ev)) i fr to at)"
  "pr_GetPollStatus (main_repo ev) i = on_pg (pr_GetPollStatus (NewPollRepository (ev_cod ev)) i)"
  "pr_GetResults (main_repo ev) i = on_pg (pr_GetResults (NewPollRepository (ev_cod ev)) i)"
  "pr_SaveResults (main_repo ev) i m = on_pg (pr_SaveResults (NewPollRepository (ev_cod ev)) i m)"
  "store_new (main_repo ev) p = on_pg (store_new (NewPollRepository (ev_cod ev)) p)"
  by (simp_all add: main_repo_def store_new_on_pg) (simp_all add: repo_on_pg_def)

text \<open>The laws of the database, read at the database a world holds.\<close>

lemmas pg_laws =
  pg_repository.stored_ok [OF world_invD(2)]
  pg_repository.durable_nonneg [OF world_invD(2)]
  pg_repository.get_poll_frame [OF world_invD(2)]
  pg_repository.get_poll_found [OF world_invD(2)]
  pg_repository.get_poll_error [OF world_invD(2)]
  pg_repository.status_frame [OF world_invD(2)]
  pg_repository.status_found [OF world_invD(2)]
  pg_repository.status_error [OF world_invD(2)]
  pg_repository.update_done [OF world_invD(2)]
  pg_repository.update_error [OF world_invD(2)]
  pg_repository.results_frame [OF world_invD(2)]
  pg_repository.results_value [OF world_invD(2)]
  pg_repository.results_error [OF world_invD(2)]
  pg_repository.durable_known [OF world_invD(2)]

lemmas pg_save_laws = pg_repository.save_done [OF world_invD(2)] pg_repository.save_error [OF world_invD(2)]

lemmas pg_create_laws = pg_repository.create_done [OF world_invD(2)] pg_repository.create_error [OF world_invD(2)]

interpretation world_repo: poll_repository "main_repo ev" "pg_uuid (ev_cod ev)" "pg_time (ev_cod ev)"
    w_stored w_durable "world_inv ev" for ev
proof (unfold_locales, unfold repo_lift on_pg_eq views)
qed (((elim exE conjE, hypsubst)?, (frule (1) pg_laws | frule (2) pg_create_laws | frule (4) pg_save_laws),
    simp add: world_inv_upd(1); fail)+)

subsection \<open>The vote store\<close>

lemma store_lift:
  "vs_Guard (main_store ev) req = on_redis (vs_Guard (Store (ev_rd ev) (ev_store ev)) req)"
  "vs_CastBallot (main_store ev) b = on_redis (vs_CastBallot (Store (ev_rd ev) (ev_store ev)) b)"
  "vs_Counters (main_store ev) i ids = on_redis (vs_Counters (Store (ev_rd ev) (ev_store ev)) i ids)"
  "vs_TrackPoll (main_store ev) i = on_redis (vs_TrackPoll (Store (ev_rd ev) (ev_store ev)) i)"
  "vs_TrackedPolls (main_store ev) = on_redis (vs_TrackedPolls (Store (ev_rd ev) (ev_store ev)))"
  "vs_UntrackPoll (main_store ev) i = on_redis (vs_UntrackPoll (Store (ev_rd ev) (ev_store ev)) i)"
  by (simp_all add: main_store_def store_on_redis_def)

text \<open>No operation of the vote store touches the cache tier.\<close>

lemma apart_inv: "world_inv ev w \<Longrightarrow> apart (w_redis w) d \<Longrightarrow> tier_inv (ev_rd ev) (ev_json ev) d"
  using world_invD(3) apart_tier(2) by blast

lemma store_tier:
  assumes "world_inv ev w"
  shows "vs_Guard (Store (ev_rd ev) (ev_store ev)) req (w_redis w) = (r1, d) \<Longrightarrow> tier_inv (ev_rd ev) (ev_json ev) d"
    and "vs_CastBallot (Store (ev_rd ev) (ev_store ev)) b (w_redis w) = (r2, d) \<Longrightarrow> tier_inv (ev_rd ev) (ev_json ev) d"
    and "vs_Counters (Store (ev_rd ev) (ev_store ev)) p ids (w_redis w) = (r3, d) \<Longrightarrow> tier_inv (ev_rd ev) (ev_json ev) d"
    and "vs_TrackPoll (Store (ev_rd ev) (ev_store ev)) p (w_redis w) = (r2, d) \<Longrightarrow> tier_inv (ev_rd ev) (ev_json ev) d"
    and "vs_UntrackPoll (Store (ev_rd ev) (ev_store ev)) p (w_redis w) = (r2, d) \<Longrightarrow> tier_inv (ev_rd ev) (ev_json ev) d"
    and "vs_TrackedPolls (Store (ev_rd ev) (ev_store ev)) (w_redis w) = (r4, d) \<Longrightarrow> tier_inv (ev_rd ev) (ev_json ev) d"
  by (simp_all, (rule apart_inv [OF assms], erule store_apart [OF world_invD(6) [OF assms]])+)

text \<open>The laws of the vote store, read at the store a world holds.\<close>

lemmas redis_laws =
  redis_store.guard_frame [OF world_invD(1)]
  redis_store.counters_frame [OF world_invD(1)]
  redis_store.counters_error [OF world_invD(1)]
  redis_store.track_frame [OF world_invD(1)]
  redis_store.untrack_frame [OF world_invD(1)]
  redis_store.tracked_list [OF world_invD(1)]

lemmas redis_ballot_laws = redis_store.cast_again [OF world_invD(1)] redis_store.counters_value [OF world_invD(1)]

lemmas redis_fresh_laws = redis_store.cast_fresh [OF world_invD(1)]

lemmas redis_other_laws = redis_store.cast_others [OF world_invD(1)]

interpretation world_store: vote_store "main_store ev" "w_votes ev" "w_voted ev" w_tracked hash_ok
    "world_inv ev" for ev
proof (unfold_locales, unfold store_lift on_redis_eq views)
qed (((elim exE conjE, hypsubst)?,
    (frule (3) redis_ballot_laws | frule (1) redis_laws | frule (4) redis_fresh_laws | frule (5) redis_other_laws
      | frule redis_store.guard_error redis_store.counters_keys redis_store.track_error | frule redis_store.votes_nonneg [OF world_invD(1)]),
    (frule (1) store_tier)?,
    simp add: world_inv_upd(2); fail)+)

subsection \<open>The poll cache\<close>

text \<open>What a lookup or an invalidation of the cache leaves alone: everything but the caches.\<close>

definition quiet :: "env \<Rightarrow> world \<Rightarrow> world \<Rightarrow> bool" where
  "quiet ev w w' \<longleftrightarrow> world_inv ev w' \<and> w_stored w' = w_stored w \<and> w_durable w' = w_durable w
     \<and> w_votes ev w' = w_votes ev w \<and> w_voted ev w' = w_voted ev w \<and> w_tracked w' = w_tracked w
     \<and> clock w' = clock w"

lemma quiet_refl: "world_inv ev w \<Longrightarrow> quiet ev w w"
  by (simp add: quiet_def)

lemma quiet_trans: "quiet ev w w' \<Longrightarrow> quiet ev w' w'' \<Longrightarrow> quiet ev w w''"
  by (simp add: quiet_def)

lemma quiet_local:
  assumes "quiet ev w w1" and "ttl_ok l"
  shows "quiet ev w (w1\<lparr>w_local := l\<rparr>)"
  using assms world_inv_upd(3) [of ev w1 l] by (simp add: quiet_def views)

lemma quiet_redis:
  assumes q: "quiet ev w w1" and "same_store (w_redis w1) d" "same_tracked (w_redis w1) d"
    and "tier_inv (ev_rd ev) (ev_json ev) d"
  shows "quiet ev w (w1\<lparr>w_redis := d\<rparr>)"
proof -
  have inv: "world_inv ev w1" using q by (simp add: quiet_def)
  from ready_same [OF world_invD(1) [OF inv] assms(2,3)] world_inv_upd(2) [OF inv _ assms(4)]
    assms(2) q show ?thesis
    by (simp add: quiet_def views same_store_def)
qed

lemma quiet_tier:
  assumes q: "quiet ev w w1"
  shows "quiet ev w (snd (on_redis (rstore_Get (ev_rd ev) (ev_json ev) k) w1))"
    and "quiet ev w (snd (on_redis (rstore_Set (ev_rd ev) (ev_json ev) k en ttl) w1))"
    and "quiet ev w (snd (on_redis (rstore_Delete (ev_rd ev) k) w1))"
proof -
  have inv: "world_inv ev w1" using q by (simp add: quiet_def)
  note same = cache_tier_same [OF world_invD(6,3) [OF inv]]
  note kept = redis_tier.get_invar [OF world_invD(3) [OF inv], unfolded NewRedisStore_simps]
    redis_tier.set_invar [OF world_invD(3) [OF inv], unfolded NewRedisStore_simps]
    redis_tier.delete_invar [OF world_invD(3) [OF inv], unfolded NewRedisStore_simps]
  show "quiet ev w (snd (on_redis (rstore_Get (ev_rd ev) (ev_json ev) k) w1))"
    using quiet_redis [OF q same(1,2) kept(1), of k] by simp
  show "quiet ev w (snd (on_redis (rstore_Set (ev_rd ev) (ev_json ev) k en ttl) w1))"
    using quiet_redis [OF q same(3,4) kept(2), of k en ttl] by simp
  show "quiet ev w (snd (on_redis (rstore_Delete (ev_rd ev) k) w1))"
    using quiet_redis [OF q same(5,6) kept(3), of k] by simp
qed

lemma quiet_origin:
  assumes "quiet ev w w1"
  shows "quiet ev w (snd (on_pg (repo_GetPoll (ev_cod ev) k) w1))"
proof -
  obtain r w2 where run: "pr_GetPoll (main_repo ev) k w1 = (r, w2)" by fastforce
  have "world_inv ev w1" using assms by (simp add: quiet_def)
  note fr = world_repo.get_poll_frame [OF this run]
  have "w_redis w2 = w_redis w1" "w2 = snd (on_pg (repo_GetPoll (ev_cod ev) k) w1)"
    using run by (auto simp: on_pg_eq)
  with fr assms show ?thesis by (simp add: quiet_def views)
qed

lemma local_ok: "quiet ev w w1 \<Longrightarrow> ttl_ok (w_local w1)"
  by (simp add: quiet_def world_inv_def)

lemma quiet_locals:
  assumes "quiet ev w w1"
  shows "quiet ev w (snd (local_Get (main_cache ev) k w1))"
    and "quiet ev w (local_Set (main_cache ev) k en d w1)"
    and "quiet ev w (local_Delete (main_cache ev) k w1)"
  using quiet_local [OF assms ttl_Get_ok [OF local_ok [OF assms]], of k "clock w1"]
    quiet_local [OF assms ttl_Set_ok [OF local_ok [OF assms]], of k en d "clock w1"]
    quiet_local [OF assms ttl_Delete_ok [OF local_ok [OF assms]], of k]
  by (simp_all add: local_Get_def local_Set_def local_Delete_def case_prod_beta)

lemma cache_Poll_quiet:
  assumes "world_inv ev w" and "cache_Poll (main_cache ev) k w = (r, w')"
  shows "quiet ev w w'"
proof -
  have "quiet ev w (snd (cache_Poll (main_cache ev) k w))"
    by (rule cache_Poll_keeps [where P = "quiet ev w"])
      (simp_all add: assms(1) quiet_refl quiet_locals quiet_tier quiet_origin del: on_run)
  with assms(2) show ?thesis by simp
qed

lemma cache_Invalidate_quiet:
  assumes "world_inv ev w" and "cache_Invalidate (main_cache ev) k w = (r, w')"
  shows "quiet ev w w'"
proof -
  have "quiet ev w (snd (cache_Invalidate (main_cache ev) k w))"
    by (rule cache_Invalidate_keeps [where P = "quiet ev w"])
      (simp_all add: assms(1) quiet_refl quiet_locals quiet_tier del: on_run)
  with assms(2) show ?thesis by simp
qed

lemma cache_error_code:
  assumes "world_inv ev w" and "cache_Poll (main_cache ev) k w = (Inl e, w')"
  shows "CodeOf e \<in> {CodeNotFound, CodeUnavailable}"
proof -
  have "e = ErrPollNotFound \<or> (\<exists>w1. quiet ev w w1 \<and> fst (ca_origin (main_cache ev) k w1) = Inl e)"
    by (rule cache_Poll_error [where s = w]) (simp_all add: assms quiet_refl quiet_locals quiet_tier del: on_run)
  then consider "e = ErrPollNotFound" | w1 where "quiet ev w w1" "fst (pr_GetPoll (main_repo ev) k w1) = Inl e"
    by auto
  then show ?thesis
  proof cases
    case 1
    then show ?thesis by (simp add: ErrPollNotFound_def)
  next
    case (2 w1)
    from 2(1) have inv: "world_inv ev w1" by (simp add: quiet_def)
    obtain w2 where "pr_GetPoll (main_repo ev) k w1 = (Inl e, w2)"
      using 2(2) by (metis prod.collapse)
    from world_repo.get_poll_error [OF inv this] show ?thesis by auto
  qed
qed

subsection \<open>The services on the world\<close>

text \<open>\<open>serves ev w i p\<close>: a lookup of \<open>i\<close> in the cache, now, answers \<open>p\<close>.\<close>

definition serves :: "env \<Rightarrow> world \<Rightarrow> string \<Rightarrow> poll \<Rightarrow> bool" where
  "serves ev w i p \<longleftrightarrow> fst (cache_Poll (main_cache ev) i w) = Inr p"

lemma loader_simps [simp]:
  "pl_Poll (CacheLoader C) = cache_Poll C" "pl_Invalidate (CacheLoader C) = cache_Invalidate C"
  by (simp_all add: CacheLoader_def)

lemma VoterHash_ok: "hash_ok (VoterHash i t)"
  using VoterHash_form [of i t] by (simp add: hash_ok_def)

interpretation world_voting: voting "main_store ev" "w_votes ev" "w_voted ev" w_tracked hash_ok
    "world_inv ev" "CacheLoader (main_cache ev)" clock "serves ev" for ev
proof (unfold_locales, unfold loader_simps, goal_cases)
  case 1
  from cache_Poll_quiet [OF this] show ?case by (simp add: quiet_def)
next
  case 2
  then show ?case by (simp add: serves_def)
next
  case 3
  from cache_error_code [OF this] show ?case .
next
  case 4
  show ?case by (rule VoterHash_ok)
qed

interpretation world_backend: backend "main_repo ev" "pg_uuid (ev_cod ev)" "pg_time (ev_cod ev)"
    w_stored w_durable "main_store ev" "w_votes ev" "w_voted ev" w_tracked hash_ok "world_inv ev"
    "CacheLoader (main_cache ev)" clock "NewString ev" "ev_valid ev" "ev_limits ev" for ev
proof (unfold_locales, unfold loader_simps repo_lift store_lift on_pg_eq on_redis_eq, goal_cases)
  case (7 s i ids r s')
  then obtain d where d: "store_Counters (ev_rd ev) (ev_store ev) i ids (w_redis s) = (r, d)"
    "s' = s\<lparr>w_redis := d\<rparr>" by auto
  have "rs_now d = rs_now (w_redis s)"
    using store_apart(3) [OF world_invD(6) [OF 7(1)] d(1)] by (simp add: apart_def)
  with d(2) show ?case by (simp add: views)
next
  case (9 s i r s')
  then obtain d where d: "store_UntrackPoll (ev_rd ev) i (w_redis s) = (r, d)"
    "s' = s\<lparr>w_redis := d\<rparr>" by auto
  have "rs_now d = rs_now (w_redis s)"
    using store_apart(5) [OF world_invD(6) [OF 9(1)] d(1)] by (simp add: apart_def)
  with d(2) show ?case by (simp add: views)
next
  case (10 s r s')
  then obtain d where d: "store_TrackedPolls (ev_rd ev) (w_redis s) = (r, d)"
    "s' = s\<lparr>w_redis := d\<rparr>" by auto
  have "rs_now d = rs_now (w_redis s)"
    using store_apart(6) [OF world_invD(6) [OF 10(1)] d(1)] by (simp add: apart_def)
  with d(2) show ?case by (simp add: views)
next
  case 13
  from cache_Poll_quiet [OF this] show ?case by (simp add: quiet_def)
next
  case 14
  from cache_error_code [OF this] show ?case .
next
  case 15
  from cache_Invalidate_quiet [OF this] show ?case by (simp add: quiet_def)
next
  case 16
  then show ?case using world_invD(7) by (auto simp: NewString_def)
next
  case 17
  then show ?case using world_inv_upd(4) by (auto simp: NewString_def views)
qed (auto simp: views)

subsection \<open>The cache against what the database has said\<close>

text \<open>
  \<open>current ev w k\<close> is what the origin has to say about \<open>k\<close> now. With a relation
  \<open>said\<close> that holds of it at every instant, the cache contract applies to the world.
\<close>

definition current :: "env \<Rightarrow> world \<Rightarrow> string \<Rightarrow> entry option" where
  "current ev w k = (case pg_uuid (ev_cod ev) k of None \<Rightarrow> None
     | Some c \<Rightarrow> Some (case w_stored w c of None \<Rightarrow> \<lparr>en_Poll = zero_poll, en_Missing = True\<rparr>
         | Some p \<Rightarrow> \<lparr>en_Poll = p, en_Missing = False\<rparr>))"

lemma current_cong: "w_stored w' = w_stored w \<Longrightarrow> current ev w' = current ev w"
  by (simp add: current_def [abs_def] cong: option.case_cong)

definition witnessed :: "env \<Rightarrow> (string \<Rightarrow> entry \<Rightarrow> instant \<Rightarrow> bool) \<Rightarrow> world \<Rightarrow> bool" where
  "witnessed ev said w \<longleftrightarrow> base_inv ev w \<and> (\<forall>k en. current ev w k = Some en \<longrightarrow> said k en (clock w))"

lemma base_invD:
  assumes "base_inv ev w"
  shows "pg_inv (ev_cod ev) (w_pg w)" "tier_inv (ev_rd ev) (ev_json ev) (w_redis w)" "config_ok (ev_cache ev)"
    "redis_ok (ev_rd ev)" "store_ready (ev_rd ev) (ev_store ev) (w_redis w)"
  using assms by (simp_all add: base_inv_def store_ready_def)

lemma witnessed_tier:
  assumes "witnessed ev said w"
  shows "witnessed ev said (snd (on_redis (rstore_Get (ev_rd ev) (ev_json ev) k) w))"
    and "witnessed ev said (snd (on_redis (rstore_Set (ev_rd ev) (ev_json ev) k en ttl) w))"
    and "witnessed ev said (snd (on_redis (rstore_Delete (ev_rd ev) k) w))"
proof -
  have base: "base_inv ev w" using assms by (simp add: witnessed_def)
  have step: "witnessed ev said (w\<lparr>w_redis := d\<rparr>)" if "same_store (w_redis w) d" "same_tracked (w_redis w) d"
    "tier_inv (ev_rd ev) (ev_json ev) d" for d
    using assms that ready_same [OF base_invD(5) [OF base] that(1,2)] current_cong [of "w\<lparr>w_redis := d\<rparr>" w ev]
    by (simp add: witnessed_def base_inv_def views same_store_def)
  note same = cache_tier_same [OF base_invD(4,2) [OF base]]
  note kept = redis_tier.get_invar [OF base_invD(2) [OF base], unfolded NewRedisStore_simps]
    redis_tier.set_invar [OF base_invD(2) [OF base], unfolded NewRedisStore_simps]
    redis_tier.delete_invar [OF base_invD(2) [OF base], unfolded NewRedisStore_simps]
  show "witnessed ev said (snd (on_redis (rstore_Get (ev_rd ev) (ev_json ev) k) w))"
    using step [OF same(1,2) kept(1), of k] by simp
  show "witnessed ev said (snd (on_redis (rstore_Set (ev_rd ev) (ev_json ev) k en ttl) w))"
    using step [OF same(3,4) kept(2), of k en ttl] by simp
  show "witnessed ev said (snd (on_redis (rstore_Delete (ev_rd ev) k) w))"
    using step [OF same(5,6) kept(3), of k] by simp
qed

lemma origin_step:
  assumes wit: "witnessed ev said w" and run: "on_pg (repo_GetPoll (ev_cod ev) k) w = (r, w')"
  shows "witnessed ev said w' \<and> w_redis w' = w_redis w \<and> w_local w' = w_local w"
    and "r = Inr p \<Longrightarrow> said k \<lparr>en_Poll = p, en_Missing = False\<rparr> (clock w)"
    and "r = Inl e \<Longrightarrow> CodeOf e = CodeNotFound \<Longrightarrow> said k \<lparr>en_Poll = zero_poll, en_Missing = True\<rparr> (clock w)"
proof -
  obtain d where d: "pr_GetPoll (NewPollRepository (ev_cod ev)) k (w_pg w) = (r, d)" and w': "w' = w\<lparr>w_pg := d\<rparr>"
    using run by (auto simp: on_pg_eq)
  have inv: "pg_inv (ev_cod ev) (w_pg w)" using wit by (simp add: witnessed_def base_inv_def)
  from pg_repository.get_poll_frame [OF inv d] wit current_cong [of w' w ev]
  show "witnessed ev said w' \<and> w_redis w' = w_redis w \<and> w_local w' = w_local w"
    by (simp add: w' witnessed_def base_inv_def views)
  show "said k \<lparr>en_Poll = p, en_Missing = False\<rparr> (clock w)" if "r = Inr p"
    using pg_repository.get_poll_found [OF inv d [unfolded that]] wit
    by (simp add: witnessed_def current_def views)
  show "said k \<lparr>en_Poll = zero_poll, en_Missing = True\<rparr> (clock w)" if "r = Inl e" "CodeOf e = CodeNotFound"
    using pg_repository.get_poll_error [OF inv d [unfolded that(1)]] wit that(2)
    by (auto simp: witnessed_def current_def views)
qed

interpretation world_cache: poll_cache "main_cache ev" "\<lambda>w. tier_seen (ev_json ev) (w_redis w)" clock
    "witnessed ev said" said for ev said
proof (unfold_locales, unfold tier_simps, goal_cases)
  case 1 then show ?case by (simp add: clock_def rstore_clock)
next
  case 2 then show ?case by (simp add: clock_def rstore_clock)
next
  case 3 then show ?case by (simp add: clock_def rstore_clock)
next
  case 4 then show ?case by (rule witnessed_tier)
next
  case 5 then show ?case by (rule witnessed_tier)
next
  case 6 then show ?case by (rule witnessed_tier)
next
  case 7 then show ?case by (simp add: rstore_Get_tier(2) [OF base_invD(2)] witnessed_def)
next
  case 8 then show ?case by (simp add: rstore_Get_tier(3) [OF base_invD(2)] witnessed_def clock_def)
next
  case 9 then show ?case by (simp add: rstore_Set_tier(2) [OF base_invD(2)] witnessed_def)
next
  case (10 s ttl t k en)
  then show ?case using rstore_Set_tier(3) [OF base_invD(2), of ev s ttl k en t] by (simp add: witnessed_def clock_def)
next
  case 11 then show ?case by (simp add: rstore_Delete_tier(2) [OF base_invD(2)] witnessed_def)
next
  case (12 s k t)
  then show ?case using rstore_Delete_tier(3) [OF base_invD(2), of ev s k t] by (simp add: witnessed_def)
next
  case (13 s k u t)
  then show ?case using rstore_Delete_tier(4) [OF base_invD(2), of ev s k u t] by (simp add: witnessed_def)
next
  case (19 s l)
  then show ?case using current_cong [of "s\<lparr>w_local := l\<rparr>" s ev]
    by (simp add: witnessed_def base_inv_def views)
next
  case (23 s k r s')
  with origin_step(1) [OF 23] show ?case by (simp add: clock_def)
next
  case (24 s k p s')
  from origin_step(2) [OF 24] show ?case by simp
next
  case (25 s k e s')
  from origin_step(3) [OF 25(1,2)] 25(3) show ?case by simp
next
  case 27 then show ?case by (simp add: witnessed_def base_inv_def)
qed (simp_all add: clock_def)

end
