(* ===== verification/Deployment.thy ===== *)
theory Deployment
  imports World_Laws
begin

text \<open>
  A process as it starts (\<open>boot\<close>), and one concrete deployment: an in-memory Redis, a codec
  that folds the case of identifiers, no lost messages, and a database with one active poll.
  It satisfies every hypothesis the properties make about the outside, and the witnesses
  of the properties run on it.
\<close>

subsection \<open>Starting a process\<close>

definition New_Cache :: "env \<Rightarrow> entry ttl" where
  "New_Cache ev = NewTTL (ev_hash ev) (cc_LocalCapacity (ev_cache ev))"

text \<open>A replica starts with an empty in-process cache; the servers keep what they hold.\<close>

definition boot :: "env \<Rightarrow> world \<Rightarrow> world" where
  "boot ev w = w\<lparr>w_local := New_Cache ev\<rparr>"

lemma boot_quiet: "base_inv ev w \<Longrightarrow> world_inv ev (boot ev w)"
  by (simp add: boot_def New_Cache_def world_inv_def base_inv_def NewTTL_ok)

subsection \<open>A concrete deployment\<close>

definition demo_cod :: pg_codec where
  "demo_cod = \<lparr>pg_uuid = (\<lambda>s. Some (map lower_char s)), pg_time = (\<lambda>t. t), pg_text = (\<lambda>_. True)\<rparr>"

text \<open>A JSON codec that can only write the answer "missing".\<close>

definition missing_entry :: entry where
  "missing_entry = \<lparr>en_Poll = zero_poll, en_Missing = True\<rparr>"

definition demo_json :: json_codec where
  "demo_json = \<lparr>js_marshal = (\<lambda>en. if en = missing_entry then Some ''missing'' else None),
     js_unmarshal = (\<lambda>s. if s = ''missing'' then Some missing_entry else None)\<rparr>"

definition demo_env :: env where
  "demo_env = \<lparr>ev_rd = mem_redis, ev_cod = demo_cod, ev_json = demo_json,
     ev_store = \<lparr>sc_Shards = 1, sc_DedupTTL = 3600 * second, sc_CounterRetention = 7200 * second,
       sc_RateLimit = 0, sc_RateWindow = second, sc_PollQuota = 0, sc_PollQuotaWindow = second\<rparr>,
     ev_cache = \<lparr>cc_LocalTTL = 2 * second, cc_SharedTTL = 30 * second, cc_NegativeTTL = 5 * second,
       cc_LocalCapacity = 64\<rparr>,
     ev_limits = \<lparr>pl_MaxQuestionLength = 300, pl_MaxOptionLength = 200, pl_MaxOptions = 20,
       pl_MaxPageSize = 100, pl_DefaultPageSize = 20\<rparr>,
     ev_settle = 300 * second, ev_valid = (\<lambda>s. s \<noteq> []), ev_uuid = (\<lambda>n. itoa (int n)),
     ev_hash = (\<lambda>_. 0)\<rparr>"

definition demo_tables :: tables where
  "demo_tables = \<lparr>
     t_polls = [\<lparr>row_id = ''p'', row_question = ''q'', row_type = ''single'', row_max_choices = 1,
       row_status = ''active'', row_created_at = 0, row_starts_at = None, row_ends_at = None,
       row_finished_at = None\<rparr>],
     t_options = [\<lparr>opt_id = ''a'', opt_poll_id = ''p'', opt_text = ''yes'', opt_position = 0\<rparr>,
       \<lparr>opt_id = ''b'', opt_poll_id = ''p'', opt_text = ''no'', opt_position = 1\<rparr>],
     t_results = [((''p'', ''a''), 0), ((''p'', ''b''), 0)]\<rparr>"

definition demo_world :: world where
  "demo_world = \<lparr>
     w_pg = \<lparr>pg_tables = demo_tables, pg_txs = Map.empty, pg_next_tx = 0, pg_fates = []\<rparr>,
     w_redis = \<lparr>rs_db = [trackedPollsKey \<mapsto> (RSet [''p''], None)], rs_now = 1000, rs_fates = []\<rparr>,
     w_local = New_Cache demo_env, w_drawn = 0\<rparr>"

lemma lower_digit: "is_digit c \<Longrightarrow> lower_char c = c"
  by (simp add: is_digit_def lower_char_def char_in_def byte_of_def)

lemma lower_itoa: "map lower_char (itoa (int n)) = itoa (int n)"
  using itoa_chars [of "int n"] lower_digit by (simp add: map_idI)

lemma lower_lower [simp]: "lower_char (lower_char c) = lower_char c"
  by (auto simp: lower_char_def char_in_def byte_of_def)

lemma demo_codec_ok: "codec_ok demo_cod"
  by (auto simp: codec_ok_def demo_cod_def)

lemma demo_json_ok: "json_ok demo_json"
  by (auto simp: json_ok_def demo_json_def split: if_splits)

lemma demo_tables_ok: "tables_ok demo_cod demo_tables"
  by (simp add: tables_ok_def demo_tables_def demo_cod_def poll_row_ok_def option_row_ok_def
      blank_def lower_char_def char_in_def byte_of_def max_int64_def)

lemma demo_inv: "world_inv demo_env demo_world"
proof -
  have "store_inv (w_redis demo_world)"
    by (simp add: store_inv_def counts_ok_def demo_world_def kv_def tracked_key_apart)
  moreover have "store_config_ok (ev_store demo_env)"
    by (simp add: store_config_ok_def demo_env_def second_def)
  moreover have "tier_inv (ev_rd demo_env) (ev_json demo_env) (w_redis demo_world)"
    by (simp add: tier_inv_def demo_env_def demo_world_def mem_redis_ok demo_json_ok)
  moreover have "pg_inv (ev_cod demo_env) (w_pg demo_world)"
    by (simp add: pg_inv_def demo_env_def demo_world_def demo_codec_ok demo_tables_ok)
  moreover have "\<forall>n. pg_uuid (ev_cod demo_env) (ev_uuid demo_env n) = Some (ev_uuid demo_env n)"
    by (simp add: demo_env_def demo_cod_def lower_itoa)
  moreover have "config_ok (ev_cache demo_env)"
    by (simp add: config_ok_def demo_env_def second_def)
  ultimately show ?thesis
    by (simp add: world_inv_def base_inv_def store_ready_def)
      (simp add: demo_env_def demo_world_def mem_redis_ok New_Cache_def NewTTL_ok)
qed

subsection \<open>A vote on it\<close>

definition demo_poll :: poll where
  "demo_poll = \<lparr>p_id = ''p'', p_question = ''q'', p_type = ''single'',
     p_max_choices = 1, p_status = ''active'',
     p_options = [\<lparr>o_id = ''a'', o_text = ''yes'', o_position = 0\<rparr>, \<lparr>o_id = ''b'', o_text = ''no'', o_position = 1\<rparr>],
     p_created_at = 0, p_starts_at = None, p_ends_at = None, p_finished_at = None\<rparr>"

definition demo_vote :: VoteCommand where
  "demo_vote = \<lparr>vc_PollID = ''p'', vc_OptionIDs = [''a''], vc_VoterToken = ''t'', vc_ClientIP = ''1''\<rparr>"

lemma demo_fields [simp]:
  "ev_rd demo_env = mem_redis" "ev_cod demo_env = demo_cod" "ev_json demo_env = demo_json"
  "ev_valid demo_env s \<longleftrightarrow> s \<noteq> []" "rs_db (w_redis demo_world) = [trackedPollsKey \<mapsto> (RSet [''p''], None)]"
  "rs_now (w_redis demo_world) = 1000" "rs_fates (w_redis demo_world) = []" "pg_fates (w_pg demo_world) = []"
  "pg_tables (w_pg demo_world) = demo_tables" "w_local demo_world = New_Cache demo_env"
  "ev_cache demo_env = \<lparr>cc_LocalTTL = 2 * second, cc_SharedTTL = 30 * second, cc_NegativeTTL = 5 * second, cc_LocalCapacity = 64\<rparr>"
  "ev_hash demo_env k = 0"
  by (simp_all add: demo_env_def demo_world_def)

lemma demo_get: "repo_GetPoll demo_cod ''p'' (w_pg demo_world) = (Inr demo_poll, pg_tick (w_pg demo_world))"
  by (simp add: repo_GetPoll_def pg_query_def pg_fate_of_def uuid_arg_def demo_cod_def lower_char_def char_in_def byte_of_def
      poll_join_def demo_tables_def demo_poll_def poll_of_row_def option_of_row_def join_order_def)

lemma put_same: "put_shard c k (shardFor c k) = c"
  by (simp add: put_shard_def shardFor_def)

lemma new_get: "ttl_Get k now (NewTTL h n :: 'v ttl) = (None, NewTTL h n)"
proof -
  let ?c = "NewTTL h n :: 'v ttl"
  have lt: "unat (h k mod 16) < 16" by (simp add: unat_mod)
  then have "sh_entries (shardFor ?c k) = (\<lambda>_. None)"
    by (simp add: shardFor_def shard_index_def NewTTL_def Let_def shardCount_def)
  then have "element (shardFor ?c k) k = None" by (simp add: element_def)
  then show ?thesis by (simp add: ttl_Get_def shard_Get_def put_same)
qed

lemma demo_no_local: "local_Get (main_cache demo_env) k demo_world = (None, demo_world)"
  by (simp add: local_Get_def New_Cache_def new_get)

lemma demo_no_tier: "rstore_Get mem_redis demo_json ''p'' (w_redis demo_world) = (Inr None, w_redis demo_world)"
proof -
  have "rd_GET mem_redis 1000 (keyPrefix @ ''p'') [trackedPollsKey \<mapsto> (RSet [''p''], None)] = (Inr None, [trackedPollsKey \<mapsto> (RSet [''p''], None)])"
    by (simp add: mem_redis_def kv_def)
  then show ?thesis
    by (simp add: rstore_Get_def redis_call_plain)
qed

lemma demo_served: "\<exists>l. cache_Poll (main_cache demo_env) ''p'' demo_world = (Inr demo_poll, demo_world\<lparr>w_pg := pg_tick (w_pg demo_world), w_local := l\<rparr>)"
proof -
  have st: "rstore_Set mem_redis demo_json ''p'' \<lparr>en_Poll = demo_poll, en_Missing = False\<rparr> d st = (Inl (Wrapped ''poll cache marshal'' (ErrText ''json: error calling MarshalJSON'')), st)" for d st
    by (simp add: rstore_Set_def demo_json_def missing_entry_def)
  show ?thesis
    by (simp add: cache_Poll_def cache_resolve_def demo_no_local demo_no_tier on_redis_def resolve_origin_def cache_store_def Let_def
       on_pg_def demo_get st local_Set_def unwrap_def) blast
qed

lemma demo_cast_as:
  assumes t: "trim_space t \<noteq> []"
  shows "fst (do_Cast demo_env (demo_vote\<lparr>vc_VoterToken := t, vc_ClientIP := ip\<rparr>) demo_world) = Inr ()"
proof -
  obtain l where l: "cache_Poll (main_cache demo_env) ''p'' demo_world = (Inr demo_poll, demo_world\<lparr>w_pg := pg_tick (w_pg demo_world), w_local := l\<rparr>)" (is "_ = (_, ?w)")
    using demo_served by blast
  have ok: "CheckOpenAt demo_poll n = Inr ()" "ValidateBallot demo_poll [''a''] = Inr ()" for n
    by (simp_all add: CheckOpenAt_Inr ValidateBallot_Inr open_at_def admissible_def demo_poll_def OptionIDs_def effectiveMaxChoices_def)
  have g: "store_Guard mem_redis (ev_store demo_env) g (w_redis demo_world) = (Inr 0, w_redis demo_world)" for g
    by (simp add: store_Guard_def redis_call_plain guardScript_def limit_check_def demo_env_def)
  have c: "fst (store_CastBallot mem_redis (ev_store demo_env) \<lparr>b_PollID = ''p'', b_VoterHash = h, b_OptionIDs = [''a'']\<rparr> (w_redis demo_world)) = Inr ()" if "hash_ok h" for h
  proof -
    define n where "n = shard_of (ev_store demo_env) h"
    have tag: "shardTag (ev_store demo_env) ''p'' h = tagForShard ''p'' n" by (simp add: shardTag_def n_def)
    have e: "kv t Map.empty k = None" for t k by (simp add: kv_def)
    have ttl: "sc_Shards (ev_store demo_env) = 1" "sc_DedupTTL (ev_store demo_env) = 3600 * second"
      "sc_CounterRetention (ev_store demo_env) = 7200 * second"
      by (simp_all add: demo_env_def)
    show ?thesis
      by (simp add: store_CastBallot_def Let_def tag ttl redis_call_plain castBallotScript_def whole_seconds_def second_def
         mem_redis_def e key_apart that)
  qed
  obtain d where d: "store_CastBallot mem_redis (ev_store demo_env)
      \<lparr>b_PollID = ''p'', b_VoterHash = VoterHash ''p'' t, b_OptionIDs = [''a'']\<rparr> (w_redis demo_world) = (Inr (), d)"
    using c [OF VoterHash_ok] by (metis prod.collapse)
  show ?thesis
    by (simp add: do_Cast_def vote_Cast_def demo_vote_def t l ok on_redis_def g d cast_ballot_def main_votes_def)
qed

lemma demo_cast: "fst (do_Cast demo_env demo_vote demo_world) = Inr ()"
proof -
  have "trim_space ''t'' = ''t''" by (rule trim_space_plain) (simp_all add: plain_char_def byte_of_def char_in_def)
  with demo_cast_as [of "''t''" "''1''"] show ?thesis by (simp add: demo_vote_def)
qed

lemma demo_stored: "w_stored demo_world ''p'' = Some demo_poll"
  by (simp add: w_stored_def pg_stored_def stored_poll_def demo_tables_def options_of_def
      poll_of_row_def option_of_row_def demo_poll_def)

lemma demo_votes: "w_votes demo_env demo_world i j = 0"
  by (simp add: w_votes_def store_votes_def count_at_def kv_def demo_env_def)

end
