(* ===== verification/Service_Frames.thy ===== *)
theory Service_Frames
  imports Vote_Service Sync_Service
begin

text \<open>
  Frames of the services: a request is built from calls of its ports, so a property of the
  state that every port call keeps is kept by the request. One lemma per request; the
  reachability proofs instantiate them with what they need (the clock, the cache tier, the
  database).
\<close>

lemma vote_Cast_keeps [effect_intros]:
  assumes "P s" and "\<And>i s. P s \<Longrightarrow> P (snd (pl_Poll (vsv_polls svc) i s))"
    and "\<And>g s. P s \<Longrightarrow> P (snd (vs_Guard (vsv_store svc) g s))"
    and "\<And>b s. P s \<Longrightarrow> P (snd (vs_CastBallot (vsv_store svc) b s))"
  shows "P (snd (vote_Cast valid svc cmd s))"
  unfolding vote_Cast_def cast_ballot_def using assms
  by (auto intro!: go_try_snd [where P = P] split: sum.split simp: Let_def)

lemma draw_options_keeps:
  assumes "P s" and "\<And>s. P s \<Longrightarrow> P (snd (draw s))"
  shows "P (snd (draw_options draw i ts s))"
  using assms(1)
proof (induction ts arbitrary: i s)
  case (Cons t ts)
  have "P (snd (draw s))" using assms(2) [OF Cons.prems] .
  from Cons.IH [OF this, of "i + 1"] show ?case by (simp add: case_prod_beta)
qed simp

lemma buildPoll_keeps [effect_intros]:
  assumes "P s" and "\<And>s. P s \<Longrightarrow> P (snd (psv_NewString svc s))"
  shows "P (snd (buildPoll svc cmd s))"
proof (cases "poll_fields (psv_limits svc) cmd")
  case (Inr x)
  obtain q t ts m where x: "x = (q, t, ts, m)" by (cases x)
  have "P (snd (draw_options (psv_NewString svc) 0 ts (snd (psv_NewString svc s))))"
    by (rule draw_options_keeps [where P = P, OF assms(2) [OF assms(1)] assms(2)])
  with Inr x show ?thesis by (simp add: buildPoll_def case_prod_beta)
qed (simp add: buildPoll_def assms(1))

lemma poll_Create_keeps [effect_intros]:
  assumes "P s" and "\<And>s. P s \<Longrightarrow> P (snd (psv_NewString svc s))"
    and "\<And>p s. P s \<Longrightarrow> P (snd (store_new (psv_repo svc) p s))"
  shows "P (snd (poll_Create svc cmd s))"
proof -
  have "P (snd (buildPoll svc cmd s))" using assms(1,2) by (rule buildPoll_keeps)
  then show ?thesis unfolding poll_Create_def
    by (rule go_try_snd [where P = P]) (auto intro: go_try_snd [where P = P] assms(3))
qed

lemma poll_Get_keeps [effect_intros]:
  assumes "P s" and "\<And>i s. P s \<Longrightarrow> P (snd (pl_Poll (psv_cache svc) i s))"
  shows "P (snd (poll_Get svc i s))"
  unfolding poll_Get_def using assms by (auto intro!: go_try_snd [where P = P])

lemma poll_List_keeps [effect_intros]:
  assumes "P s" and "\<And>s. P s \<Longrightarrow> P (snd (pr_CountPolls (psv_repo svc) s))"
    and "\<And>l k s. P s \<Longrightarrow> P (snd (pr_ListPollPage (psv_repo svc) l k s))"
    and "\<And>ids s. P s \<Longrightarrow> P (snd (pr_ListOptionsByPollIDs (psv_repo svc) ids s))"
  shows "P (snd (poll_List svc l k s))"
  unfolding poll_List_def using assms by (auto intro!: go_try_snd [where P = P] split: prod.split)

lemma poll_Results_keeps [effect_intros]:
  assumes "P s" and "\<And>i s. P s \<Longrightarrow> P (snd (pl_Poll (psv_cache svc) i s))"
    and "\<And>i s. P s \<Longrightarrow> P (snd (pr_GetResults (psv_repo svc) i s))"
    and "\<And>i ids s. P s \<Longrightarrow> P (snd (vs_Counters (psv_store svc) i ids s))"
  shows "P (snd (poll_Results svc i s))"
proof -
  have get: "P (snd (poll_Get svc i s))" using assms(1,2) by (rule poll_Get_keeps)
  have tail: "P s3" if "P s1" "pr_GetResults (psv_repo svc) i s1 = (d, s2)"
    "vs_Counters (psv_store svc) i ids s2 = (l, s3)" for s1 s2 s3 d l ids
    using assms(3) [OF that(1), of i] assms(4) [of s2 i ids] that(2,3) by simp
  show ?thesis unfolding poll_Results_def
    by (rule go_try_snd [where P = P, OF get])
      (auto intro: tail split: prod.split sum.split)
qed

text \<open>
  A transition: the database is written first, then read; tracking and the invalidation
  of the cache come last. \<open>P\<close> is kept by the database calls, \<open>Q\<close> by the rest.
\<close>

lemma poll_transition_keeps [effect_intros]:
  assumes "P s" and "\<And>i fr to at s. P s \<Longrightarrow> P (snd (pr_UpdatePollStatus (psv_repo svc) i fr to at s))"
    and "\<And>i s. P s \<Longrightarrow> P (snd (pr_GetPollStatus (psv_repo svc) i s))"
    and "\<And>i s. P s \<Longrightarrow> P (snd (pr_GetPoll (psv_repo svc) i s))"
  shows "P (snd (poll_transition svc i fr to s))"
proof -
  have upd: "P s1" if "pr_UpdatePollStatus (psv_repo svc) i fr to at s = (r, s1)" for at r s1
    using assms(2) [OF assms(1), of i fr to at] that by simp
  show ?thesis unfolding poll_transition_def
    using assms(1) by (auto intro!: go_try_snd [where P = P] assms(3,4) split: prod.split sum.split dest: upd)
qed

lemma poll_Finish_keeps:
  assumes "P (snd (poll_transition svc i [PollStatusDraft, PollStatusActive] PollStatusFinished s))"
    and "\<And>i s. P s \<Longrightarrow> P (snd (pl_Invalidate (psv_cache svc) i s))"
  shows "P (snd (poll_Finish svc i s))"
  unfolding poll_Finish_def
  by (rule go_try_snd [where P = P, OF assms(1)])
    (auto intro: go_try_snd [where P = P] simp: poll_invalidate_def assms(2))

lemma poll_Activate_keeps:
  assumes "P (snd (poll_transition svc i [PollStatusDraft] PollStatusActive s))"
    and "\<And>i s. P s \<Longrightarrow> P (snd (pl_Invalidate (psv_cache svc) i s))"
    and "\<And>i s. P s \<Longrightarrow> P (snd (vs_TrackPoll (psv_store svc) i s))"
  shows "P (snd (poll_Activate svc i s))"
  unfolding poll_Activate_def
  by (rule go_try_snd [where P = P, OF assms(1)])
    (auto intro!: go_try_snd [where P = P] simp: poll_invalidate_def assms(2,3))

lemma sync_Sync_keeps:
  assumes "P s" and "\<And>i s. P s \<Longrightarrow> P (snd (pr_GetPoll (sy_repo svc) i s))"
    and "\<And>i m s. P s \<Longrightarrow> P (snd (pr_SaveResults (sy_repo svc) i m s))"
    and "\<And>i ids s. P s \<Longrightarrow> P (snd (vs_Counters (sy_store svc) i ids s))"
    and "\<And>i s. P s \<Longrightarrow> P (snd (vs_UntrackPoll (sy_store svc) i s))"
    and "\<And>s. P s \<Longrightarrow> P (snd (vs_TrackedPolls (sy_store svc) s))"
  shows "P (snd (sync_Sync svc s))"
proof -
  have get: "P s1" if "P s" "pr_GetPoll (sy_repo svc) i s = (r, s1)" for i s r s1
    using assms(2) [OF that(1), of i] that(2) by simp
  have one: "P (snd (syncPoll svc i s))" if "P s" for i s
    unfolding syncPoll_def
    using that by (auto intro!: go_try_snd [where P = P] assms(3-5) split: prod.split sum.split dest: get)
  have all: "P (snd (sync_all svc ids n s))" if "P s" for ids n s
    using that
  proof (induction ids arbitrary: n s)
    case (Cons i ids)
    from one [OF Cons.prems, of i] Cons.IH show ?case by (auto split: prod.split sum.split)
  qed simp
  have tracked: "P s1" if "vs_TrackedPolls (sy_store svc) s = (r, s1)" for r s1
    using assms(6) [OF assms(1)] that by simp
  show ?thesis unfolding sync_Sync_def Let_def
    using all tracked by (auto split: prod.split sum.split) (metis snd_conv)+
qed

end
