(* ===== verification/World_Frames.thy ===== *)
theory World_Frames
  imports Deployment Service_Frames
begin

text \<open>
  What the port calls of the running system leave alone, and with \<open>Service_Frames\<close> what the
  requests leave alone: no request moves the clock, and the requests that only read the
  database leave its tables as they are.
\<close>

subsection \<open>The clock\<close>

lemma store_clock:
  "rs_now (snd (store_Guard rd cfg req st)) = rs_now st"
  "rs_now (snd (store_CastBallot rd cfg b st)) = rs_now st"
  "rs_now (snd (store_Counters rd cfg p ids st)) = rs_now st"
  "rs_now (snd (store_TrackPoll rd p st)) = rs_now st"
  "rs_now (snd (store_UntrackPoll rd p st)) = rs_now st"
  "rs_now (snd (store_TrackedPolls rd st)) = rs_now st"
  by (auto simp: store_Guard_def store_CastBallot_def store_Counters_def store_TrackPoll_def
      store_UntrackPoll_def store_TrackedPolls_def Let_def split: go_try_splits dest: redis_call_clock)

lemma port_clock [simp]:
  "clock (snd (vs_Guard (main_store ev) req w)) = clock w"
  "clock (snd (vs_CastBallot (main_store ev) b w)) = clock w"
  "clock (snd (vs_Counters (main_store ev) p ids w)) = clock w"
  "clock (snd (vs_TrackPoll (main_store ev) p w)) = clock w"
  "clock (snd (vs_UntrackPoll (main_store ev) p w)) = clock w"
  "clock (snd (vs_TrackedPolls (main_store ev) w)) = clock w"
  "clock (snd (on_pg f w)) = clock w"
  "clock (snd (NewString ev w)) = clock w"
  by (simp_all add: clock_def store_clock NewString_def)

lemma cache_clock [simp]:
  "clock (snd (cache_Poll (main_cache ev) i w)) = clock w"
  "clock (snd (cache_Invalidate (main_cache ev) i w)) = clock w"
proof -
  show "clock (snd (cache_Poll (main_cache ev) i w)) = clock w"
    by (rule cache_Poll_keeps [where P = "\<lambda>v. clock v = clock w"])
      (simp_all add: local_Get_def local_Set_def clock_def rstore_clock case_prod_beta)
  show "clock (snd (cache_Invalidate (main_cache ev) i w)) = clock w"
    by (rule cache_Invalidate_keeps [where P = "\<lambda>v. clock v = clock w"])
      (simp_all add: local_Delete_def clock_def rstore_clock)
qed

lemma main_wiring [simp]:
  "vsv_polls (main_votes ev) = CacheLoader (main_cache ev)" "vsv_store (main_votes ev) = main_store ev"
  "psv_repo (main_polls ev) = main_repo ev" "psv_store (main_polls ev) = main_store ev"
  "psv_cache (main_polls ev) = CacheLoader (main_cache ev)" "psv_NewString (main_polls ev) = NewString ev"
  "psv_limits (main_polls ev) = ev_limits ev" "psv_valid (main_polls ev) = ev_valid ev" "psv_now (main_polls ev) = clock"
  "sy_repo (worker_sync ev) = main_repo ev" "sy_store (worker_sync ev) = main_store ev"
  "sy_settleAfter (worker_sync ev) = ev_settle ev" "sy_now (worker_sync ev) = clock"
  by (simp_all add: main_votes_def main_polls_def worker_sync_def)

lemmas request_defs = do_Cast_def do_Create_def do_Activate_def do_Finish_def do_Get_def do_Results_def
  do_List_def do_Sync_def

lemma request_clock:
  "clock (snd (do_Cast ev cmd w)) = clock w" "clock (snd (do_Create ev ccmd w)) = clock w"
  "clock (snd (do_Activate ev i w)) = clock w" "clock (snd (do_Finish ev i w)) = clock w"
  "clock (snd (do_Get ev i w)) = clock w" "clock (snd (do_Results ev i w)) = clock w"
  "clock (snd (do_List ev l k w)) = clock w" "clock (snd (do_Sync ev w)) = clock w"
proof -
  let ?P = "\<lambda>v. clock v = clock w"
  have tr: "clock (snd (poll_transition (main_polls ev) i fr to w)) = clock w" for fr to
    by (rule poll_transition_keeps [where P = ?P]) (simp_all add: repo_lift del: main_simps on_run)
  show "clock (snd (do_Cast ev cmd w)) = clock w" unfolding request_defs
    by (rule vote_Cast_keeps [where P = ?P]) (simp_all del: main_simps on_run)
  show "clock (snd (do_Create ev ccmd w)) = clock w" unfolding request_defs
    by (rule poll_Create_keeps [where P = ?P]) (simp_all add: repo_lift del: main_simps on_run)
  show "clock (snd (do_Activate ev i w)) = clock w" unfolding request_defs
    by (rule poll_Activate_keeps [where P = ?P]) (simp_all add: tr del: main_simps on_run)
  show "clock (snd (do_Finish ev i w)) = clock w" unfolding request_defs
    by (rule poll_Finish_keeps [where P = ?P]) (simp_all add: tr del: main_simps on_run)
  show "clock (snd (do_Get ev i w)) = clock w" unfolding request_defs
    by (rule poll_Get_keeps [where P = ?P]) simp_all
  show "clock (snd (do_Results ev i w)) = clock w" unfolding request_defs
    by (rule poll_Results_keeps [where P = ?P]) (simp_all add: repo_lift del: main_simps on_run)
  show "clock (snd (do_List ev l k w)) = clock w" unfolding request_defs
    by (rule poll_List_keeps [where P = ?P]) (simp_all add: main_repo_def repo_on_pg_def del: on_run)
  show "clock (snd (do_Sync ev w)) = clock w" unfolding request_defs
    by (rule sync_Sync_keeps [where P = ?P]) (simp_all add: repo_lift del: main_simps on_run)
qed

subsection \<open>The tables\<close>

lemma read_tables [simp]:
  "pg_tables (snd (repo_GetPoll cod i s)) = pg_tables s"
  "pg_tables (snd (repo_GetResults cod i s)) = pg_tables s"
  "pg_tables (snd (repo_CountPolls s)) = pg_tables s"
  "pg_tables (snd (repo_ListPollPage l k s)) = pg_tables s"
  "pg_tables (snd (repo_ListOptionsByPollIDs cod ids s)) = pg_tables s"
  by (auto simp: repo_GetPoll_def repo_GetResults_def repo_CountPolls_def repo_ListPollPage_def
      repo_ListOptionsByPollIDs_def pg_query_def split: go_try_splits pg_fate.splits)

lemma cache_tables [simp]:
  "pg_tables (w_pg (snd (cache_Poll (main_cache ev) i w))) = pg_tables (w_pg w)"
  by (rule cache_Poll_keeps [where P = "\<lambda>v. pg_tables (w_pg v) = pg_tables (w_pg w)"])
    (simp_all add: local_Get_def local_Set_def case_prod_beta)

lemma reads_tables:
  "pg_tables (w_pg (snd (do_Cast ev cmd w))) = pg_tables (w_pg w)"
  "pg_tables (w_pg (snd (do_Get ev i w))) = pg_tables (w_pg w)"
  "pg_tables (w_pg (snd (do_Results ev i w))) = pg_tables (w_pg w)"
  "pg_tables (w_pg (snd (do_List ev l k w))) = pg_tables (w_pg w)"
  unfolding request_defs
     apply (rule vote_Cast_keeps [where P = "\<lambda>v. pg_tables (w_pg v) = pg_tables (w_pg w)"]; simp)
    apply (rule poll_Get_keeps [where P = "\<lambda>v. pg_tables (w_pg v) = pg_tables (w_pg w)"]; simp)
   apply (rule poll_Results_keeps [where P = "\<lambda>v. pg_tables (w_pg v) = pg_tables (w_pg w)"]; simp)
  apply (rule poll_List_keeps [where P = "\<lambda>v. pg_tables (w_pg v) = pg_tables (w_pg w)"]; simp)
  done

lemma same_tables_views:
  "pg_tables (w_pg w') = pg_tables (w_pg w) \<Longrightarrow> w_stored w' = w_stored w \<and> w_durable w' = w_durable w"
  by (simp add: views pg_stored_def [abs_def] pg_durable_def [abs_def])

end
