(* ===== verification/Answered.thy ===== *)
theory Answered
  imports World_Frames
begin

text \<open>
  What the port calls return when the servers answer: with no failure pending on either
  connection, every command of the vote store and every statement of the repository gives the
  result its contract names, and leaves no failure behind.
\<close>

definition healthy :: "world \<Rightarrow> bool" where
  "healthy w \<longleftrightarrow> rs_fates (w_redis w) = [] \<and> pg_fates (w_pg w) = []"

subsection \<open>Calls that are answered\<close>

lemma tick_live [simp]: "pg_fates st = [] \<Longrightarrow> pg_fates (pg_tick st) = []"
  by (simp add: pg_tick_def)

lemma fate_live: "pg_fates st = [] \<Longrightarrow> pg_fate_of st = PgDone"
  by (simp add: pg_fate_of_def)

lemma get_live:
  assumes "pg_fates st = []" and "pg_uuid cod i = Some c" and "repo_GetPoll cod i st = (r, st')"
  shows "pg_fates st' = []" and "r = Inl e \<Longrightarrow> CodeOf e = CodeNotFound"
  using assms by (auto simp: repo_GetPoll_def pg_query_def fate_live uuid_arg_def split: option.splits)

lemma counters_live:
  assumes "redis_ok rd" and "store_inv st" and "rs_fates st = []" and "store_Counters rd cfg p ids st = (r, st')"
  shows "rs_fates st' = [] \<and> (\<exists>m. r = Inr m)"
proof -
  let ?keys = "map (\<lambda>shard. countsKey (tagForShard p shard)) [0 ..< sc_Shards cfg]"
  from hgetall_shards_run [OF assms(1), of ?keys "rs_now st" "rs_db st"] assms(2) obtain rs where
    rs: "hgetall_shards rd ?keys (rs_now st) (rs_db st) = (Inr rs, rs_db st)"
      "list_all2 (shard_reply (rs_now st) (rs_db st)) ?keys rs"
    by (auto simp: store_inv_def)
  from add_replies_value [OF rs(2), of "zero_counts ids"] rs(1) assms(3,4)
  show ?thesis by (auto simp: store_Counters_def redis_call_plain zero_counts_facts)
qed

lemma untrack_live:
  assumes "redis_ok rd" and "store_inv st" and "rs_fates st = []" and "store_UntrackPoll rd p st = (r, st')"
  shows "rs_fates st' = [] \<and> r = Inr ()"
  using srem_run [OF assms(1) store_inv_set [OF assms(2)], of p] assms(3,4)
  by (auto simp: store_UntrackPoll_def redis_call_plain)

lemma tracked_live:
  assumes "redis_ok rd" and "store_inv st" and "rs_fates st = []" and "store_TrackedPolls rd st = (r, st')"
  shows "rs_fates st' = [] \<and> (\<exists>ids. r = Inr ids)"
  using store_inv_set [OF assms(2)]
proof (cases rule: is_set_cases)
  case 1
  with redis_sets(1) [OF assms(1) 1] assms(3,4) show ?thesis
    by (auto simp: store_TrackedPolls_def redis_call_plain)
next
  case (2 l)
  from redis_sets(2) [OF assms(1) 2] obtain ids
    where "rd_SMEMBERS rd (rs_now st) trackedPollsKey (rs_db st) = (Inr ids, rs_db st)" by blast
  with assms(3,4) show ?thesis by (auto simp: store_TrackedPolls_def redis_call_plain)
qed

lemma track_live:
  assumes "redis_ok rd" and "store_inv st" and "rs_fates st = []" and "store_TrackPoll rd p st = (r, st')"
  shows "rs_fates st' = [] \<and> r = Inr ()"
  using sadd_run [OF assms(1) store_inv_set [OF assms(2)], of p] assms(3,4)
  by (auto simp: store_TrackPoll_def redis_call_plain)

lemma results_live:
  assumes "pg_fates st = []" and "pg_uuid cod i = Some c" and "repo_GetResults cod i st = (r, st')"
  shows "pg_fates st' = [] \<and> \<not> isl r"
  using assms by (auto simp: repo_GetResults_def pg_query_def fate_live uuid_arg_def)

text \<open>The script decides between the two answers of a cast by the voter's marker alone.\<close>

lemma cast_store_live:
  assumes ok: "redis_ok rd" and cfg: "store_config_ok cfg" and inv: "store_inv st" and up: "rs_fates st = []"
    and h: "hash_ok (b_VoterHash b)" and room: "ballot_room (store_votes cfg st) b"
    and run: "store_CastBallot rd cfg b st = (r, st')"
  shows "if store_voted cfg st (b_PollID b) (b_VoterHash b)
    then \<exists>e. r = Inl e \<and> CodeOf e = CodeAlreadyVoted else r = Inr ()"
proof -
  obtain q st1 where call: "redis_call (cast_cmd rd cfg b) st = (q, st1)" by fastforce
  note res = cast_result [OF cfg call run]
  have pos: "0 < whole_seconds (sc_DedupTTL cfg)"
    using cfg by (auto simp: store_config_ok_def intro: whole_seconds_pos)
  show ?thesis
  proof (cases "store_voted cfg st (b_PollID b) (b_VoterHash b)")
    case True
    then have "cast_cmd rd cfg b (rs_now st) (rs_db st) = (Inr 0, rs_db st)"
      using ok pos by (simp add: cast_cmd_def Let_def cast_script_again store_voted_def)
    with call up have "q = Inr 0" by (simp add: redis_call_plain)
    with res(4) [of 0] True show ?thesis by simp
  next
    case False
    from cast_cmd_fresh [OF ok cfg inv h room False] obtain db
      where "cast_cmd rd cfg b (rs_now st) (rs_db st) = (Inr 1, db)" by blast
    with call up have "q = Inr 1" by (simp add: redis_call_plain)
    with res(3) False show ?thesis by simp
  qed
qed

text \<open>No request brings back a failure once both servers answer.\<close>

lemma calls_live:
  "rs_fates st = [] \<Longrightarrow> rs_fates (snd (redis_call cmd st)) = []"
  by (simp add: redis_call_plain split: prod.split)

lemma store_live:
  assumes "rs_fates st = []"
  shows "rs_fates (snd (store_Guard rd cfg req st)) = []" "rs_fates (snd (store_CastBallot rd cfg b st)) = []"
  using assms by (auto simp: store_Guard_def store_CastBallot_def Let_def calls_live
      split: go_try_splits dest: arg_cong [where f = "\<lambda>x. rs_fates (snd x)"])

lemma tier_live:
  assumes "rs_fates st = []"
  shows "rs_fates (snd (rstore_Get rd js k st)) = []" "rs_fates (snd (rstore_Set rd js k en d st)) = []"
  using assms by (auto simp: rstore_Get_def rstore_Set_def calls_live split: go_try_splits option.splits
      dest: arg_cong [where f = "\<lambda>x. rs_fates (snd x)"])

lemma origin_live: "pg_fates st = [] \<Longrightarrow> pg_fates (snd (repo_GetPoll cod k st)) = []"
  by (auto simp: repo_GetPoll_def pg_query_def fate_live split: go_try_splits)

lemma cache_live:
  assumes "healthy w"
  shows "healthy (snd (cache_Poll (main_cache ev) i w))"
  by (rule cache_Poll_keeps [where P = healthy])
    (use assms in \<open>simp_all add: healthy_def local_Get_def local_Set_def tier_live origin_live case_prod_beta\<close>)

lemma cast_live:
  assumes "healthy w"
  shows "healthy (snd (do_Cast ev cmd w))"
  unfolding do_Cast_def
  by (rule vote_Cast_keeps [where P = healthy]) (use assms cache_live in \<open>simp_all add: healthy_def store_live\<close>)

subsection \<open>Moving a poll\<close>

text \<open>A stored draft is always allowed to become active.\<close>

lemma open_draft_live:
  assumes inv: "pg_inv cod st" and up: "pg_fates st = []"
    and c: "pg_uuid cod i = Some c" "pg_stored st c = Some p" "p_status p = PollStatusDraft"
    and run: "repo_UpdatePollStatus cod i [PollStatusDraft] PollStatusActive t st = (r, st')"
  shows "pg_fates st' = [] \<and> r = Inr ()"
proof -
  let ?t = "pg_tables st"
  have dist: "distinct (map row_id (t_polls ?t))" and rows: "\<forall>r \<in> set (t_polls ?t). poll_row_ok r"
    using inv by (simp_all add: pg_inv_def tables_ok_def)
  have "filter (status_hit c [PollStatusDraft]) (t_polls ?t) \<noteq> []"
    using stored_poll_status [OF dist, of c "[PollStatusDraft]"] c(2,3) by (simp add: pg_stored_def)
  moreover have "\<forall>r \<in> set (t_polls ?t). status_hit c [PollStatusDraft] r \<longrightarrow> poll_row_ok (set_status PollStatusActive None r)"
    using rows by (auto simp: status_hit_def poll_row_ok_def set_status_def)
  ultimately show ?thesis
    using run up c(1) by (auto simp: repo_UpdatePollStatus_def Let_def pg_exec_def fate_live uuid_arg_def
        update_status_eq)
qed

end
