(* ===== verification/Requests.thy ===== *)
theory Requests
  imports Answered
begin

text \<open>
  What each request and the synchronisation job do to the running system, with their whole
  wiring: votes, durable counts, stored polls and tracked polls before and after, on every
  branch. The lemmas are the service lemmas through the interpretations of
  \<open>World_Laws\<close>; the properties state them over the requests themselves, and each has a
  witness on the concrete deployment.
\<close>

subsection \<open>Vocabulary\<close>

definition same_data :: "env \<Rightarrow> world \<Rightarrow> world \<Rightarrow> bool" where
  "same_data ev w w' \<longleftrightarrow> w_stored w' = w_stored w \<and> w_durable w' = w_durable w
     \<and> w_votes ev w' = w_votes ev w \<and> w_voted ev w' = w_voted ev w \<and> w_tracked w' = w_tracked w"

definition same_ballots :: "env \<Rightarrow> world \<Rightarrow> world \<Rightarrow> bool" where
  "same_ballots ev w w' \<longleftrightarrow> w_votes ev w' = w_votes ev w \<and> w_voted ev w' = w_voted ev w
     \<and> w_durable w' = w_durable w"

definition voter :: "VoteCommand \<Rightarrow> string" where
  "voter cmd = VoterHash (vc_PollID cmd) (vc_VoterToken cmd)"

text \<open>The ballot has been recorded: its voter is marked and its options counted, once.\<close>

definition recorded :: "env \<Rightarrow> VoteCommand \<Rightarrow> world \<Rightarrow> world \<Rightarrow> bool" where
  "recorded ev cmd w w' \<longleftrightarrow> \<not> w_voted ev w (vc_PollID cmd) (voter cmd)
     \<and> w_voted ev w' (vc_PollID cmd) (voter cmd)
     \<and> (\<forall>q i. w_votes ev w' q i = w_votes ev w q i
          + (if q = vc_PollID cmd \<and> i \<in> set (vc_OptionIDs cmd) then 1 else 0))"

text \<open>A ballot that a served configuration of the poll admits at this moment.\<close>

definition votable :: "env \<Rightarrow> VoteCommand \<Rightarrow> world \<Rightarrow> bool" where
  "votable ev cmd w \<longleftrightarrow> ev_valid ev (vc_PollID cmd) \<and> trim_space (vc_VoterToken cmd) \<noteq> []
     \<and> (\<exists>p. serves ev w (vc_PollID cmd) p \<and> open_at p (clock w) \<and> admissible p (vc_OptionIDs cmd))"

text \<open>No counter of the poll is about to wrap around.\<close>

definition room :: "env \<Rightarrow> world \<Rightarrow> string \<Rightarrow> bool" where
  "room ev w i \<longleftrightarrow> (\<forall>j. w_votes ev w i j < max_int64)"

lemma main_svcs:
  "world_voting.svc ev = main_votes ev" "world_backend.svc ev = main_polls ev"
  "world_backend.syncer ev (ev_settle ev) = worker_sync ev"
  by (simp_all add: world_voting.svc_def main_votes_def world_backend.svc_def main_polls_def
      world_backend.syncer_def worker_sync_def)

lemma add_ballot_recorded:
  "w_votes ev w' = add_ballot (cast_ballot_of cmd) (w_votes ev w) \<longleftrightarrow>
     (\<forall>q i. w_votes ev w' q i = w_votes ev w q i
        + (if q = vc_PollID cmd \<and> i \<in> set (vc_OptionIDs cmd) then 1 else 0))"
  by (simp add: fun_eq_iff add_ballot_def)

lemma max_int64_nonneg [simp]: "0 \<le> max_int64" "0 < max_int64"
  by (simp_all add: max_int64_def)

lemma demo_room: "room demo_env demo_world i"
  by (simp add: room_def demo_votes)

lemma demo_uuid: "pg_uuid demo_cod ''p'' = Some ''p''"
  by (simp add: demo_cod_def lower_char_def char_in_def byte_of_def)

definition demo_create :: CreatePollCommand where
  "demo_create = \<lparr>cp_Question = ''Lunch?'', cp_Type = [], cp_MaxChoices = 0, cp_Options = [''Soup'', ''Salad''],
     cp_StartsAt = None, cp_EndsAt = None\<rparr>"

subsection \<open>Voting\<close>

lemma cast_facts:
  assumes "world_inv ev w" and "room ev w (vc_PollID cmd)" and "do_Cast ev cmd w = (r, w')"
  shows "world_inv ev w' \<and> w_stored w' = w_stored w \<and> w_durable w' = w_durable w \<and> w_tracked w' = w_tracked w
    \<and> ((\<exists>e. r = Inl e) \<and> w_votes ev w' = w_votes ev w \<and> w_voted ev w' = w_voted ev w
       \<or> votable ev cmd w \<and> recorded ev cmd w w'
         \<and> (\<forall>e. r = Inl e \<longrightarrow> CodeOf e \<in> {CodeAlreadyVoted, CodeUnavailable}))"
proof -
  have run: "vote_Cast (ev_valid ev) (world_voting.svc ev) cmd w = (r, w')"
    using assms(3) by (simp add: do_Cast_def main_svcs)
  have "w_stored w' = w_stored w \<and> w_durable w' = w_durable w"
    using reads_tables(1) [of ev cmd w] assms(3) by (intro same_tables_views) simp
  moreover note world_voting.cast_outcome [OF assms(1) assms(2) [unfolded room_def, rule_format] run]
  ultimately show ?thesis
    by (auto simp: world_voting.untouched_def world_voting.checked_def votable_def recorded_def
        voter_def add_ballot_recorded [symmetric])
qed

text \<open>
  The first check a ballot fails, in the order the code makes them, as the code of the answer;
  \<open>None\<close> when every check admits it. The poll is the one the cache answers with, the guard is
  asked on the state the cache lookup leaves.
\<close>

definition refusal :: "env \<Rightarrow> VoteCommand \<Rightarrow> world \<Rightarrow> string option" where
  "refusal ev cmd w =
     (if \<not> ev_valid ev (vc_PollID cmd) then Some CodeNotFound
      else if trim_space (vc_VoterToken cmd) = [] then Some CodeInvalidRequest
      else case cache_Poll (main_cache ev) (vc_PollID cmd) w of
        (Inl e, _) \<Rightarrow> Some (CodeOf e)
      | (Inr p, w1) \<Rightarrow>
          if \<not> open_at p (clock w) then Some CodeConflict
          else if \<not> admissible p (vc_OptionIDs cmd) then Some CodeInvalidRequest
          else case fst (vs_Guard (main_store ev) \<lparr>g_ClientIP = vc_ClientIP cmd, g_PollID = vc_PollID cmd\<rparr> w1) of
            Inl _ \<Rightarrow> Some CodeUnavailable
          | Inr verdict \<Rightarrow>
              if verdict = VerdictRateLimited then Some CodeRateLimited
              else if verdict = VerdictQuotaExceeded then Some CodeQuotaExceeded
              else if w_voted ev w (vc_PollID cmd) (voter cmd) then Some CodeAlreadyVoted else None)"

definition unrecorded :: "env \<Rightarrow> world \<Rightarrow> world \<Rightarrow> bool" where
  "unrecorded ev w w' \<longleftrightarrow> w_votes ev w' = w_votes ev w \<and> w_voted ev w' = w_voted ev w"

text \<open>Either a check refuses the ballot with its code, or the vote store decides on it.\<close>

lemma cast_stages:
  assumes inv: "world_inv ev w" and run: "do_Cast ev cmd w = (r, w')"
  obtains (refused) e where "refusal ev cmd w = Some (CodeOf e)" "CodeOf e \<noteq> CodeAlreadyVoted" "r = Inl e"
        "unrecorded ev w w'"
    | (stored) w2 p where "refusal ev cmd w = (if w_voted ev w (vc_PollID cmd) (voter cmd) then Some CodeAlreadyVoted else None)"
        "world_inv ev w2" "unrecorded ev w w2" "healthy w \<Longrightarrow> healthy w2" "admissible p (vc_OptionIDs cmd)"
        "cast_ballot (main_votes ev) cmd w2 = (r, w')"
proof -
  have cast: "vote_Cast (ev_valid ev) (main_votes ev) cmd w = (r, w')" using run by (simp add: do_Cast_def)
  show ?thesis
  proof (cases "ev_valid ev (vc_PollID cmd) \<and> trim_space (vc_VoterToken cmd) \<noteq> []")
    case False
    with cast show ?thesis by (auto intro!: refused simp: vote_Cast_def refusal_def unrecorded_def split: if_splits)
  next
    case True
    obtain q w1 where q: "cache_Poll (main_cache ev) (vc_PollID cmd) w = (q, w1)" by fastforce
    have load: "pl_Poll (CacheLoader (main_cache ev)) (vc_PollID cmd) w = (q, w1)" using q by simp
    note fr = world_voting.loader_frame [OF inv load]
    then have un1: "unrecorded ev w w1" by (simp add: unrecorded_def)
    show ?thesis
    proof (cases q)
      case (Inl e)
      with cast True q un1 cache_error_code [OF inv q [unfolded Inl]] show ?thesis
        by (intro refused [of "Wrapped ''cast vote'' e"]) (auto simp: vote_Cast_def refusal_def)
    next
      case (Inr p)
      show ?thesis
      proof (cases "open_at p (clock w) \<and> admissible p (vc_OptionIDs cmd)")
        case False
        then obtain e where "r = Inl (Wrapped ''cast vote'' e)" "w' = w1"
          "CodeOf e = (if \<not> open_at p (clock w) then CodeConflict else CodeInvalidRequest)"
          using cast q Inr True fr CheckOpenAt_Inr [of p "clock w"] ValidateBallot_Inr [of p "vc_OptionIDs cmd"]
          by (auto simp: vote_Cast_def main_votes_def split: sum.splits dest: CheckOpenAt_Inl ValidateBallot_Inl)
        with q Inr True False un1 show ?thesis by (intro refused [of "Wrapped ''cast vote'' e"]) (auto simp: refusal_def)
      next
        case ok: True
        then have pass: "CheckOpenAt p (clock w) = Inr ()" "ValidateBallot p (vc_OptionIDs cmd) = Inr ()"
          by (simp_all add: CheckOpenAt_Inr ValidateBallot_Inr)
        let ?req = "\<lparr>g_ClientIP = vc_ClientIP cmd, g_PollID = vc_PollID cmd\<rparr>"
        obtain g w2 where g: "vs_Guard (main_store ev) ?req w1 = (g, w2)" by fastforce
        note fr2 = world_store.guard_frame [OF _ g]
        have here: "world_inv ev w2" "unrecorded ev w w2" using fr fr2 by (simp_all add: unrecorded_def)
        have up: "healthy w2" if "healthy w"
          using cache_live [OF that, of ev "vc_PollID cmd"] q arg_cong [OF g, of snd] store_live(1)
          by (auto simp: healthy_def)
        show ?thesis
        proof (cases "\<exists>v. g = Inr v \<and> v \<noteq> VerdictRateLimited \<and> v \<noteq> VerdictQuotaExceeded")
          case True': True
          with cast q Inr True fr pass g have "cast_ballot (main_votes ev) cmd w2 = (r, w')"
            by (auto simp: vote_Cast_def main_votes_def)
          with True' q Inr True ok g here up show ?thesis
            by (intro stored [of w2 p]) (auto simp: refusal_def simp del: main_simps)
        next
          case False
          then have "w' = w2 \<and> (\<exists>e. r = Inl e \<and> refusal ev cmd w = Some (CodeOf e) \<and> CodeOf e \<noteq> CodeAlreadyVoted)"
            using cast q Inr True fr pass ok g world_store.guard_error [of ev ?req w1]
            by (auto simp: vote_Cast_def main_votes_def refusal_def simp del: main_simps split: go_try_splits if_splits sum.splits)
          with here(2) show ?thesis by (elim conjE exE) (rule refused, simp_all)
        qed
      qed
    qed
  qed
qed

lemma refusal_facts:
  assumes inv: "world_inv ev w" and room: "room ev w (vc_PollID cmd)" and run: "do_Cast ev cmd w = (r, w')"
  shows "refusal ev cmd w \<notin> {None, Some CodeAlreadyVoted} \<Longrightarrow>
      (\<exists>e. r = Inl e \<and> refusal ev cmd w = Some (CodeOf e)) \<and> unrecorded ev w w'"
    and "healthy w \<Longrightarrow> (case refusal ev cmd w of None \<Rightarrow> r = Inr () \<and> recorded ev cmd w w'
      | Some code \<Rightarrow> (\<exists>e. r = Inl e \<and> CodeOf e = code) \<and> unrecorded ev w w')"
proof -
  show "(\<exists>e. r = Inl e \<and> refusal ev cmd w = Some (CodeOf e)) \<and> unrecorded ev w w'"
    if "refusal ev cmd w \<notin> {None, Some CodeAlreadyVoted}"
    using inv run that by (cases rule: cast_stages) (auto split: if_splits)
  assume up: "healthy w"
  show "case refusal ev cmd w of None \<Rightarrow> r = Inr () \<and> recorded ev cmd w w'
      | Some code \<Rightarrow> (\<exists>e. r = Inl e \<and> CodeOf e = code) \<and> unrecorded ev w w'"
    using inv run
  proof (cases rule: cast_stages)
    case (stored w2 p)
    let ?b = "cast_ballot_of cmd" and ?rd = "ev_rd ev" and ?cfg = "ev_store ev"
    obtain q d where q: "store_CastBallot ?rd ?cfg ?b (w_redis w2) = (q, d)" by fastforce
    have r: "r = (case q of Inl e \<Rightarrow> Inl (Wrapped ''cast vote'' e) | Inr _ \<Rightarrow> Inr ())"
      using stored(6) q by (auto simp: cast_ballot_def cast_ballot_of_def on_redis_def split: go_try_splits)
    have base: "redis_ok ?rd" "store_config_ok ?cfg" "store_inv (w_redis w2)"
      using world_invD(1) [OF stored(2)] by (simp_all add: store_ready_def)
    have "rs_fates (w_redis w2) = []" using stored(4) [OF up] by (simp add: healthy_def)
    moreover have "hash_ok (b_VoterHash ?b)" by (simp add: VoterHash_ok)
    moreover have "ballot_room (store_votes ?cfg (w_redis w2)) ?b"
      using stored(3,5) room by (auto simp: ballot_room_def unrecorded_def room_def admissible_def w_votes_def)
    ultimately have live: "if store_voted ?cfg (w_redis w2) (vc_PollID cmd) (voter cmd)
        then \<exists>e. q = Inl e \<and> CodeOf e = CodeAlreadyVoted else q = Inr ()"
      using cast_store_live [OF base _ _ _ q] by (simp add: voter_def)
    have "w_voted ev w (vc_PollID cmd) (voter cmd) = w_voted ev w2 (vc_PollID cmd) (voter cmd)"
      using stored(3) by (simp add: unrecorded_def)
    then have "w_voted ev w (vc_PollID cmd) (voter cmd) = store_voted ?cfg (w_redis w2) (vc_PollID cmd) (voter cmd)"
      by (simp add: w_voted_def voted_of voter_def VoterHash_ok)
    with live r stored(1) cast_facts [OF assms] show ?thesis
      by (auto simp: recorded_def unrecorded_def split: if_splits)
  qed simp
qed

text \<open>
  C1. Casting a vote. With both servers answering, a ballot is decided by the checks alone: it is
  accepted, and recorded once (its voter marked and each chosen option counted one more), when
  the poll's id is a uuid, the token is not blank, the cache finds the poll, the poll is open
  and admits the chosen options, the guard lets the address through and this voter has no
  marker; otherwise the answer is the code of the first check that fails, and no vote and no
  marker changes. When calls fail, a ballot is still recorded at most once and only when the
  served configuration admits it and the voter has no marker; an accepted one is recorded; one
  refused by a check before the vote store is not; and a recorded ballot whose answer was lost is
  refused with "already voted" or "unavailable". Polls, durable counts and tracked polls stay as
  they are.
\<close>

theorem cast_effect:
  assumes "world_inv ev w" and "room ev w (vc_PollID cmd)" and "do_Cast ev cmd w = (r, w')"
  shows "world_inv ev w' \<and> w_stored w' = w_stored w \<and> w_durable w' = w_durable w \<and> w_tracked w' = w_tracked w
    \<and> ((\<exists>e. r = Inl e) \<and> w_votes ev w' = w_votes ev w \<and> w_voted ev w' = w_voted ev w
       \<or> votable ev cmd w \<and> recorded ev cmd w w'
         \<and> (\<forall>e. r = Inl e \<longrightarrow> CodeOf e \<in> {CodeAlreadyVoted, CodeUnavailable}))
    \<and> (refusal ev cmd w \<notin> {None, Some CodeAlreadyVoted} \<longrightarrow>
         (\<exists>e. r = Inl e \<and> refusal ev cmd w = Some (CodeOf e)) \<and> unrecorded ev w w')
    \<and> (healthy w \<longrightarrow> (case refusal ev cmd w of None \<Rightarrow> r = Inr () \<and> recorded ev cmd w w'
         | Some code \<Rightarrow> (\<exists>e. r = Inl e \<and> CodeOf e = code) \<and> unrecorded ev w w'))"
  using cast_facts [OF assms] refusal_facts [OF assms] by blast

theorem cast_effect_witness:
  "\<exists>w'. do_Cast demo_env demo_vote demo_world = (Inr (), w') \<and> refusal demo_env demo_vote demo_world = None
     \<and> recorded demo_env demo_vote demo_world w'"
proof -
  obtain w' where run: "do_Cast demo_env demo_vote demo_world = (Inr (), w')"
    using demo_cast by (metis prod.collapse)
  have "healthy demo_world" by (simp add: healthy_def)
  with cast_effect [OF demo_inv demo_room run] run show ?thesis by (auto split: option.splits)
qed

text \<open>
  One vote per voter. After an accepted ballot, a second one under the same poll id and
  the same token, whatever options it names and whatever address it comes from, is refused
  and recorded nowhere.
\<close>

theorem one_vote_per_voter:
  assumes "world_inv ev w" and "room ev w (vc_PollID c1)" and "do_Cast ev c1 w = (Inr u, w1)"
    and "vc_PollID c2 = vc_PollID c1" and "vc_VoterToken c2 = vc_VoterToken c1"
    and "do_Cast ev c2 w1 = (r, w2)"
  shows "(\<exists>e. r = Inl e) \<and> w_votes ev w2 = w_votes ev w1 \<and> w_voted ev w2 = w_voted ev w1"
proof -
  from cast_facts [OF assms(1-3)] have inv: "world_inv ev w1"
    and voted: "w_voted ev w1 (vc_PollID c2) (VoterHash (vc_PollID c2) (vc_VoterToken c2))"
    by (auto simp: recorded_def voter_def assms(4,5))
  have "vote_Cast (ev_valid ev) (world_voting.svc ev) c2 w1 = (r, w2)"
    using assms(6) by (simp add: do_Cast_def main_svcs)
  from world_voting.cast_second [OF inv voted this] show ?thesis
    by (auto simp: world_voting.untouched_def)
qed

theorem one_vote_per_voter_witness:
  "\<exists>w1. do_Cast demo_env demo_vote demo_world = (Inr (), w1)
     \<and> (\<exists>e w2. do_Cast demo_env demo_vote w1 = (Inl e, w2) \<and> w_votes demo_env w2 = w_votes demo_env w1)"
proof -
  obtain w1 where run: "do_Cast demo_env demo_vote demo_world = (Inr (), w1)"
    using demo_cast by (metis prod.collapse)
  obtain r w2 where again: "do_Cast demo_env demo_vote w1 = (r, w2)" by fastforce
  from one_vote_per_voter [OF demo_inv demo_room run refl refl again] run again show ?thesis by auto
qed

subsection \<open>Creating polls\<close>

lemma create_facts:
  assumes "world_inv ev w" and "do_Create ev cmd w = (r, w')"
  shows "world_inv ev w' \<and> w_votes ev w' = w_votes ev w \<and> w_voted ev w' = w_voted ev w
    \<and> w_tracked w' = w_tracked w
    \<and> ((\<exists>e. r = Inl e \<and> CodeOf e = CodeInvalidRequest \<and> \<not> command_ok (ev_limits ev) cmd \<and> w' = w)
       \<or> command_ok (ev_limits ev) cmd
         \<and> ((\<exists>e. r = Inl e \<and> CodeOf e = CodeUnavailable) \<and> w_stored w' = w_stored w \<and> w_durable w' = w_durable w
            \<or> (\<exists>p. (r = Inr p \<or> (\<exists>e. r = Inl e \<and> CodeOf e = CodeUnavailable))
                \<and> w_stored w (p_id p) = None \<and> p_status p = PollStatusDraft
                \<and> p_question p = trim_space (cp_Question cmd) \<and> p_type p = chosen_type cmd
                \<and> p_max_choices p = chosen_max cmd
                \<and> map o_text (p_options p) = option_texts (cp_Options cmd)
                \<and> w_stored w' = (w_stored w)(p_id p \<mapsto> stamped (pg_time (ev_cod ev)) p)
                \<and> w_durable w' = zeroed p (w_durable w))))"
  using world_backend.create_outcome [OF assms(1), of cmd r w'] assms(2) by (simp add: do_Create_def main_svcs)

text \<open>
  C5. Creating a poll. A command that breaks a rule is refused with "invalid request" and
  changes nothing. A valid one stores, under a fresh id, a draft with the trimmed question,
  the chosen type and limit and the trimmed options in order, each with a durable count of
  0; it is all or nothing, and an "unavailable" answer means either that nothing was stored
  or that the whole poll was and only the answer was lost.
\<close>

theorem create_effect:
  assumes "world_inv ev w" and "do_Create ev cmd w = (r, w')"
  shows "world_inv ev w' \<and> w_votes ev w' = w_votes ev w \<and> w_voted ev w' = w_voted ev w
    \<and> w_tracked w' = w_tracked w
    \<and> ((\<exists>e. r = Inl e \<and> CodeOf e = CodeInvalidRequest \<and> \<not> command_ok (ev_limits ev) cmd \<and> w' = w)
       \<or> command_ok (ev_limits ev) cmd
         \<and> ((\<exists>e. r = Inl e \<and> CodeOf e = CodeUnavailable) \<and> w_stored w' = w_stored w \<and> w_durable w' = w_durable w
            \<or> (\<exists>p. (r = Inr p \<or> (\<exists>e. r = Inl e \<and> CodeOf e = CodeUnavailable))
                \<and> w_stored w (p_id p) = None \<and> p_status p = PollStatusDraft
                \<and> p_question p = trim_space (cp_Question cmd) \<and> p_type p = chosen_type cmd
                \<and> p_max_choices p = chosen_max cmd
                \<and> map o_text (p_options p) = option_texts (cp_Options cmd)
                \<and> w_stored w' = (w_stored w)(p_id p \<mapsto> stamped (pg_time (ev_cod ev)) p)
                \<and> w_durable w' = zeroed p (w_durable w))))"
  using create_facts [OF assms] .

theorem create_effect_witness:
  "world_inv demo_env (snd (do_Create demo_env demo_create demo_world))
     \<and> w_votes demo_env (snd (do_Create demo_env demo_create demo_world)) = w_votes demo_env demo_world"
  using create_effect [OF demo_inv surjective_pairing, of demo_create] by blast

subsection \<open>Opening and closing polls\<close>

text \<open>The poll named by \<open>i\<close>, until now in one of the statuses \<open>fr\<close>, has the status \<open>to\<close>.\<close>

definition moved :: "env \<Rightarrow> world \<Rightarrow> world \<Rightarrow> string \<Rightarrow> poll_status list \<Rightarrow> poll_status \<Rightarrow> poll \<Rightarrow> bool" where
  "moved ev w w' i fr to p \<longleftrightarrow> pg_uuid (ev_cod ev) i = Some (p_id p) \<and> w_stored w (p_id p) = Some p
     \<and> p_status p \<in> set fr
     \<and> w_stored w' = (w_stored w)(p_id p \<mapsto> with_status (pg_time (ev_cod ev)) to (clock w) p)"

lemma activate_facts:
  assumes "world_inv ev w" and "do_Activate ev i w = (r, w')"
  shows "world_inv ev w' \<and> same_ballots ev w w'
    \<and> (w_stored w' = w_stored w \<and> w_tracked w' = w_tracked w
         \<and> (\<exists>e. r = Inl e \<and> CodeOf e \<in> {CodeNotFound, CodeConflict, CodeUnavailable})
       \<or> (\<exists>p. moved ev w w' i [PollStatusDraft] PollStatusActive p
            \<and> (r = Inr (with_status (pg_time (ev_cod ev)) PollStatusActive (clock w) p)
                 \<and> w_tracked w' = insert (p_id p) (w_tracked w)
               \<or> (\<exists>e. r = Inl e \<and> CodeOf e = CodeUnavailable)
                 \<and> w_tracked w' \<in> {w_tracked w, insert (p_id p) (w_tracked w)})))"
  using world_backend.activate_outcome [OF assms(1), of i r w'] assms(2)
  by (simp add: do_Activate_def main_svcs world_backend.kept_def world_backend.moved_def moved_def same_ballots_def)

text \<open>With both servers answering, activating a stored draft succeeds.\<close>

lemma activate_live:
  assumes inv: "world_inv ev w" and up: "healthy w" and run: "do_Activate ev i w = (r, w')"
    and c: "ev_valid ev i" "pg_uuid (ev_cod ev) i = Some c" "w_stored w c = Some p" "p_status p = PollStatusDraft"
  shows "\<exists>p'. r = Inr p'"
proof -
  obtain u s1 where u: "repo_UpdatePollStatus (ev_cod ev) i [PollStatusDraft] PollStatusActive (clock w) (w_pg w) = (u, s1)"
    by fastforce
  from open_draft_live [OF world_invD(2) [OF inv] _ c(2) _ c(4) u] up c(3)
  have u': "u = Inr ()" "pg_fates s1 = []" by (simp_all add: healthy_def w_stored_def)
  let ?w1 = "w\<lparr>w_pg := s1\<rparr>"
  have uw: "pr_UpdatePollStatus (main_repo ev) i [PollStatusDraft] PollStatusActive (clock w) w = (Inr (), ?w1)"
    using u u' by (simp add: on_pg_def)
  note upd = world_repo.update_done [OF inv uw]
  obtain g s2 where g: "repo_GetPoll (ev_cod ev) i s1 = (g, s2)" by fastforce
  let ?w2 = "w\<lparr>w_pg := s2\<rparr>"
  have gw: "pr_GetPoll (main_repo ev) i ?w1 = (g, ?w2)" using g by (simp add: on_pg_def)
  have inv1: "world_inv ev ?w1" using upd by blast
  obtain p0 where p0: "pg_uuid (ev_cod ev) i = Some (p_id p0)"
      "w_stored ?w1 (p_id p0) = Some (with_status (pg_time (ev_cod ev)) PollStatusActive (clock w) p0)"
    using upd by auto
  from world_repo.get_poll_present [OF inv1 p0 gw] get_live(2) [OF u'(2) c(2) g]
  obtain q where q: "g = Inr q" by (cases g) auto
  have inv2: "world_inv ev ?w2" using world_repo.get_poll_frame [OF inv1 gw] by blast
  obtain t d where t: "store_TrackPoll (ev_rd ev) (p_id q) (w_redis w) = (t, d)" by fastforce
  have "t = Inr ()" using track_live [OF _ _ _ t] world_invD(1) [OF inv] up by (simp add: store_ready_def healthy_def)
  with t have tw: "vs_TrackPoll (main_store ev) (p_id q) ?w2 = (Inr (), ?w2\<lparr>w_redis := d\<rparr>)"
    by (simp add: on_redis_def)
  show ?thesis
    using run c(1) uw gw q tw
    by (auto simp: do_Activate_def poll_Activate_def poll_transition_def poll_invalidate_def simp del: main_simps)
qed

text \<open>
  C6. Activating a poll. Only a draft becomes active, keeping everything else; when the
  request succeeds the poll is tracked for synchronisation, and with both servers answering
  activating a stored draft does succeed. A request that changes nothing answers "not found",
  "conflict" or "unavailable"; one that opened the poll and then lost a call answers
  "unavailable", and the poll may be open without being tracked.
\<close>

theorem activate_effect:
  assumes "world_inv ev w" and "do_Activate ev i w = (r, w')"
  shows "world_inv ev w' \<and> same_ballots ev w w'
    \<and> (w_stored w' = w_stored w \<and> w_tracked w' = w_tracked w
         \<and> (\<exists>e. r = Inl e \<and> CodeOf e \<in> {CodeNotFound, CodeConflict, CodeUnavailable})
       \<or> (\<exists>p. moved ev w w' i [PollStatusDraft] PollStatusActive p
            \<and> (r = Inr (with_status (pg_time (ev_cod ev)) PollStatusActive (clock w) p)
                 \<and> w_tracked w' = insert (p_id p) (w_tracked w)
               \<or> (\<exists>e. r = Inl e \<and> CodeOf e = CodeUnavailable)
                 \<and> w_tracked w' \<in> {w_tracked w, insert (p_id p) (w_tracked w)})))
    \<and> (healthy w \<and> ev_valid ev i
         \<and> (\<exists>c p. pg_uuid (ev_cod ev) i = Some c \<and> w_stored w c = Some p \<and> p_status p = PollStatusDraft)
         \<longrightarrow> (\<exists>p. r = Inr p))"
  using activate_facts [OF assms] activate_live [OF assms(1) _ assms(2)] by blast

text \<open>The concrete deployment with its poll not opened yet.\<close>

definition draft_world :: world where
  "draft_world = demo_world\<lparr>w_pg := (w_pg demo_world)\<lparr>pg_tables := demo_tables\<lparr>t_polls :=
     map (set_status PollStatusDraft None) (t_polls demo_tables)\<rparr>\<rparr>\<rparr>"

lemma draft_world_facts:
  "world_inv demo_env draft_world" "healthy draft_world"
  "w_stored draft_world ''p'' = Some (demo_poll\<lparr>p_status := PollStatusDraft\<rparr>)"
proof -
  have "tables_ok demo_cod (demo_tables\<lparr>t_polls := map (set_status PollStatusDraft None) (t_polls demo_tables)\<rparr>)"
    using demo_tables_ok by (simp add: tables_ok_def demo_tables_def set_status_def poll_row_ok_def)
  then show "world_inv demo_env draft_world"
    unfolding draft_world_def by (intro world_inv_upd(1) demo_inv) (simp add: pg_inv_def demo_codec_ok, simp add: demo_world_def)
  show "healthy draft_world" by (simp add: draft_world_def healthy_def)
  show "w_stored draft_world ''p'' = Some (demo_poll\<lparr>p_status := PollStatusDraft\<rparr>)"
    by (simp add: draft_world_def w_stored_def pg_stored_def stored_poll_def demo_tables_def set_status_def
        poll_of_row_def options_of_def option_of_row_def demo_poll_def)
qed

theorem activate_effect_witness:
  "\<exists>w'. do_Activate demo_env ''p'' draft_world = (Inr demo_poll, w') \<and> w_stored w' ''p'' = Some demo_poll
     \<and> ''p'' \<in> w_tracked w'"
proof -
  obtain r w' where run: "do_Activate demo_env ''p'' draft_world = (r, w')" by fastforce
  note eff = activate_effect [OF draft_world_facts(1) run]
  then obtain p' where r: "r = Inr p'" using draft_world_facts(2,3) demo_uuid by auto
  with eff obtain p where m: "moved demo_env draft_world w' ''p'' [PollStatusDraft] PollStatusActive p"
    and p': "p' = with_status (pg_time (ev_cod demo_env)) PollStatusActive (clock draft_world) p"
    and tr: "w_tracked w' = insert (p_id p) (w_tracked draft_world)" by auto
  from m have "p = demo_poll\<lparr>p_status := PollStatusDraft\<rparr>" using draft_world_facts(3) by (simp add: moved_def demo_uuid)
  with m p' tr r run show ?thesis
    by (auto simp: moved_def with_status_def demo_poll_def)
qed

lemma finish_facts:
  assumes "world_inv ev w" and "do_Finish ev i w = (r, w')"
  shows "world_inv ev w' \<and> same_ballots ev w w' \<and> w_tracked w' = w_tracked w
    \<and> (w_stored w' = w_stored w \<and> (\<exists>e. r = Inl e \<and> CodeOf e \<in> {CodeNotFound, CodeConflict, CodeUnavailable})
       \<or> (\<exists>p. moved ev w w' i [PollStatusDraft, PollStatusActive] PollStatusFinished p
            \<and> (r = Inr (with_status (pg_time (ev_cod ev)) PollStatusFinished (clock w) p)
               \<or> (\<exists>e. r = Inl e \<and> CodeOf e = CodeUnavailable))))"
  using world_backend.finish_outcome [OF assms(1), of i r w'] assms(2)
  by (simp add: do_Finish_def main_svcs world_backend.kept_def world_backend.moved_def moved_def same_ballots_def)

text \<open>
  C7. Finishing a poll. A draft or an active poll becomes finished and carries the instant
  of the request as its finishing time; a poll that is finished already stays as it is, and
  the answer is an error. Votes, durable counts and tracked polls are untouched.
\<close>

theorem finish_effect:
  assumes "world_inv ev w" and "do_Finish ev i w = (r, w')"
  shows "world_inv ev w' \<and> same_ballots ev w w' \<and> w_tracked w' = w_tracked w
    \<and> (w_stored w' = w_stored w \<and> (\<exists>e. r = Inl e \<and> CodeOf e \<in> {CodeNotFound, CodeConflict, CodeUnavailable})
       \<or> (\<exists>p. moved ev w w' i [PollStatusDraft, PollStatusActive] PollStatusFinished p
            \<and> (r = Inr (with_status (pg_time (ev_cod ev)) PollStatusFinished (clock w) p)
               \<or> (\<exists>e. r = Inl e \<and> CodeOf e = CodeUnavailable))))"
  using finish_facts [OF assms] .

theorem finish_effect_witness:
  "same_ballots demo_env demo_world (snd (do_Finish demo_env ''p'' demo_world))"
  using finish_effect [OF demo_inv surjective_pairing, of "''p''"] by blast

subsection \<open>Reading\<close>

lemma get_facts:
  assumes "world_inv ev w" and "do_Get ev i w = (r, w')"
  shows "world_inv ev w' \<and> same_data ev w w'"
    and "r = Inl e \<Longrightarrow> CodeOf e \<in> {CodeNotFound, CodeUnavailable}"
    and "r = Inr p \<Longrightarrow> ev_valid ev i \<and> serves ev w i p"
  using world_backend.get_outcome [OF assms(1), of i r w'] assms(2)
  by (simp_all add: do_Get_def main_svcs world_backend.same_all_def same_data_def serves_def)

text \<open>What the two sources of a result hold for an option: \<open>dok\<close> and \<open>lok\<close> say which was read.\<close>

definition best_count :: "env \<Rightarrow> world \<Rightarrow> string \<Rightarrow> bool \<Rightarrow> bool \<Rightarrow> string \<Rightarrow> int" where
  "best_count ev w i dok lok j =
     max (if dok then (case Option.bind (pg_uuid (ev_cod ev) i) (\<lambda>c. w_durable w c j) of None \<Rightarrow> 0 | Some v \<Rightarrow> v) else 0)
       (if lok then w_votes ev w i j else 0)"

lemma best_count_shown: "world_backend.shown_count ev = best_count ev"
  by (auto simp: fun_eq_iff world_backend.shown_count_def world_backend.durable_count_def best_count_def
      split: option.splits)

text \<open>
  The counts of an answer against the reads it is made of: the poll comes from the cache, then
  the durable counts are read, then the live ones; the answer needs one of the two reads to
  succeed and shows the larger of the two counts, a failed read counting as nothing.
\<close>

definition merged_results :: "env \<Rightarrow> string \<Rightarrow> world \<Rightarrow> PollResults \<Rightarrow> bool" where
  "merged_results ev i w res \<longleftrightarrow> (\<exists>w1 d w2 l. cache_Poll (main_cache ev) i w = (Inr (res_Poll res), w1)
     \<and> pr_GetResults (main_repo ev) i w1 = (d, w2)
     \<and> fst (vs_Counters (main_store ev) i (OptionIDs (res_Poll res)) w2) = l \<and> \<not> (isl d \<and> isl l)
     \<and> (\<forall>j \<in> set (OptionIDs (res_Poll res)).
          sint (lookup0 (res_Counts res) j) = best_count ev w i (\<not> isl d) (\<not> isl l) j))"

lemma merged_results_best:
  "merged_results ev i w res \<Longrightarrow> \<exists>dok lok. \<forall>j \<in> set (OptionIDs (res_Poll res)).
     sint (lookup0 (res_Counts res) j) = best_count ev w i dok lok j"
  unfolding merged_results_def by blast

text \<open>With both servers answering both counts are read.\<close>

lemma merged_results_live:
  assumes inv: "world_inv ev w" and up: "healthy w" and c: "pg_uuid (ev_cod ev) i = Some c"
    and m: "merged_results ev i w res" and j: "j \<in> set (OptionIDs (res_Poll res))"
  shows "sint (lookup0 (res_Counts res) j) = best_count ev w i True True j"
proof -
  from m obtain w1 d w2 where m: "cache_Poll (main_cache ev) i w = (Inr (res_Poll res), w1)"
      "pr_GetResults (main_repo ev) i w1 = (d, w2)"
    and v: "\<forall>j \<in> set (OptionIDs (res_Poll res)). sint (lookup0 (res_Counts res) j) = best_count ev w i (\<not> isl d)
      (\<not> isl (fst (vs_Counters (main_store ev) i (OptionIDs (res_Poll res)) w2))) j"
    unfolding merged_results_def by blast
  have up1: "healthy w1" using cache_live [OF up, of ev i] m(1) by simp
  have inv1: "world_inv ev w1" using cache_Poll_quiet [OF inv m(1)] by (simp add: quiet_def)
  obtain p where p: "repo_GetResults (ev_cod ev) i (w_pg w1) = (d, p)" "w2 = w1\<lparr>w_pg := p\<rparr>"
    using m(2) by (auto simp: on_pg_def split: prod.splits)
  have d: "\<not> isl d" using results_live [OF _ c p(1)] up1 by (simp add: healthy_def)
  obtain l x where l: "store_Counters (ev_rd ev) (ev_store ev) i (OptionIDs (res_Poll res)) (w_redis w1) = (l, x)"
    by fastforce
  have "\<not> isl l"
    using counters_live [OF _ _ _ l] world_invD(1) [OF inv1] up1 by (auto simp: store_ready_def healthy_def)
  with d v j l p(2) show ?thesis by simp
qed

lemma results_facts:
  assumes "world_inv ev w" and "\<And>j. w_votes ev w i j \<le> max_int64" and "do_Results ev i w = (r, w')"
  shows "world_inv ev w' \<and> same_data ev w w'"
    and "r = Inl e \<Longrightarrow> CodeOf e \<in> {CodeNotFound, CodeUnavailable}"
    and "r = Inr res \<Longrightarrow> ev_valid ev i \<and> serves ev w i (res_Poll res) \<and> merged_results ev i w res
      \<and> fst ` set (res_Counts res) = set (OptionIDs (res_Poll res))
      \<and> res_Total res = (\<Sum>j\<leftarrow>OptionIDs (res_Poll res). lookup0 (res_Counts res) j)"
proof -
  have run: "poll_Results (world_backend.svc ev) i w = (r, w')"
    using assms(3) by (simp add: do_Results_def main_svcs)
  note out = world_backend.results_outcome [OF assms(1,2) run]
  show "world_inv ev w' \<and> same_data ev w w'"
    using out(1) by (simp add: world_backend.same_all_def same_data_def)
  show "r = Inl e \<Longrightarrow> CodeOf e \<in> {CodeNotFound, CodeUnavailable}" using out(2) .
  assume "r = Inr res"
  note ok = out(3) [OF this]
  have "world_backend.merged_reads ev w i res = merged_results ev i w res"
    by (simp add: world_backend.merged_reads_def merged_results_def best_count_shown del: main_simps)
  moreover from this ok have "serves ev w i (res_Poll res)" by (auto simp: serves_def merged_results_def)
  ultimately show "ev_valid ev i \<and> serves ev w i (res_Poll res) \<and> merged_results ev i w res
      \<and> fst ` set (res_Counts res) = set (OptionIDs (res_Poll res))
      \<and> res_Total res = (\<Sum>j\<leftarrow>OptionIDs (res_Poll res). lookup0 (res_Counts res) j)"
    using ok by simp
qed

text \<open>
  C4. Results. They answer for the poll the cache serves, with one count per option: the
  larger of the durable count and the live count, where a source whose read failed counts as
  nothing, and at least one of the two reads succeeded. With both servers answering, both are
  read. The total is the sum of the counts. Reading the results changes no data; an error is
  "not found" or "unavailable".
\<close>

theorem results_effect:
  assumes "world_inv ev w" and "\<And>j. w_votes ev w i j \<le> max_int64" and "do_Results ev i w = (r, w')"
  shows "world_inv ev w' \<and> same_data ev w w'
    \<and> (case r of Inl e \<Rightarrow> CodeOf e \<in> {CodeNotFound, CodeUnavailable}
       | Inr res \<Rightarrow> ev_valid ev i \<and> serves ev w i (res_Poll res)
          \<and> fst ` set (res_Counts res) = set (OptionIDs (res_Poll res))
          \<and> res_Total res = (\<Sum>j\<leftarrow>OptionIDs (res_Poll res). lookup0 (res_Counts res) j)
          \<and> merged_results ev i w res
          \<and> (healthy w \<and> pg_uuid (ev_cod ev) i \<noteq> None \<longrightarrow> (\<forall>j \<in> set (OptionIDs (res_Poll res)).
                sint (lookup0 (res_Counts res) j) = best_count ev w i True True j)))"
proof (cases r)
  case (Inl e)
  with results_facts(1,2) [OF assms] show ?thesis by simp
next
  case (Inr res)
  note facts = results_facts(1) [OF assms] results_facts(3) [OF assms Inr]
  then have "sint (lookup0 (res_Counts res) j) = best_count ev w i True True j"
    if "healthy w" "pg_uuid (ev_cod ev) i = Some c" "j \<in> set (OptionIDs (res_Poll res))" for c j
    using merged_results_live [OF assms(1) that(1,2) _ that(3)] by blast
  with Inr facts show ?thesis by auto
qed

theorem results_effect_witness:
  "same_data demo_env demo_world (snd (do_Results demo_env ''p'' demo_world))"
  using results_effect [OF demo_inv _ surjective_pairing, of "''p''"] by (simp add: demo_votes)

subsection \<open>Synchronising\<close>

text \<open>The live counts of \<open>i\<close> in \<open>w\<close> are durable in \<open>w'\<close>, if the poll exists.\<close>

definition saved :: "env \<Rightarrow> world \<Rightarrow> world \<Rightarrow> string \<Rightarrow> bool" where
  "saved ev w w' i \<longleftrightarrow> (\<exists>c. pg_uuid (ev_cod ev) i = Some c
     \<and> (case w_stored w c of None \<Rightarrow> True
        | Some p \<Rightarrow> \<forall>j \<in> set (OptionIDs p). \<exists>v. w_durable w' c j = Some v \<and> w_votes ev w i j \<le> v))"

definition durable_grows :: "world \<Rightarrow> world \<Rightarrow> bool" where
  "durable_grows w w' \<longleftrightarrow> (\<forall>c j v. w_durable w c j = Some v \<longrightarrow> (\<exists>v'. w_durable w' c j = Some v' \<and> v \<le> v'))"

definition only_live :: "env \<Rightarrow> world \<Rightarrow> world \<Rightarrow> bool" where
  "only_live ev w w' \<longleftrightarrow> (\<forall>c j v. w_durable w' c j = Some v \<longrightarrow> w_durable w c j = Some v
     \<or> (\<exists>i. pg_uuid (ev_cod ev) i = Some c \<and> v = w_votes ev w i j))"

lemma sync_facts:
  assumes "world_inv ev w" and "\<And>i j. w_votes ev w i j \<le> max_int64" and "do_Sync ev w = ((report, err), w')"
  shows "world_inv ev w' \<and> w_stored w' = w_stored w \<and> w_votes ev w' = w_votes ev w \<and> w_voted ev w' = w_voted ev w
    \<and> w_tracked w' \<subseteq> w_tracked w \<and> durable_grows w w' \<and> only_live ev w w'"
    and "err = None \<Longrightarrow> rp_Failed report = 0 \<and> rp_Tracked report = int (card (w_tracked w))
      \<and> (\<forall>i \<in> w_tracked w. saved ev w w' i)"
proof -
  have run: "sync_Sync (world_backend.syncer ev (ev_settle ev)) w = ((report, err), w')"
    using assms(3) by (simp add: do_Sync_def main_svcs)
  note out = world_backend.sync_outcome [OF assms(1,2) run]
  show "world_inv ev w' \<and> w_stored w' = w_stored w \<and> w_votes ev w' = w_votes ev w \<and> w_voted ev w' = w_voted ev w
    \<and> w_tracked w' \<subseteq> w_tracked w \<and> durable_grows w w' \<and> only_live ev w w'"
    using out(1) by (simp add: world_backend.pass_def durable_grows_def only_live_def)
  have "world_backend.covered ev (w_votes ev) w w' = saved ev w w'"
    by (simp add: fun_eq_iff world_backend.covered_def saved_def)
  with out(2) show "err = None \<Longrightarrow> rp_Failed report = 0 \<and> rp_Tracked report = int (card (w_tracked w))
      \<and> (\<forall>i \<in> w_tracked w. saved ev w w' i)" by simp
qed

text \<open>
  C3. The synchronisation pass. It never lowers a durable count, raises one only to the live
  count of the same option, changes no vote and no poll, and tracks no new poll. A pass that
  reports no error has looked at every tracked poll: the live counts of each one that exists
  are durable.
\<close>

theorem sync_effect:
  assumes "world_inv ev w" and "\<And>i j. w_votes ev w i j \<le> max_int64" and "do_Sync ev w = ((report, err), w')"
  shows "world_inv ev w' \<and> w_stored w' = w_stored w \<and> w_votes ev w' = w_votes ev w \<and> w_voted ev w' = w_voted ev w
    \<and> w_tracked w' \<subseteq> w_tracked w \<and> durable_grows w w' \<and> only_live ev w w'
    \<and> (err = None \<longrightarrow> rp_Failed report = 0 \<and> rp_Tracked report = int (card (w_tracked w))
         \<and> (\<forall>i \<in> w_tracked w. saved ev w w' i))"
  using sync_facts [OF assms] by blast

theorem sync_effect_witness:
  "durable_grows demo_world (snd (do_Sync demo_env demo_world))
     \<and> w_tracked (snd (do_Sync demo_env demo_world)) \<subseteq> w_tracked demo_world"
proof -
  obtain report err w' where run: "do_Sync demo_env demo_world = ((report, err), w')"
    by (metis prod.collapse)
  have "w_votes demo_env demo_world i j \<le> max_int64" for i j by (simp add: demo_votes max_int64_nonneg)
  from sync_effect [OF demo_inv this run] run show ?thesis by simp
qed

end
