(* ===== verification/System.thy ===== *)
theory System
  imports Requests
begin

text \<open>
  Runs of the deployed system: any interleaving of requests, synchronisation passes, the
  passage of time, restarts of the process, outages of the servers (new fates for their
  calls) and the loss of everything Redis holds. The properties are about every run of any
  length: what stays invariant, how a poll can evolve, and that no count is lost or
  invented.
\<close>

subsection \<open>Steps\<close>

datatype event =
    EvCast VoteCommand "goerror + unit"
  | EvCreate CreatePollCommand "goerror + poll"
  | EvActivate string "goerror + poll"
  | EvFinish string "goerror + poll"
  | EvGet string "goerror + poll"
  | EvResults string "goerror + PollResults"
  | EvList int int "goerror + PollPage"
  | EvSync Report "goerror option"
  | EvTick instant
  | EvBoot
  | EvNet "fate list" "pg_fate list"
  | EvRedisLoss

definition tick :: "instant \<Rightarrow> world \<Rightarrow> world" where
  "tick t w = w\<lparr>w_redis := (w_redis w)\<lparr>rs_now := t\<rparr>\<rparr>"

definition renet :: "fate list \<Rightarrow> pg_fate list \<Rightarrow> world \<Rightarrow> world" where
  "renet fs gs w = w\<lparr>w_redis := (w_redis w)\<lparr>rs_fates := fs\<rparr>, w_pg := (w_pg w)\<lparr>pg_fates := gs\<rparr>\<rparr>"

definition redis_loss :: "world \<Rightarrow> world" where
  "redis_loss w = w\<lparr>w_redis := (w_redis w)\<lparr>rs_db := Map.empty\<rparr>\<rparr>"

inductive sys_step :: "env \<Rightarrow> event \<Rightarrow> world \<Rightarrow> world \<Rightarrow> bool" for ev where
  cast: "do_Cast ev cmd w = (r, w') \<Longrightarrow> sys_step ev (EvCast cmd r) w w'"
| create: "do_Create ev cmd w = (r, w') \<Longrightarrow> sys_step ev (EvCreate cmd r) w w'"
| activate: "do_Activate ev i w = (r, w') \<Longrightarrow> sys_step ev (EvActivate i r) w w'"
| finish: "do_Finish ev i w = (r, w') \<Longrightarrow> sys_step ev (EvFinish i r) w w'"
| get: "do_Get ev i w = (r, w') \<Longrightarrow> sys_step ev (EvGet i r) w w'"
| results: "do_Results ev i w = (r, w') \<Longrightarrow> sys_step ev (EvResults i r) w w'"
| list: "do_List ev l k w = (r, w') \<Longrightarrow> sys_step ev (EvList l k r) w w'"
| sync: "do_Sync ev w = ((report, err), w') \<Longrightarrow> sys_step ev (EvSync report err) w w'"
| clock: "clock w \<le> t \<Longrightarrow> sys_step ev (EvTick t) w (tick t w)"
| restart: "sys_step ev EvBoot w (boot ev w)"
| net: "sys_step ev (EvNet fs gs) w (renet fs gs w)"
| loss: "sys_step ev EvRedisLoss w (redis_loss w)"

inductive_cases castE: "sys_step ev (EvCast cmd r) w w'"
inductive_simps step_simps: "sys_step ev EvRedisLoss w w'" "sys_step ev EvBoot w w'" "sys_step ev (EvTick t) w w'"

inductive run :: "env \<Rightarrow> world \<Rightarrow> event list \<Rightarrow> world \<Rightarrow> bool" for ev w where
  stay: "run ev w [] w"
| more: "run ev w es w1 \<Longrightarrow> sys_step ev e w1 w2 \<Longrightarrow> run ev w (es @ [e]) w2"

text \<open>A fresh deployment: an empty database after the migration, an empty Redis, a new process.\<close>

definition fresh_start :: "env \<Rightarrow> world \<Rightarrow> bool" where
  "fresh_start ev w \<longleftrightarrow> redis_ok (ev_rd ev) \<and> codec_ok (ev_cod ev) \<and> json_ok (ev_json ev)
     \<and> store_config_ok (ev_store ev) \<and> config_ok (ev_cache ev)
     \<and> (\<forall>n. pg_uuid (ev_cod ev) (ev_uuid ev n) = Some (ev_uuid ev n))
     \<and> pg_tables (w_pg w) = empty_tables \<and> pg_txs (w_pg w) = Map.empty
     \<and> rs_db (w_redis w) = Map.empty \<and> w_local w = New_Cache ev"

lemma kv_empty [simp]: "kv now Map.empty k = None"
  by (simp add: kv_def)

lemma empty_redis:
  assumes "rs_db st = Map.empty"
  shows "store_inv st" "store_votes cfg st i j = 0"
  using assms by (simp_all add: store_inv_def counts_ok_def store_votes_def count_at_def)

lemma fresh_inv:
  assumes "fresh_start ev w"
  shows "world_inv ev w"
proof -
  have "tables_ok (ev_cod ev) empty_tables" by (simp add: tables_ok_def empty_tables_def)
  with assms show ?thesis
    by (simp add: fresh_start_def world_inv_def base_inv_def store_ready_def pg_inv_def tier_inv_def
        New_Cache_def NewTTL_ok empty_redis)
qed

subsection \<open>Every step keeps the invariant\<close>

text \<open>Time only ends lifetimes: what a key holds later it holds now, or nothing.\<close>

lemma kv_later: "now \<le> t \<Longrightarrow> kv t db k \<in> {kv now db k, None}"
  by (auto simp: kv_def split: option.splits)

lemma store_inv_later:
  assumes "store_inv st" and "rs_now st \<le> t"
  shows "store_inv (st\<lparr>rs_now := t\<rparr>)"
proof -
  have "counts_ok t (rs_db st) k" if "counts_ok (rs_now st) (rs_db st) k" for k
    using that kv_later [OF assms(2), of "rs_db st" k] by (auto simp: counts_ok_def)
  with assms kv_later [OF assms(2), of "rs_db st" trackedPollsKey] show ?thesis
    by (auto simp: store_inv_def)
qed

lemma votes_later:
  assumes "store_inv st" and "rs_now st \<le> t"
  shows "store_votes cfg (st\<lparr>rs_now := t\<rparr>) i j \<le> store_votes cfg st i j"
  unfolding store_votes_def
proof (rule sum_list_mono)
  fix s
  let ?k = "countsKey (tagForShard i s)"
  have "count_at t (rs_db st) ?k j \<in> {count_at (rs_now st) (rs_db st) ?k j, 0}"
    using kv_later [OF assms(2), of "rs_db st" ?k] by (auto simp: count_at_def)
  moreover have "0 \<le> count_at (rs_now st) (rs_db st) ?k j"
    using assms(1) by (simp add: store_inv_def count_at_nonneg)
  ultimately show "count_at (rs_now (st\<lparr>rs_now := t\<rparr>)) (rs_db (st\<lparr>rs_now := t\<rparr>)) ?k j
      \<le> count_at (rs_now st) (rs_db st) ?k j" by auto
qed

text \<open>The environment's steps touch neither the database nor, upwards, the votes.\<close>

lemma env_steps:
  assumes "world_inv ev w"
  shows "clock w \<le> t \<Longrightarrow> world_inv ev (tick t w) \<and> w_votes ev (tick t w) i j \<le> w_votes ev w i j"
    and "world_inv ev (boot ev w) \<and> w_votes ev (boot ev w) = w_votes ev w"
    and "world_inv ev (renet fs gs w) \<and> w_votes ev (renet fs gs w) = w_votes ev w"
    and "world_inv ev (redis_loss w) \<and> w_votes ev (redis_loss w) i j = 0"
proof -
  note inv = assms [unfolded world_inv_def base_inv_def store_ready_def]
  show "world_inv ev (tick t w) \<and> w_votes ev (tick t w) i j \<le> w_votes ev w i j" if "clock w \<le> t"
    using inv that store_inv_later votes_later
    by (simp add: tick_def world_inv_def base_inv_def store_ready_def tier_inv_def views)
  show "world_inv ev (boot ev w) \<and> w_votes ev (boot ev w) = w_votes ev w"
    using inv by (simp add: boot_quiet world_inv_def base_inv_def store_ready_def) (simp add: boot_def New_Cache_def NewTTL_ok views)
  show "world_inv ev (renet fs gs w) \<and> w_votes ev (renet fs gs w) = w_votes ev w"
    using inv by (simp add: renet_def world_inv_def base_inv_def store_ready_def tier_inv_def pg_inv_def
        store_inv_def views store_votes_def [abs_def])
  show "world_inv ev (redis_loss w) \<and> w_votes ev (redis_loss w) i j = 0"
    using inv by (simp add: redis_loss_def world_inv_def base_inv_def store_ready_def tier_inv_def views
        empty_redis)
qed

lemma env_tables:
  "pg_tables (w_pg (tick t w)) = pg_tables (w_pg w)" "pg_tables (w_pg (boot ev w)) = pg_tables (w_pg w)"
  "pg_tables (w_pg (renet fs gs w)) = pg_tables (w_pg w)" "pg_tables (w_pg (redis_loss w)) = pg_tables (w_pg w)"
  by (simp_all add: tick_def boot_def renet_def redis_loss_def)

text \<open>Listing only reads.\<close>

lemma list_pg:
  "pg_txs (snd (repo_CountPolls s)) = pg_txs s" "pg_txs (snd (repo_ListPollPage l k s)) = pg_txs s"
  "pg_txs (snd (repo_ListOptionsByPollIDs cod ids s)) = pg_txs s"
  by (auto simp: repo_CountPolls_def repo_ListPollPage_def repo_ListOptionsByPollIDs_def pg_query_def
      split: go_try_splits pg_fate.splits)

lemma list_facts:
  assumes "world_inv ev w"
  shows "world_inv ev (snd (do_List ev l k w)) \<and> w_redis (snd (do_List ev l k w)) = w_redis w"
  unfolding do_List_def
  by (rule poll_List_keeps [where P = "\<lambda>v. world_inv ev v \<and> w_redis v = w_redis w"])
    (use assms in \<open>auto simp: world_inv_def base_inv_def pg_inv_def list_pg\<close>)

end
