(* ===== verification/Histories.thy ===== *)
theory Histories
  imports System
begin

text \<open>
  What holds along every run: votes are counted at most once per ballot, durable counts never
  shrink and never exceed the ballots, polls only move forward, and a clean synchronisation
  pass makes the counted votes safe against everything that happens later. Each fact about a
  run is the induction over its steps; the facts about steps come from \<open>Requests\<close>.
\<close>

subsection \<open>Ballots of a run\<close>

text \<open>The request may have been counted: it was accepted, or its answer leaves that open.\<close>

fun may_count :: "event \<Rightarrow> string \<Rightarrow> string \<Rightarrow> bool" where
  "may_count (EvCast cmd r) i j \<longleftrightarrow> vc_PollID cmd = i \<and> j \<in> set (vc_OptionIDs cmd)
     \<and> (case r of Inl e \<Rightarrow> CodeOf e \<in> {CodeAlreadyVoted, CodeUnavailable} | Inr u \<Rightarrow> True)"
| "may_count _ i j \<longleftrightarrow> False"

text \<open>The request was accepted.\<close>

fun accepted :: "event \<Rightarrow> string \<Rightarrow> string \<Rightarrow> bool" where
  "accepted (EvCast cmd (Inr u)) i j \<longleftrightarrow> vc_PollID cmd = i \<and> j \<in> set (vc_OptionIDs cmd)"
| "accepted _ i j \<longleftrightarrow> False"

definition tally :: "(event \<Rightarrow> bool) \<Rightarrow> event list \<Rightarrow> int" where
  "tally P es = int (length (filter P es))"

text \<open>Ballots under any spelling of the poll's id.\<close>

definition names_poll :: "env \<Rightarrow> string \<Rightarrow> string \<Rightarrow> event \<Rightarrow> bool" where
  "names_poll ev c j e \<longleftrightarrow> (\<exists>i. pg_uuid (ev_cod ev) i = Some c \<and> may_count e i j)"

lemma tally_simps [simp]:
  "tally P [] = 0" "tally P (es @ [e]) = tally P es + (if P e then 1 else 0)" "0 \<le> tally P es"
  by (simp_all add: tally_def)

lemma tally_append: "tally P (es @ fs) = tally P es + tally P fs"
  by (simp add: tally_def)

lemma tally_mono: "(\<And>e. P e \<Longrightarrow> Q e) \<Longrightarrow> tally P es \<le> tally Q es"
  by (induction es) (auto simp: tally_def)

lemma tally_length: "tally P es \<le> int (length es)"
  by (simp add: tally_def)

text \<open>The events after which Redis may hold less than before.\<close>

fun forgetful :: "event \<Rightarrow> bool" where
  "forgetful (EvTick t) = True"
| "forgetful EvRedisLoss = True"
| "forgetful _ = False"

subsection \<open>One step\<close>

text \<open>
  A poll's way through its states: the configuration stays, the status only moves forward,
  and a poll whose status stays is the same poll.
\<close>

fun stage :: "poll_status \<Rightarrow> nat" where
  "stage s = (if s = PollStatusDraft then 0 else if s = PollStatusActive then 1 else 2)"

definition evolves :: "poll \<Rightarrow> poll \<Rightarrow> bool" where
  "evolves p p' \<longleftrightarrow> (\<exists>s f. p' = p\<lparr>p_status := s, p_finished_at := f\<rparr>)
     \<and> stage (p_status p) \<le> stage (p_status p') \<and> (stage (p_status p) = stage (p_status p') \<longrightarrow> p' = p)"

lemma evolves_refl [simp]: "evolves p p"
proof -
  have "p = p\<lparr>p_status := p_status p, p_finished_at := p_finished_at p\<rparr>" by simp
  then show ?thesis unfolding evolves_def by blast
qed

lemma evolves_trans:
  assumes "evolves p q" and "evolves q r"
  shows "evolves p r"
proof -
  have "stage (p_status p) \<le> stage (p_status r)" using assms unfolding evolves_def by (meson order_trans)
  moreover have "\<exists>s f. r = p\<lparr>p_status := s, p_finished_at := f\<rparr>"
    using assms unfolding evolves_def by (elim conjE exE) (simp del: stage.simps, blast)
  moreover have "r = p" if "stage (p_status p) = stage (p_status r)"
    using assms that unfolding evolves_def by (metis le_antisym)
  ultimately show ?thesis by (simp only: evolves_def) blast
qed

lemma evolves_moves:
  "p_status p = PollStatusDraft \<Longrightarrow> evolves p (with_status stamp PollStatusActive t p)"
  "p_status p \<in> {PollStatusDraft, PollStatusActive} \<Longrightarrow> evolves p (with_status stamp PollStatusFinished t p)"
  by (auto simp: evolves_def with_status_def)

text \<open>The stored polls and the durable counts after one step.\<close>

definition onward :: "world \<Rightarrow> world \<Rightarrow> bool" where
  "onward w w' \<longleftrightarrow> (\<forall>c p. w_stored w c = Some p \<longrightarrow> (\<exists>p'. w_stored w' c = Some p' \<and> evolves p p'))"

lemma onward_refl [simp]: "w_stored w' = w_stored w \<Longrightarrow> onward w w'"
  by (simp add: onward_def)

lemma onward_trans: "onward w w1 \<Longrightarrow> onward w1 w2 \<Longrightarrow> onward w w2"
  unfolding onward_def by (meson evolves_trans)

lemma onward_moved:
  "moved ev w w' i [PollStatusDraft] PollStatusActive p \<Longrightarrow> onward w w'"
  "moved ev w w' i [PollStatusDraft, PollStatusActive] PollStatusFinished p \<Longrightarrow> onward w w'"
  using evolves_moves by (auto simp: moved_def onward_def)

lemma grows_refl [simp]: "w_durable w' = w_durable w \<Longrightarrow> durable_grows w w'"
  by (simp add: durable_grows_def)

lemma grows_trans: "durable_grows w w1 \<Longrightarrow> durable_grows w1 w2 \<Longrightarrow> durable_grows w w2"
  unfolding durable_grows_def by (meson order_trans)

text \<open>
  The effect of a step. \<open>more\<close> are the votes the step may add.
\<close>

definition step_ok :: "env \<Rightarrow> event \<Rightarrow> world \<Rightarrow> world \<Rightarrow> bool" where
  "step_ok ev e w w' \<longleftrightarrow> world_inv ev w' \<and> onward w w' \<and> durable_grows w w'
     \<and> w_tracked w' \<subseteq> w_tracked w \<union> {i. pg_uuid (ev_cod ev) i = Some i}
     \<and> (\<forall>i j. w_votes ev w' i j \<le> w_votes ev w i j + (if may_count e i j then 1 else 0))
     \<and> (\<not> forgetful e \<longrightarrow> (\<forall>i j. w_votes ev w i j + (if accepted e i j then 1 else 0) \<le> w_votes ev w' i j))
     \<and> (\<forall>c j v. w_durable w' c j = Some v \<longrightarrow> w_durable w c j = Some v \<or> v = 0
          \<or> (\<exists>i. pg_uuid (ev_cod ev) i = Some c \<and> v = w_votes ev w i j))"

text \<open>Steps that change neither votes nor durable counts.\<close>

lemma step_ok_plain:
  assumes "world_inv ev w'" and "onward w w'" and "w_durable w' = w_durable w" and "w_votes ev w' = w_votes ev w"
    and "w_tracked w' \<subseteq> w_tracked w \<union> {i. pg_uuid (ev_cod ev) i = Some i}" and "\<And>i j. \<not> accepted e i j"
  shows "step_ok ev e w w'"
  using assms by (simp add: step_ok_def)

lemma cast_step:
  assumes "world_inv ev w" and "room ev w (vc_PollID cmd)" and "do_Cast ev cmd w = (r, w')"
  shows "step_ok ev (EvCast cmd r) w w'"
proof -
  note facts = cast_facts [OF assms]
  show ?thesis
  proof (cases r)
    case (Inl e)
    with facts show ?thesis by (auto simp: step_ok_def recorded_def)
  next
    case (Inr u)
    with facts show ?thesis by (auto simp: step_ok_def recorded_def)
  qed
qed

lemma create_step:
  assumes "world_inv ev w" and "do_Create ev cmd w = (r, w')"
  shows "step_ok ev (EvCreate cmd r) w w'"
proof -
  note facts = create_facts [OF assms]
  then consider "w_stored w' = w_stored w" "w_durable w' = w_durable w"
    | p where "w_stored w (p_id p) = None" "w_stored w' = (w_stored w)(p_id p \<mapsto> stamped (pg_time (ev_cod ev)) p)"
      "w_durable w' = zeroed p (w_durable w)" by blast
  then show ?thesis
  proof cases
    case 1
    with facts show ?thesis by (intro step_ok_plain) auto
  next
    case 2
    have "w_durable w (p_id p) j = None" for j
      using world_repo.durable_known [of ev w "p_id p"] 2(1) assms(1)
      by (cases "w_durable w (p_id p) j") auto
    then have "durable_grows w w'" using 2(3) by (auto simp: durable_grows_def zeroed_def)
    moreover have "onward w w'" using 2(1,2) by (auto simp: onward_def)
    ultimately show ?thesis using facts 2(3) by (auto simp: step_ok_def zeroed_def split: if_splits)
  qed
qed

lemma turn_step:
  assumes "world_inv ev w"
  shows "do_Activate ev i w = (r, w') \<Longrightarrow> step_ok ev (EvActivate i r) w w'"
    and "do_Finish ev i w = (r, w') \<Longrightarrow> step_ok ev (EvFinish i r) w w'"
proof -
  assume run: "do_Activate ev i w = (r, w')"
  note facts = activate_facts [OF assms run]
  then have "onward w w'" using onward_moved(1) onward_refl by metis
  moreover have "w_tracked w' \<subseteq> w_tracked w \<union> {i. pg_uuid (ev_cod ev) i = Some i}"
  proof -
    have canon: "pg_uuid (ev_cod ev) (p_id p) = Some (p_id p)"
      if "moved ev w w' i [PollStatusDraft] PollStatusActive p" for p
      using that world_repo.stored_ok [OF assms, of "p_id p" p] by (simp add: moved_def stored_poll_ok_def)
    from facts have "w_tracked w' = w_tracked w
      \<or> (\<exists>p. moved ev w w' i [PollStatusDraft] PollStatusActive p \<and> w_tracked w' = insert (p_id p) (w_tracked w))"
      by blast
    with canon show ?thesis by auto
  qed
  moreover have "world_inv ev w'" "same_ballots ev w w'" using facts by blast+
  ultimately show "step_ok ev (EvActivate i r) w w'" by (intro step_ok_plain) (simp_all add: same_ballots_def)
next
  assume run: "do_Finish ev i w = (r, w')"
  note facts = finish_facts [OF assms run]
  then have "onward w w'" using onward_moved(2) onward_refl by metis
  moreover have "world_inv ev w'" "same_ballots ev w w'" "w_tracked w' = w_tracked w" using facts by blast+
  ultimately show "step_ok ev (EvFinish i r) w w'" by (intro step_ok_plain) (simp_all add: same_ballots_def)
qed

lemma sync_step:
  assumes "world_inv ev w" and "\<And>i j. w_votes ev w i j \<le> max_int64" and "do_Sync ev w = ((report, err), w')"
  shows "step_ok ev (EvSync report err) w w'"
  using sync_facts(1) [OF assms] by (auto simp: step_ok_def only_live_def)

lemma same_data_step:
  "world_inv ev w' \<Longrightarrow> same_data ev w w' \<Longrightarrow> (\<And>i j. \<not> accepted e i j) \<Longrightarrow> step_ok ev e w w'"
  by (intro step_ok_plain) (simp_all add: same_data_def)

lemma list_same: "world_inv ev w \<Longrightarrow> same_data ev w (snd (do_List ev l k w))"
  using list_facts [of ev w l k] same_tables_views [OF reads_tables(4) [of ev l k w]]
  by (simp add: same_data_def views)

lemma env_step:
  assumes "world_inv ev w"
  shows "clock w \<le> t \<Longrightarrow> step_ok ev (EvTick t) w (tick t w)" "step_ok ev EvBoot w (boot ev w)"
    "step_ok ev (EvNet fs gs) w (renet fs gs w)" "step_ok ev EvRedisLoss w (redis_loss w)"
proof -
  note env = env_steps [OF assms]
  note same = same_tables_views [OF env_tables(1)] same_tables_views [OF env_tables(2)]
    same_tables_views [OF env_tables(3)] same_tables_views [OF env_tables(4)]
  have tracked: "w_tracked (tick t w) \<subseteq> w_tracked w" if "clock w \<le> t"
    using kv_later [OF that [unfolded clock_def], of "rs_db (w_redis w)" trackedPollsKey]
    by (auto simp: tick_def views store_tracked_members members_of_def)
  have tracked': "w_tracked (boot ev w) = w_tracked w" "w_tracked (renet fs gs w) = w_tracked w"
    "w_tracked (redis_loss w) = {}"
    by (simp_all add: boot_def renet_def redis_loss_def views store_tracked_def)
  have nonneg: "0 \<le> w_votes ev w i j" for i j
    using assms by (simp add: world_store.votes_nonneg)
  show "clock w \<le> t \<Longrightarrow> step_ok ev (EvTick t) w (tick t w)" using env(1) same(1) tracked tracked' by (auto simp: step_ok_def)
  show "step_ok ev EvBoot w (boot ev w)" using env(2) same(2) tracked tracked' by (auto simp: step_ok_def)
  show "step_ok ev (EvNet fs gs) w (renet fs gs w)" using env(3) same(3) tracked tracked' by (auto simp: step_ok_def)
  show "step_ok ev EvRedisLoss w (redis_loss w)" using env(4) same(4) nonneg tracked' by (simp add: step_ok_def)
qed

lemma sys_step_ok:
  assumes "sys_step ev e w w'" and inv: "world_inv ev w" and room: "\<And>i j. w_votes ev w i j < max_int64"
  shows "step_ok ev e w w'"
  using assms(1)
proof cases
  case (cast cmd r)
  then show ?thesis using cast_step [OF inv _ cast(2)] room by (simp add: room_def)
next
  case (create cmd r)
  then show ?thesis using create_step [OF inv create(2)] by simp
next
  case (activate i r)
  then show ?thesis using turn_step(1) [OF inv activate(2)] by simp
next
  case (finish i r)
  then show ?thesis using turn_step(2) [OF inv finish(2)] by simp
next
  case (get i r)
  then show ?thesis using get_facts(1) [OF inv get(2)] by (simp add: same_data_step)
next
  case (results i r)
  then show ?thesis using results_facts(1) [OF inv _ results(2)] room by (simp add: same_data_step less_imp_le)
next
  case (list l k r)
  then show ?thesis using list_facts [OF inv, of l k] list_same [OF inv, of l k] by (simp add: same_data_step)
next
  case (sync report err)
  then show ?thesis using sync_step [OF inv _ sync(2)] room by (simp add: less_imp_le)
qed (use env_step [OF inv] in simp_all)

subsection \<open>Whole runs\<close>

text \<open>A run is short enough when no counter can reach the last int64 value in it.\<close>

definition roomy :: "env \<Rightarrow> world \<Rightarrow> event list \<Rightarrow> bool" where
  "roomy ev w es \<longleftrightarrow> (\<forall>i j. w_votes ev w i j + int (length es) \<le> max_int64)"

lemma roomy_prefix:
  assumes "roomy ev w (es @ fs)"
  shows "roomy ev w es"
  unfolding roomy_def
proof (intro allI)
  fix i j
  have "w_votes ev w i j + int (length (es @ fs)) \<le> max_int64" using assms unfolding roomy_def by blast
  then show "w_votes ev w i j + int (length es) \<le> max_int64" by simp
qed

lemmas roomy_butlast = roomy_prefix [where fs = "[e]" for e]

definition run_ok :: "env \<Rightarrow> event list \<Rightarrow> world \<Rightarrow> world \<Rightarrow> bool" where
  "run_ok ev es w w' \<longleftrightarrow> world_inv ev w' \<and> onward w w' \<and> durable_grows w w'
     \<and> (\<forall>i j. w_votes ev w' i j \<le> w_votes ev w i j + tally (\<lambda>e. may_count e i j) es)"

lemma run_ok_room:
  assumes "run_ok ev es w w1" and "roomy ev w (es @ [e])"
  shows "w_votes ev w1 i j < max_int64"
proof -
  have "w_votes ev w1 i j \<le> w_votes ev w i j + tally (\<lambda>e. may_count e i j) es"
    using assms(1) by (simp add: run_ok_def)
  also have "\<dots> \<le> w_votes ev w i j + int (length es)" by (simp add: tally_length)
  also have "\<dots> < w_votes ev w i j + int (length (es @ [e]))" by simp
  also have "\<dots> \<le> max_int64" using assms(2) unfolding roomy_def by blast
  finally show ?thesis .
qed

lemma run_ok_step:
  assumes "run_ok ev es w w1" and "step_ok ev e w1 w2"
  shows "run_ok ev (es @ [e]) w w2"
proof -
  have "w_votes ev w2 i j \<le> w_votes ev w i j + tally (\<lambda>e. may_count e i j) (es @ [e])" for i j
  proof -
    have "w_votes ev w2 i j \<le> w_votes ev w1 i j + (if may_count e i j then 1 else 0)"
      using assms(2) unfolding step_ok_def by blast
    moreover have "w_votes ev w1 i j \<le> w_votes ev w i j + tally (\<lambda>e. may_count e i j) es"
      using assms(1) unfolding run_ok_def by blast
    ultimately show ?thesis by simp
  qed
  moreover have "world_inv ev w2 \<and> onward w w2 \<and> durable_grows w w2"
    using assms onward_trans grows_trans unfolding run_ok_def step_ok_def by blast
  ultimately show ?thesis by (simp only: run_ok_def simp_thms)
qed

lemma run_oks:
  assumes "run ev w es w'" and "world_inv ev w" and "roomy ev w es"
  shows "run_ok ev es w w'"
  using assms(1,3)
proof (induction rule: run.induct)
  case stay
  then show ?case using assms(2) by (simp add: run_ok_def)
next
  case (more es w1 e w2)
  then have "run_ok ev es w w1" using roomy_butlast by blast
  moreover from this have "step_ok ev e w1 w2"
    using sys_step_ok [OF more.hyps(2)] run_ok_room [OF _ more.prems] by (simp add: run_ok_def)
  ultimately show ?case by (rule run_ok_step)
qed

lemma run_split:
  assumes "run ev w (es @ fs) w'"
  obtains v where "run ev w es v" and "run ev v fs w'"
proof -
  have "\<exists>v. run ev w es v \<and> run ev v fs w'" using assms
  proof (induction fs arbitrary: w' rule: rev_induct)
    case Nil
    then show ?case by (auto intro: run.stay)
  next
    case (snoc f fs)
    from snoc.prems obtain w1 where "run ev w (es @ fs) w1" and st: "sys_step ev f w1 w'"
      by (cases rule: run.cases) auto
    with snoc.IH obtain v where "run ev w es v" "run ev v fs w1" by blast
    with st show ?case using run.more by blast
  qed
  with that show ?thesis by blast
qed

lemma roomy_parts:
  assumes "run_ok ev es w v" and "roomy ev w (es @ fs)"
  shows "roomy ev w es" and "roomy ev v fs"
proof -
  have all: "w_votes ev w i j + int (length es) + int (length fs) \<le> max_int64" for i j
    using assms(2) by (simp add: roomy_def add.assoc)
  then show "roomy ev w es" unfolding roomy_def
    by (meson add_increasing2 of_nat_0_le_iff order_trans le_add_same_cancel1)
  have "w_votes ev v i j \<le> w_votes ev w i j + int (length es)" for i j
    using assms(1) tally_length [of "\<lambda>e. may_count e i j" es] unfolding run_ok_def by (meson add_left_mono order_trans)
  with all show "roomy ev v fs" unfolding roomy_def by (meson add_right_mono order_trans)
qed

text \<open>
  A deployment before the first vote: no live vote, durable counts of 0, and every tracked id
  in the spelling of the database. A fresh deployment is one.
\<close>

definition unvoted :: "env \<Rightarrow> world \<Rightarrow> bool" where
  "unvoted ev w \<longleftrightarrow> world_inv ev w \<and> (\<forall>i j. w_votes ev w i j = 0)
     \<and> (\<forall>c j v. w_durable w c j = Some v \<longrightarrow> v = 0) \<and> w_tracked w \<subseteq> {i. pg_uuid (ev_cod ev) i = Some i}"

lemma fresh_unvoted:
  assumes "fresh_start ev w"
  shows "unvoted ev w"
proof -
  have t: "pg_tables (w_pg w) = empty_tables" "rs_db (w_redis w) = Map.empty"
    using assms by (simp_all add: fresh_start_def)
  then have "w_votes ev w i j = 0" "w_durable w c j = None" "w_tracked w = {}" for i j c
    by (simp_all add: views empty_redis pg_durable_def empty_tables_def store_tracked_def)
  with fresh_inv [OF assms] show ?thesis by (simp add: unvoted_def)
qed

lemma demo_unvoted: "unvoted demo_env demo_world"
proof -
  have "w_durable demo_world c j = Some v \<Longrightarrow> v = 0" for c j v
    by (auto simp: views pg_durable_def demo_tables_def split: if_splits)
  moreover have "w_tracked demo_world = {''p''}" by (simp add: views store_tracked_def kv_def)
  ultimately show ?thesis by (simp add: unvoted_def demo_inv demo_votes demo_uuid)
qed

lemma unvoted_roomy: "unvoted ev w \<Longrightarrow> int (length es) \<le> max_int64 \<Longrightarrow> roomy ev w es"
  by (simp add: roomy_def unvoted_def)

lemma unvoted_inv: "unvoted ev w \<Longrightarrow> world_inv ev w"
  by (simp add: unvoted_def)

subsection \<open>The properties of runs\<close>

text \<open>
  C10. Everything a run keeps. From any state that satisfies the invariant, after any
  interleaving of requests, synchronisation passes, restarts, outages, passing time and even
  the loss of Redis, the invariant holds again; every poll is still there with the same
  question, options, limit and schedule, and its status has only moved forward from draft to
  active to finished; and no durable count has shrunk.
\<close>

theorem run_keeps:
  assumes "run ev w es w'" and "world_inv ev w" and "roomy ev w es"
  shows "world_inv ev w' \<and> durable_grows w w'
    \<and> (\<forall>c p. w_stored w c = Some p \<longrightarrow> (\<exists>p'. w_stored w' c = Some p' \<and> evolves p p'))"
  using run_oks [OF assms] by (simp add: run_ok_def onward_def)

lemma demo_run:
  "run demo_env demo_world [EvCast demo_vote (Inr ()), EvRedisLoss]
     (redis_loss (snd (do_Cast demo_env demo_vote demo_world)))"
proof -
  have "do_Cast demo_env demo_vote demo_world = (Inr (), snd (do_Cast demo_env demo_vote demo_world))"
    using demo_cast by (metis prod.collapse)
  from run.more [OF run.more [OF run.stay sys_step.cast [OF this]] sys_step.loss] show ?thesis by simp
qed

lemma demo_roomy: "roomy demo_env demo_world [EvCast demo_vote r, e]"
  by (simp add: roomy_def demo_votes max_int64_def)

theorem run_keeps_witness:
  "\<exists>p'. w_stored (redis_loss (snd (do_Cast demo_env demo_vote demo_world))) ''p'' = Some p' \<and> evolves demo_poll p'"
  using run_keeps [OF demo_run demo_inv demo_roomy] demo_stored by blast

text \<open>
  No count without a ballot: in a run from a fresh deployment, the live count of an option
  is at most the number of ballots naming it that were not plainly refused, and a durable
  count is at most the number of those ballots over all spellings of the poll's id.
\<close>

definition counts_backed :: "env \<Rightarrow> event list \<Rightarrow> world \<Rightarrow> bool" where
  "counts_backed ev es w \<longleftrightarrow> (\<forall>i j. w_votes ev w i j \<le> tally (\<lambda>e. may_count e i j) es)
     \<and> (\<forall>c j v. w_durable w c j = Some v \<longrightarrow> 0 \<le> v \<and> v \<le> tally (names_poll ev c j) es)"

lemma names_poll_more:
  "pg_uuid (ev_cod ev) i = Some c \<Longrightarrow> tally (\<lambda>e. may_count e i j) es \<le> tally (names_poll ev c j) es"
  by (rule tally_mono) (auto simp: names_poll_def)

lemma backed_runs:
  assumes "run ev w es w'" and "unvoted ev w" and "int (length es) \<le> max_int64"
  shows "counts_backed ev es w' \<and> world_inv ev w'"
  using assms(1,3)
proof (induction rule: run.induct)
  case stay
  then show ?case using assms(2) unfolding counts_backed_def unvoted_def by force
next
  case (more es w1 e w2)
  then have bk: "counts_backed ev es w1" and inv: "world_inv ev w1" by simp_all
  note ok = run_oks [OF run.more [OF more.hyps] unvoted_inv [OF assms(2)] unvoted_roomy [OF assms(2) more.prems]]
  have room: "w_votes ev w1 i j < max_int64" for i j
  proof -
    have "w_votes ev w1 i j \<le> tally (\<lambda>e. may_count e i j) es" using bk unfolding counts_backed_def by blast
    also have "\<dots> \<le> int (length es)" by (rule tally_length)
    also have "\<dots> < max_int64" using more.prems by simp
    finally show ?thesis .
  qed
  have st: "step_ok ev e w1 w2" using sys_step_ok [OF more.hyps(2) inv room] .
  have live: "w_votes ev w2 i j \<le> tally (\<lambda>e. may_count e i j) (es @ [e])" for i j
    using ok assms(2) by (simp add: run_ok_def unvoted_def)
  have dur: "0 \<le> v \<and> v \<le> tally (names_poll ev c j) (es @ [e])" if "w_durable w2 c j = Some v" for c j v
  proof -
    have grow: "tally (names_poll ev c j) es \<le> tally (names_poll ev c j) (es @ [e])" by simp
    consider "w_durable w1 c j = Some v" | "v = 0" | i where "pg_uuid (ev_cod ev) i = Some c" "v = w_votes ev w1 i j"
      using st \<open>w_durable w2 c j = Some v\<close> unfolding step_ok_def by blast
    then show ?thesis
    proof cases
      case 1
      with bk have "0 \<le> v \<and> v \<le> tally (names_poll ev c j) es" unfolding counts_backed_def by blast
      with grow show ?thesis by simp
    next
      case 2
      then show ?thesis by (simp del: tally_simps(2))
    next
      case (3 i)
      have "w_votes ev w1 i j \<le> tally (\<lambda>e. may_count e i j) es" using bk unfolding counts_backed_def by blast
      with names_poll_more [OF 3(1), of j es] grow 3(2) world_store.votes_nonneg [OF inv, of i j]
      show ?thesis by (simp del: tally_simps(2))
    qed
  qed
  from live dur ok show ?case by (simp add: counts_backed_def run_ok_def)
qed

text \<open>
  C11. Nothing is published without ballots. In a run from a deployment without votes, each count of a
  results answer is at most the number of ballots for that option, under any spelling of the
  poll's id, that the service accepted or answered with "already voted" or "unavailable".
\<close>

theorem published_counts_backed:
  assumes "unvoted ev w" and "run ev w es w1" and "int (length es) < max_int64"
    and "pg_uuid (ev_cod ev) i = Some c" and "do_Results ev i w1 = (Inr res, w2)"
    and "j \<in> set (OptionIDs (res_Poll res))"
  shows "0 \<le> sint (lookup0 (res_Counts res) j)
    \<and> sint (lookup0 (res_Counts res) j) \<le> tally (names_poll ev c j) es"
proof -
  from backed_runs [OF assms(2,1)] assms(3) have inv: "world_inv ev w1" and bk: "counts_backed ev es w1" by simp_all
  have live: "w_votes ev w1 i k \<le> tally (\<lambda>e. may_count e i k) es" for k
    using bk unfolding counts_backed_def by blast
  have "w_votes ev w1 i k \<le> max_int64" for k
    using live [of k] tally_length [of "\<lambda>e. may_count e i k" es] assms(3) by simp
  from results_facts(3) [OF inv this assms(5)] merged_results_best assms(6) obtain dok lok
    where v: "sint (lookup0 (res_Counts res) j) = best_count ev w1 i dok lok j" by blast
  have "0 \<le> u \<and> u \<le> tally (names_poll ev c j) es" if "w_durable w1 c j = Some u" for u
    using bk that unfolding counts_backed_def by blast
  moreover have "w_votes ev w1 i j \<le> tally (names_poll ev c j) es"
    using live [of j] names_poll_more [OF assms(4), of j es] by simp
  moreover have "0 \<le> w_votes ev w1 i j" using inv by (rule world_store.votes_nonneg)
  ultimately show ?thesis
    unfolding v by (auto simp: best_count_def assms(4) split: option.split)
qed

lemma demo_results:
  "\<exists>res w'. do_Results demo_env ''p'' demo_world = (Inr res, w') \<and> res_Poll res = demo_poll"
proof -
  obtain l where l: "cache_Poll (main_cache demo_env) ''p'' demo_world
      = (Inr demo_poll, demo_world\<lparr>w_pg := pg_tick (w_pg demo_world), w_local := l\<rparr>)" (is "_ = (_, ?w)")
    using demo_served by blast
  have get: "poll_Get (main_polls demo_env) ''p'' demo_world = (Inr demo_poll, ?w)"
    using l by (simp add: poll_Get_def main_polls_def)
  obtain m s' where "pr_GetResults (main_repo demo_env) ''p'' ?w = (Inr m, s')"
    by (simp add: repo_GetResults_def pg_query_def pg_fate_of_def pg_tick_def uuid_arg_def demo_uuid on_pg_def)
  then show ?thesis unfolding do_Results_def poll_Results_def main_wiring get go_try_Inr
    by (auto split: prod.splits sum.splits)
qed

theorem published_counts_backed_witness:
  "\<exists>res w'. do_Results demo_env ''p'' demo_world = (Inr res, w') \<and> sint (lookup0 (res_Counts res) ''a'') = 0"
proof -
  obtain res w' where run: "do_Results demo_env ''p'' demo_world = (Inr res, w')" and p: "res_Poll res = demo_poll"
    using demo_results by blast
  have "0 \<le> sint (lookup0 (res_Counts res) ''a'')
      \<and> sint (lookup0 (res_Counts res) ''a'') \<le> tally (names_poll demo_env ''p'' ''a'') []"
    by (rule published_counts_backed [OF demo_unvoted run.stay _ _ run])
      (simp_all add: p demo_poll_def OptionIDs_def demo_uuid max_int64_def)
  with run show ?thesis by auto
qed

end
