(* ===== verification/Redis_Keeps.thy ===== *)
theory Redis_Keeps
  imports Histories
begin

text \<open>
  What keeps the contents of Redis as they are: a property of the Redis state that every
  operation of the vote store and of the shared cache tier keeps is kept by every request,
  by the synchronisation pass and by every run in which Redis loses nothing.
\<close>

subsection \<open>Reads\<close>

lemma get_frame:
  assumes "redis_ok rd"
  shows "snd (rd_GET rd now k db) = db"
proof -
  have "case kv now db k of None \<Rightarrow> rd_GET rd now k db = (Inr None, db)
      | Some (RString s) \<Rightarrow> rd_GET rd now k db = (Inr (Some s), db)
      | Some _ \<Rightarrow> (\<exists>e. rd_GET rd now k db = (Inl e, db))"
    using redis_okD(8) [OF assms] unfolding string_law_def by blast
  then show ?thesis by (auto split: option.splits rvalue.splits)
qed

lemma smembers_frame: "redis_ok rd \<Longrightarrow> snd (rd_SMEMBERS rd now k db) = db"
  using redis_write_frame(7) [of rd _ "_ # _"] by (intro ext) (metis list.distinct(1) not_Cons_self2)

subsection \<open>Requests\<close>

definition redis_kept :: "env \<Rightarrow> (redis_state \<Rightarrow> bool) \<Rightarrow> bool" where
  "redis_kept ev P \<longleftrightarrow> (\<forall>st. P st \<longrightarrow>
     (\<forall>g. P (snd (store_Guard (ev_rd ev) (ev_store ev) g st)))
     \<and> (\<forall>b. hash_ok (b_VoterHash b) \<longrightarrow> P (snd (store_CastBallot (ev_rd ev) (ev_store ev) b st)))
     \<and> (\<forall>p ids. P (snd (store_Counters (ev_rd ev) (ev_store ev) p ids st)))
     \<and> (\<forall>p. P (snd (store_TrackPoll (ev_rd ev) p st))) \<and> (\<forall>p. P (snd (store_UntrackPoll (ev_rd ev) p st)))
     \<and> P (snd (store_TrackedPolls (ev_rd ev) st))
     \<and> (\<forall>k. P (snd (rstore_Get (ev_rd ev) (ev_json ev) k st)))
     \<and> (\<forall>k en ttl. P (snd (rstore_Set (ev_rd ev) (ev_json ev) k en ttl st)))
     \<and> (\<forall>k. P (snd (rstore_Delete (ev_rd ev) k st))))"

lemma redis_keptD:
  assumes "redis_kept ev P" and "P st"
  shows "P (snd (store_Guard (ev_rd ev) (ev_store ev) g st))"
    "hash_ok (b_VoterHash b) \<Longrightarrow> P (snd (store_CastBallot (ev_rd ev) (ev_store ev) b st))"
    "P (snd (store_Counters (ev_rd ev) (ev_store ev) p ids st))" "P (snd (store_TrackPoll (ev_rd ev) p st))"
    "P (snd (store_UntrackPoll (ev_rd ev) p st))" "P (snd (store_TrackedPolls (ev_rd ev) st))"
    "P (snd (rstore_Get (ev_rd ev) (ev_json ev) k st))" "P (snd (rstore_Set (ev_rd ev) (ev_json ev) k en ttl st))"
    "P (snd (rstore_Delete (ev_rd ev) k st))"
  using assms by (simp_all add: redis_kept_def)

text \<open>Casting hands the store one ballot, under a hash of the voter.\<close>

lemma vote_Cast_keeps_ballot:
  assumes "P s" and "\<And>i s. P s \<Longrightarrow> P (snd (pl_Poll (vsv_polls svc) i s))"
    and "\<And>g s. P s \<Longrightarrow> P (snd (vs_Guard (vsv_store svc) g s))"
    and "\<And>s. P s \<Longrightarrow> P (snd (vs_CastBallot (vsv_store svc) (cast_ballot_of cmd) s))"
  shows "P (snd (vote_Cast valid svc cmd s))"
  unfolding vote_Cast_def cast_ballot_def using assms
  by (auto intro!: go_try_snd [where P = P] split: sum.split simp: Let_def cast_ballot_of_def)

lemma cache_Poll_redis:
  assumes "redis_kept ev P" and "P (w_redis w)"
  shows "P (w_redis (snd (cache_Poll (main_cache ev) k w)))"
  by (rule cache_Poll_keeps [where P = "\<lambda>v. P (w_redis v)"])
    (use assms(2) redis_keptD [OF assms(1)] in \<open>simp_all add: local_Get_def local_Set_def case_prod_beta\<close>)

lemma kept_requests:
  assumes k: "redis_kept ev P" and c: "P (w_redis w)"
  shows "P (w_redis (snd (do_Cast ev cmd w)))" "P (w_redis (snd (do_Create ev ccmd w)))"
    "P (w_redis (snd (do_Activate ev k w)))" "P (w_redis (snd (do_Finish ev k w)))"
    "P (w_redis (snd (do_Get ev k w)))" "P (w_redis (snd (do_Results ev k w)))"
    "P (w_redis (snd (do_List ev l n w)))" "P (w_redis (snd (do_Sync ev w)))"
proof -
  let ?P = "\<lambda>v. P (w_redis v)"
  note kept = redis_keptD [OF k]
  note poll = cache_Poll_redis [OF k]
  have inval: "?P (snd (cache_Invalidate (main_cache ev) k v))" if "?P v" for k v
    by (rule cache_Invalidate_keeps [where P = ?P]) (use that kept in \<open>simp_all add: local_Delete_def\<close>)
  have new: "?P (snd (store_new (main_repo ev) p v))" if "?P v" for p v
    using that by (simp add: main_repo_def store_new_on_pg)
  have tr: "?P (snd (poll_transition (main_polls ev) k fr to v))" if "?P v" for k fr to v
    by (rule poll_transition_keeps [where P = ?P]) (use that in simp_all)
  show "?P (snd (do_Cast ev cmd w))" unfolding request_defs
    by (rule vote_Cast_keeps_ballot [where P = ?P]) (use c poll kept VoterHash_ok in simp_all)
  show "?P (snd (do_Create ev ccmd w))" unfolding request_defs
    by (rule poll_Create_keeps [where P = ?P]) (use c new in \<open>simp_all add: NewString_def\<close>)
  show "?P (snd (do_Activate ev k w))" unfolding request_defs
    by (rule poll_Activate_keeps [where P = ?P]) (use c tr inval kept in simp_all)
  show "?P (snd (do_Finish ev k w))" unfolding request_defs
    by (rule poll_Finish_keeps [where P = ?P]) (use c tr inval kept in simp_all)
  show "?P (snd (do_Get ev k w))" unfolding request_defs
    by (rule poll_Get_keeps [where P = ?P]) (use c poll in simp_all)
  show "?P (snd (do_Results ev k w))" unfolding request_defs
    by (rule poll_Results_keeps [where P = ?P]) (use c poll kept in simp_all)
  show "?P (snd (do_List ev l n w))" unfolding request_defs
    by (rule poll_List_keeps [where P = ?P]) (use c in simp_all)
  show "?P (snd (do_Sync ev w))" unfolding request_defs
    by (rule sync_Sync_keeps [where P = ?P]) (use c kept in simp_all)
qed

text \<open>An accepted ballot passed the cache, the guard and the store.\<close>

lemma cast_parts:
  assumes "do_Cast ev cmd w = (Inr u, w')"
  obtains p w1 v w2 where "cache_Poll (main_cache ev) (vc_PollID cmd) w = (Inr p, w1)"
    and "vs_Guard (main_store ev) \<lparr>g_ClientIP = vc_ClientIP cmd, g_PollID = vc_PollID cmd\<rparr> w1 = (Inr v, w2)"
    and "v \<noteq> VerdictRateLimited" and "v \<noteq> VerdictQuotaExceeded"
    and "vs_CastBallot (main_store ev) (cast_ballot_of cmd) w2 = (Inr (), w')"
  using assms by (auto simp: do_Cast_def vote_Cast_def cast_ballot_def cast_ballot_of_def go_try_eq_Inr
      simp del: main_simps split: if_splits sum.splits) (metis sum.exhaust old.unit.exhaust)+

subsection \<open>Runs\<close>

text \<open>The clock never runs backwards.\<close>

lemma step_clock: "sys_step ev e w w' \<Longrightarrow> clock w \<le> clock w'"
  by (induction rule: sys_step.induct)
    (use request_clock in \<open>auto simp: tick_def boot_def renet_def redis_loss_def clock_def
        dest!: arg_cong [where f = snd]\<close>)

lemma run_clock: "run ev w es w' \<Longrightarrow> clock w \<le> clock w'"
  by (induction rule: run.induct) (auto dest: step_clock)

text \<open>
  The property may speak of the time but not of the coming fates, and has to last as long
  as the run does.
\<close>

lemma kept_step:
  assumes "sys_step ev e w w'" and "redis_kept ev P" and "P (w_redis w)" and "e \<noteq> EvRedisLoss"
    and later: "\<And>st t. P st \<Longrightarrow> rs_now st \<le> t \<Longrightarrow> t \<le> clock w' \<Longrightarrow> P (st\<lparr>rs_now := t\<rparr>)"
    and net: "\<And>st fs. P st \<Longrightarrow> P (st\<lparr>rs_fates := fs\<rparr>)"
  shows "P (w_redis w')"
  using assms(1)
proof cases
  case (clock t)
  with later [OF assms(3), of t] show ?thesis by (simp add: tick_def clock_def)
next
  case restart
  with assms(3) show ?thesis by (simp add: boot_def)
next
  case (net fs gs)
  with assms(6) [OF assms(3), of fs] show ?thesis by (simp add: renet_def)
next
  case loss
  with assms(4) show ?thesis by simp
qed (use kept_requests [OF assms(2,3)] in \<open>metis snd_conv\<close>)+

lemma kept_run:
  assumes "run ev w es w'" and "redis_kept ev P" and "P (w_redis w)" and "EvRedisLoss \<notin> set es"
    and later: "\<And>st t. P st \<Longrightarrow> rs_now st \<le> t \<Longrightarrow> t \<le> clock w' \<Longrightarrow> P (st\<lparr>rs_now := t\<rparr>)"
    and net: "\<And>st fs. P st \<Longrightarrow> P (st\<lparr>rs_fates := fs\<rparr>)"
  shows "P (w_redis w')"
  using assms(1,4) later
proof (induction rule: run.induct)
  case stay
  then show ?case using assms(3) by simp
next
  case (more es w1 e w2)
  have "clock w1 \<le> clock w2" using step_clock [OF more.hyps(2)] .
  with more.prems have "P (w_redis w1)" by (intro more.IH) auto
  from kept_step [OF more.hyps(2) assms(2) this _ more.prems(2) net] more.prems(1) show ?case by auto
qed

end
