(* ===== verification/Dedup.thy ===== *)
theory Dedup
  imports Redis_Keeps
begin

text \<open>
  One vote per device, in time: the marker that an accepted ballot leaves in Redis, how long
  it lasts, and that nothing but the loss of Redis removes it earlier. The frames say that
  no operation of the store or of the cache tier touches a marker that is in force.
\<close>

subsection \<open>The marker\<close>

definition claim_key :: "env \<Rightarrow> string \<Rightarrow> string \<Rightarrow> string" where
  "claim_key ev i h = votedKey (shardTag (ev_store ev) i h) h"

definition claim :: "env \<Rightarrow> string \<Rightarrow> string \<Rightarrow> instant \<Rightarrow> redis_state \<Rightarrow> bool" where
  "claim ev i h d st \<longleftrightarrow> rs_db st (claim_key ev i h) = Some (RString ''1'', Some d) \<and> rs_now st < d"

text \<open>When the marker of a ballot accepted at \<open>t\<close> ends.\<close>

definition dedup_end :: "env \<Rightarrow> instant \<Rightarrow> instant" where
  "dedup_end ev t = t + whole_seconds (sc_DedupTTL (ev_store ev)) * second"

lemma claim_voted: "claim ev i h d st \<Longrightarrow> store_voted (ev_store ev) st i h"
  by (simp add: claim_def claim_key_def store_voted_def kv_def)

lemma claim_apart:
  assumes "hash_ok h"
  shows "claim_key ev i h \<noteq> countsKey (tagForShard p n)" "claim_key ev i h \<noteq> trackedPollsKey"
    "claim_key ev i h \<noteq> keyPrefix @ k" "claim_key ev i h \<noteq> ipTag ip @ s"
  using key_apart assms by (simp_all add: claim_key_def shardTag_def)

text \<open>A command that leaves the marker's key alone, or leaves every database with it alone.\<close>

lemma claim_call:
  assumes "claim ev i h d st"
    and "\<And>db. db (claim_key ev i h) = Some (RString ''1'', Some d) \<Longrightarrow>
      snd (cmd (rs_now st) db) (claim_key ev i h) = Some (RString ''1'', Some d)"
  shows "claim ev i h d (snd (redis_call cmd st))"
  using assms
    redis_call_invariant [where P = "\<lambda>db. db (claim_key ev i h) = Some (RString ''1'', Some d)" and cmd = cmd and st = st]
  by (simp add: claim_def)

lemma claim_cast_script:
  assumes ok: "redis_ok rd" and h: "hash_ok h" and pos: "0 < ttl" and now: "now < d"
    and db: "db (claim_key ev i h) = Some (RString ''1'', Some d)"
  shows "snd (castBallotScript rd voted (countsKey (tagForShard p n)) ttl ret ids now db) (claim_key ev i h)
    = Some (RString ''1'', Some d)"
proof (cases "voted = claim_key ev i h")
  case True
  have "kv now db voted \<noteq> None" using db now True by (simp add: kv_def)
  with cast_script_again [OF ok pos this] db show ?thesis by simp
next
  case False
  with cast_script_frame [OF ok, of "claim_key ev i h" voted "countsKey (tagForShard p n)"] claim_apart(1) [OF h] db
  show ?thesis by auto
qed

text \<open>Every operation of the store and of the cache tier keeps a marker in force.\<close>

lemma claim_store:
  assumes c: "claim ev i h d st" and ok: "redis_ok rd" and cfg: "store_config_ok cfg" and h: "hash_ok h"
  shows "claim ev i h d (snd (store_Guard rd cfg g st))" "claim ev i h d (snd (store_CastBallot rd cfg b st))"
    "claim ev i h d (snd (store_Counters rd cfg p ids st))" "claim ev i h d (snd (store_TrackPoll rd p st))"
    "claim ev i h d (snd (store_UntrackPoll rd p st))" "claim ev i h d (snd (store_TrackedPolls rd st))"
proof -
  note apart = claim_apart [OF h] and now = c [unfolded claim_def]
  have pos: "0 < whole_seconds (sc_DedupTTL cfg)"
    using cfg by (auto simp: store_config_ok_def intro: whole_seconds_pos)
  show "claim ev i h d (snd (store_Guard rd cfg g st))"
    unfolding store_Guard_def Let_def
    by (rule go_try_snd [where P = "claim ev i h d"], rule claim_call [OF c])
      (simp_all add: guard_script_frame [OF ok] apart)
  show "claim ev i h d (snd (store_CastBallot rd cfg b st))"
    unfolding store_CastBallot_def Let_def shardTag_def using c
    by (auto intro!: go_try_snd [where P = "claim ev i h d"] claim_call [OF c] claim_cast_script [OF ok h pos]
        simp: now)
  show "claim ev i h d (snd (store_Counters rd cfg p ids st))"
    unfolding store_Counters_def
    by (rule go_try_snd [where P = "claim ev i h d"], rule claim_call [OF c])
      (simp_all add: hgetall_shards_frame [OF ok])
  show "claim ev i h d (snd (store_TrackPoll rd p st))" unfolding store_TrackPoll_def
    by (rule go_try_snd [where P = "claim ev i h d"], rule claim_call [OF c])
      (simp_all add: redis_write_frame [OF ok] apart)
  show "claim ev i h d (snd (store_UntrackPoll rd p st))" unfolding store_UntrackPoll_def
    by (rule go_try_snd [where P = "claim ev i h d"], rule claim_call [OF c])
      (simp_all add: redis_write_frame [OF ok] apart)
  show "claim ev i h d (snd (store_TrackedPolls rd st))" unfolding store_TrackedPolls_def
    by (rule go_try_snd [where P = "claim ev i h d"], rule claim_call [OF c])
      (simp_all add: smembers_frame [OF ok])
qed

lemma claim_tier:
  assumes c: "claim ev i h d st" and ok: "redis_ok rd" and h: "hash_ok h"
  shows "claim ev i h d (snd (rstore_Get rd js k st))" "claim ev i h d (snd (rstore_Set rd js k en ttl st))"
    "claim ev i h d (snd (rstore_Delete rd k st))"
proof -
  note apart = claim_apart [OF h]
  show "claim ev i h d (snd (rstore_Get rd js k st))"
    unfolding rstore_Get_def
    by (rule go_try_snd [where P = "claim ev i h d"], rule claim_call [OF c])
      (auto simp: get_frame [OF ok] split: option.split)
  have "claim ev i h d st'" if "rs_now st' = rs_now st" "rs_db st' = rs_db st \<or> (\<exists>k x. rs_db st' = (rs_db st)(keyPrefix @ k := x))" for st'
    using that c apart(3) by (auto simp: claim_def)
  with rstore_Set_cases [OF ok surjective_pairing, of js k en ttl st] rstore_Delete_cases [OF ok surjective_pairing, of k st]
  show "claim ev i h d (snd (rstore_Set rd js k en ttl st))" "claim ev i h d (snd (rstore_Delete rd k st))"
    by blast+
qed

subsection \<open>Runs\<close>

lemma claim_kept:
  assumes "redis_ok (ev_rd ev)" and "store_config_ok (ev_store ev)" and "hash_ok h"
  shows "redis_kept ev (claim ev i h d)"
  using claim_store [OF _ assms] claim_tier [OF _ assms(1,3)] by (simp add: redis_kept_def)

lemma claim_run:
  assumes "run ev w es w'" and "claim ev i h d (w_redis w)" and "EvRedisLoss \<notin> set es" and "clock w' < d"
    and "redis_ok (ev_rd ev)" and "store_config_ok (ev_store ev)" and "hash_ok h"
  shows "claim ev i h d (w_redis w')"
  by (rule kept_run [OF assms(1) claim_kept [OF assms(5-7)] assms(2,3)]) (use assms(4) in \<open>auto simp: claim_def\<close>)

subsection \<open>Where markers come from\<close>

lemma script_claims:
  assumes ok: "redis_ok rd" and pos: "0 < ttl" and apart: "voted \<noteq> counts"
    and run: "castBallotScript rd voted counts ttl ret ids now db = (Inr 1, db')"
  shows "db' voted = Some (RString ''1'', Some (now + ttl * second))"
proof -
  let ?P = "\<lambda>d. d voted = Some (RString ''1'', Some (now + ttl * second))"
  have free: "kv now db voted = None"
    using run redis_set_nx [OF ok pos, of now voted "''1''" db] by (auto simp: castBallotScript_def split: if_splits)
  let ?db = "db(voted \<mapsto> (RString ''1'', Some (now + ttl * second)))"
  have set: "rd_SET_NX_EX rd now voted ''1'' ttl db = (Inr True, ?db)"
    using redis_set_nx [OF ok pos, of now voted "''1''" db] free by simp
  have "?P (snd (castBallotScript rd voted counts ttl ret ids now db))"
    unfolding castBallotScript_def set go_try_Inr
    by (simp, intro go_try_snd [where P = ?P])
      (auto simp: redis_exists [OF ok] hincr_all_frame [OF ok apart] redis_expire_frame [OF ok apart])
  with run show ?thesis by simp
qed

lemma store_claims:
  assumes ok: "redis_ok rd" and cfg: "store_config_ok (ev_store ev)" and h: "hash_ok (b_VoterHash b)"
    and run: "store_CastBallot rd (ev_store ev) b st = (Inr u, st')"
  shows "claim ev (b_PollID b) (b_VoterHash b) (dedup_end ev (rs_now st)) st'"
proof -
  have pos: "0 < whole_seconds (sc_DedupTTL (ev_store ev))"
    using cfg by (auto simp: store_config_ok_def intro: whole_seconds_pos)
  obtain q st1 where call: "redis_call (cast_cmd rd (ev_store ev) b) st = (q, st1)" by fastforce
  note res = cast_result [OF cfg call run]
  have q: "q = Inr 1" using res(2,4) by (cases q) force+
  from call [unfolded q] obtain db0 where
    "cast_cmd rd (ev_store ev) b (rs_now st) db0 = (Inr 1, rs_db st1)" and now: "rs_now st1 = rs_now st"
    by (auto simp: redis_call_def Let_def split: fate.splits prod.splits if_splits)
  then have "castBallotScript rd (claim_key ev (b_PollID b) (b_VoterHash b))
      (countsKey (shardTag (ev_store ev) (b_PollID b) (b_VoterHash b)))
      (whole_seconds (sc_DedupTTL (ev_store ev))) (whole_seconds (sc_CounterRetention (ev_store ev)))
      (b_OptionIDs b) (rs_now st) db0 = (Inr 1, rs_db st1)"
    by (simp add: cast_cmd_def Let_def claim_key_def)
  from script_claims [OF ok pos _ this] claim_apart(1) [OF h] pos now res(1) show ?thesis
    by (simp add: claim_def dedup_end_def shardTag_def second_def)
qed

lemma cast_claims:
  assumes inv: "world_inv ev w" and run: "do_Cast ev cmd w = (Inr u, w')"
  shows "claim ev (vc_PollID cmd) (voter cmd) (dedup_end ev (clock w)) (w_redis w')"
proof -
  have ok: "redis_ok (ev_rd ev)" and cfg: "store_config_ok (ev_store ev)"
    using inv by (simp_all add: world_inv_def base_inv_def store_ready_def)
  obtain p w1 v w2 where p: "cache_Poll (main_cache ev) (vc_PollID cmd) w = (Inr p, w1)"
    and g: "vs_Guard (main_store ev) \<lparr>g_ClientIP = vc_ClientIP cmd, g_PollID = vc_PollID cmd\<rparr> w1 = (Inr v, w2)"
    and c: "vs_CastBallot (main_store ev) (cast_ballot_of cmd) w2 = (Inr (), w')"
    by (rule cast_parts [OF run])
  have now: "clock w2 = clock w"
    using cache_clock(1) [of ev "vc_PollID cmd" w] port_clock(1) [of ev "\<lparr>g_ClientIP = vc_ClientIP cmd, g_PollID = vc_PollID cmd\<rparr>" w1] unfolding p g by simp
  obtain d where d: "store_CastBallot (ev_rd ev) (ev_store ev) (cast_ballot_of cmd) (w_redis w2) = (Inr (), d)"
    "w' = w2\<lparr>w_redis := d\<rparr>" using c by (auto simp: on_redis_eq)
  from store_claims [OF ok cfg _ d(1)] VoterHash_ok now d(2) show ?thesis
    by (simp add: voter_def clock_def)
qed

subsection \<open>The properties\<close>

text \<open>
  C14. One vote per device, over time. Once a ballot is accepted, a later ballot under the
  same spelling of the poll's id and the same token is refused and counted nowhere, whatever
  requests, passes, restarts and outages come between, as long as Redis loses no data and the
  deduplication time has not run out.
\<close>

theorem dedup_window:
  assumes "world_inv ev w" and "roomy ev w (EvCast c1 (Inr u) # es @ [EvCast c2 r])"
    and "do_Cast ev c1 w = (Inr u, w1)" and "run ev w1 es w2" and "EvRedisLoss \<notin> set es"
    and "clock w2 < dedup_end ev (clock w)"
    and "vc_PollID c2 = vc_PollID c1" and "vc_VoterToken c2 = vc_VoterToken c1" and "do_Cast ev c2 w2 = (r, w3)"
  shows "(\<exists>e. r = Inl e) \<and> w_votes ev w3 = w_votes ev w2 \<and> w_voted ev w3 = w_voted ev w2"
proof -
  have ok: "redis_ok (ev_rd ev)" and cfg: "store_config_ok (ev_store ev)"
    using assms(1) by (simp_all add: world_inv_def base_inv_def store_ready_def)
  have room: "roomy ev w ([EvCast c1 (Inr u)] @ (es @ [EvCast c2 r]))" using assms(2) by simp
  have first: "run ev w [EvCast c1 (Inr u)] w1" using run.more [OF run.stay sys_step.cast [OF assms(3)]] by simp
  note ok1 = run_oks [OF first assms(1) roomy_prefix [OF room]]
  note room1 = roomy_parts(2) [OF ok1 room]
  have inv1: "world_inv ev w1" using ok1 by (simp add: run_ok_def)
  note ok2 = run_oks [OF assms(4) inv1 roomy_butlast [OF room1]]
  have room2: "room ev w2 (vc_PollID c2)" using run_ok_room [OF ok2 room1] by (simp add: room_def)
  have "claim ev (vc_PollID c1) (voter c1) (dedup_end ev (clock w)) (w_redis w2)"
    using claim_run [OF assms(4) cast_claims [OF assms(1,3)] assms(5,6) ok cfg] VoterHash_ok by (simp add: voter_def)
  then have "w_voted ev w2 (vc_PollID c2) (voter c2)"
    using claim_voted VoterHash_ok assms(7,8) by (simp add: w_voted_def voted_ok_def voter_def)
  with cast_facts [OF _ room2 assms(9)] ok2 show ?thesis by (auto simp: recorded_def run_ok_def)
qed

theorem dedup_window_witness:
  "\<exists>w1 e. do_Cast demo_env demo_vote demo_world = (Inr (), w1)
     \<and> fst (do_Cast demo_env demo_vote (boot demo_env (tick 2000 w1))) = Inl e"
proof -
  define w1 where "w1 = snd (do_Cast demo_env demo_vote demo_world)"
  have cast: "do_Cast demo_env demo_vote demo_world = (Inr (), w1)"
    using demo_cast unfolding w1_def by (metis prod.collapse)
  have "clock w1 = 1000" using request_clock(1) [of demo_env demo_vote demo_world] by (simp add: w1_def clock_def)
  then have more: "run demo_env w1 [EvTick 2000, EvBoot] (boot demo_env (tick 2000 w1))"
    using run.more [OF run.more [OF run.stay sys_step.clock [of w1 2000]] sys_step.restart] by simp
  have "clock (boot demo_env (tick 2000 w1)) < dedup_end demo_env (clock demo_world)"
    by (simp add: clock_def boot_def tick_def dedup_end_def demo_env_def whole_seconds_def second_def)
  moreover obtain r w3 where again: "do_Cast demo_env demo_vote (boot demo_env (tick 2000 w1)) = (r, w3)" by fastforce
  moreover have "roomy demo_env demo_world (EvCast demo_vote (Inr ()) # [EvTick 2000, EvBoot] @ [EvCast demo_vote r])"
    by (simp add: roomy_def demo_votes max_int64_def)
  ultimately show ?thesis using dedup_window [OF demo_inv _ cast more _ _ refl refl again] cast by auto
qed

text \<open>
  C15. The limit of the deduplication. With no other event, the voter of an accepted ballot
  counts as having voted exactly until the deduplication time after it; from then on the
  service would count the same device again, however long the poll stays open.
\<close>

theorem dedup_ends:
  assumes "world_inv ev w" and "do_Cast ev cmd w = (Inr u, w')" and "clock w' \<le> t"
  shows "w_voted ev (tick t w') (vc_PollID cmd) (voter cmd) \<longleftrightarrow> t < dedup_end ev (clock w)"
proof -
  have "claim ev (vc_PollID cmd) (voter cmd) (dedup_end ev (clock w)) (w_redis w')"
    using cast_claims [OF assms(1,2)] .
  then show ?thesis
    using VoterHash_ok by (auto simp: claim_def claim_key_def tick_def w_voted_def voted_ok_def store_voted_def kv_def voter_def)
qed

theorem dedup_ends_witness:
  "\<exists>w'. do_Cast demo_env demo_vote demo_world = (Inr (), w')
     \<and> \<not> w_voted demo_env (tick (dedup_end demo_env 1000) w') ''p'' (voter demo_vote)"
proof -
  define w' where "w' = snd (do_Cast demo_env demo_vote demo_world)"
  have cast: "do_Cast demo_env demo_vote demo_world = (Inr (), w')"
    using demo_cast unfolding w'_def by (metis prod.collapse)
  have "clock w' = 1000" using request_clock(1) [of demo_env demo_vote demo_world] by (simp add: w'_def clock_def)
  then have "clock w' \<le> dedup_end demo_env 1000"
    by (simp add: dedup_end_def demo_env_def whole_seconds_def second_def)
  from dedup_ends [OF demo_inv cast this] cast show ?thesis by (simp add: clock_def demo_vote_def)
qed

end
