(* ===== verification/Retention.thy ===== *)
theory Retention
  imports Redis_Keeps
begin

text \<open>
  How long the counters of a poll live. The cast script gives a counter its retention time when
  it creates it and never renews it, so a counter ends a fixed time after the first vote of its
  shard. Until then no vote leaves it: as long as Redis loses nothing and no counter reaches its
  end, every accepted ballot stays counted, however much time passes.
\<close>

subsection \<open>The ends of the counters\<close>

definition retention :: "env \<Rightarrow> int" where
  "retention ev = whole_seconds (sc_CounterRetention (ev_store ev)) * second"

text \<open>What lies at \<open>k\<close> has ended at \<open>s\<close> already, or outlives \<open>u\<close>.\<close>

definition due :: "instant \<Rightarrow> instant \<Rightarrow> rdb \<Rightarrow> string \<Rightarrow> bool" where
  "due s u db k \<longleftrightarrow> (\<forall>v d. db k = Some (v, Some d) \<longrightarrow> d \<le> s \<or> u < d)"

definition lasts :: "instant \<Rightarrow> instant \<Rightarrow> redis_state \<Rightarrow> bool" where
  "lasts s u st \<longleftrightarrow> s \<le> rs_now st \<and> (\<forall>i n. due s u (rs_db st) (countsKey (tagForShard i n)))"

text \<open>
  No counter comes to its end up to the time \<open>u\<close>: not one that exists, and not one that is
  created from now on.
\<close>

definition lasting :: "env \<Rightarrow> redis_state \<Rightarrow> instant \<Rightarrow> bool" where
  "lasting ev st u \<longleftrightarrow> u < rs_now st + retention ev \<and> lasts (rs_now st) u st"

lemma due_upd [simp]:
  "due s u (db(k \<mapsto> (v, None))) k" "due s u (db(k := None)) k"
  "due s u (db(k \<mapsto> (v, Some d))) k \<longleftrightarrow> d \<le> s \<or> u < d" "k' \<noteq> k \<Longrightarrow> due s u (db(k := x)) k' \<longleftrightarrow> due s u db k'"
  by (auto simp: due_def)

lemma due_cong: "db' k = db k \<Longrightarrow> due s u db k \<Longrightarrow> due s u db' k"
  by (simp add: due_def)

lemma due_same_deadline: "due s u db k \<Longrightarrow> db k \<noteq> None \<Longrightarrow> due s u (db(k \<mapsto> (v, deadline db k))) k"
  by (auto simp: due_def deadline_def)

subsection \<open>The commands\<close>

lemma hincrby_due:
  assumes "redis_ok rd" and "due s u db k"
  shows "due s u (snd (rd_HINCRBY rd now k' f n db)) k"
proof (cases "k' = k")
  case True
  have some: "kv now db k = Some x \<Longrightarrow> db k \<noteq> None" for x by (cases "db k") (simp_all add: kv_def)
  show ?thesis
    using redis_okD(5) [OF assms(1), unfolded hincrby_law_def, THEN spec [of _ now], THEN spec [of _ k],
        THEN spec [of _ f], THEN spec [of _ n], THEN spec [of _ db]] assms(2) some due_same_deadline [OF assms(2)]
    by (auto simp: True split: option.splits rvalue.splits)
next
  case False
  then show ?thesis using redis_write_frame(3) [OF assms(1)] assms(2) by (metis due_cong)
qed

lemma hincr_all_due:
  assumes "redis_ok rd" and "due s u db k"
  shows "due s u (snd (hincr_all rd k' ids now db)) k"
  using assms(2)
proof (induction ids arbitrary: db)
  case (Cons i ids)
  then show ?case
    using hincrby_due [OF assms(1)] by (auto intro!: go_try_snd [where P = "\<lambda>d. due s u d k"])
qed simp

lemma expire_due:
  assumes "redis_ok rd" and "due s u db k" and "u < now + t * second"
  shows "due s u (snd (rd_EXPIRE rd now k' t db)) k"
proof (cases "k' = k")
  case True
  show ?thesis
    using redis_okD(2) [OF assms(1), unfolded expire_law_def, THEN spec [of _ now], THEN spec [of _ k],
        THEN spec [of _ t], THEN spec [of _ db]] assms(2,3)
    by (auto simp: True split: option.splits if_splits)
next
  case False
  then show ?thesis using redis_expire_frame [OF assms(1)] assms(2) by (metis due_cong)
qed

lemma cast_script_due:
  assumes ok: "redis_ok rd" and k: "voted \<noteq> k" and due: "due s u db k" and u: "u < now + ret * second"
  shows "due s u (snd (castBallotScript rd voted counts ttl ret ids now db)) k"
proof -
  let ?P = "\<lambda>d. due s u d k"
  have set: "?P (snd (rd_SET_NX_EX rd now voted v ttl db))" if "?P db" for v db
    using redis_write_frame(1) [OF ok k [THEN not_sym]] that by (metis due_cong)
  show ?thesis
    unfolding castBallotScript_def
    by (rule go_try_snd [where P = ?P], rule set [OF due])
      (auto intro!: go_try_snd [where P = ?P] simp: redis_exists [OF ok] hincr_all_due [OF ok] expire_due [OF ok _ u])
qed

subsection \<open>Every operation\<close>

lemma lasts_call:
  assumes "lasts s u st"
    and "\<And>i n db. due s u db (countsKey (tagForShard i n)) \<Longrightarrow>
      due s u (snd (cmd (rs_now st) db)) (countsKey (tagForShard i n))"
  shows "lasts s u (snd (redis_call cmd st))"
  using assms
    redis_call_invariant [where P = "\<lambda>db. \<forall>i n. due s u db (countsKey (tagForShard i n))" and cmd = cmd and st = st]
  by (simp add: lasts_def)

lemma lasts_read:
  assumes "lasts s u st" and "\<And>i n db. snd (cmd (rs_now st) db) (countsKey (tagForShard i n)) = db (countsKey (tagForShard i n))"
  shows "lasts s u (snd (redis_call cmd st))"
  by (rule lasts_call [OF assms(1)]) (metis due_cong assms(2))

lemma lasts_store:
  assumes l: "lasts s u st" and ok: "redis_ok rd"
  shows "lasts s u (snd (store_Guard rd cfg g st))" "lasts s u (snd (store_Counters rd cfg p ids st))"
    "lasts s u (snd (store_TrackPoll rd p st))" "lasts s u (snd (store_UntrackPoll rd p st))"
    "lasts s u (snd (store_TrackedPolls rd st))"
    "hash_ok (b_VoterHash b) \<Longrightarrow> u < s + whole_seconds (sc_CounterRetention cfg) * second \<Longrightarrow>
      lasts s u (snd (store_CastBallot rd cfg b st))"
proof -
  note frames = go_try_snd [where P = "lasts s u"]
  show "lasts s u (snd (store_Guard rd cfg g st))" unfolding store_Guard_def Let_def
    by (rule frames, rule lasts_read [OF l]) (simp_all add: guard_script_frame [OF ok] key_apart)
  show "lasts s u (snd (store_Counters rd cfg p ids st))" unfolding store_Counters_def
    by (rule frames, rule lasts_read [OF l]) (simp_all add: hgetall_shards_frame [OF ok])
  show "lasts s u (snd (store_TrackPoll rd p st))" unfolding store_TrackPoll_def
    by (rule frames, rule lasts_read [OF l]) (simp_all add: redis_write_frame [OF ok] key_apart)
  show "lasts s u (snd (store_UntrackPoll rd p st))" unfolding store_UntrackPoll_def
    by (rule frames, rule lasts_read [OF l]) (simp_all add: redis_write_frame [OF ok] key_apart)
  show "lasts s u (snd (store_TrackedPolls rd st))" unfolding store_TrackedPolls_def
    by (rule frames, rule lasts_read [OF l]) (simp_all add: smembers_frame [OF ok])
  assume h: "hash_ok (b_VoterHash b)" and u: "u < s + whole_seconds (sc_CounterRetention cfg) * second"
  then have "u < rs_now st + whole_seconds (sc_CounterRetention cfg) * second" using l by (simp add: lasts_def)
  note script = cast_script_due [OF ok voted_not_counts [OF h] _ this]
  show "lasts s u (snd (store_CastBallot rd cfg b st))"
    unfolding store_CastBallot_def Let_def using l
    by (auto intro!: frames lasts_call [OF l] script)
qed

lemma lasts_tier:
  assumes l: "lasts s u st" and ok: "redis_ok rd"
  shows "lasts s u (snd (rstore_Get rd js k st))" "lasts s u (snd (rstore_Set rd js k en ttl st))"
    "lasts s u (snd (rstore_Delete rd k st))"
proof -
  show "lasts s u (snd (rstore_Get rd js k st))"
    unfolding rstore_Get_def
    by (rule go_try_snd [where P = "lasts s u"], rule lasts_read [OF l])
      (auto simp: get_frame [OF ok] split: option.split)
  have "lasts s u st'" if "rs_now st' = rs_now st" "rs_db st' = rs_db st \<or> (\<exists>k x. rs_db st' = (rs_db st)(keyPrefix @ k := x))" for st'
    using that l by (auto simp: lasts_def)
  with rstore_Set_cases [OF ok surjective_pairing, of js k en ttl st] rstore_Delete_cases [OF ok surjective_pairing, of k st]
  show "lasts s u (snd (rstore_Set rd js k en ttl st))" "lasts s u (snd (rstore_Delete rd k st))"
    by blast+
qed

lemma lasts_kept:
  assumes "redis_ok (ev_rd ev)" and "u < s + retention ev"
  shows "redis_kept ev (lasts s u)"
  using lasts_store [OF _ assms(1)] lasts_tier [OF _ assms(1)] assms(2) by (simp add: redis_kept_def retention_def)

text \<open>Time that passes within these bounds takes no vote away.\<close>

lemma lasts_votes:
  assumes l: "lasts s u st" and t: "rs_now st \<le> t" "t \<le> u"
  shows "store_votes cfg (st\<lparr>rs_now := t\<rparr>) = store_votes cfg st"
proof -
  have "kv t (rs_db st) k = kv (rs_now st) (rs_db st) k" if "due s u (rs_db st) k" for k
    using that l t by (auto simp: due_def lasts_def kv_def split: option.split)
  then have "kv t (rs_db st) (countsKey (tagForShard i n)) = kv (rs_now st) (rs_db st) (countsKey (tagForShard i n))" for i n
    using l by (simp add: lasts_def)
  then show ?thesis by (simp add: store_votes_def [abs_def] count_at_def)
qed

lemma lasts_tick: "lasts s u st \<Longrightarrow> rs_now st \<le> t \<Longrightarrow> lasts s u (st\<lparr>rs_now := t\<rparr>)"
  by (simp add: lasts_def)

lemma lasts_votes_tick:
  assumes "lasts s u (w_redis w)" and "clock w \<le> t" and "t \<le> u"
  shows "w_votes ev (tick t w) = w_votes ev w"
  using lasts_votes [OF assms(1), of t] assms(2,3) by (simp add: w_votes_def tick_def clock_def)

subsection \<open>Runs\<close>

lemma kept_votes_until:
  assumes "run ev w es w'" and inv: "world_inv ev w" and "roomy ev w es" and "EvRedisLoss \<notin> set es"
    and "lasts s u (w_redis w)" and "clock w' \<le> u" and u: "u < s + retention ev"
  shows "w_votes ev w i j + tally (\<lambda>e. accepted e i j) es \<le> w_votes ev w' i j \<and> lasts s u (w_redis w')"
  using assms(1,3,4,6)
proof (induction rule: run.induct)
  case stay
  then show ?case using assms(5) by simp
next
  case (more es w1 e w2)
  have "redis_ok (ev_rd ev)" using inv by (simp add: world_inv_def base_inv_def store_ready_def)
  note kept = lasts_kept [OF this u]
  have ok: "run_ok ev es w w1" using run_oks [OF more.hyps(1) inv roomy_butlast [OF more.prems(1)]] .
  then have st: "step_ok ev e w1 w2"
    using sys_step_ok [OF more.hyps(2)] run_ok_room [OF _ more.prems(1)] by (simp add: run_ok_def)
  have late: "clock w1 \<le> u" using step_clock [OF more.hyps(2)] more.prems(3) by simp
  then have before: "w_votes ev w i j + tally (\<lambda>e. accepted e i j) es \<le> w_votes ev w1 i j" "lasts s u (w_redis w1)"
    using more roomy_butlast by simp_all
  have no: "e \<noteq> EvRedisLoss" using more.prems(2) by auto
  have after: "lasts s u (w_redis w2)"
    by (rule kept_step [OF more.hyps(2) kept before(2) no]) (auto simp: lasts_def)
  have "w_votes ev w1 i j + (if accepted e i j then 1 else 0) \<le> w_votes ev w2 i j"
  proof (cases "\<exists>t. e = EvTick t")
    case True
    with more.hyps(2) obtain t where t: "w2 = tick t w1" "clock w1 \<le> t" "e = EvTick t"
      by (auto elim: sys_step.cases)
    then have "clock w2 = t" by (simp add: tick_def clock_def)
    with lasts_votes_tick [OF before(2) t(2), of ev] more.prems(3) t show ?thesis by simp
  next
    case False
    with no have "\<not> forgetful e" by (cases e) auto
    with st show ?thesis unfolding step_ok_def by simp
  qed
  with before(1) after show ?case by simp
qed

lemma kept_votes:
  assumes "run ev w es w'" and "world_inv ev w" and "roomy ev w es" and "EvRedisLoss \<notin> set es"
    and "lasting ev (w_redis w) (clock w')"
  shows "w_votes ev w i j + tally (\<lambda>e. accepted e i j) es \<le> w_votes ev w' i j"
  using kept_votes_until [OF assms(1-4) _ order_refl] assms(5) by (auto simp: lasting_def)

lemma demo_lasting: "t < 7200 * second \<Longrightarrow> lasting demo_env (w_redis demo_world) t"
  by (simp add: lasting_def lasts_def due_def retention_def demo_env_def whole_seconds_def second_def key_apart)

end
