(* ===== verification/Liveness.thy ===== *)
theory Liveness
  imports Retention
begin

text \<open>
  What a synchronisation pass achieves when the servers answer: with no failure pending, every
  port call of it returns a result, so the pass itself reports no error. And what an accepted
  vote is worth once a pass has saved it.
\<close>

subsection \<open>A save that is answered\<close>

lemma save_live:
  assumes inv: "pg_inv cod st" and up: "pg_fates st = []"
    and c: "pg_uuid cod i = Some c" "pg_stored st c = Some p"
    and m: "distinct (map fst m)" "fst ` set m = set (OptionIDs p)" "\<forall>k \<in> fst ` set m. pg_uuid cod k = Some k"
      "\<forall>k \<in> fst ` set m. 0 \<le> sint (lookup0 m k)"
    and run: "repo_SaveResults cod i m st = (r, st')"
  shows "pg_fates st' = [] \<and> r = Inr ()"
proof (cases "m = []")
  case True
  with run up show ?thesis by (simp add: repo_SaveResults_def)
next
  case False
  have args: "uuid_args cod (map fst m) = Some (map fst m)" using m(3) by (intro uuid_args_canonical) simp
  have "0 \<le> sint v" if "(k, v) \<in> set m" for k v
    using m(1,4) that by (force simp: lookup0_def)
  then have nn: "list_all (\<lambda>v. 0 \<le> v) (map (\<lambda>(_, v). sint v) m)" by (auto simp: list_all_iff)
  from c(2) obtain row where row: "find (\<lambda>r. row_id r = c) (t_polls (pg_tables st)) = Some row"
    and p: "p = (poll_of_row row)\<lparr>p_options := map option_of_row (options_of (pg_tables st) c)\<rparr>"
    by (auto simp: pg_stored_def stored_poll_def)
  have "c \<in> row_id ` set (t_polls (pg_tables st))" using row by (force simp: find_Some_iff)
  moreover have "set (OptionIDs p) \<subseteq> opt_id ` set (t_options (pg_tables st))"
    by (auto simp: p OptionIDs_def option_of_row_def options_of_def)
  ultimately obtain t' where "upsert_results c (map fst m) (map (\<lambda>(_, v). sint v) m) (pg_tables st) = Inr ((), t')"
    using m(1,2) nn by (auto simp: upsert_results_def)
  with run False args c up show ?thesis
    by (auto simp: repo_SaveResults_def pg_exec_def fate_live uuid_arg_def)
qed

subsection \<open>A pass\<close>

lemma syncPoll_run:
  assumes "pr_GetPoll (main_repo ev) i w = (Inr p, w1)"
    and "vs_Counters (main_store ev) i (OptionIDs p) w1 = (Inr m, w2)"
    and "pr_SaveResults (main_repo ev) i m w2 = (Inr (), w3)"
    and "vs_UntrackPoll (main_store ev) i w3 = (Inr (), w4)"
  shows "syncPoll (worker_sync ev) i w = (Inr (), if sync_settled (worker_sync ev) p w3 then w4 else w3)"
  unfolding syncPoll_def main_wiring by (simp only: assms prod.case sum.case go_try_Inr split: if_split) simp

text \<open>With both servers up, the counts of a poll that is there are saved.\<close>

lemma syncPoll_found_live:
  assumes inv: "world_inv ev w" and up: "healthy w" and room: "\<And>j. w_votes ev w i j \<le> max_int64"
    and gw: "pr_GetPoll (main_repo ev) i w0 = (Inr p, w)"
    and found: "pg_uuid (ev_cod ev) i = Some (p_id p)" "w_stored w (p_id p) = Some p"
    and run: "syncPoll (worker_sync ev) i w0 = (r, w')"
  shows "healthy w' \<and> r = Inr ()"
proof -
  have rd: "redis_ok (ev_rd ev)" by (rule world_invD(6) [OF inv])
  have up1: "rs_fates (w_redis w) = []" "pg_fates (w_pg w) = []" using up by (simp_all add: healthy_def)
  obtain x d where x: "store_Counters (ev_rd ev) (ev_store ev) i (OptionIDs p) (w_redis w) = (x, d)" by fastforce
  have xw: "vs_Counters (main_store ev) i (OptionIDs p) w = (x, w\<lparr>w_redis := d\<rparr>)"
    using x by (simp add: on_redis_def)
  have sinv: "store_inv (w_redis w)" using world_invD(1) [OF inv] by (simp add: store_ready_def)
  from counters_live [OF rd sinv up1(1) x] obtain m where m: "x = Inr m" and upd: "rs_fates d = []" by blast
  have keys: "distinct (map fst m)" "fst ` set m = set (OptionIDs p)"
    using world_store.counters_keys [OF xw [unfolded m]] by simp_all
  have nn: "\<forall>k \<in> fst ` set m. 0 \<le> sint (lookup0 m k)"
    using world_store.counters_value [OF inv xw [unfolded m] _ room] keys(2)
      world_store.votes_nonneg [OF inv] by simp
  have canon: "\<forall>k \<in> fst ` set m. pg_uuid (ev_cod ev) k = Some k"
    using world_backend.counts_canonical [OF inv found(2), of m] keys(2) by simp
  obtain y p2 where y: "repo_SaveResults (ev_cod ev) i m (w_pg w) = (y, p2)" by fastforce
  have y': "y = Inr ()" and up2: "pg_fates p2 = []"
    using save_live [OF world_invD(2) [OF inv] up1(2) found(1) found(2) [unfolded w_stored_def] keys canon nn y] by simp_all
  obtain z d2 where z: "store_UntrackPoll (ev_rd ev) i d = (z, d2)" by fastforce
  have "world_inv ev (w\<lparr>w_redis := d\<rparr>)" using world_store.counters_frame [OF inv xw] by simp
  then have "store_inv d" using world_invD(1) by (force simp: store_ready_def)
  from untrack_live [OF rd this upd z] have z': "z = Inr ()" "rs_fates d2 = []" by simp_all
  let ?w3 = "w\<lparr>w_redis := d, w_pg := p2\<rparr>" and ?w4 = "w\<lparr>w_redis := d2, w_pg := p2\<rparr>"
  have yw: "pr_SaveResults (main_repo ev) i m (w\<lparr>w_redis := d\<rparr>) = (Inr (), ?w3)"
    using y y' by (simp add: on_pg_def)
  have zw: "vs_UntrackPoll (main_store ev) i ?w3 = (Inr (), ?w4)" using z z' by (simp add: on_redis_def)
  have up3: "healthy ?w3" "healthy ?w4" using up2 upd z' by (simp_all add: healthy_def)
  from syncPoll_run [OF gw xw [unfolded m] yw zw] run up3 show ?thesis by simp
qed

text \<open>One tracked poll is synchronised, whether it is there or has gone.\<close>

lemma syncPoll_live:
  assumes inv: "world_inv ev w" and up: "healthy w" and room: "\<And>j. w_votes ev w i j \<le> max_int64"
    and c: "pg_uuid (ev_cod ev) i = Some c" and run: "syncPoll (worker_sync ev) i w = (r, w')"
  shows "healthy w' \<and> r = Inr ()"
proof -
  note base = world_invD [OF inv]
  obtain g p1 where g: "repo_GetPoll (ev_cod ev) i (w_pg w) = (g, p1)" by fastforce
  let ?w1 = "w\<lparr>w_pg := p1\<rparr>"
  have gw: "pr_GetPoll (main_repo ev) i w = (g, ?w1)" using g by (simp add: on_pg_def)
  note live = get_live [OF _ c g]
  have up1: "rs_fates (w_redis w) = []" "pg_fates p1 = []" using up live(1) by (simp_all add: healthy_def)
  have inv1: "world_inv ev ?w1" and st1: "w_stored ?w1 = w_stored w"
    using world_repo.get_poll_frame [OF inv gw] by simp_all
  note redis = world_invD(1) [OF inv]
  have rd: "redis_ok (ev_rd ev)" using inv by (simp add: world_inv_def base_inv_def store_ready_def)
  show ?thesis
  proof (cases g)
    case (Inl e)
    with live(2) up have nf: "CodeOf e = CodeNotFound" by (simp add: healthy_def)
    obtain x d where x: "store_UntrackPoll (ev_rd ev) i (w_redis w) = (x, d)" by fastforce
    have "store_inv (w_redis w)" using inv by (simp add: world_inv_def base_inv_def store_ready_def)
    from untrack_live [OF rd this up1(1) x] run gw Inl nf x up1 show ?thesis
      by (auto simp: syncPoll_def healthy_def on_redis_def)
  next
    case (Inr p)
    have found: "pg_uuid (ev_cod ev) i = Some (p_id p)" "w_stored w (p_id p) = Some p"
      using world_repo.get_poll_found [OF inv gw [unfolded Inr]] by simp_all
    have room1: "w_votes ev ?w1 i j \<le> max_int64" for j using room [of j] by (simp add: views)
    have "healthy ?w1" using up1 by (simp add: healthy_def)
    from syncPoll_found_live [OF inv1 this room1 gw [unfolded Inr] found(1) _ run] found(2) st1
    show ?thesis by simp
  qed
qed

lemma sync_all_live:
  assumes "world_inv ev w" and "healthy w" and "\<And>i j. w_votes ev w i j \<le> max_int64"
    and "\<forall>i \<in> set ids. \<exists>c. pg_uuid (ev_cod ev) i = Some c"
  shows "\<exists>w'. sync_all (worker_sync ev) ids n w = (n, w') \<and> healthy w'"
  using assms
proof (induction ids arbitrary: w)
  case (Cons i ids)
  obtain c where c: "pg_uuid (ev_cod ev) i = Some c" using Cons.prems(4) by auto
  obtain r w1 where r: "syncPoll (worker_sync ev) i w = (r, w1)" by fastforce
  note live = syncPoll_live [OF Cons.prems(1-3) c r]
  note one = world_backend.syncPoll_outcome(1) [OF Cons.prems(1,3) r [folded main_svcs(3)]]
  have inv1: "world_inv ev w1" and "w_votes ev w1 = w_votes ev w"
    using one by (simp_all add: world_backend.pass_def)
  with Cons.IH [OF inv1] live Cons.prems(3,4) show ?case using r by simp
qed simp

lemma sync_live:
  assumes inv: "world_inv ev w" and up: "healthy w" and room: "\<And>i j. w_votes ev w i j \<le> max_int64"
    and tr: "\<forall>i \<in> w_tracked w. \<exists>c. pg_uuid (ev_cod ev) i = Some c"
  shows "\<exists>report w'. do_Sync ev w = ((report, None), w') \<and> healthy w'"
proof -
  obtain t d where t: "store_TrackedPolls (ev_rd ev) (w_redis w) = (t, d)" by fastforce
  let ?w1 = "w\<lparr>w_redis := d\<rparr>"
  have tw: "vs_TrackedPolls (main_store ev) w = (t, ?w1)" using t by (simp add: on_redis_def)
  have base: "redis_ok (ev_rd ev)" "store_inv (w_redis w)" "rs_fates (w_redis w) = []"
    using inv up by (simp_all add: world_inv_def base_inv_def store_ready_def healthy_def)
  from tracked_live [OF base t] obtain ids where ids: "t = Inr ids" and up1: "healthy ?w1"
    using up by (auto simp: healthy_def)
  note fr = world_store.tracked_list [OF inv tw]
  then have "world_inv ev ?w1" "\<forall>i \<in> set ids. \<exists>c. pg_uuid (ev_cod ev) i = Some c" "w_votes ev ?w1 = w_votes ev w"
    using tr ids by simp_all
  from sync_all_live [OF this(1) up1 _ this(2), of 0] this(3) room obtain w'
    where "sync_all (worker_sync ev) ids 0 ?w1 = (0, w')" "healthy w'" by auto
  then show ?thesis using tw ids by (auto simp: do_Sync_def sync_Sync_def Let_def simp del: main_simps)
qed

subsection \<open>Whatever happened before\<close>

text \<open>Every tracked id is one the database knows how to read.\<close>

lemma tracked_canonical:
  assumes "run ev w es w'" and "unvoted ev w" and "int (length es) \<le> max_int64"
  shows "w_tracked w' \<subseteq> {i. pg_uuid (ev_cod ev) i = Some i}"
  using assms(1,3)
proof (induction rule: run.induct)
  case stay
  then show ?case using assms(2) by (simp add: unvoted_def)
next
  case (more es w1 e w2)
  note inv = unvoted_inv [OF assms(2)] and room = unvoted_roomy [OF assms(2) more.prems]
  have ok: "run_ok ev es w w1" using run_oks [OF more.hyps(1) inv roomy_butlast [OF room]] .
  then have "step_ok ev e w1 w2"
    using sys_step_ok [OF more.hyps(2)] run_ok_room [OF _ room] by (simp add: run_ok_def)
  moreover have "w_tracked w1 \<subseteq> {i. pg_uuid (ev_cod ev) i = Some i}" using more by simp
  ultimately show ?case unfolding step_ok_def by blast
qed

text \<open>
  C12. Synchronisation recovers. After any run from a deployment without votes, however many calls
  failed in it, a pass during which both servers answer reports no error, and every tracked
  poll that exists has its live counts in the database.
\<close>

theorem sync_recovers:
  assumes "unvoted ev w" and "run ev w es w1" and "int (length es) < max_int64" and "healthy w1"
  shows "\<exists>report w2. do_Sync ev w1 = ((report, None), w2) \<and> healthy w2
    \<and> (\<forall>i \<in> w_tracked w1. saved ev w1 w2 i)"
proof -
  note ok = run_oks [OF assms(2) unvoted_inv [OF assms(1)] unvoted_roomy [OF assms(1)]]
  from backed_runs [OF assms(2,1)] assms(3) have inv: "world_inv ev w1" and bk: "counts_backed ev es w1" by simp_all
  have room: "w_votes ev w1 i j \<le> max_int64" for i j
  proof -
    have "w_votes ev w1 i j \<le> tally (\<lambda>e. may_count e i j) es" using bk unfolding counts_backed_def by blast
    also have "\<dots> \<le> int (length es)" by (rule tally_length)
    finally show ?thesis using assms(3) by simp
  qed
  from tracked_canonical [OF assms(2,1)] assms(3)
  have "\<forall>i \<in> w_tracked w1. \<exists>c. pg_uuid (ev_cod ev) i = Some c" by auto
  from sync_live [OF inv assms(4) room this] obtain report w2
    where run: "do_Sync ev w1 = ((report, None), w2)" "healthy w2" by blast
  with sync_facts(2) [OF inv room run(1)] show ?thesis by blast
qed

text \<open>A run that begins with the loss of the first calls of both servers.\<close>

definition blank_world :: world where
  "blank_world = demo_world\<lparr>w_pg := (w_pg demo_world)\<lparr>pg_tables := empty_tables\<rparr>,
     w_redis := (w_redis demo_world)\<lparr>rs_db := Map.empty\<rparr>\<rparr>"

lemma blank_fresh: "fresh_start demo_env blank_world"
  using demo_inv
  by (simp add: fresh_start_def blank_world_def world_inv_def base_inv_def store_ready_def tier_inv_def
      demo_codec_ok demo_json_ok mem_redis_ok) (simp add: demo_world_def)

theorem sync_recovers_witness:
  "\<exists>report w2. do_Sync demo_env (renet [] [] (renet [Fate 0 False] [PgFailed] blank_world)) = ((report, None), w2)"
proof -
  have "run demo_env blank_world [EvNet [Fate 0 False] [PgFailed], EvNet [] []]
      (renet [] [] (renet [Fate 0 False] [PgFailed] blank_world))"
    using run.more [OF run.more [OF run.stay sys_step.net] sys_step.net] by simp
  from sync_recovers [OF fresh_unvoted [OF blank_fresh] this] show ?thesis
    by (auto simp: max_int64_def healthy_def renet_def)
qed

subsection \<open>Accepted votes survive\<close>

lemma demo_vote_counted:
  assumes "do_Cast demo_env demo_vote demo_world = (Inr (), w1)"
  shows "world_inv demo_env w1" "w_tracked w1 = {''p''}" "w_stored w1 ''p'' = Some demo_poll"
    "w_votes demo_env w1 i j \<le> 1"
proof -
  note facts = cast_facts [OF demo_inv demo_room assms]
  have "w_tracked demo_world = {''p''}" by (simp add: views store_tracked_def kv_def)
  with facts show "world_inv demo_env w1" "w_tracked w1 = {''p''}" "w_stored w1 ''p'' = Some demo_poll"
    using demo_stored by simp_all
  from facts show "w_votes demo_env w1 i j \<le> 1" by (auto simp: recorded_def demo_votes)
qed

text \<open>
  C13. Accepted votes survive. Take any run in which a synchronisation pass reports no error,
  with the poll tracked at that moment; before the pass any time may pass and calls may fail,
  as long as Redis loses no data and no counter reaches the end of its retention time. Then,
  whatever happens later, the loss of Redis included, the durable count of every option of the
  poll is at least the number of ballots for it (under the tracked spelling of its id) accepted
  before the pass.
\<close>

theorem accepted_votes_survive:
  assumes "world_inv ev w" and "roomy ev w (es @ EvSync report None # fs)"
    and "run ev w es w1" and "EvRedisLoss \<notin> set es" and "lasting ev (w_redis w) (clock w1)"
    and "i \<in> w_tracked w1" and "pg_uuid (ev_cod ev) i = Some c" and "w_stored w1 c = Some p" and "j \<in> set (OptionIDs p)"
    and "do_Sync ev w1 = ((report, None), w2)" and "run ev w2 fs w3"
  shows "\<exists>v. w_durable w3 c j = Some v \<and> tally (\<lambda>e. accepted e i j) es \<le> v"
proof -
  have room: "roomy ev w ((es @ [EvSync report None]) @ fs)" using assms(2) by simp
  have two: "run ev w (es @ [EvSync report None]) w2" using run.more [OF assms(3) sys_step.sync [OF assms(10)]] .
  have room2: "roomy ev w (es @ [EvSync report None])" using room by (rule roomy_prefix)
  note ok1 = run_oks [OF assms(3,1) roomy_butlast [OF room2]] and ok2 = run_oks [OF two assms(1) room2]
  have live: "w_votes ev w1 i' j' \<le> max_int64" for i' j'
    using run_ok_room [OF ok1 room2] by (simp add: less_imp_le)
  have inv1: "world_inv ev w1" using ok1 by (simp add: run_ok_def)
  have "saved ev w1 w2 i" using sync_facts(2) [OF inv1 live assms(10)] assms(6) by simp
  with assms(7-9) obtain u where u: "w_durable w2 c j = Some u" "w_votes ev w1 i j \<le> u" by (auto simp: saved_def)
  have "run_ok ev fs w2 w3"
    using run_oks [OF assms(11) _ roomy_parts(2) [OF ok2 room]] ok2 by (simp add: run_ok_def)
  with u(1) obtain v where v: "w_durable w3 c j = Some v" "u \<le> v" unfolding run_ok_def durable_grows_def by blast
  have "0 \<le> w_votes ev w i j" using assms(1) by (rule world_store.votes_nonneg)
  with kept_votes [OF assms(3,1) roomy_butlast [OF room2] assms(4,5), of i j] u(2) v show ?thesis by force
qed

text \<open>The key of the tracked set is no other operation's, so the set outlives the time.\<close>

lemma cast_tracked_key:
  assumes "redis_ok (ev_rd ev)" and "rs_db (w_redis w) trackedPollsKey = x"
  shows "rs_db (w_redis (snd (do_Cast ev cmd w))) trackedPollsKey = x"
proof -
  let ?Q = "\<lambda>st. rs_db st trackedPollsKey = x"
  note ok = assms(1)
  have call: "?Q (snd (redis_call cmd st))"
    if "?Q st" "\<And>db. db trackedPollsKey = x \<Longrightarrow> snd (cmd (rs_now st) db) trackedPollsKey = x"
    for cmd :: "instant \<Rightarrow> rdb \<Rightarrow> (goerror + 'a) \<times> rdb" and st
    using redis_call_invariant [where P = "\<lambda>db. db trackedPollsKey = x" and cmd = cmd and st = st] that by blast
  have store: "?Q (snd (store_Guard (ev_rd ev) (ev_store ev) g st))"
    "?Q (snd (store_CastBallot (ev_rd ev) (ev_store ev) b st))" if "?Q st" for g b st
  proof -
    show "?Q (snd (store_Guard (ev_rd ev) (ev_store ev) g st))" unfolding store_Guard_def Let_def
      by (rule go_try_snd [where P = ?Q], rule call [OF that]) (simp_all add: guard_script_frame [OF ok] key_apart)
    have "?Q (snd (redis_call (cast_cmd (ev_rd ev) (ev_store ev) b) st))"
      by (rule call [OF that]) (simp add: cast_cmd_def Let_def shardTag_def cast_script_frame [OF ok] key_apart)
    then show "?Q (snd (store_CastBallot (ev_rd ev) (ev_store ev) b st))"
      using that unfolding store_CastBallot_def Let_def cast_cmd_def
      by (simp add: go_try_snd [where P = ?Q])
  qed
  have tier: "?Q (snd (rstore_Get (ev_rd ev) (ev_json ev) k st))" "?Q (snd (rstore_Set (ev_rd ev) (ev_json ev) k en d st))"
    if "?Q st" for k en d st
  proof -
    show "?Q (snd (rstore_Get (ev_rd ev) (ev_json ev) k st))" unfolding rstore_Get_def
      by (rule go_try_snd [where P = ?Q], rule call [OF that]) (auto simp: get_frame [OF ok] split: option.split)
    show "?Q (snd (rstore_Set (ev_rd ev) (ev_json ev) k en d st))"
      using rstore_Set_cases [OF ok surjective_pairing, of "ev_json ev" k en d st] that by auto
  qed
  have poll: "?Q (w_redis (snd (cache_Poll (main_cache ev) k v)))" if "?Q (w_redis v)" for k v
    by (rule cache_Poll_keeps [where P = "\<lambda>v. ?Q (w_redis v)"])
      (use that tier in \<open>simp_all add: local_Get_def local_Set_def case_prod_beta\<close>)
  show ?thesis unfolding do_Cast_def
    by (rule vote_Cast_keeps [where P = "\<lambda>v. ?Q (w_redis v)"]) (use assms(2) poll store in simp_all)
qed

theorem accepted_votes_survive_witness:
  "\<exists>w1 w2 v. run demo_env demo_world [EvCast demo_vote (Inr ()), EvTick 2000] w1
     \<and> run demo_env w1 [EvSync \<lparr>rp_Tracked = 1, rp_Failed = 0\<rparr> None] w2
     \<and> w_durable (redis_loss w2) ''p'' ''a'' = Some v \<and> 1 \<le> v"
proof -
  define w0 where "w0 = snd (do_Cast demo_env demo_vote demo_world)"
  define w1 where "w1 = tick 2000 w0"
  have cast: "do_Cast demo_env demo_vote demo_world = (Inr (), w0)"
    using demo_cast unfolding w0_def by (metis prod.collapse)
  note facts = demo_vote_counted [OF cast]
  have now: "clock w0 = 1000" using request_clock(1) [of demo_env demo_vote demo_world] by (simp add: w0_def clock_def)
  note tick = env_step(1) [OF facts(1), of 2000, folded w1_def] env_tables(1) [of 2000 w0]
  have "rs_db (w_redis w0) trackedPollsKey = Some (RSet [''p''], None)"
    unfolding w0_def by (rule cast_tracked_key) (simp_all add: mem_redis_ok)
  then have tracked: "w_tracked w1 = {''p''}" by (simp add: w1_def tick_def views store_tracked_def kv_def)
  have inv: "world_inv demo_env w1" and le: "w_votes demo_env w1 i j \<le> w_votes demo_env w0 i j" for i j
    using tick(1) now by (simp_all add: step_ok_def)
  have stored: "w_stored w1 ''p'' = Some demo_poll" using facts(3) same_tables_views [OF tick(2)] by (simp add: w1_def)
  have one: "run demo_env demo_world [EvCast demo_vote (Inr ()), EvTick 2000] w1"
    using run.more [OF run.more [OF run.stay sys_step.cast [OF cast]] sys_step.clock [of w0 2000]] now by (simp add: w1_def)
  have room: "w_votes demo_env w1 i j \<le> max_int64" for i j
    using order_trans [OF le order_trans [OF facts(4), of max_int64]] by (simp add: max_int64_def)
  have "healthy w0" unfolding w0_def by (rule cast_live) (simp add: healthy_def)
  then have up: "healthy w1" by (simp add: w1_def healthy_def tick_def)
  have "\<forall>i \<in> w_tracked w1. \<exists>c. pg_uuid (ev_cod demo_env) i = Some c" using tracked demo_uuid by simp
  from sync_live [OF inv up room this] obtain report w2
    where sync: "do_Sync demo_env w1 = ((report, None), w2)" by blast
  have report: "report = \<lparr>rp_Tracked = 1, rp_Failed = 0\<rparr>"
    using sync_facts(2) [OF inv room sync] tracked by simp
  have two: "run demo_env w1 [EvSync report None] w2" using run.more [OF run.stay sys_step.sync [OF sync]] by simp
  have three: "run demo_env w2 [EvRedisLoss] (redis_loss w2)" using run.more [OF run.stay sys_step.loss] by simp
  have roomy: "roomy demo_env demo_world ([EvCast demo_vote (Inr ()), EvTick 2000] @ EvSync report None # [EvRedisLoss])"
    by (simp add: roomy_def demo_votes max_int64_def)
  have "clock w1 = 2000" by (simp add: w1_def tick_def clock_def)
  then have lasting: "lasting demo_env (w_redis demo_world) (clock w1)"
    by (intro demo_lasting) (simp add: second_def)
  have "\<exists>v. w_durable (redis_loss w2) ''p'' ''a'' = Some v
      \<and> tally (\<lambda>e. accepted e ''p'' ''a'') [EvCast demo_vote (Inr ()), EvTick 2000] \<le> v"
    by (rule accepted_votes_survive [OF demo_inv roomy one _ lasting _ _ stored _ sync three])
      (simp_all add: tracked demo_uuid demo_poll_def OptionIDs_def)
  with one two report show ?thesis by (auto simp: tally_def demo_vote_def)
qed

end
