(* ===== verification/Staleness.thy ===== *)
theory Staleness
  imports Dedup
begin

text \<open>
  How old a cached answer can be. What the two tiers of the cache hold was the database's
  answer at some visited state, at most their lifetimes ago; every step of the system keeps
  this, so that a poll the service shows, or votes under, is at most the sum of the two
  lifetimes behind the database.
\<close>

subsection \<open>Sound caches\<close>

definition entry_age :: "env \<Rightarrow> entry \<Rightarrow> duration" where
  "entry_age ev en = localTTLFor (ev_cache ev) en + sharedTTLFor (ev_cache ev) en"

definition caught :: "env \<Rightarrow> (string \<Rightarrow> entry \<Rightarrow> instant \<Rightarrow> bool) \<Rightarrow> world \<Rightarrow> bool" where
  "caught ev said w \<longleftrightarrow> (\<forall>k t en. clock w \<le> t \<longrightarrow>
     (tier_seen (ev_json ev) (w_redis w) k t = Some en \<longrightarrow> fresh said (sharedTTLFor (ev_cache ev) en) k en t)
     \<and> (ttl_peek (w_local w) k t = Some en \<longrightarrow> fresh said (entry_age ev en) k en t))"

definition tells :: "env \<Rightarrow> (string \<Rightarrow> entry \<Rightarrow> instant \<Rightarrow> bool) \<Rightarrow> world \<Rightarrow> bool" where
  "tells ev said w \<longleftrightarrow> (\<forall>k en. current ev w k = Some en \<longrightarrow> said k en (clock w))"

lemma cache_inv_split:
  "world_cache.cache_inv ev said w \<longleftrightarrow> world_inv ev w \<and> tells ev said w \<and> caught ev said w"
  by (auto simp: world_cache.cache_inv_def world_cache.tier_ok_def world_cache.age_def witnessed_def tells_def
      caught_def entry_age_def world_inv_def)

lemma caught_mono: "caught ev said w \<Longrightarrow> (\<And>k en t. said k en t \<Longrightarrow> said' k en t) \<Longrightarrow> caught ev said' w"
  unfolding caught_def fresh_def by meson

lemma caught_same:
  assumes "caught ev said w" and "apart (w_redis w) (w_redis w')" and "w_local w' = w_local w"
  shows "caught ev said w'"
  using assms apart_tier(1) [OF assms(2)] by (simp add: caught_def clock_def apart_def)

lemma apart_refl [simp]: "apart st st" by (simp add: apart_def)

lemma caught_store:
  assumes "caught ev said w" and "redis_ok (ev_rd ev)"
  shows "caught ev said (snd (vs_Guard (main_store ev) g w))"
    "caught ev said (snd (vs_CastBallot (main_store ev) b w))"
    "caught ev said (snd (vs_Counters (main_store ev) p ids w))"
    "caught ev said (snd (vs_TrackPoll (main_store ev) p w))"
    "caught ev said (snd (vs_UntrackPoll (main_store ev) p w))"
    "caught ev said (snd (vs_TrackedPolls (main_store ev) w))"
  using store_apart [OF assms(2) surjective_pairing]
  by (auto intro!: caught_same [OF assms(1)])

lemma caught_pg [simp]: "caught ev said (w\<lparr>w_pg := p\<rparr>) = caught ev said w"
  by (simp add: caught_def clock_def)

lemma tells_tables:
  assumes "pg_tables (w_pg w') = pg_tables (w_pg w)" and "clock w' = clock w"
  shows "tells ev said w' = tells ev said w"
  using current_cong [of w' w ev] same_tables_views [OF assms(1)] assms(2) by (simp add: tells_def)

subsection \<open>Every step keeps them sound\<close>

lemma cache_poll_caught:
  "world_cache.cache_inv ev said w \<Longrightarrow> world_cache.cache_inv ev said (snd (cache_Poll (main_cache ev) i w))"
  using world_cache.cache_Poll_step(1) [OF _ surjective_pairing] by blast

lemma store_reads_caught:
  assumes "world_cache.cache_inv ev said w"
  shows "world_cache.cache_inv ev said (snd (vs_Guard (main_store ev) g w))"
    "world_cache.cache_inv ev said (snd (vs_Counters (main_store ev) p ids w))"
    "world_cache.cache_inv ev said (snd (vs_TrackPoll (main_store ev) p w))"
    "world_cache.cache_inv ev said (snd (pr_GetResults (main_repo ev) p w))"
proof -
  have inv: "world_inv ev w" "tells ev said w" "caught ev said w" using assms by (simp_all add: cache_inv_split)
  have ok: "redis_ok (ev_rd ev)" using inv(1) by (simp add: world_inv_def base_inv_def store_ready_def)
  note frames = world_store.guard_frame [OF inv(1) surjective_pairing] world_store.counters_frame [OF inv(1) surjective_pairing]
    world_store.track_frame [OF inv(1) surjective_pairing] world_repo.results_frame [OF inv(1) surjective_pairing]
  note tables = tells_tables [of _ w ev said]
  show "world_cache.cache_inv ev said (snd (vs_Guard (main_store ev) g w))"
    using frames(1) [of g] inv caught_store(1) [OF inv(3) ok] tables [OF _ port_clock(1)] by (simp add: cache_inv_split)
  show "world_cache.cache_inv ev said (snd (vs_Counters (main_store ev) p ids w))"
    using frames(2) [of p ids] inv caught_store(3) [OF inv(3) ok] tables [OF _ port_clock(3)] by (simp add: cache_inv_split)
  show "world_cache.cache_inv ev said (snd (vs_TrackPoll (main_store ev) p w))"
    using frames(3) [of p] inv caught_store(4) [OF inv(3) ok] tables [OF _ port_clock(4)] by (simp add: cache_inv_split)
  show "world_cache.cache_inv ev said (snd (pr_GetResults (main_repo ev) p w))"
    using frames(4) [of p] inv tables [OF _ port_clock(7), of "repo_GetResults (ev_cod ev) p"]
    by (simp add: cache_inv_split)
qed

text \<open>A vote: the cache is read first, and what the store writes is apart from it.\<close>

lemma vote_Cast_parts:
  assumes "P s" and "\<And>i s. P s \<Longrightarrow> P (snd (pl_Poll (vsv_polls svc) i s))"
    and "\<And>g s. P s \<Longrightarrow> P (snd (vs_Guard (vsv_store svc) g s))"
    and "\<And>b s. P s \<Longrightarrow> Q (snd (vs_CastBallot (vsv_store svc) b s))" and "\<And>s. P s \<Longrightarrow> Q s"
  shows "Q (snd (vote_Cast valid svc cmd s))"
proof -
  have poll: "P s1" if "P s" "pl_Poll (vsv_polls svc) i s = (r, s1)" for i s r s1
    using assms(2) [OF that(1), of i] that(2) by simp
  have guard: "P s1" if "P s" "vs_Guard (vsv_store svc) g s = (r, s1)" for g s r s1
    using assms(3) [OF that(1), of g] that(2) by simp
  have cast: "Q s1" if "P s" "vs_CastBallot (vsv_store svc) b s = (r, s1)" for b s r s1
    using assms(4) [OF that(1), of b] that(2) by simp
  show ?thesis
    unfolding vote_Cast_def cast_ballot_def
    by (auto simp: assms(1,5) split: go_try_splits sum.split intro: assms(5) dest!: poll [OF assms(1)] dest: guard cast)
qed

lemma cast_caught:
  assumes "world_cache.cache_inv ev said w"
  shows "caught ev said (snd (do_Cast ev cmd w))"
proof -
  have ok: "redis_ok (ev_rd ev)" using assms by (simp add: cache_inv_split world_inv_def base_inv_def store_ready_def)
  have down: "caught ev said v" if "world_cache.cache_inv ev said v" for v using that by (simp add: cache_inv_split)
  show ?thesis unfolding do_Cast_def
    by (rule vote_Cast_parts [where P = "world_cache.cache_inv ev said" and Q = "caught ev said"])
      (use assms in \<open>simp_all add: cache_poll_caught store_reads_caught caught_store [OF down ok] down
          del: main_simps on_run\<close>)
qed

lemma results_caught:
  assumes "world_cache.cache_inv ev said w"
  shows "caught ev said (snd (do_Results ev i w))"
proof -
  have "world_cache.cache_inv ev said (snd (do_Results ev i w))" unfolding do_Results_def
    by (rule poll_Results_keeps [where P = "world_cache.cache_inv ev said"])
      (use assms in \<open>simp_all add: cache_poll_caught store_reads_caught del: main_simps on_run\<close>)
  then show ?thesis by (simp add: cache_inv_split)
qed

lemma get_caught:
  assumes "world_cache.cache_inv ev said w"
  shows "caught ev said (snd (do_Get ev i w))"
proof -
  have "world_cache.cache_inv ev said (snd (do_Get ev i w))" unfolding do_Get_def
    by (rule poll_Get_keeps [where P = "world_cache.cache_inv ev said"]) (use assms in \<open>simp_all add: cache_poll_caught\<close>)
  then show ?thesis by (simp add: cache_inv_split)
qed

text \<open>Requests that never read the cache.\<close>

lemma other_caught:
  assumes "caught ev said w" and "redis_ok (ev_rd ev)"
  shows "caught ev said (snd (do_Create ev ccmd w))" "caught ev said (snd (do_List ev l k w))"
    "caught ev said (snd (do_Sync ev w))" "caught ev said (snd (poll_transition (main_polls ev) i fr to w))"
proof -
  let ?P = "caught ev said"
  have new: "?P (snd (store_new (main_repo ev) p v))" if "?P v" for p v
    using that by (simp add: main_repo_def store_new_on_pg)
  have drawn: "?P (snd (NewString ev v))" if "?P v" for v
    using that by (simp add: NewString_def caught_def clock_def)
  show "?P (snd (do_Create ev ccmd w))" unfolding request_defs
    by (rule poll_Create_keeps [where P = ?P]) (use assms new drawn in simp_all)
  show "?P (snd (do_List ev l k w))" unfolding request_defs
    by (rule poll_List_keeps [where P = ?P]) (use assms in simp_all)
  show "?P (snd (do_Sync ev w))" unfolding request_defs
    by (rule sync_Sync_keeps [where P = ?P]) (use assms caught_store [OF _ assms(2)] in simp_all)
  show "?P (snd (poll_transition (main_polls ev) i fr to w))"
    by (rule poll_transition_keeps [where P = ?P]) (use assms in simp_all)
qed

lemma transition_clock: "clock (snd (poll_transition (main_polls ev) i fr to w)) = clock w"
  by (rule poll_transition_keeps [where P = "\<lambda>v. clock v = clock w"]) (simp_all add: repo_lift del: main_simps on_run)

text \<open>Transitions: the database moves first, then the cache drops its entry.\<close>

lemma turn_caught:
  assumes inv: "world_inv ev w" and c: "caught ev said w"
  shows "tells ev said (snd (do_Activate ev i w)) \<Longrightarrow> caught ev said (snd (do_Activate ev i w))"
    and "tells ev said (snd (do_Finish ev i w)) \<Longrightarrow> caught ev said (snd (do_Finish ev i w))"
proof -
  let ?P = "world_cache.cache_inv ev said"
  have ok: "redis_ok (ev_rd ev)" using inv by (simp add: world_inv_def base_inv_def store_ready_def)
  have inval: "?P (snd (cache_Invalidate (main_cache ev) k v))" if "?P v" for k v
    using world_cache.cache_Invalidate_step(1) [OF that surjective_pairing] .
  have pg: "pg_tables (w_pg (snd (cache_Invalidate (main_cache ev) k v))) = pg_tables (w_pg v)" for k v
    by (rule cache_Invalidate_keeps [where P = "\<lambda>u. pg_tables (w_pg u) = pg_tables (w_pg v)"])
      (simp_all add: local_Delete_def)
  let ?v = "\<lambda>fr to. snd (poll_transition (main_polls ev) i fr to w)"
  have turn: "world_inv ev (?v fr to)" "caught ev said (?v fr to)" for fr to
    using world_backend.transition_outcome [OF inv surjective_pairing, of i fr to] other_caught(4) [OF c ok]
    by (simp_all add: world_backend.kept_def main_svcs)
  show "caught ev said (snd (do_Activate ev i w))" if t: "tells ev said (snd (do_Activate ev i w))"
  proof -
    let ?v1 = "?v [PollStatusDraft] PollStatusActive"
    have "pg_tables (w_pg (snd (do_Activate ev i w))) = pg_tables (w_pg ?v1)" unfolding do_Activate_def
      by (rule poll_Activate_keeps [where P = "\<lambda>u. pg_tables (w_pg u) = pg_tables (w_pg ?v1)"]) (simp_all add: pg)
    moreover have "clock ?v1 = clock w" by (rule transition_clock)
    ultimately have "?P ?v1" using turn t tells_tables [of "snd (do_Activate ev i w)" ?v1] request_clock(3)
      by (simp add: cache_inv_split)
    then have "?P (snd (do_Activate ev i w))" unfolding do_Activate_def
      by (intro poll_Activate_keeps [where P = ?P]) (simp_all add: inval store_reads_caught del: main_simps on_run)
    then show ?thesis by (simp add: cache_inv_split)
  qed
  show "caught ev said (snd (do_Finish ev i w))" if t: "tells ev said (snd (do_Finish ev i w))"
  proof -
    let ?v1 = "?v [PollStatusDraft, PollStatusActive] PollStatusFinished"
    have "pg_tables (w_pg (snd (do_Finish ev i w))) = pg_tables (w_pg ?v1)" unfolding do_Finish_def
      by (rule poll_Finish_keeps [where P = "\<lambda>u. pg_tables (w_pg u) = pg_tables (w_pg ?v1)"]) (simp_all add: pg)
    moreover have "clock ?v1 = clock w" by (rule transition_clock)
    ultimately have "?P ?v1" using turn t tells_tables [of "snd (do_Finish ev i w)" ?v1] request_clock(4)
      by (simp add: cache_inv_split)
    then have "?P (snd (do_Finish ev i w))" unfolding do_Finish_def
      by (intro poll_Finish_keeps [where P = ?P]) (simp_all add: inval)
    then show ?thesis by (simp add: cache_inv_split)
  qed
qed

lemma env_caught:
  assumes "caught ev said w"
  shows "clock w \<le> t \<Longrightarrow> caught ev said (tick t w)" "caught ev said (boot ev w)"
    "caught ev said (renet fs gs w)" "caught ev said (redis_loss w)"
proof -
  show "clock w \<le> t \<Longrightarrow> caught ev said (tick t w)"
    using assms by (simp add: caught_def tick_def clock_def tier_seen_def)
  have "ttl_peek (w_local (boot ev w)) k t = None" for k t
    by (simp add: boot_def New_Cache_def NewTTL_peek)
  then show "caught ev said (boot ev w)"
    using assms by (simp add: caught_def) (simp add: boot_def clock_def)
  show "caught ev said (renet fs gs w)"
    using assms by (simp add: caught_def renet_def clock_def tier_seen_def)
  show "caught ev said (redis_loss w)"
    using assms by (simp add: caught_def redis_loss_def clock_def tier_seen_def)
qed

lemma step_caught:
  assumes "sys_step ev e w w'" and inv: "world_inv ev w" and c: "caught ev said w"
    and "tells ev said w" and after: "tells ev said w'"
  shows "caught ev said w'"
proof -
  have ok: "redis_ok (ev_rd ev)" using inv by (simp add: world_inv_def base_inv_def store_ready_def)
  have ready: "world_cache.cache_inv ev said w" using assms(2-4) by (simp add: cache_inv_split)
  note request = cast_caught [OF ready] results_caught [OF ready] get_caught [OF ready] other_caught [OF c ok]
  show ?thesis
    using assms(1)
  proof cases
    case (activate i r)
    with turn_caught(1) [OF inv c, of i] after show ?thesis by simp
  next
    case (finish i r)
    with turn_caught(2) [OF inv c, of i] after show ?thesis by simp
  qed (use request env_caught [OF c] in \<open>metis snd_conv\<close>)+
qed

subsection \<open>Visited states\<close>

text \<open>A run together with the states it goes through.\<close>

inductive visits :: "env \<Rightarrow> world \<Rightarrow> event list \<Rightarrow> world list \<Rightarrow> world \<Rightarrow> bool" for ev w where
  here: "visits ev w [] [w] w"
| further: "visits ev w es ws w1 \<Longrightarrow> sys_step ev e w1 w2 \<Longrightarrow> visits ev w (es @ [e]) (ws @ [w2]) w2"

definition told :: "env \<Rightarrow> world list \<Rightarrow> string \<Rightarrow> entry \<Rightarrow> instant \<Rightarrow> bool" where
  "told ev ws k en t \<longleftrightarrow> (\<exists>v \<in> set ws. clock v = t \<and> current ev v k = Some en)"

text \<open>No entry in either tier.\<close>

definition cold :: "env \<Rightarrow> world \<Rightarrow> bool" where
  "cold ev w \<longleftrightarrow> (\<forall>k. rs_db (w_redis w) (keyPrefix @ k) = None) \<and> w_local w = New_Cache ev"

lemma visits_run: "visits ev w es ws w' \<Longrightarrow> run ev w es w'"
  by (induction rule: visits.induct) (auto intro: run.intros)

lemma visits_last: "visits ev w es ws w' \<Longrightarrow> w' \<in> set ws"
  by (cases rule: visits.cases) auto

lemma told_here: "v \<in> set ws \<Longrightarrow> tells ev (told ev ws) v"
  by (auto simp: tells_def told_def)

lemma cold_caught: "cold ev w \<Longrightarrow> caught ev said w"
  by (simp add: cold_def caught_def tier_seen_def kv_def New_Cache_def NewTTL_peek)

lemma visits_caught:
  assumes "visits ev w es ws w'" and "world_inv ev w" and "cold ev w" and "roomy ev w es"
  shows "caught ev (told ev ws) w'"
  using assms(1,4)
proof (induction rule: visits.induct)
  case here
  then show ?case using assms(3) by (simp add: cold_caught)
next
  case (further es ws w1 e w2)
  have "caught ev (told ev (ws @ [w2])) w1"
    by (rule caught_mono [OF further.IH [OF roomy_butlast [OF further.prems]]]) (auto simp: told_def)
  moreover have "world_inv ev w1"
    using run_oks [OF visits_run [OF further.hyps(1)] assms(2) roomy_butlast [OF further.prems]] by (simp add: run_ok_def)
  moreover have "tells ev (told ev (ws @ [w2])) w1" "tells ev (told ev (ws @ [w2])) w2"
    using visits_last [OF further.hyps(1)] by (simp_all add: told_here)
  ultimately show ?case using step_caught [OF further.hyps(2)] by blast
qed

text \<open>\<open>i\<close> named the poll \<open>p\<close> in a visited state at most two lifetimes before \<open>t\<close>.\<close>

definition was_current :: "env \<Rightarrow> world list \<Rightarrow> string \<Rightarrow> poll \<Rightarrow> instant \<Rightarrow> bool" where
  "was_current ev ws i p t \<longleftrightarrow> (\<exists>v \<in> set ws. \<exists>c. pg_uuid (ev_cod ev) i = Some c \<and> w_stored v c = Some p
     \<and> clock v \<le> t \<and> t \<le> clock v + cc_LocalTTL (ev_cache ev) + cc_SharedTTL (ev_cache ev))"

lemma served_current:
  assumes "visits ev w es ws w1" and "world_inv ev w" and "cold ev w" and "roomy ev w es" and "serves ev w1 i p"
  shows "was_current ev ws i p (clock w1)"
proof -
  have "world_cache.cache_inv ev (told ev ws) w1"
    using visits_caught [OF assms(1-4)] run_oks [OF visits_run [OF assms(1)] assms(2,4)]
      told_here [OF visits_last [OF assms(1)]] by (simp add: cache_inv_split run_ok_def)
  from world_cache.cache_Poll_step(3) [OF this surjective_pairing, of i p] assms(5) obtain en
    where en: "fresh (told ev ws) (entry_age ev en) i en (clock w1)" "\<not> en_Missing en" "en_Poll en = p"
    by (auto simp: serves_def world_cache.age_def entry_age_def)
  then show ?thesis
    by (fastforce simp: was_current_def fresh_def told_def current_def entry_age_def localTTLFor_def
        sharedTTLFor_def split: option.splits)
qed

subsection \<open>The properties\<close>

text \<open>
  C16. How stale an answer can be. After any run from empty caches, a poll returned to a
  client was the database's poll under that id in a state visited at most the local plus the
  shared lifetime ago, whatever transitions, failed invalidations and outages came between.
\<close>

theorem answers_recent:
  assumes "world_inv ev w" and "cold ev w" and "visits ev w es ws w1" and "roomy ev w es"
    and "do_Get ev i w1 = (Inr p, w2)"
  shows "was_current ev ws i p (clock w1)"
proof -
  have "world_inv ev w1" using run_oks [OF visits_run [OF assms(3)] assms(1,4)] by (simp add: run_ok_def)
  from get_facts(3) [OF this assms(5) refl] served_current [OF assms(3,1,2,4)] show ?thesis by blast
qed

lemma demo_cold: "cold demo_env demo_world"
  by (simp add: cold_def)

lemma demo_get_ok: "\<exists>w'. do_Get demo_env ''p'' demo_world = (Inr demo_poll, w')"
  using demo_served by (auto simp: do_Get_def poll_Get_def main_polls_def)

theorem answers_recent_witness: "was_current demo_env [demo_world] ''p'' demo_poll 1000"
proof -
  obtain w' where "do_Get demo_env ''p'' demo_world = (Inr demo_poll, w')" using demo_get_ok by blast
  from answers_recent [OF demo_inv demo_cold visits.here _ this] show ?thesis
    by (simp add: roomy_def demo_votes max_int64_def clock_def)
qed

text \<open>
  C17. Which polls votes are counted in. A counted ballot is one that the poll admitted as the
  database held it at most the two lifetimes before: active then, with the voting window open
  at the instant of the vote, and with options and a limit that allow the chosen ones. So a
  poll accepts no vote later than that after it was finished.
\<close>

theorem votes_recent:
  assumes "world_inv ev w" and "cold ev w" and "visits ev w es ws w1" and "roomy ev w (es @ [EvCast cmd r])"
    and "do_Cast ev cmd w1 = (r, w2)" and "w_votes ev w2 \<noteq> w_votes ev w1"
  shows "\<exists>p. was_current ev ws (vc_PollID cmd) p (clock w1) \<and> p_status p = PollStatusActive
    \<and> open_at p (clock w1) \<and> admissible p (vc_OptionIDs cmd)"
proof -
  note ok = run_oks [OF visits_run [OF assms(3)] assms(1) roomy_butlast [OF assms(4)]]
  have room: "room ev w1 (vc_PollID cmd)" using run_ok_room [OF ok assms(4)] by (simp add: room_def)
  have "world_inv ev w1" using ok by (simp add: run_ok_def)
  from cast_facts [OF this room assms(5)] assms(6) have "votable ev cmd w1" by blast
  then obtain p where p: "serves ev w1 (vc_PollID cmd) p" "open_at p (clock w1)" "admissible p (vc_OptionIDs cmd)"
    by (auto simp: votable_def)
  with served_current [OF assms(3,1,2) roomy_butlast [OF assms(4)] p(1)] show ?thesis
    by (auto simp: open_at_def)
qed

theorem votes_recent_witness:
  "\<exists>p. was_current demo_env [demo_world] ''p'' p 1000 \<and> open_at p 1000 \<and> admissible p [''a'']"
proof -
  obtain w2 where run: "do_Cast demo_env demo_vote demo_world = (Inr (), w2)" using demo_cast by (metis prod.collapse)
  have "w_votes demo_env w2 ''p'' ''a'' = w_votes demo_env demo_world ''p'' ''a'' + 1"
    using cast_facts [OF demo_inv demo_room run] by (simp add: recorded_def demo_vote_def)
  then have new: "w_votes demo_env w2 \<noteq> w_votes demo_env demo_world" by force
  have "roomy demo_env demo_world ([] @ [EvCast demo_vote (Inr ())])"
    by (simp add: roomy_def demo_votes max_int64_def)
  from votes_recent [OF demo_inv demo_cold visits.here this run new] show ?thesis
    by (auto simp: demo_vote_def clock_def)
qed

end
