(* ===== verification/Go_Float.thy ===== *)
theory Go_Float
  imports Complex_Main "HOL-Library.Word" "HOL-Library.Log_Nat"
begin

text \<open>
  \<open>float64\<close>, as far as the program computes with it: every operation is exact on rational
  numbers and then rounded to 53 significant bits, to the nearest such number and to the even
  one of two (IEEE 754, which Go prescribes). A float is written as its value; infinities,
  NaN, subnormal numbers and the sign of zero are left out, since the program only divides by
  positive totals and its numbers lie between \<open>2 powi (- 64)\<close> and \<open>2 powi 80\<close>.
\<close>

subsection \<open>Rounding\<close>

type_synonym float64 = rat

text \<open>The exponent of the binade of a positive number: \<open>2 powi binade q \<le> q < 2 powi (binade q + 1)\<close>\<close>

definition binade :: "rat \<Rightarrow> int" where
  "binade q = (case quotient_of q of (a, b) \<Rightarrow>
     (let k = bitlen a - bitlen b in if 2 powi k \<le> q then k else k - 1))"

definition round_even :: "rat \<Rightarrow> int" where
  "round_even q =
     (let n = \<lfloor>q\<rfloor>; d = q - of_int n
      in if d < 1 / 2 then n else if 1 / 2 < d then n + 1 else if even n then n else n + 1)"

definition ulp :: "rat \<Rightarrow> rat" where
  "ulp q = 2 powi (binade \<bar>q\<bar> - 52)"

definition to_float64 :: "rat \<Rightarrow> float64" where
  "to_float64 q = (if q = 0 then 0 else of_int (round_even (q / ulp q)) * ulp q)"

subsection \<open>The operations of the program\<close>

text \<open>The conversion \<open>float64(v)\<close>, the product, the quotient, and \<open>math.Round\<close>, which is exact\<close>

definition float_of_int64 :: "64 word \<Rightarrow> float64" where
  "float_of_int64 v = to_float64 (of_int (sint v))"

definition float_mul :: "float64 \<Rightarrow> float64 \<Rightarrow> float64" where
  "float_mul x y = to_float64 (x * y)"

definition float_div :: "float64 \<Rightarrow> float64 \<Rightarrow> float64" where
  "float_div x y = to_float64 (x / y)"

definition round_half_away :: "float64 \<Rightarrow> int" where
  "round_half_away q = (if q < 0 then - \<lfloor>1 / 2 - q\<rfloor> else \<lfloor>q + 1 / 2\<rfloor>)"

definition math_Round :: "float64 \<Rightarrow> float64" where
  "math_Round q = of_int (round_half_away q)"

subsection \<open>How far a result is from the exact one\<close>

lemma powi_pos [simp]: "0 < (2 :: rat) powi k"
  by (simp add: power_int_def)

lemma powi_mono: "j \<le> k \<Longrightarrow> (2 :: rat) powi j \<le> 2 powi k"
  by (rule power_int_increasing) simp_all

lemma binade_bounds:
  assumes "0 < q"
  shows "2 powi binade q \<le> q" and "q < 2 powi (binade q + 1)"
proof -
  obtain a b where ab: "quotient_of q = (a, b)" by fastforce
  then have b: "0 < b" and q: "q = of_int a / of_int b"
    by (simp_all add: quotient_of_denom_pos quotient_of_div)
  with assms have a: "0 < a" by (simp add: zero_less_divide_iff)
  define k where "k = bitlen a - bitlen b"
  have pow: "(2 :: rat) powi (bitlen x - 1) \<le> of_int x \<and> of_int x < (2 :: rat) powi bitlen x" if "0 < x" for x
  proof -
    have "1 \<le> bitlen x" using that bitlen_nonneg [of x] bitlen_eq_zero_iff [of x] by linarith
    moreover have "of_int (2 ^ nat (bitlen x - 1)) \<le> (of_int x :: rat)" "(of_int x :: rat) < of_int (2 ^ nat (bitlen x))"
      using bitlen_bounds [OF that] unfolding of_int_le_iff of_int_less_iff by simp_all
    ultimately show ?thesis by (simp add: power_int_def)
  qed
  have low: "(2 :: rat) powi (k - 1) < q"
  proof -
    have "(2 :: rat) powi (k - 1) * of_int b < 2 powi (k - 1) * 2 powi bitlen b"
      using pow [OF b] by (intro mult_strict_left_mono) simp_all
    also have "\<dots> = 2 powi (bitlen a - 1)" by (simp add: k_def flip: power_int_add)
    also have "\<dots> \<le> of_int a" using pow [OF a] by simp
    finally show ?thesis using b by (simp add: q less_divide_eq)
  qed
  have high: "q < 2 powi (k + 1)"
  proof -
    have "of_int a < (2 :: rat) powi bitlen a" using pow [OF a] by simp
    also have "\<dots> = 2 powi (k + 1) * 2 powi (bitlen b - 1)" by (simp add: k_def flip: power_int_add)
    also have "\<dots> \<le> 2 powi (k + 1) * of_int b" using pow [OF b] by (intro mult_left_mono) (simp_all add: less_imp_le)
    finally show ?thesis using b by (simp add: q divide_less_eq)
  qed
  show "2 powi binade q \<le> q" "q < 2 powi (binade q + 1)"
    using low high by (auto simp: binade_def ab Let_def simp flip: k_def)
qed

lemma round_even_close: "\<bar>of_int (round_even q) - q\<bar> \<le> 1 / 2"
proof -
  have "of_int \<lfloor>q\<rfloor> \<le> q" "q < of_int \<lfloor>q\<rfloor> + 1" by linarith+
  then show ?thesis by (auto simp: round_even_def Let_def abs_le_iff)
qed

lemma ulp_pos [simp]: "0 < ulp q" "ulp q \<noteq> 0"
proof -
  show "0 < ulp q" by (simp add: ulp_def)
  then show "ulp q \<noteq> 0" by simp
qed

lemma ulp_small: "q \<noteq> 0 \<Longrightarrow> ulp q \<le> \<bar>q\<bar> / 2 ^ 52"
proof -
  assume "q \<noteq> 0"
  then have "2 powi binade \<bar>q\<bar> \<le> \<bar>q\<bar>" by (intro binade_bounds(1)) simp
  moreover have "ulp q = 2 powi binade \<bar>q\<bar> / 2 ^ 52" by (simp add: ulp_def power_int_diff)
  ultimately show ?thesis by (simp add: divide_right_mono)
qed

text \<open>Rounding errs by at most half a unit in the last place, so by \<open>1 / 2 ^ 53\<close> of the number.\<close>

lemma to_float64_close: "\<bar>to_float64 q - q\<bar> \<le> \<bar>q\<bar> / 2 ^ 53"
proof (cases "q = 0")
  case False
  let ?r = "of_int (round_even (q / ulp q)) :: rat"
  have "to_float64 q - q = (?r - q / ulp q) * ulp q"
    using False ulp_pos(1) [of q] by (simp add: to_float64_def left_diff_distrib)
  then have "\<bar>to_float64 q - q\<bar> = \<bar>?r - q / ulp q\<bar> * ulp q" by (simp add: abs_mult abs_of_pos)
  also have "\<dots> \<le> 1 / 2 * ulp q" using round_even_close by (intro mult_right_mono) (simp_all add: less_imp_le)
  also have "\<dots> \<le> 1 / 2 * (\<bar>q\<bar> / 2 ^ 52)" using ulp_small [OF False] by simp
  finally show ?thesis by simp
qed (simp add: to_float64_def)

text \<open>The result is a float: an integer of at most 53 bits times a power of two.\<close>

lemma to_float64_representable:
  obtains m e where "to_float64 q = of_int m * 2 powi e" and "\<bar>m\<bar> \<le> 2 ^ 53"
proof (cases "q = 0")
  case True
  then show ?thesis using that [of 0 0] by (simp add: to_float64_def)
next
  case False
  let ?m = "round_even (q / ulp q)"
  have "\<bar>q\<bar> < 2 powi (binade \<bar>q\<bar> + 1)" using False by (intro binade_bounds(2)) simp
  moreover have "ulp q * 2 ^ 53 = 2 powi (binade \<bar>q\<bar> + 1)"
    by (simp add: ulp_def power_int_diff power_int_add)
  ultimately have "\<bar>q / ulp q\<bar> < 2 ^ 53" using ulp_pos(1) [of q] by (simp add: divide_less_eq mult.commute abs_divide)
  with round_even_close [of "q / ulp q"] have "\<bar>of_int ?m :: rat\<bar> < 2 ^ 53 + 1" by linarith
  then have "\<bar>of_int ?m :: rat\<bar> < of_int (2 ^ 53 + 1)" by simp
  then have "\<bar>?m\<bar> < 2 ^ 53 + 1" unfolding of_int_abs [symmetric] of_int_less_iff .
  then show ?thesis using False by (intro that [of ?m "binade \<bar>q\<bar> - 52"]) (simp_all add: to_float64_def ulp_def)
qed

lemma to_float64_between:
  assumes "0 \<le> q"
  shows "(1 - 1 / 2 ^ 53) * q \<le> to_float64 q" and "to_float64 q \<le> (1 + 1 / 2 ^ 53) * q" and "0 \<le> to_float64 q"
proof -
  have "\<bar>to_float64 q - q\<bar> \<le> q / 2 ^ 53" using to_float64_close [of q] assms by simp
  then have "to_float64 q - q \<le> q / 2 ^ 53" "- (q / 2 ^ 53) \<le> to_float64 q - q" by linarith+
  then show low: "(1 - 1 / 2 ^ 53) * q \<le> to_float64 q" and "to_float64 q \<le> (1 + 1 / 2 ^ 53) * q"
    by (simp_all add: left_diff_distrib distrib_right)
  have "0 \<le> (1 - 1 / 2 ^ 53) * q" using assms by simp
  with low show "0 \<le> to_float64 q" by linarith
qed

lemma round_close:
  assumes "0 \<le> q"
  shows "\<bar>of_int (round_half_away q) - q\<bar> \<le> 1 / 2"
proof -
  define z where "z = (of_int \<lfloor>q + 1 / 2\<rfloor> :: rat)"
  have "z \<le> q + 1 / 2" "q + 1 / 2 < z + 1" unfolding z_def by linarith+
  then have "\<bar>z - q\<bar> \<le> 1 / 2" unfolding abs_le_iff by linarith
  with assms show ?thesis by (simp add: round_half_away_def z_def)
qed

lemma round_within: "0 \<le> q \<Longrightarrow> q < of_int n + 1 / 2 \<Longrightarrow> 0 \<le> round_half_away q \<and> round_half_away q \<le> n"
  by (simp add: round_half_away_def le_floor_iff floor_le_iff)

end
