(* ===== verification/Http.thy ===== *)
theory Http
  imports Complex_Main Entity "HOL-Library.AList" Go_Float
begin

text \<open>
  Requests, responses and the JSON helpers of \<open>internal/httpjson\<close>. A response writer is a
  value that is returned updated; the JSON encoder and decoder are parameters, since what the
  service relies on is only that encoding may fail and that decoding may find the body too
  large or malformed. The structured log is the list of lines a request leaves behind.
\<close>

subsection \<open>Log levels\<close>

datatype level = LevelDebug | LevelInfo | LevelWarn | LevelError

fun level_no :: "level \<Rightarrow> int" where
  "level_no LevelDebug = - 4" | "level_no LevelInfo = 0" | "level_no LevelWarn = 4" | "level_no LevelError = 8"

instantiation level :: linorder
begin

definition less_eq_level :: "level \<Rightarrow> level \<Rightarrow> bool" where
  "less_eq_level a b \<longleftrightarrow> level_no a \<le> level_no b"

definition less_level :: "level \<Rightarrow> level \<Rightarrow> bool" where
  "less_level a b \<longleftrightarrow> level_no a < level_no b"

instance
proof
  fix a b :: level
  show "a \<le> b \<Longrightarrow> b \<le> a \<Longrightarrow> a = b" by (cases a; cases b) (simp_all add: less_eq_level_def)
qed (auto simp: less_eq_level_def less_level_def)

end

subsection \<open>Requests and the request context (context.go)\<close>

text \<open>
  The context values of a request, each empty until its middleware sets it. Header names
  are in canonical form; \<open>rq_param\<close> is the path parameter \<open>poll_id\<close>, and \<open>rq_limit\<close> the
  number of body bytes that may be read, when limited.
\<close>

record request =
  rq_method :: string
  rq_path :: string
  rq_param :: string
  rq_query :: "(string \<times> string) list"
  rq_header :: "(string \<times> string) list"
  rq_cookies :: "(string \<times> string) list"
  rq_remote :: string
  rq_body :: string
  rq_limit :: "int option"
  rq_RequestID :: string
  rq_ClientIP :: string
  rq_VoterToken :: string

definition WithRequestID :: "request \<Rightarrow> string \<Rightarrow> request" where
  "WithRequestID r i = r\<lparr>rq_RequestID := i\<rparr>"

definition WithClientIP :: "request \<Rightarrow> string \<Rightarrow> request" where
  "WithClientIP r ip = r\<lparr>rq_ClientIP := ip\<rparr>"

definition WithVoterToken :: "request \<Rightarrow> string \<Rightarrow> request" where
  "WithVoterToken r t = r\<lparr>rq_VoterToken := t\<rparr>"

text \<open>\<open>http.Header.Get\<close> and \<open>url.Values.Get\<close>: the first value, or the empty string\<close>

definition first_value :: "(string \<times> string) list \<Rightarrow> string \<Rightarrow> string" where
  "first_value h k = (case map_of h k of None \<Rightarrow> [] | Some v \<Rightarrow> v)"

text \<open>\<open>http.Header.Values\<close>\<close>

definition all_values :: "(string \<times> string) list \<Rightarrow> string \<Rightarrow> string list" where
  "all_values h k = map snd (filter (\<lambda>(k', _). k' = k) h)"

subsection \<open>Payloads\<close>

record ErrorDetail =
  ed_Code :: error_code
  ed_Message :: string
  ed_RequestID :: string

record optionResponse =
  or_ID :: string
  or_Text :: string
  or_Position :: int

record pollResponse =
  re_ID :: string
  re_Question :: string
  re_Type :: string
  re_MaxChoices :: int
  re_Status :: string
  re_Options :: "optionResponse list"
  re_CreatedAt :: instant
  re_StartsAt :: "instant option"
  re_EndsAt :: "instant option"
  re_FinishedAt :: "instant option"

record pollListResponse =
  lr_Items :: "pollResponse list"
  lr_Total :: int
  lr_Limit :: int
  lr_Offset :: int

record optionResultResponse =
  rr_ID :: string
  rr_Text :: string
  rr_Votes :: int64
  rr_Percentage :: float64

record resultsResponse =
  rs_PollID :: string
  rs_Question :: string
  rs_Status :: string
  rs_TotalVotes :: int64
  rs_Options :: "optionResultResponse list"
  rs_GeneratedAt :: instant

record dependencyStatus =
  ds_Name :: string
  ds_Healthy :: bool
  ds_Critical :: bool
  ds_Error :: string

record report =
  hr_Status :: string
  hr_Dependencies :: "dependencyStatus list"
  hr_ready :: bool

datatype payload =
    ErrorBody ErrorDetail
  | PollBody pollResponse
  | PollListBody pollListResponse
  | ResultsBody resultsResponse
  | VoteBody string
  | StatusBody string
  | ReportBody report

subsection \<open>The response writer\<close>

text \<open>
  \<open>wr_sent\<close> is the status line with the header as it was sent, once it was;
  \<open>wr_rec\<close> the status the access log's recorder has seen, once the recorder is installed (0
  before anything was written), and \<open>wr_written\<close> the bytes it counted. Lines of the log are
  newest last.
\<close>

record logline =
  ll_level :: level
  ll_message :: string
  ll_status :: int

text \<open>A cookie as it is handed to \<open>http.SetCookie\<close>, which renders it\<close>

record cookie =
  ck_Name :: string
  ck_Value :: string
  ck_Path :: string
  ck_Domain :: string
  ck_MaxAge :: int
  ck_HttpOnly :: bool
  ck_Secure :: bool
  ck_SameSite :: string

record writer =
  wr_header :: "(string \<times> string) list"
  wr_cookies :: "cookie list"
  wr_sent :: "(int \<times> (string \<times> string) list) option"
  wr_body :: string
  wr_rec :: "int option"
  wr_written :: int
  wr_log :: "logline list"

definition new_writer :: writer where
  "new_writer = \<lparr>wr_header = [], wr_cookies = [], wr_sent = None, wr_body = [], wr_rec = None, wr_written = 0, wr_log = []\<rparr>"

definition set_header :: "string \<Rightarrow> string \<Rightarrow> writer \<Rightarrow> writer" where
  "set_header k v w = w\<lparr>wr_header := AList.update k v (wr_header w)\<rparr>"

definition log_line :: "level \<Rightarrow> level \<Rightarrow> string \<Rightarrow> int \<Rightarrow> writer \<Rightarrow> writer" where
  "log_line lv l msg status w =
     (if lv \<le> l then w\<lparr>wr_log := wr_log w @ [\<lparr>ll_level = l, ll_message = msg, ll_status = status\<rparr>]\<rparr> else w)"

text \<open>\<open>net/http\<close>: the header goes out once; a write without one sends status 200\<close>

definition raw_WriteHeader :: "int \<Rightarrow> writer \<Rightarrow> writer" where
  "raw_WriteHeader status w =
     (case wr_sent w of None \<Rightarrow> w\<lparr>wr_sent := Some (status, wr_header w)\<rparr> | Some _ \<Rightarrow> w)"

definition raw_Write :: "string \<Rightarrow> writer \<Rightarrow> writer" where
  "raw_Write b w = (let w1 = raw_WriteHeader 200 w in w1\<lparr>wr_body := wr_body w1 @ b\<rparr>)"

text \<open>\<open>recorder.WriteHeader\<close> and \<open>recorder.Write\<close> (\<open>middleware/logging.go\<close>)\<close>

definition rec_WriteHeader :: "int \<Rightarrow> writer \<Rightarrow> writer" where
  "rec_WriteHeader status w =
     (case wr_rec w of None \<Rightarrow> raw_WriteHeader status w
      | Some seen \<Rightarrow> if seen = 0 then raw_WriteHeader status (w\<lparr>wr_rec := Some status\<rparr>) else w)"

definition rec_Write :: "string \<Rightarrow> writer \<Rightarrow> writer" where
  "rec_Write b w =
     (case wr_rec w of None \<Rightarrow> raw_Write b w
      | Some seen \<Rightarrow>
          let w1 = raw_Write b (if seen = 0 then w\<lparr>wr_rec := Some 200\<rparr> else w)
          in w1\<lparr>wr_written := wr_written w1 + int (length b)\<rparr>)"

definition rec_statusOrOK :: "writer \<Rightarrow> int" where
  "rec_statusOrOK w = (case wr_rec w of None \<Rightarrow> 200 | Some seen \<Rightarrow> if seen = 0 then 200 else seen)"

subsection \<open>JSON responses (response.go)\<close>

datatype 'a decoded = Decoded 'a | BodyTooLarge | BodyInvalid goerror

record voteRequest = vr_OptionIDs :: "string list"

record createPollRequest =
  cr_Question :: string
  cr_Type :: string
  cr_MaxChoices :: int
  cr_Options :: "string list"
  cr_StartsAt :: "instant option"
  cr_EndsAt :: "instant option"

text \<open>
  The JSON library: the text of a payload, unless it cannot be encoded, and the strict
  decoders, which read at most the given number of bytes of the body.
\<close>

record json_lib =
  jl_encode :: "payload \<Rightarrow> string option"
  jl_vote :: "int option \<Rightarrow> string \<Rightarrow> voteRequest decoded"
  jl_create :: "int option \<Rightarrow> string \<Rightarrow> createPollRequest decoded"

definition statusByCode :: "error_code \<Rightarrow> int option" where
  "statusByCode code = map_of
     [(CodeInvalidRequest, 400), (CodeUnauthorized, 401), (CodeNotFound, 404), (CodeConflict, 409),
      (CodeAlreadyVoted, 409), (CodePayloadTooLarge, 413), (CodeRateLimited, 429), (CodeQuotaExceeded, 429),
      (CodeUnavailable, 503), (CodeInternal, 500)] code"

definition StatusFor :: "error_code \<Rightarrow> int" where
  "StatusFor code = (case statusByCode code of Some status \<Rightarrow> status | None \<Rightarrow> 500)"

definition WriteJSON :: "json_lib \<Rightarrow> level \<Rightarrow> int \<Rightarrow> payload \<Rightarrow> writer \<Rightarrow> writer" where
  "WriteJSON js lv status v w =
     (let w1 = rec_WriteHeader status (set_header ''Content-Type'' ''application/json; charset=utf-8'' w)
      in case jl_encode js v of
           None \<Rightarrow> log_line lv LevelError ''failed to encode response body'' 0 w1
         | Some text \<Rightarrow> rec_Write text w1)"

definition WriteError :: "json_lib \<Rightarrow> level \<Rightarrow> request \<Rightarrow> goerror \<Rightarrow> writer \<Rightarrow> writer" where
  "WriteError js lv r err w =
     (let code = CodeOf err;
          status = StatusFor code;
          w1 = (if 500 \<le> status then log_line lv LevelError ''request failed'' 0 w else w);
          w2 = (if status = 401 then set_header ''WWW-Authenticate'' ''Bearer realm=\"voting-service\"'' w1 else w1)
      in WriteJSON js lv status
           (ErrorBody \<lparr>ed_Code = code, ed_Message = MessageOf err, ed_RequestID = rq_RequestID r\<rparr>) w2)"

definition DecodeJSON :: "(int option \<Rightarrow> string \<Rightarrow> 'a decoded) \<Rightarrow> request \<Rightarrow> goerror + 'a" where
  "DecodeJSON decode r =
     (case decode (rq_limit r) (rq_body r) of
        BodyTooLarge \<Rightarrow> Inl (WrapError CodePayloadTooLarge (ErrText ''http: request body too large'') ''request body is too large'')
      | BodyInvalid e \<Rightarrow> Inl (WrapError CodeInvalidRequest e ''request body is not valid JSON'')
      | Decoded v \<Rightarrow> Inr v)"

end
