(* ===== verification/Config.thy ===== *)
theory Config
  imports Http "HOL-Library.State_Monad" "HOL-Library.Monad_Syntax"
begin

text \<open>
  Loading and validating the configuration (\<open>internal/config\<close>). The loader collects its
  problems in the state of a monad while it reads the variables in the order of the code, so
  that one pass reports every problem. The environment is a function (an unset variable is
  empty); parsing durations and network prefixes and quoting values in messages are library
  functions and parameters.
\<close>

record 'p config_lib =
  cl_getenv :: "string \<Rightarrow> string"
  cl_ParseDuration :: "string \<Rightarrow> duration option"
  cl_ParsePrefix :: "string \<Rightarrow> 'p option"
  cl_quote :: "string \<Rightarrow> string"
  cl_show_duration :: "duration \<Rightarrow> string"

definition millisecond :: duration where "millisecond = 1000000"
definition minute :: duration where "minute = 60 * second"
definition hour :: duration where "hour = 60 * minute"

subsection \<open>Settings\<close>

record HTTP =
  ht_Address :: string
  ht_ReadHeaderTimeout :: duration
  ht_ReadTimeout :: duration
  ht_WriteTimeout :: duration
  ht_IdleTimeout :: duration
  ht_MaxHeaderBytes :: int
  ht_MaxRequestBytes :: int
  ht_RequestTimeout :: duration
  ht_ShutdownTimeout :: duration

record Postgres =
  po_DSN :: string
  po_MaxConns :: int
  po_MinConns :: int
  po_MaxConnLifetime :: duration
  po_MaxConnIdleTime :: duration
  po_ConnectTimeout :: duration

record RedisSettings =
  rd_Addresses :: "string list"
  rd_Username :: string
  rd_Password :: string
  rd_DB :: int
  rd_MasterName :: string
  rd_PoolSize :: int
  rd_MinIdleConns :: int
  rd_DialTimeout :: duration
  rd_ReadTimeout :: duration
  rd_WriteTimeout :: duration
  rd_MaxRetries :: int

record VoteSettings =
  vt_Shards :: int
  vt_DedupTTL :: duration
  vt_CounterRetention :: duration
  vt_RateLimit :: int
  vt_RateWindow :: duration
  vt_PollIPQuota :: int
  vt_PollIPQuotaWindow :: duration

record CacheSettings =
  ch_LocalTTL :: duration
  ch_SharedTTL :: duration
  ch_NegativeTTL :: duration
  ch_Capacity :: int

record PollSettings =
  ps_MaxQuestionLength :: int
  ps_MaxOptionLength :: int
  ps_MaxOptions :: int
  ps_DefaultPageSize :: int
  ps_MaxPageSize :: int

datatype same_site = SameSiteLaxMode | SameSiteStrictMode | SameSiteNoneMode

record CookieSettings =
  co_Name :: string
  co_TTL :: duration
  co_Secure :: bool
  co_SameSite :: same_site
  co_Domain :: string

record 'p Config =
  cf_Environment :: string
  cf_LogLevel :: level
  cf_HTTP :: HTTP
  cf_Postgres :: Postgres
  cf_Redis :: RedisSettings
  cf_AdminToken :: string
  cf_Vote :: VoteSettings
  cf_Cache :: CacheSettings
  cf_SyncTimeout :: duration
  cf_SettleAfter :: duration
  cf_Polls :: PollSettings
  cf_Cookie :: CookieSettings
  cf_ProbeTimeout :: duration
  cf_ProbeCacheFor :: duration
  cf_TrustedProxies :: "'p list"

subsection \<open>The loader\<close>

type_synonym 'a loaded = "(string list, 'a) state"

definition load_fail :: "string \<Rightarrow> unit loaded" where
  "load_fail problem = State (\<lambda>problems. ((), problems @ [problem]))"

definition requiredString :: "'p config_lib \<Rightarrow> string \<Rightarrow> string loaded" where
  "requiredString lib key =
     (let v = trim_space (cl_getenv lib key)
      in do { (if v = [] then load_fail (key @ '' is required'') else State_Monad.return ()); State_Monad.return v })"

definition optionalString :: "'p config_lib \<Rightarrow> string \<Rightarrow> string \<Rightarrow> string loaded" where
  "optionalString lib key fallback =
     (let v = trim_space (cl_getenv lib key) in State_Monad.return (if v = [] then fallback else v))"

definition load_secret :: "'p config_lib \<Rightarrow> string \<Rightarrow> nat \<Rightarrow> string loaded" where
  "load_secret lib key minLength =
     (let v = cl_getenv lib key
      in if v = [] then do { load_fail (key @ '' is required; generate one with `openssl rand -hex 32`''); State_Monad.return [] }
         else do { (if length v < minLength then load_fail (key @ '' must be at least '' @ itoa (int minLength) @ '' characters'')
                   else State_Monad.return ());
                   State_Monad.return v })"

definition load_integer :: "'p config_lib \<Rightarrow> string \<Rightarrow> int \<Rightarrow> int \<Rightarrow> int \<Rightarrow> int loaded" where
  "load_integer lib key fallback minimum maximum =
     (let raw = trim_space (cl_getenv lib key)
      in if raw = [] then State_Monad.return fallback
         else case parse_int raw of
           None \<Rightarrow> do { load_fail (key @ '' must be an integer, got '' @ cl_quote lib raw); State_Monad.return fallback }
         | Some v \<Rightarrow>
             if v < minimum \<or> maximum < v
             then do { load_fail (key @ '' must be between '' @ itoa minimum @ '' and '' @ itoa maximum @ '', got '' @ itoa v);
                       State_Monad.return fallback }
             else State_Monad.return v)"

definition load_duration :: "'p config_lib \<Rightarrow> string \<Rightarrow> duration \<Rightarrow> duration \<Rightarrow> duration \<Rightarrow> duration loaded" where
  "load_duration lib key fallback minimum maximum =
     (let raw = trim_space (cl_getenv lib key)
      in if raw = [] then State_Monad.return fallback
         else case cl_ParseDuration lib raw of
           None \<Rightarrow> do { load_fail (key @ '' must be a duration such as 250ms or 30s, got '' @ cl_quote lib raw);
                         State_Monad.return fallback }
         | Some v \<Rightarrow>
             if v < minimum \<or> maximum < v
             then do { load_fail (key @ '' must be between '' @ cl_show_duration lib minimum @ '' and ''
                         @ cl_show_duration lib maximum @ '', got '' @ cl_show_duration lib v);
                       State_Monad.return fallback }
             else State_Monad.return v)"

text \<open>\<open>strconv.ParseBool\<close>\<close>

definition ParseBool :: "string \<Rightarrow> bool option" where
  "ParseBool s =
     (if s \<in> {''1'', ''t'', ''T'', ''TRUE'', ''true'', ''True''} then Some True
      else if s \<in> {''0'', ''f'', ''F'', ''FALSE'', ''false'', ''False''} then Some False else None)"

definition load_boolean :: "'p config_lib \<Rightarrow> string \<Rightarrow> bool \<Rightarrow> bool loaded" where
  "load_boolean lib key fallback =
     (let raw = trim_space (cl_getenv lib key)
      in if raw = [] then State_Monad.return fallback
         else case ParseBool raw of
           None \<Rightarrow> do { load_fail (key @ '' must be a boolean, got '' @ cl_quote lib raw); State_Monad.return fallback }
         | Some v \<Rightarrow> State_Monad.return v)"

definition stringList :: "'p config_lib \<Rightarrow> string \<Rightarrow> string list" where
  "stringList lib key =
     (let raw = trim_space (cl_getenv lib key)
      in if raw = [] then [] else filter (\<lambda>v. v \<noteq> []) (map trim_space (split_at (CHR '','') raw)))"

fun prefix_entries :: "'p config_lib \<Rightarrow> string \<Rightarrow> string list \<Rightarrow> 'p list \<Rightarrow> 'p list loaded" where
  "prefix_entries lib key [] prefixes = State_Monad.return prefixes"
| "prefix_entries lib key (entry # rest) prefixes =
     (case cl_ParsePrefix lib entry of
        None \<Rightarrow> do { load_fail (key @ '' contains an invalid CIDR '' @ cl_quote lib entry); prefix_entries lib key rest prefixes }
      | Some p \<Rightarrow> prefix_entries lib key rest (prefixes @ [p]))"

definition prefixList :: "'p config_lib \<Rightarrow> string \<Rightarrow> 'p list loaded" where
  "prefixList lib key = prefix_entries lib key (stringList lib key) []"

text \<open>
  \<open>strings.ToLower\<close> on a string that folds to an ASCII one: the Kelvin sign has a lower
  case in ASCII, the long s is a lower-case letter already.
\<close>

function to_lower :: "string \<Rightarrow> string" where
  "to_lower [] = []"
| "to_lower (c # s) =
     (if byte_of c < 128 then lower_char c # to_lower s
      else if is_prefix (bytes [226, 132, 170]) (c # s) then CHR ''k'' # to_lower (drop 2 s)
      else c # to_lower s)"
  by pat_completeness auto
termination by (relation "measure length") auto

fun join_problems :: "string \<Rightarrow> string list \<Rightarrow> string" where
  "join_problems sep [] = []"
| "join_problems sep [w] = w"
| "join_problems sep (w # ws) = w @ sep @ join_problems sep ws"

definition load_oneOf :: "'p config_lib \<Rightarrow> string \<Rightarrow> string \<Rightarrow> string list \<Rightarrow> string loaded" where
  "load_oneOf lib key fallback allowed =
     do { v \<leftarrow> optionalString lib key fallback;
          if \<exists>candidate \<in> set allowed. equal_fold v candidate then State_Monad.return (to_lower v)
          else do { load_fail (key @ '' must be one of '' @ join_problems '', '' allowed @ '', got '' @ cl_quote lib v);
                    State_Monad.return fallback } }"

definition sameSiteName :: "same_site \<Rightarrow> string" where
  "sameSiteName mode =
     (case mode of SameSiteStrictMode \<Rightarrow> ''strict'' | SameSiteNoneMode \<Rightarrow> ''none'' | _ \<Rightarrow> ''lax'')"

definition parseSameSite :: "'p config_lib \<Rightarrow> string \<Rightarrow> same_site \<Rightarrow> same_site loaded" where
  "parseSameSite lib key fallback =
     do { v \<leftarrow> load_oneOf lib key (sameSiteName fallback) [''lax'', ''strict'', ''none''];
          State_Monad.return (if v = ''strict'' then SameSiteStrictMode
            else if v = ''none'' then SameSiteNoneMode else SameSiteLaxMode) }"

definition level_string :: "level \<Rightarrow> string" where
  "level_string l =
     (case l of LevelDebug \<Rightarrow> ''DEBUG'' | LevelInfo \<Rightarrow> ''INFO'' | LevelWarn \<Rightarrow> ''WARN'' | LevelError \<Rightarrow> ''ERROR'')"

definition parseLogLevel :: "'p config_lib \<Rightarrow> string \<Rightarrow> level \<Rightarrow> level loaded" where
  "parseLogLevel lib key fallback =
     do { v \<leftarrow> load_oneOf lib key (level_string fallback) [''debug'', ''info'', ''warn'', ''error''];
          State_Monad.return (if v = ''debug'' then LevelDebug else if v = ''warn'' then LevelWarn
            else if v = ''error'' then LevelError else LevelInfo) }"

subsection \<open>Load\<close>

text \<open>The fields are read in the order of the literal; one reader a section.\<close>

definition read_HTTP :: "'p config_lib \<Rightarrow> HTTP loaded" where
  "read_HTTP lib = do {
     address \<leftarrow> optionalString lib ''HTTP_ADDRESS'' '':8080'';
     header \<leftarrow> load_duration lib ''HTTP_READ_HEADER_TIMEOUT'' (5 * second) second minute;
     reading \<leftarrow> load_duration lib ''HTTP_READ_TIMEOUT'' (15 * second) second (5 * minute);
     writing \<leftarrow> load_duration lib ''HTTP_WRITE_TIMEOUT'' (15 * second) second (5 * minute);
     idle \<leftarrow> load_duration lib ''HTTP_IDLE_TIMEOUT'' (90 * second) second (10 * minute);
     headers \<leftarrow> load_integer lib ''HTTP_MAX_HEADER_BYTES'' 16384 1024 1048576;
     body \<leftarrow> load_integer lib ''HTTP_MAX_REQUEST_BYTES'' 65536 1024 8388608;
     request \<leftarrow> load_duration lib ''HTTP_REQUEST_TIMEOUT'' (5 * second) (100 * millisecond) minute;
     shutdown \<leftarrow> load_duration lib ''HTTP_SHUTDOWN_TIMEOUT'' (20 * second) second (5 * minute);
     State_Monad.return \<lparr>ht_Address = address, ht_ReadHeaderTimeout = header, ht_ReadTimeout = reading,
       ht_WriteTimeout = writing, ht_IdleTimeout = idle, ht_MaxHeaderBytes = headers,
       ht_MaxRequestBytes = body, ht_RequestTimeout = request, ht_ShutdownTimeout = shutdown\<rparr> }"

definition read_Postgres :: "'p config_lib \<Rightarrow> Postgres loaded" where
  "read_Postgres lib = do {
     dsn \<leftarrow> requiredString lib ''DATABASE_URL'';
     maxConns \<leftarrow> load_integer lib ''DATABASE_MAX_CONNS'' 20 1 500;
     minConns \<leftarrow> load_integer lib ''DATABASE_MIN_CONNS'' 2 0 500;
     lifetime \<leftarrow> load_duration lib ''DATABASE_MAX_CONN_LIFETIME'' (30 * minute) minute (24 * hour);
     idle \<leftarrow> load_duration lib ''DATABASE_MAX_CONN_IDLE_TIME'' (5 * minute) second hour;
     connecting \<leftarrow> load_duration lib ''DATABASE_CONNECT_TIMEOUT'' (10 * second) second minute;
     State_Monad.return \<lparr>po_DSN = dsn, po_MaxConns = maxConns, po_MinConns = minConns, po_MaxConnLifetime = lifetime,
       po_MaxConnIdleTime = idle, po_ConnectTimeout = connecting\<rparr> }"

definition read_Redis :: "'p config_lib \<Rightarrow> RedisSettings loaded" where
  "read_Redis lib = do {
     addresses \<leftarrow> State_Monad.return (stringList lib ''REDIS_ADDRESSES'');
     username \<leftarrow> optionalString lib ''REDIS_USERNAME'' [];
     password \<leftarrow> optionalString lib ''REDIS_PASSWORD'' [];
     db \<leftarrow> load_integer lib ''REDIS_DB'' 0 0 15;
     master \<leftarrow> optionalString lib ''REDIS_MASTER_NAME'' [];
     pool \<leftarrow> load_integer lib ''REDIS_POOL_SIZE'' 128 1 10000;
     idle \<leftarrow> load_integer lib ''REDIS_MIN_IDLE_CONNS'' 16 0 10000;
     dial \<leftarrow> load_duration lib ''REDIS_DIAL_TIMEOUT'' (2 * second) (100 * millisecond) minute;
     reading \<leftarrow> load_duration lib ''REDIS_READ_TIMEOUT'' (500 * millisecond) (50 * millisecond) (30 * second);
     writing \<leftarrow> load_duration lib ''REDIS_WRITE_TIMEOUT'' (500 * millisecond) (50 * millisecond) (30 * second);
     retries \<leftarrow> load_integer lib ''REDIS_MAX_RETRIES'' 2 0 10;
     State_Monad.return \<lparr>rd_Addresses = addresses, rd_Username = username, rd_Password = password, rd_DB = db,
       rd_MasterName = master, rd_PoolSize = pool, rd_MinIdleConns = idle, rd_DialTimeout = dial,
       rd_ReadTimeout = reading, rd_WriteTimeout = writing, rd_MaxRetries = retries\<rparr> }"

definition read_Vote :: "'p config_lib \<Rightarrow> VoteSettings loaded" where
  "read_Vote lib = do {
     shards \<leftarrow> load_integer lib ''VOTE_SHARDS'' 16 1 1024;
     dedup \<leftarrow> load_duration lib ''VOTE_DEDUP_TTL'' hour minute (30 * 24 * hour);
     retention \<leftarrow> load_duration lib ''VOTE_COUNTER_RETENTION'' (7 * 24 * hour) hour (90 * 24 * hour);
     rate \<leftarrow> load_integer lib ''VOTE_RATE_LIMIT'' 100 0 1000000;
     rateWindow \<leftarrow> load_duration lib ''VOTE_RATE_WINDOW'' (10 * second) second hour;
     quota \<leftarrow> load_integer lib ''VOTE_POLL_IP_QUOTA'' 0 0 1000000;
     quotaWindow \<leftarrow> load_duration lib ''VOTE_POLL_IP_QUOTA_WINDOW'' hour minute (30 * 24 * hour);
     State_Monad.return \<lparr>vt_Shards = shards, vt_DedupTTL = dedup, vt_CounterRetention = retention, vt_RateLimit = rate,
       vt_RateWindow = rateWindow, vt_PollIPQuota = quota, vt_PollIPQuotaWindow = quotaWindow\<rparr> }"

definition read_Cache :: "'p config_lib \<Rightarrow> CacheSettings loaded" where
  "read_Cache lib = do {
     here \<leftarrow> load_duration lib ''POLL_CACHE_LOCAL_TTL'' (2 * second) (100 * millisecond) minute;
     shared \<leftarrow> load_duration lib ''POLL_CACHE_SHARED_TTL'' minute second hour;
     negative \<leftarrow> load_duration lib ''POLL_CACHE_NEGATIVE_TTL'' (10 * second) second (10 * minute);
     capacity \<leftarrow> load_integer lib ''POLL_CACHE_CAPACITY'' 4096 16 1048576;
     State_Monad.return \<lparr>ch_LocalTTL = here, ch_SharedTTL = shared, ch_NegativeTTL = negative, ch_Capacity = capacity\<rparr> }"

definition read_Polls :: "'p config_lib \<Rightarrow> PollSettings loaded" where
  "read_Polls lib = do {
     question \<leftarrow> load_integer lib ''POLL_MAX_QUESTION_LENGTH'' 500 10 10000;
     text \<leftarrow> load_integer lib ''POLL_MAX_OPTION_LENGTH'' 200 1 10000;
     options \<leftarrow> load_integer lib ''POLL_MAX_OPTIONS'' 20 2 1000;
     standard \<leftarrow> load_integer lib ''POLL_PAGE_SIZE_DEFAULT'' 20 1 1000;
     largest \<leftarrow> load_integer lib ''POLL_PAGE_SIZE_MAX'' 100 1 1000;
     State_Monad.return \<lparr>ps_MaxQuestionLength = question, ps_MaxOptionLength = text, ps_MaxOptions = options,
       ps_DefaultPageSize = standard, ps_MaxPageSize = largest\<rparr> }"

definition read_Cookie :: "'p config_lib \<Rightarrow> CookieSettings loaded" where
  "read_Cookie lib = do {
     name \<leftarrow> optionalString lib ''VOTER_COOKIE_NAME'' ''voter_id'';
     ttl \<leftarrow> load_duration lib ''VOTER_COOKIE_TTL'' (30 * 24 * hour) hour (365 * 24 * hour);
     secure \<leftarrow> load_boolean lib ''VOTER_COOKIE_SECURE'' True;
     site \<leftarrow> parseSameSite lib ''VOTER_COOKIE_SAMESITE'' SameSiteLaxMode;
     domain \<leftarrow> optionalString lib ''VOTER_COOKIE_DOMAIN'' [];
     State_Monad.return \<lparr>co_Name = name, co_TTL = ttl, co_Secure = secure, co_SameSite = site, co_Domain = domain\<rparr> }"

definition read_Config :: "'p config_lib \<Rightarrow> 'p Config loaded" where
  "read_Config lib = do {
     environment \<leftarrow> load_oneOf lib ''APP_ENV'' ''development'' [''development'', ''production''];
     level \<leftarrow> parseLogLevel lib ''LOG_LEVEL'' LevelInfo;
     http \<leftarrow> read_HTTP lib;
     postgres \<leftarrow> read_Postgres lib;
     redis \<leftarrow> read_Redis lib;
     token \<leftarrow> load_secret lib ''ADMIN_TOKEN'' 32;
     vote \<leftarrow> read_Vote lib;
     cache \<leftarrow> read_Cache lib;
     timeout \<leftarrow> load_duration lib ''SYNC_TIMEOUT'' (30 * second) second (10 * minute);
     settle \<leftarrow> load_duration lib ''SYNC_SETTLE_AFTER'' (10 * minute) minute (24 * hour);
     polls \<leftarrow> read_Polls lib;
     cookie \<leftarrow> read_Cookie lib;
     probe \<leftarrow> load_duration lib ''PROBE_TIMEOUT'' (2 * second) (100 * millisecond) (30 * second);
     probeCache \<leftarrow> load_duration lib ''PROBE_CACHE_FOR'' second 0 minute;
     proxies \<leftarrow> prefixList lib ''TRUSTED_PROXY_CIDRS'';
     State_Monad.return \<lparr>cf_Environment = environment, cf_LogLevel = level, cf_HTTP = http, cf_Postgres = postgres,
       cf_Redis = redis, cf_AdminToken = token, cf_Vote = vote, cf_Cache = cache, cf_SyncTimeout = timeout,
       cf_SettleAfter = settle, cf_Polls = polls, cf_Cookie = cookie, cf_ProbeTimeout = probe,
       cf_ProbeCacheFor = probeCache, cf_TrustedProxies = proxies\<rparr> }"

definition load_check :: "bool \<Rightarrow> string \<Rightarrow> unit loaded" where
  "load_check bad problem = (if bad then load_fail problem else State_Monad.return ())"

definition validateProduction :: "'p Config \<Rightarrow> unit loaded" where
  "validateProduction cfg = do {
     load_check (\<not> co_Secure (cf_Cookie cfg)) ''VOTER_COOKIE_SECURE must be true in production'';
     load_check (co_SameSite (cf_Cookie cfg) = SameSiteNoneMode \<and> \<not> co_Secure (cf_Cookie cfg))
       ''VOTER_COOKIE_SAMESITE=none requires VOTER_COOKIE_SECURE=true'' }"

definition check_Config :: "'p Config \<Rightarrow> unit loaded" where
  "check_Config cfg = do {
     load_check (rd_Addresses (cf_Redis cfg) = []) ''REDIS_ADDRESSES is required (comma-separated host:port list)'';
     load_check (po_MaxConns (cf_Postgres cfg) < po_MinConns (cf_Postgres cfg))
       ''DATABASE_MIN_CONNS must not exceed DATABASE_MAX_CONNS'';
     load_check (ps_MaxPageSize (cf_Polls cfg) < ps_DefaultPageSize (cf_Polls cfg))
       ''POLL_PAGE_SIZE_DEFAULT must not exceed POLL_PAGE_SIZE_MAX'';
     load_check (ch_SharedTTL (cf_Cache cfg) < ch_LocalTTL (cf_Cache cfg))
       ''POLL_CACHE_LOCAL_TTL must not exceed POLL_CACHE_SHARED_TTL'';
     if cf_Environment cfg = ''production'' then validateProduction cfg else State_Monad.return () }"

definition Load :: "'p config_lib \<Rightarrow> goerror + 'p Config" where
  "Load lib =
     (case run_state (do { cfg \<leftarrow> read_Config lib; check_Config cfg; State_Monad.return cfg }) [] of
        (cfg, problems) \<Rightarrow>
          if problems = [] then Inr cfg
          else Inl (ErrText (''invalid configuration:'' @ bytes [10] @ ''  - ''
                      @ join_problems (bytes [10] @ ''  - '') problems)))"

end
