(* ===== verification/Config_Laws.thy ===== *)
theory Config_Laws
  imports Config
begin

text \<open>
  What \<open>Load\<close> accepts and what an accepted configuration promises. A reader is described by
  two facts: when it reports no problem, and what its value then satisfies. Both compose
  along the monad, whatever problems were collected before.
\<close>

subsection \<open>Readers\<close>

text \<open>Problems are only ever added.\<close>

definition appends :: "'a loaded \<Rightarrow> bool" where
  "appends m \<longleftrightarrow> (\<forall>ps. \<exists>rs. snd (run_state m ps) = ps @ rs)"

text \<open>\<open>m\<close> reports a problem unless \<open>ok\<close>, and then its value satisfies \<open>P\<close>.\<close>

definition reads :: "'a loaded \<Rightarrow> bool \<Rightarrow> ('a \<Rightarrow> bool) \<Rightarrow> bool" where
  "reads m ok P \<longleftrightarrow> (\<forall>ps. \<exists>rs. snd (run_state m ps) = ps @ rs \<and> (rs = [] \<longleftrightarrow> ok)
     \<and> (ok \<longrightarrow> P (fst (run_state m ps))))"

named_theorems appending \<open>readers add problems\<close>

lemma appends_return [appending]: "appends (State_Monad.return v)"
  by (simp add: appends_def)

lemma appends_fail [appending]: "appends (load_fail p)"
  by (simp add: appends_def load_fail_def)

lemma appends_bind [appending]:
  assumes "appends m" and "\<And>x. appends (f x)"
  shows "appends (m \<bind> f)"
  unfolding appends_def
proof
  fix ps
  obtain x qs where m: "run_state m ps = (x, qs)" by fastforce
  with assms(1) obtain rs where "qs = ps @ rs" by (auto simp: appends_def dest: spec [of _ ps])
  with m assms(2) [of x] show "\<exists>rs. snd (run_state (m \<bind> f) ps) = ps @ rs"
    by (auto simp: appends_def dest: spec [of _ qs])
qed

lemma reads_appends: "reads m ok P \<Longrightarrow> appends m"
  unfolding reads_def appends_def by blast

lemma reads_return: "P v \<Longrightarrow> reads (State_Monad.return v) True P"
  by (simp add: reads_def)

lemma reads_weaken: "reads m ok P \<Longrightarrow> (\<And>x. P x \<Longrightarrow> Q x) \<Longrightarrow> reads m ok Q"
  unfolding reads_def by blast

lemma reads_bind:
  assumes m: "reads m ok P" and adds: "\<And>x. appends (f x)" and f: "\<And>x. P x \<Longrightarrow> reads (f x) ok' Q"
  shows "reads (m \<bind> f) (ok \<and> ok') Q"
  unfolding reads_def
proof
  fix ps
  obtain x qs where run: "run_state m ps = (x, qs)" by fastforce
  with m obtain rs where rs: "qs = ps @ rs" "rs = [] \<longleftrightarrow> ok" "ok \<Longrightarrow> P x"
    unfolding reads_def by (metis fst_conv snd_conv)
  show "\<exists>rs. snd (run_state (m \<bind> f) ps) = ps @ rs \<and> (rs = [] \<longleftrightarrow> ok \<and> ok')
      \<and> (ok \<and> ok' \<longrightarrow> Q (fst (run_state (m \<bind> f) ps)))"
  proof (cases ok)
    case True
    from f [OF rs(3) [OF True]] obtain ts where "snd (run_state (f x) qs) = qs @ ts" "ts = [] \<longleftrightarrow> ok'"
      "ok' \<longrightarrow> Q (fst (run_state (f x) qs))" unfolding reads_def by blast
    with run rs True show ?thesis by simp
  next
    case False
    from adds [of x] obtain ts where "snd (run_state (f x) qs) = qs @ ts" unfolding appends_def by blast
    with run rs False show ?thesis by simp
  qed
qed

subsection \<open>The readers of one variable\<close>

text \<open>What a variable means, as a function of the environment.\<close>

definition raw :: "'p config_lib \<Rightarrow> string \<Rightarrow> string" where
  "raw lib key = trim_space (cl_getenv lib key)"

definition int_of :: "'p config_lib \<Rightarrow> string \<Rightarrow> int \<Rightarrow> int" where
  "int_of lib key d = (case parse_int (raw lib key) of Some v \<Rightarrow> if raw lib key = [] then d else v | None \<Rightarrow> d)"

definition int_ok :: "'p config_lib \<Rightarrow> string \<Rightarrow> int \<Rightarrow> int \<Rightarrow> bool" where
  "int_ok lib key lo hi \<longleftrightarrow> raw lib key = [] \<or> (\<exists>v. parse_int (raw lib key) = Some v \<and> lo \<le> v \<and> v \<le> hi)"

definition time_of :: "'p config_lib \<Rightarrow> string \<Rightarrow> duration \<Rightarrow> duration" where
  "time_of lib key d =
     (case cl_ParseDuration lib (raw lib key) of Some v \<Rightarrow> if raw lib key = [] then d else v | None \<Rightarrow> d)"

definition time_ok :: "'p config_lib \<Rightarrow> string \<Rightarrow> duration \<Rightarrow> duration \<Rightarrow> bool" where
  "time_ok lib key lo hi \<longleftrightarrow> raw lib key = [] \<or>
     (\<exists>v. cl_ParseDuration lib (raw lib key) = Some v \<and> lo \<le> v \<and> v \<le> hi)"

definition text_of :: "'p config_lib \<Rightarrow> string \<Rightarrow> string \<Rightarrow> string" where
  "text_of lib key d = (if raw lib key = [] then d else raw lib key)"

definition choice_ok :: "'p config_lib \<Rightarrow> string \<Rightarrow> string \<Rightarrow> string list \<Rightarrow> bool" where
  "choice_ok lib key d allowed \<longleftrightarrow> (\<exists>c \<in> set allowed. equal_fold (text_of lib key d) c)"

definition flag_of :: "'p config_lib \<Rightarrow> string \<Rightarrow> bool \<Rightarrow> bool" where
  "flag_of lib key d = (if raw lib key = [] then d else (case ParseBool (raw lib key) of Some v \<Rightarrow> v | None \<Rightarrow> d))"

definition flag_ok :: "'p config_lib \<Rightarrow> string \<Rightarrow> bool" where
  "flag_ok lib key \<longleftrightarrow> raw lib key = [] \<or> ParseBool (raw lib key) \<noteq> None"

lemma integer_reads:
  "lo \<le> d \<Longrightarrow> d \<le> hi \<Longrightarrow>
   reads (load_integer lib key d lo hi) (int_ok lib key lo hi) (\<lambda>v. v = int_of lib key d \<and> lo \<le> v \<and> v \<le> hi)"
  by (auto simp: reads_def load_integer_def Let_def int_ok_def int_of_def raw_def load_fail_def
      split: option.split)

lemma duration_reads:
  "lo \<le> d \<Longrightarrow> d \<le> hi \<Longrightarrow>
   reads (load_duration lib key d lo hi) (time_ok lib key lo hi) (\<lambda>v. v = time_of lib key d \<and> lo \<le> v \<and> v \<le> hi)"
  by (auto simp: reads_def load_duration_def Let_def time_ok_def time_of_def raw_def load_fail_def
      split: option.split)

lemma optional_reads:
  "reads (optionalString lib key d) True (\<lambda>v. v = text_of lib key d \<and> (d \<noteq> [] \<longrightarrow> v \<noteq> []))"
  by (auto simp: reads_def optionalString_def Let_def text_of_def raw_def)

lemma required_reads:
  "reads (requiredString lib key) (raw lib key \<noteq> []) (\<lambda>v. v = raw lib key \<and> v \<noteq> [])"
  by (auto simp: reads_def requiredString_def Let_def raw_def load_fail_def)

lemma secret_reads:
  "0 < n \<Longrightarrow> reads (load_secret lib key n) (n \<le> length (cl_getenv lib key))
     (\<lambda>v. v = cl_getenv lib key \<and> n \<le> length v)"
  by (auto simp: reads_def load_secret_def Let_def load_fail_def)

lemma boolean_reads: "reads (load_boolean lib key d) (flag_ok lib key) (\<lambda>v. v = flag_of lib key d)"
  by (auto simp: reads_def load_boolean_def Let_def flag_ok_def flag_of_def raw_def load_fail_def
      split: option.split)

lemma choice_reads:
  "reads (load_oneOf lib key d allowed) (choice_ok lib key d allowed) (\<lambda>v. v = to_lower (text_of lib key d))"
  by (auto simp: reads_def load_oneOf_def optionalString_def Let_def choice_ok_def text_of_def raw_def load_fail_def)

text \<open>One step of a section: a reader, then the rest.\<close>

lemmas reader_steps =
  reads_bind [OF integer_reads] reads_bind [OF duration_reads] reads_bind [OF optional_reads]
  reads_bind [OF required_reads] reads_bind [OF secret_reads] reads_bind [OF boolean_reads]

lemmas reader_appends [appending] =
  optional_reads [THEN reads_appends] required_reads [THEN reads_appends] boolean_reads [THEN reads_appends]
  choice_reads [THEN reads_appends]

lemma ranged_appends [appending]:
  "appends (load_integer lib key d lo hi)" "appends (load_duration lib key d lo hi)"
  "appends (load_secret lib key n)"
  by (auto simp: appends_def load_integer_def load_duration_def load_secret_def Let_def load_fail_def
      split: option.split)

lemmas times = second_def millisecond_def minute_def hour_def

subsection \<open>The sections\<close>

definition HTTP_env :: "'p config_lib \<Rightarrow> bool" where
  "HTTP_env lib \<longleftrightarrow>
     time_ok lib ''HTTP_READ_HEADER_TIMEOUT'' second minute
     \<and> time_ok lib ''HTTP_READ_TIMEOUT'' second (5 * minute)
     \<and> time_ok lib ''HTTP_WRITE_TIMEOUT'' second (5 * minute)
     \<and> time_ok lib ''HTTP_IDLE_TIMEOUT'' second (10 * minute)
     \<and> int_ok lib ''HTTP_MAX_HEADER_BYTES'' 1024 1048576
     \<and> int_ok lib ''HTTP_MAX_REQUEST_BYTES'' 1024 8388608
     \<and> time_ok lib ''HTTP_REQUEST_TIMEOUT'' (100 * millisecond) minute
     \<and> time_ok lib ''HTTP_SHUTDOWN_TIMEOUT'' second (5 * minute)"

definition HTTP_sound :: "HTTP \<Rightarrow> bool" where
  "HTTP_sound h \<longleftrightarrow> ht_Address h \<noteq> []
     \<and> ht_ReadHeaderTimeout h \<in> {second..minute} \<and> ht_ReadTimeout h \<in> {second..5 * minute}
     \<and> ht_WriteTimeout h \<in> {second..5 * minute} \<and> ht_IdleTimeout h \<in> {second..10 * minute}
     \<and> ht_MaxHeaderBytes h \<in> {1024..1048576} \<and> ht_MaxRequestBytes h \<in> {1024..8388608}
     \<and> ht_RequestTimeout h \<in> {100 * millisecond..minute} \<and> ht_ShutdownTimeout h \<in> {second..5 * minute}"

lemma HTTP_reads: "reads (read_HTTP lib) (HTTP_env lib) HTTP_sound"
proof -
  have "reads (read_HTTP lib) (True \<and> HTTP_env lib \<and> True) HTTP_sound"
    unfolding read_HTTP_def HTTP_env_def conj_assoc
    by (intro reader_steps appending reads_return) (auto simp: HTTP_sound_def times)
  then show ?thesis by simp
qed

definition Postgres_env :: "'p config_lib \<Rightarrow> bool" where
  "Postgres_env lib \<longleftrightarrow> raw lib ''DATABASE_URL'' \<noteq> []
     \<and> int_ok lib ''DATABASE_MAX_CONNS'' 1 500
     \<and> int_ok lib ''DATABASE_MIN_CONNS'' 0 500
     \<and> time_ok lib ''DATABASE_MAX_CONN_LIFETIME'' minute (24 * hour)
     \<and> time_ok lib ''DATABASE_MAX_CONN_IDLE_TIME'' second hour
     \<and> time_ok lib ''DATABASE_CONNECT_TIMEOUT'' second minute"

definition Postgres_sound :: "'p config_lib \<Rightarrow> Postgres \<Rightarrow> bool" where
  "Postgres_sound lib p \<longleftrightarrow> po_DSN p = raw lib ''DATABASE_URL'' \<and> po_DSN p \<noteq> []
     \<and> po_MaxConns p = int_of lib ''DATABASE_MAX_CONNS'' 20 \<and> po_MaxConns p \<in> {1..500}
     \<and> po_MinConns p = int_of lib ''DATABASE_MIN_CONNS'' 2 \<and> po_MinConns p \<in> {0..500}
     \<and> po_MaxConnLifetime p \<in> {minute..24 * hour} \<and> po_MaxConnIdleTime p \<in> {second..hour}
     \<and> po_ConnectTimeout p \<in> {second..minute}"

lemma Postgres_reads: "reads (read_Postgres lib) (Postgres_env lib) (Postgres_sound lib)"
proof -
  have "reads (read_Postgres lib) (Postgres_env lib \<and> True) (Postgres_sound lib)"
    unfolding read_Postgres_def Postgres_env_def conj_assoc
    by (intro reader_steps appending reads_return) (auto simp: Postgres_sound_def times)
  then show ?thesis by simp
qed

definition Redis_env :: "'p config_lib \<Rightarrow> bool" where
  "Redis_env lib \<longleftrightarrow> int_ok lib ''REDIS_DB'' 0 15
     \<and> int_ok lib ''REDIS_POOL_SIZE'' 1 10000
     \<and> int_ok lib ''REDIS_MIN_IDLE_CONNS'' 0 10000
     \<and> time_ok lib ''REDIS_DIAL_TIMEOUT'' (100 * millisecond) minute
     \<and> time_ok lib ''REDIS_READ_TIMEOUT'' (50 * millisecond) (30 * second)
     \<and> time_ok lib ''REDIS_WRITE_TIMEOUT'' (50 * millisecond) (30 * second)
     \<and> int_ok lib ''REDIS_MAX_RETRIES'' 0 10"

definition Redis_sound :: "'p config_lib \<Rightarrow> RedisSettings \<Rightarrow> bool" where
  "Redis_sound lib d \<longleftrightarrow> rd_Addresses d = stringList lib ''REDIS_ADDRESSES''
     \<and> rd_DB d \<in> {0..15} \<and> rd_PoolSize d \<in> {1..10000} \<and> rd_MinIdleConns d \<in> {0..10000}
     \<and> rd_DialTimeout d \<in> {100 * millisecond..minute} \<and> rd_ReadTimeout d \<in> {50 * millisecond..30 * second}
     \<and> rd_WriteTimeout d \<in> {50 * millisecond..30 * second} \<and> rd_MaxRetries d \<in> {0..10}"

lemma Redis_reads: "reads (read_Redis lib) (Redis_env lib) (Redis_sound lib)"
proof -
  have "reads (read_Redis lib) (True \<and> True \<and> int_ok lib ''REDIS_DB'' 0 15 \<and> True
     \<and> int_ok lib ''REDIS_POOL_SIZE'' 1 10000
     \<and> int_ok lib ''REDIS_MIN_IDLE_CONNS'' 0 10000
     \<and> time_ok lib ''REDIS_DIAL_TIMEOUT'' (100 * millisecond) minute
     \<and> time_ok lib ''REDIS_READ_TIMEOUT'' (50 * millisecond) (30 * second)
     \<and> time_ok lib ''REDIS_WRITE_TIMEOUT'' (50 * millisecond) (30 * second)
     \<and> int_ok lib ''REDIS_MAX_RETRIES'' 0 10 \<and> True) (Redis_sound lib)"
    unfolding read_Redis_def State_Monad.bind_left_identity
    by (intro reader_steps appending reads_return) (auto simp: Redis_sound_def times)
  then show ?thesis by (simp add: Redis_env_def)
qed

definition Vote_env :: "'p config_lib \<Rightarrow> bool" where
  "Vote_env lib \<longleftrightarrow> int_ok lib ''VOTE_SHARDS'' 1 1024
     \<and> time_ok lib ''VOTE_DEDUP_TTL'' minute (30 * 24 * hour)
     \<and> time_ok lib ''VOTE_COUNTER_RETENTION'' hour (90 * 24 * hour)
     \<and> int_ok lib ''VOTE_RATE_LIMIT'' 0 1000000
     \<and> time_ok lib ''VOTE_RATE_WINDOW'' second hour
     \<and> int_ok lib ''VOTE_POLL_IP_QUOTA'' 0 1000000
     \<and> time_ok lib ''VOTE_POLL_IP_QUOTA_WINDOW'' minute (30 * 24 * hour)"

definition Vote_sound :: "VoteSettings \<Rightarrow> bool" where
  "Vote_sound v \<longleftrightarrow> vt_Shards v \<in> {1..1024} \<and> vt_DedupTTL v \<in> {minute..30 * 24 * hour}
     \<and> vt_CounterRetention v \<in> {hour..90 * 24 * hour} \<and> vt_RateLimit v \<in> {0..1000000}
     \<and> vt_RateWindow v \<in> {second..hour} \<and> vt_PollIPQuota v \<in> {0..1000000}
     \<and> vt_PollIPQuotaWindow v \<in> {minute..30 * 24 * hour}"

lemma Vote_reads: "reads (read_Vote lib) (Vote_env lib) Vote_sound"
proof -
  have "reads (read_Vote lib) (Vote_env lib \<and> True) Vote_sound"
    unfolding read_Vote_def Vote_env_def conj_assoc
    by (intro reader_steps appending reads_return) (auto simp: Vote_sound_def times)
  then show ?thesis by simp
qed

definition Cache_env :: "'p config_lib \<Rightarrow> bool" where
  "Cache_env lib \<longleftrightarrow> time_ok lib ''POLL_CACHE_LOCAL_TTL'' (100 * millisecond) minute
     \<and> time_ok lib ''POLL_CACHE_SHARED_TTL'' second hour
     \<and> time_ok lib ''POLL_CACHE_NEGATIVE_TTL'' second (10 * minute)
     \<and> int_ok lib ''POLL_CACHE_CAPACITY'' 16 1048576"

definition Cache_sound :: "'p config_lib \<Rightarrow> CacheSettings \<Rightarrow> bool" where
  "Cache_sound lib c \<longleftrightarrow>
     ch_LocalTTL c = time_of lib ''POLL_CACHE_LOCAL_TTL'' (2 * second) \<and> ch_LocalTTL c \<in> {100 * millisecond..minute}
     \<and> ch_SharedTTL c = time_of lib ''POLL_CACHE_SHARED_TTL'' minute \<and> ch_SharedTTL c \<in> {second..hour}
     \<and> ch_NegativeTTL c \<in> {second..10 * minute} \<and> ch_Capacity c \<in> {16..1048576}"

lemma Cache_reads: "reads (read_Cache lib) (Cache_env lib) (Cache_sound lib)"
proof -
  have "reads (read_Cache lib) (Cache_env lib \<and> True) (Cache_sound lib)"
    unfolding read_Cache_def Cache_env_def conj_assoc
    by (intro reader_steps appending reads_return) (auto simp: Cache_sound_def times)
  then show ?thesis by simp
qed

definition Polls_env :: "'p config_lib \<Rightarrow> bool" where
  "Polls_env lib \<longleftrightarrow> int_ok lib ''POLL_MAX_QUESTION_LENGTH'' 10 10000
     \<and> int_ok lib ''POLL_MAX_OPTION_LENGTH'' 1 10000
     \<and> int_ok lib ''POLL_MAX_OPTIONS'' 2 1000
     \<and> int_ok lib ''POLL_PAGE_SIZE_DEFAULT'' 1 1000
     \<and> int_ok lib ''POLL_PAGE_SIZE_MAX'' 1 1000"

definition Polls_sound :: "'p config_lib \<Rightarrow> PollSettings \<Rightarrow> bool" where
  "Polls_sound lib p \<longleftrightarrow> ps_MaxQuestionLength p \<in> {10..10000} \<and> ps_MaxOptionLength p \<in> {1..10000}
     \<and> ps_MaxOptions p \<in> {2..1000}
     \<and> ps_DefaultPageSize p = int_of lib ''POLL_PAGE_SIZE_DEFAULT'' 20 \<and> ps_DefaultPageSize p \<in> {1..1000}
     \<and> ps_MaxPageSize p = int_of lib ''POLL_PAGE_SIZE_MAX'' 100 \<and> ps_MaxPageSize p \<in> {1..1000}"

lemma Polls_reads: "reads (read_Polls lib) (Polls_env lib) (Polls_sound lib)"
proof -
  have "reads (read_Polls lib) (Polls_env lib \<and> True) (Polls_sound lib)"
    unfolding read_Polls_def Polls_env_def conj_assoc
    by (intro reader_steps appending reads_return) (auto simp: Polls_sound_def times)
  then show ?thesis by simp
qed

text \<open>A choice whose text has no letter s folds to one spelling only.\<close>

lemma equal_fold_lower:
  "equal_fold s t \<Longrightarrow> \<forall>c \<in> set t. lower_char c = c \<and> c \<noteq> CHR ''s'' \<Longrightarrow> to_lower s = t"
proof (induction s t rule: equal_fold.induct)
  case (2 s t ts)
  then obtain c s' where f: "fold_rune s = Some (c, s')" "c = t" "equal_fold s' ts"
    by (auto split: option.splits)
  from f(1) obtain x u where s: "s = x # u" by (cases s) auto
  from 2 f have "to_lower s' = ts" by auto
  with f(1,2) 2(3) s show ?case by (auto split: if_splits)
qed simp

definition Cookie_env :: "'p config_lib \<Rightarrow> bool" where
  "Cookie_env lib \<longleftrightarrow> time_ok lib ''VOTER_COOKIE_TTL'' hour (365 * 24 * hour)
     \<and> flag_ok lib ''VOTER_COOKIE_SECURE''
     \<and> choice_ok lib ''VOTER_COOKIE_SAMESITE'' ''lax'' [''lax'', ''strict'', ''none'']"

definition Cookie_sound :: "'p config_lib \<Rightarrow> CookieSettings \<Rightarrow> bool" where
  "Cookie_sound lib c \<longleftrightarrow> co_Name c \<noteq> [] \<and> co_TTL c \<in> {hour..365 * 24 * hour}
     \<and> co_Secure c = flag_of lib ''VOTER_COOKIE_SECURE'' True"

lemma site_reads:
  "reads (parseSameSite lib key SameSiteLaxMode) (choice_ok lib key ''lax'' [''lax'', ''strict'', ''none'']) (\<lambda>_. True)"
proof -
  have "reads (parseSameSite lib key SameSiteLaxMode)
      (choice_ok lib key (sameSiteName SameSiteLaxMode) [''lax'', ''strict'', ''none''] \<and> True) (\<lambda>_. True)"
    unfolding parseSameSite_def by (intro reads_bind [OF choice_reads] appending reads_return) simp
  then show ?thesis by (simp add: sameSiteName_def)
qed

lemma Cookie_reads: "reads (read_Cookie lib) (Cookie_env lib) (Cookie_sound lib)"
proof -
  have "reads (read_Cookie lib) (True \<and> time_ok lib ''VOTER_COOKIE_TTL'' hour (365 * 24 * hour)
     \<and> flag_ok lib ''VOTER_COOKIE_SECURE''
     \<and> choice_ok lib ''VOTER_COOKIE_SAMESITE'' ''lax'' [''lax'', ''strict'', ''none''] \<and> True \<and> True)
     (Cookie_sound lib)"
    unfolding read_Cookie_def
    by (intro reader_steps reads_bind [OF site_reads] appending reads_appends [OF site_reads] reads_return)
      (auto simp: Cookie_sound_def times)
  then show ?thesis by (simp add: Cookie_env_def)
qed

lemma level_reads:
  "reads (parseLogLevel lib key LevelInfo) (choice_ok lib key ''INFO'' [''debug'', ''info'', ''warn'', ''error''])
     (\<lambda>_. True)"
proof -
  have "reads (parseLogLevel lib key LevelInfo)
      (choice_ok lib key (level_string LevelInfo) [''debug'', ''info'', ''warn'', ''error''] \<and> True) (\<lambda>_. True)"
    unfolding parseLogLevel_def by (intro reads_bind [OF choice_reads] appending reads_return) simp
  then show ?thesis by (simp add: level_string_def)
qed

lemma fail_reads:
  assumes "appends m"
  shows "reads (do { load_fail p; m }) False P"
  unfolding reads_def
proof
  fix ps
  from assms obtain rs where "snd (run_state m (ps @ [p])) = (ps @ [p]) @ rs" unfolding appends_def by blast
  then show "\<exists>rs. snd (run_state (do { load_fail p; m }) ps) = ps @ rs \<and> (rs = [] \<longleftrightarrow> False)
      \<and> (False \<longrightarrow> P (fst (run_state (do { load_fail p; m }) ps)))" by (simp add: load_fail_def)
qed

lemma prefix_reads:
  "reads (prefix_entries lib key es ps) (\<forall>e \<in> set es. cl_ParsePrefix lib e \<noteq> None) (\<lambda>_. True)"
proof (induction es arbitrary: ps)
  case (Cons e es)
  show ?case
  proof (cases "cl_ParsePrefix lib e")
    case None
    with fail_reads [OF Cons.IH [THEN reads_appends]] show ?thesis by simp
  next
    case (Some q)
    with Cons.IH [of "ps @ [q]"] show ?thesis by simp
  qed
qed (simp add: reads_return)

lemma list_reads:
  "reads (prefixList lib key) (\<forall>e \<in> set (stringList lib key). cl_ParsePrefix lib e \<noteq> None) (\<lambda>_. True)"
  unfolding prefixList_def by (rule prefix_reads)

subsection \<open>The whole configuration\<close>

definition variables_ok :: "'p config_lib \<Rightarrow> bool" where
  "variables_ok lib \<longleftrightarrow> choice_ok lib ''APP_ENV'' ''development'' [''development'', ''production'']
     \<and> choice_ok lib ''LOG_LEVEL'' ''INFO'' [''debug'', ''info'', ''warn'', ''error'']
     \<and> HTTP_env lib \<and> Postgres_env lib \<and> Redis_env lib \<and> 32 \<le> length (cl_getenv lib ''ADMIN_TOKEN'')
     \<and> Vote_env lib \<and> Cache_env lib \<and> time_ok lib ''SYNC_TIMEOUT'' second (10 * minute)
     \<and> time_ok lib ''SYNC_SETTLE_AFTER'' minute (24 * hour) \<and> Polls_env lib \<and> Cookie_env lib
     \<and> time_ok lib ''PROBE_TIMEOUT'' (100 * millisecond) (30 * second)
     \<and> time_ok lib ''PROBE_CACHE_FOR'' 0 minute
     \<and> (\<forall>e \<in> set (stringList lib ''TRUSTED_PROXY_CIDRS''). cl_ParsePrefix lib e \<noteq> None)"

definition fields_sound :: "'p config_lib \<Rightarrow> 'p Config \<Rightarrow> bool" where
  "fields_sound lib cfg \<longleftrightarrow> cf_Environment cfg = to_lower (text_of lib ''APP_ENV'' ''development'')
     \<and> HTTP_sound (cf_HTTP cfg) \<and> Postgres_sound lib (cf_Postgres cfg) \<and> Redis_sound lib (cf_Redis cfg)
     \<and> cf_AdminToken cfg = cl_getenv lib ''ADMIN_TOKEN'' \<and> 32 \<le> length (cf_AdminToken cfg)
     \<and> Vote_sound (cf_Vote cfg) \<and> Cache_sound lib (cf_Cache cfg) \<and> cf_SyncTimeout cfg \<in> {second..10 * minute}
     \<and> cf_SettleAfter cfg \<in> {minute..24 * hour} \<and> Polls_sound lib (cf_Polls cfg)
     \<and> Cookie_sound lib (cf_Cookie cfg) \<and> cf_ProbeTimeout cfg \<in> {100 * millisecond..30 * second}
     \<and> cf_ProbeCacheFor cfg \<in> {0..minute}"

lemmas section_reads =
  level_reads HTTP_reads Postgres_reads Redis_reads Vote_reads Cache_reads Polls_reads Cookie_reads

lemma Config_reads: "reads (read_Config lib) (variables_ok lib) (fields_sound lib)"
proof -
  have "reads (read_Config lib) (variables_ok lib \<and> True) (fields_sound lib)"
    unfolding read_Config_def variables_ok_def conj_assoc
    by (intro reader_steps reads_bind [OF choice_reads] reads_bind [OF level_reads] reads_bind [OF HTTP_reads]
        reads_bind [OF Postgres_reads] reads_bind [OF Redis_reads] reads_bind [OF Vote_reads]
        reads_bind [OF Cache_reads] reads_bind [OF Polls_reads] reads_bind [OF Cookie_reads]
        reads_bind [OF list_reads]
        appending section_reads [THEN reads_appends] list_reads [THEN reads_appends] reads_return)
      (auto simp: fields_sound_def times)
  then show ?thesis by simp
qed

text \<open>The checks across fields.\<close>

lemma check_reads: "reads (load_check bad problem) (\<not> bad) (\<lambda>_. \<not> bad)"
  by (simp add: load_check_def reads_def load_fail_def)

definition consistent :: "'p Config \<Rightarrow> bool" where
  "consistent cfg \<longleftrightarrow> rd_Addresses (cf_Redis cfg) \<noteq> []
     \<and> po_MinConns (cf_Postgres cfg) \<le> po_MaxConns (cf_Postgres cfg)
     \<and> ps_DefaultPageSize (cf_Polls cfg) \<le> ps_MaxPageSize (cf_Polls cfg)
     \<and> ch_LocalTTL (cf_Cache cfg) \<le> ch_SharedTTL (cf_Cache cfg)
     \<and> (cf_Environment cfg = ''production'' \<longrightarrow> co_Secure (cf_Cookie cfg))"

lemma production_reads: "reads (validateProduction cfg) (co_Secure (cf_Cookie cfg)) (\<lambda>_. True)"
  by (auto simp: reads_def validateProduction_def load_check_def load_fail_def)

lemma consistent_reads: "reads (check_Config cfg) (consistent cfg) (\<lambda>_. True)"
proof -
  let ?rest = "if cf_Environment cfg = ''production'' then validateProduction cfg else State_Monad.return ()"
  have rest: "reads ?rest (cf_Environment cfg = ''production'' \<longrightarrow> co_Secure (cf_Cookie cfg)) (\<lambda>_. True)"
    using production_reads [of cfg] reads_return [of "\<lambda>_. True" "()"] by simp
  note steps = reads_bind [OF check_reads] appending check_reads [THEN reads_appends] rest [THEN reads_appends]
  have "reads (check_Config cfg) (\<not> rd_Addresses (cf_Redis cfg) = []
     \<and> \<not> po_MaxConns (cf_Postgres cfg) < po_MinConns (cf_Postgres cfg)
     \<and> \<not> ps_MaxPageSize (cf_Polls cfg) < ps_DefaultPageSize (cf_Polls cfg)
     \<and> \<not> ch_SharedTTL (cf_Cache cfg) < ch_LocalTTL (cf_Cache cfg)
     \<and> (cf_Environment cfg = ''production'' \<longrightarrow> co_Secure (cf_Cookie cfg))) (\<lambda>_. True)"
    unfolding check_Config_def by (intro steps rest)
  then show ?thesis by (simp add: consistent_def not_less)
qed

subsection \<open>Load\<close>

definition consistent_env :: "'p config_lib \<Rightarrow> bool" where
  "consistent_env lib \<longleftrightarrow> stringList lib ''REDIS_ADDRESSES'' \<noteq> []
     \<and> int_of lib ''DATABASE_MIN_CONNS'' 2 \<le> int_of lib ''DATABASE_MAX_CONNS'' 20
     \<and> int_of lib ''POLL_PAGE_SIZE_DEFAULT'' 20 \<le> int_of lib ''POLL_PAGE_SIZE_MAX'' 100
     \<and> time_of lib ''POLL_CACHE_LOCAL_TTL'' (2 * second) \<le> time_of lib ''POLL_CACHE_SHARED_TTL'' minute
     \<and> (to_lower (text_of lib ''APP_ENV'' ''development'') = ''production'' \<longrightarrow> flag_of lib ''VOTER_COOKIE_SECURE'' True)"

lemma sound_consistent: "fields_sound lib cfg \<Longrightarrow> consistent cfg \<longleftrightarrow> consistent_env lib"
  by (simp add: fields_sound_def consistent_def consistent_env_def Postgres_sound_def Polls_sound_def
      Cache_sound_def Redis_sound_def Cookie_sound_def)

lemma Load_reads:
  "reads (do { cfg \<leftarrow> read_Config lib; check_Config cfg; State_Monad.return cfg })
     (variables_ok lib \<and> consistent_env lib) (fields_sound lib)"
proof (rule reads_bind [OF Config_reads])
  show "appends (do { check_Config cfg; State_Monad.return cfg })" for cfg :: "'a Config"
    by (intro appending consistent_reads [THEN reads_appends])
  fix cfg :: "'a Config"
  assume cfg: "fields_sound lib cfg"
  have "reads (do { check_Config cfg; State_Monad.return cfg }) (consistent cfg \<and> True) (fields_sound lib)"
    using cfg by (intro reads_bind [OF consistent_reads] appending reads_return)
  with sound_consistent [OF cfg] show "reads (do { check_Config cfg; State_Monad.return cfg })
      (consistent_env lib) (fields_sound lib)" by simp
qed

lemma Load_Inr:
  "(\<exists>cfg. Load lib = Inr cfg) \<longleftrightarrow> variables_ok lib \<and> consistent_env lib"
  "Load lib = Inr cfg \<Longrightarrow> fields_sound lib cfg \<and> consistent cfg \<and> variables_ok lib"
proof -
  define out where "out = run_state (do { cfg \<leftarrow> read_Config lib; check_Config cfg; State_Monad.return cfg }) []"
  from Load_reads [of lib] have r: "snd out = [] \<longleftrightarrow> variables_ok lib \<and> consistent_env lib"
      "variables_ok lib \<and> consistent_env lib \<Longrightarrow> fields_sound lib (fst out)"
    unfolding reads_def out_def by (auto dest!: spec [of _ "[]"])
  have L: "Load lib = (if snd out = [] then Inr (fst out) else Inl (ErrText (''invalid configuration:'' @ bytes [10]
      @ ''  - '' @ join_problems (bytes [10] @ ''  - '') (snd out))))"
    unfolding Load_def out_def [symmetric] by (simp add: case_prod_beta)
  show "(\<exists>cfg. Load lib = Inr cfg) \<longleftrightarrow> variables_ok lib \<and> consistent_env lib"
    using r(1) L by auto
  assume "Load lib = Inr cfg"
  with L have "snd out = []" "cfg = fst out" by (auto split: if_splits)
  with r sound_consistent show "fields_sound lib cfg \<and> consistent cfg \<and> variables_ok lib" by blast
qed

text \<open>
  C26. Loading decides validity. \<open>Load\<close> succeeds exactly for the environments in which every
  variable that is set parses and lies in its documented range, the required ones are set,
  and the settings agree with each other.
\<close>

theorem load_accepts: "(\<exists>cfg. Load lib = Inr cfg) = (variables_ok lib \<and> consistent_env lib)"
  by (rule Load_Inr)

text \<open>The default environment: only what has no default is set.\<close>

definition demo_lib :: "unit config_lib" where
  "demo_lib = \<lparr>cl_getenv = (\<lambda>k. if k = ''DATABASE_URL'' then ''postgres://db'' else if k = ''REDIS_ADDRESSES'' then ''r:1''
       else if k = ''ADMIN_TOKEN'' then replicate 32 (CHR ''x'') else []),
     cl_ParseDuration = (\<lambda>_. None), cl_ParsePrefix = (\<lambda>_. None), cl_quote = (\<lambda>s. s), cl_show_duration = (\<lambda>_. [])\<rparr>"

lemma trim_empty [simp]: "trim_space [] = []"
  by code_simp

lemma demo_unset:
  "k \<noteq> ''DATABASE_URL'' \<Longrightarrow> k \<noteq> ''REDIS_ADDRESSES'' \<Longrightarrow> k \<noteq> ''ADMIN_TOKEN'' \<Longrightarrow> raw demo_lib k = []"
  by (simp add: raw_def demo_lib_def)

lemma demo_trims: "trim_space ''postgres://db'' = ''postgres://db''" "trim_space ''r:1'' = ''r:1''"
  by (rule trim_space_plain; simp add: plain_char_def char_in_def byte_of_def)+

lemma demo_set: "raw demo_lib ''DATABASE_URL'' \<noteq> []" "stringList demo_lib ''REDIS_ADDRESSES'' = [''r:1'']"
  by (simp_all add: raw_def stringList_def demo_lib_def demo_trims split_at.simps)

lemma unset_ok:
  "raw lib k = [] \<Longrightarrow> int_ok lib k lo hi" "raw lib k = [] \<Longrightarrow> time_ok lib k lo hi" "raw lib k = [] \<Longrightarrow> flag_ok lib k"
  "raw lib k = [] \<Longrightarrow> int_of lib k d = d" "raw lib k = [] \<Longrightarrow> time_of lib k d = d"
  "raw lib k = [] \<Longrightarrow> flag_of lib k b = b" "raw lib k = [] \<Longrightarrow> text_of lib k s = s"
  by (simp_all add: int_ok_def time_ok_def flag_ok_def int_of_def time_of_def flag_of_def text_of_def
      split: option.split)

lemma demo_folds: "equal_fold ''development'' ''development''" "equal_fold ''INFO'' ''info''"
  "equal_fold ''lax'' ''lax''" "to_lower ''development'' \<noteq> ''production''"
  by (simp_all add: lower_char_def char_in_def byte_of_def of_char_def char_of_def bit_simps)

lemma demo_choices:
  "choice_ok demo_lib ''APP_ENV'' ''development'' [''development'', ''production'']"
  "choice_ok demo_lib ''LOG_LEVEL'' ''INFO'' [''debug'', ''info'', ''warn'', ''error'']"
  "choice_ok demo_lib ''VOTER_COOKIE_SAMESITE'' ''lax'' [''lax'', ''strict'', ''none'']"
  by (simp_all add: choice_ok_def unset_ok demo_unset demo_folds del: equal_fold.simps)

lemma demo_sections:
  "HTTP_env demo_lib" "Postgres_env demo_lib" "Redis_env demo_lib" "Vote_env demo_lib" "Cache_env demo_lib"
  "Polls_env demo_lib" "Cookie_env demo_lib"
  unfolding HTTP_env_def Postgres_env_def Redis_env_def Vote_env_def Cache_env_def Polls_env_def Cookie_env_def
  by (intro conjI unset_ok demo_unset demo_set demo_choices; simp)+

lemma demo_lists: "stringList demo_lib ''TRUSTED_PROXY_CIDRS'' = []" "32 \<le> length (cl_getenv demo_lib ''ADMIN_TOKEN'')"
  by (simp_all add: stringList_def demo_lib_def)

lemma demo_accepted: "variables_ok demo_lib \<and> consistent_env demo_lib"
proof -
  have "variables_ok demo_lib" unfolding variables_ok_def
    by (intro conjI demo_choices demo_sections demo_lists unset_ok demo_unset) (simp_all add: demo_lists)
  moreover from demo_folds(4) have "consistent_env demo_lib"
    by (simp add: consistent_env_def demo_set unset_ok demo_unset second_def minute_def del: to_lower.simps)
  ultimately show ?thesis by simp
qed

text \<open>
  C27. Bounds of an accepted configuration. Every number and every duration of a configuration
  that loads is within the limits its variable has in \<open>Load\<close>: those of the server, the
  database, Redis, voting, the cache, polls and the voter cookie, the timeout and the settling
  time of the synchronisation, and the timeout and the caching time of the probes. Its parts
  fit together, the administrator's token has at least 32 characters, and outside development
  the voter cookie is secure.
\<close>

theorem load_bounds:
  assumes "Load lib = Inr cfg"
  shows "HTTP_sound (cf_HTTP cfg) \<and> Vote_sound (cf_Vote cfg) \<and> Cache_sound lib (cf_Cache cfg)
    \<and> Polls_sound lib (cf_Polls cfg) \<and> Postgres_sound lib (cf_Postgres cfg) \<and> Redis_sound lib (cf_Redis cfg)
    \<and> Cookie_sound lib (cf_Cookie cfg)
    \<and> cf_SyncTimeout cfg \<in> {second..10 * minute} \<and> cf_SettleAfter cfg \<in> {minute..24 * hour}
    \<and> cf_ProbeTimeout cfg \<in> {100 * millisecond..30 * second} \<and> cf_ProbeCacheFor cfg \<in> {0..minute}
    \<and> rd_Addresses (cf_Redis cfg) \<noteq> [] \<and> po_MinConns (cf_Postgres cfg) \<le> po_MaxConns (cf_Postgres cfg)
    \<and> ps_DefaultPageSize (cf_Polls cfg) \<le> ps_MaxPageSize (cf_Polls cfg)
    \<and> ch_LocalTTL (cf_Cache cfg) \<le> ch_SharedTTL (cf_Cache cfg)
    \<and> 32 \<le> length (cf_AdminToken cfg) \<and> cf_Environment cfg \<in> {''development'', ''production''}
    \<and> (cf_Environment cfg = ''production'' \<longrightarrow> co_Secure (cf_Cookie cfg))"
proof -
  note facts = Load_Inr(2) [OF assms]
  then have "choice_ok lib ''APP_ENV'' ''development'' [''development'', ''production'']"
    by (simp add: variables_ok_def)
  then obtain c where c: "c \<in> {''development'', ''production''}" "equal_fold (text_of lib ''APP_ENV'' ''development'') c"
    by (auto simp: choice_ok_def simp del: equal_fold.simps)
  have "\<forall>x \<in> set c. lower_char x = x \<and> x \<noteq> CHR ''s''"
    using c(1) by (auto simp: lower_char_def char_in_def byte_of_def)
  from equal_fold_lower [OF c(2) this] c(1) facts show ?thesis
    unfolding fields_sound_def consistent_def by (elim conjE) simp
qed

theorem load_bounds_witness:
  "\<exists>cfg. Load demo_lib = Inr cfg \<and> 32 \<le> length (cf_AdminToken cfg)
     \<and> ch_LocalTTL (cf_Cache cfg) \<le> ch_SharedTTL (cf_Cache cfg)"
proof -
  from demo_accepted Load_Inr(1) obtain cfg where "Load demo_lib = Inr cfg" by metis
  with load_bounds [OF this] show ?thesis by blast
qed

end
