(* ===== verification/Middleware.thy ===== *)
theory Middleware
  imports Http Go_Hash Contexts
begin

text \<open>
  The middleware (\<open>internal/middleware\<close>): who the client is (address, request id, device
  token), who may administrate, and what is logged. A handler takes the request, the writer
  and the state of the service; it may end in a panic. The address library \<open>net/netip\<close> and
  the source of random bytes are parameters.
\<close>

type_synonym 's handler = "request \<Rightarrow> writer \<Rightarrow> 's \<Rightarrow> string option \<times> writer \<times> 's"

definition ErrAbortHandler :: string where "ErrAbortHandler = ''net/http: abort Handler''"

subsection \<open>Client addresses (identity.go)\<close>

record ('a, 'p) netip =
  ip_parse :: "string \<Rightarrow> 'a option"
  ip_unmap :: "'a \<Rightarrow> 'a"
  ip_string :: "'a \<Rightarrow> string"
  ip_contains :: "'p \<Rightarrow> 'a \<Rightarrow> bool"
  ip_split_host :: "string \<Rightarrow> string option"

text \<open>The zero address, which is not valid, is \<open>None\<close>.\<close>

definition parseAddr :: "('a, 'p) netip \<Rightarrow> string \<Rightarrow> 'a option" where
  "parseAddr ip remoteAddr =
     (let host = (case ip_split_host ip remoteAddr of None \<Rightarrow> remoteAddr | Some h \<Rightarrow> h)
      in map_option (ip_unmap ip) (ip_parse ip (trim_space host)))"

fun isTrusted :: "('a, 'p) netip \<Rightarrow> 'a \<Rightarrow> 'p list \<Rightarrow> bool" where
  "isTrusted ip addr [] = False"
| "isTrusted ip addr (prefix # rest) = (ip_contains ip prefix addr \<or> isTrusted ip addr rest)"

text \<open>The hops of every X-Forwarded-For header, in order, and the walk from the last one.\<close>

definition forwarded_hops :: "request \<Rightarrow> string list" where
  "forwarded_hops r = concat (map (split_at (CHR '','')) (all_values (rq_header r) ''X-Forwarded-For''))"

fun walk_hops :: "('a, 'p) netip \<Rightarrow> 'p list \<Rightarrow> string list \<Rightarrow> 'a option" where
  "walk_hops ip proxies [] = None"
| "walk_hops ip proxies (h # hs) =
     (case ip_parse ip (trim_space h) of
        None \<Rightarrow> None
      | Some addr \<Rightarrow> if \<not> isTrusted ip addr proxies then Some addr else walk_hops ip proxies hs)"

definition resolveClientIP :: "('a, 'p) netip \<Rightarrow> 'p list \<Rightarrow> request \<Rightarrow> string" where
  "resolveClientIP ip proxies r =
     (case parseAddr ip (rq_remote r) of
        None \<Rightarrow> ''unknown''
      | Some peer \<Rightarrow>
          if proxies = [] \<or> \<not> isTrusted ip peer proxies then ip_string ip peer
          else (case walk_hops ip proxies (rev (forwarded_hops r)) of
                  None \<Rightarrow> ip_string ip peer
                | Some addr \<Rightarrow> ip_string ip (ip_unmap ip addr)))"

definition RealIP :: "('a, 'p) netip \<Rightarrow> 'p list \<Rightarrow> 's handler \<Rightarrow> 's handler" where
  "RealIP ip proxies next r w s = next (WithClientIP r (resolveClientIP ip proxies r)) w s"

subsection \<open>Random tokens\<close>

text \<open>\<open>base64.RawURLEncoding\<close>: six bits a character, no padding\<close>

definition b64_char :: "nat \<Rightarrow> char" where
  "b64_char n = (if n < 26 then char_of (65 + n) else if n < 52 then char_of (71 + n)
     else if n < 62 then char_of (n - 4) else if n = 62 then CHR ''-'' else CHR ''_'')"

definition is_b64 :: "char \<Rightarrow> bool" where
  "is_b64 c \<longleftrightarrow> char_in 65 90 c \<or> char_in 97 122 c \<or> is_digit c \<or> c = CHR ''-'' \<or> c = CHR ''_''"

fun b64_encode :: "nat list \<Rightarrow> string" where
  "b64_encode [] = []"
| "b64_encode [a] = [b64_char (a div 4), b64_char (a mod 4 * 16)]"
| "b64_encode [a, b] = [b64_char (a div 4), b64_char (a mod 4 * 16 + b div 16), b64_char (b mod 16 * 4)]"
| "b64_encode (a # b # c # rest) =
     b64_char (a div 4) # b64_char (a mod 4 * 16 + b div 16) # b64_char (b mod 16 * 4 + c div 64)
       # b64_char (c mod 64) # b64_encode rest"

text \<open>
  Whether \<open>DecodeString\<close> succeeds: line breaks are skipped, everything else is of the
  alphabet, and no single character is left over; trailing bits are not checked.
\<close>

definition b64_decodes :: "string \<Rightarrow> bool" where
  "b64_decodes s \<longleftrightarrow> (let body = filter (\<lambda>c. byte_of c \<noteq> 10 \<and> byte_of c \<noteq> 13) s
     in list_all is_b64 body \<and> length body mod 4 \<noteq> 1)"

definition tokenBytes :: nat where "tokenBytes = 16"

text \<open>The random bytes come from the state: \<open>rnd\<close> draws that many.\<close>

definition randomToken :: "(nat \<Rightarrow> 's \<Rightarrow> 8 word list \<times> 's) \<Rightarrow> 's \<Rightarrow> string \<times> 's" where
  "randomToken rnd s = (case rnd tokenBytes s of (buffer, s') \<Rightarrow> (b64_encode (map unat buffer), s'))"

definition sanitizeToken :: "string \<Rightarrow> string" where
  "sanitizeToken raw = (if length raw \<noteq> 22 then [] else if \<not> b64_decodes raw then [] else raw)"

subsection \<open>Correlation and the voter cookie\<close>

definition id_char :: "char \<Rightarrow> bool" where
  "id_char c \<longleftrightarrow> c = CHR ''-'' \<or> c = CHR ''_'' \<or> c = CHR ''.'' \<or> is_digit c \<or> char_in 97 122 c \<or> char_in 65 90 c"

definition sanitizeRequestID :: "string \<Rightarrow> string" where
  "sanitizeRequestID raw =
     (if raw = [] \<or> 64 < length raw then [] else if list_all id_char raw then raw else [])"

definition Correlation :: "(nat \<Rightarrow> 's \<Rightarrow> 8 word list \<times> 's) \<Rightarrow> 's handler \<Rightarrow> 's handler" where
  "Correlation rnd next r w s =
     (let given = sanitizeRequestID (first_value (rq_header r) ''X-Request-Id'')
      in case (if given = [] then randomToken rnd s else (given, s)) of
           (i, s1) \<Rightarrow> next (WithRequestID r i) (set_header ''X-Request-Id'' i w) s1)"

record VoterCookieConfig =
  vk_Name :: string
  vk_TTL :: duration
  vk_Secure :: bool
  vk_SameSite :: string
  vk_Domain :: string

definition VoterCookie ::
  "(nat \<Rightarrow> 's \<Rightarrow> 8 word list \<times> 's) \<Rightarrow> VoterCookieConfig \<Rightarrow> 's handler \<Rightarrow> 's handler"
where
  "VoterCookie rnd cfg next r w s =
     (let token = (case map_of (rq_cookies r) (vk_Name cfg) of None \<Rightarrow> [] | Some v \<Rightarrow> sanitizeToken v)
      in if token \<noteq> [] then next (WithVoterToken r token) w s
         else case randomToken rnd s of
           (fresh, s1) \<Rightarrow>
             next (WithVoterToken r fresh)
               (w\<lparr>wr_cookies := wr_cookies w @ [\<lparr>ck_Name = vk_Name cfg, ck_Value = fresh, ck_Path = ''/'',
                   ck_Domain = vk_Domain cfg, ck_MaxAge = whole_seconds (vk_TTL cfg), ck_HttpOnly = True,
                   ck_Secure = vk_Secure cfg, ck_SameSite = vk_SameSite cfg\<rparr>]\<rparr>) s1)"

subsection \<open>Administration (security.go)\<close>

definition bearerToken :: "string \<Rightarrow> string" where
  "bearerToken header =
     (case cut (CHR '' '') header of
        None \<Rightarrow> []
      | Some (scheme, v) \<Rightarrow> if \<not> equal_fold scheme ''Bearer'' then [] else trim_space v)"

definition AdminAuth :: "json_lib \<Rightarrow> level \<Rightarrow> string \<Rightarrow> 's handler \<Rightarrow> 's handler" where
  "AdminAuth js lv adminToken next r w s =
     (let presented = Sum256 (string_bytes (bearerToken (first_value (rq_header r) ''Authorization'')))
      in if Sum256 (string_bytes adminToken) \<noteq> presented
         then (None, WriteError js lv r (NewError CodeUnauthorized ''invalid or missing admin credentials'') w, s)
         else next r w s)"

definition BodyLimit :: "int \<Rightarrow> 's handler \<Rightarrow> 's handler" where
  "BodyLimit maxBytes next r w s = next (r\<lparr>rq_limit := Some maxBytes\<rparr>) w s"

subsection \<open>Recovery and the access log (logging.go)\<close>

definition Recover :: "json_lib \<Rightarrow> level \<Rightarrow> 's handler \<Rightarrow> 's handler" where
  "Recover js lv next r w s =
     (case next r w s of
        (None, w1, s1) \<Rightarrow> (None, w1, s1)
      | (Some recovered, w1, s1) \<Rightarrow>
          if recovered = ErrAbortHandler then (Some recovered, w1, s1)
          else (None, WriteError js lv r (NewError CodeInternal ''internal server error'')
                        (log_line lv LevelError ''panic recovered'' 0 w1), s1))"

definition access_level :: "int \<Rightarrow> level" where
  "access_level status =
     (if 500 \<le> status then LevelError else if 400 \<le> status then LevelWarn else LevelInfo)"

definition AccessLog :: "level \<Rightarrow> 's handler \<Rightarrow> 's handler" where
  "AccessLog lv next r w s =
     (case next r (w\<lparr>wr_rec := Some 0, wr_written := 0\<rparr>) s of
        (Some p, w1, s1) \<Rightarrow> (Some p, w1, s1)
      | (None, w1, s1) \<Rightarrow>
          (let status = rec_statusOrOK w1
           in (None, log_line lv (access_level status) ''http request'' status w1, s1)))"

text \<open>The handler after it works until the deadline; \<open>defer cancel()\<close> ends the context.\<close>

definition Timeout :: "'s contexts \<Rightarrow> duration \<Rightarrow> 's handler \<Rightarrow> 's handler" where
  "Timeout cx timeout next r w s =
     (case next r w (cx_use cx (WithTimeout cx timeout s) s) of
        (p, w1, s1) \<Rightarrow> (p, w1, cx_use cx (cx_deadline cx s) s1))"

lemma Timeout_still [simp]: "Timeout (still now) d next = next"
  by (simp add: Timeout_def fun_eq_iff split: prod.split)

end
