(* ===== verification/Health.thy ===== *)
theory Health
  imports Http Ports Contexts
begin

text \<open>
  The probes (\<open>internal/health\<close>): liveness, and readiness from the checks of the backing
  services, whose report is kept for a short time. The lemmas say what a report means and
  how old it can be.
\<close>

record 's Dependency =
  dp_Name :: string
  dp_Critical :: bool
  dp_Check :: "('s, unit) action"

record Checker =
  hc_timeout :: duration
  hc_cacheFor :: duration
  hc_cached :: report
  hc_cachedAt :: instant

text \<open>The zero \<open>time.Time\<close>, the first of January of year 1, and the zero report.\<close>

definition zero_time :: instant where "zero_time = - 62135596800 * second"

definition zero_report :: report where
  "zero_report = \<lparr>hr_Status = [], hr_Dependencies = [], hr_ready = False\<rparr>"

definition NewChecker :: "duration \<Rightarrow> duration \<Rightarrow> Checker" where
  "NewChecker timeout cacheFor = \<lparr>hc_timeout = timeout, hc_cacheFor = cacheFor, hc_cached = zero_report, hc_cachedAt = zero_time\<rparr>"

subsection \<open>evaluate\<close>

text \<open>One turn of the loop over the dependencies.\<close>

definition note_check :: "'s Dependency \<Rightarrow> goerror + unit \<Rightarrow> report \<Rightarrow> report" where
  "note_check d r current =
     (let status = \<lparr>ds_Name = dp_Name d, ds_Healthy = True, ds_Critical = dp_Critical d, ds_Error = []\<rparr>
      in case r of
           Inr _ \<Rightarrow> current\<lparr>hr_Dependencies := hr_Dependencies current @ [status]\<rparr>
         | Inl _ \<Rightarrow>
             (let down = status\<lparr>ds_Healthy := False, ds_Error := ''unreachable''\<rparr>;
                  seen = (if dp_Critical d then current\<lparr>hr_ready := False, hr_Status := ''unready''\<rparr>
                          else if hr_ready current then current\<lparr>hr_Status := ''degraded''\<rparr> else current)
              in seen\<lparr>hr_Dependencies := hr_Dependencies seen @ [down]\<rparr>))"

fun check_all :: "'s Dependency list \<Rightarrow> report \<Rightarrow> 's \<Rightarrow> report \<times> 's" where
  "check_all [] current s = (current, s)"
| "check_all (d # ds) current s =
     (case dp_Check d s of (r, s1) \<Rightarrow> check_all ds (note_check d r current) s1)"

definition evaluate ::
  "'s Dependency list \<Rightarrow> 's contexts \<Rightarrow> Checker \<Rightarrow> 's \<Rightarrow> report \<times> Checker \<times> 's"
where
  "evaluate deps cx c s =
     (if time_sub (cx_now cx s) (hc_cachedAt c) < hc_cacheFor c then (hc_cached c, c, s)
      else case with_timeout cx (hc_timeout c)
                  (check_all deps \<lparr>hr_Status = ''ready'', hr_Dependencies = [], hr_ready = True\<rparr>) s of
             (current, s1) \<Rightarrow> (current, c\<lparr>hc_cached := current, hc_cachedAt := cx_now cx s1\<rparr>, s1))"

definition Live :: "json_lib \<Rightarrow> level \<Rightarrow> writer \<Rightarrow> writer" where
  "Live js lv w = WriteJSON js lv 200 (StatusBody ''alive'') w"

definition Ready ::
  "json_lib \<Rightarrow> level \<Rightarrow> 's Dependency list \<Rightarrow> 's contexts \<Rightarrow> Checker \<Rightarrow> writer \<Rightarrow> 's \<Rightarrow> writer \<times> Checker \<times> 's"
where
  "Ready js lv deps cx c w s =
     (case evaluate deps cx c s of (current, c1, s1) \<Rightarrow>
        (WriteJSON js lv (if hr_ready current then 200 else 503) (ReportBody current) w, c1, s1))"

subsection \<open>What a report means\<close>

text \<open>The status is a function of the dependencies' states, whatever the order of the checks.\<close>

definition down :: "dependencyStatus \<Rightarrow> bool" where "down d \<longleftrightarrow> \<not> ds_Healthy d"

definition summary :: "dependencyStatus list \<Rightarrow> string" where
  "summary ds = (if \<exists>d \<in> set ds. down d \<and> ds_Critical d then ''unready''
     else if \<exists>d \<in> set ds. down d then ''degraded'' else ''ready'')"

definition report_ok :: "report \<Rightarrow> bool" where
  "report_ok r \<longleftrightarrow> hr_Status r = summary (hr_Dependencies r)
     \<and> hr_ready r = (\<forall>d \<in> set (hr_Dependencies r). down d \<longrightarrow> \<not> ds_Critical d)"

lemma note_check_ok:
  assumes "report_ok current"
  shows "report_ok (note_check d r current)"
  using assms by (cases r) (auto simp: report_ok_def note_check_def summary_def down_def Let_def)

lemma note_check_list:
  "\<exists>st. hr_Dependencies (note_check d r current) = hr_Dependencies current @ [st] \<and> ds_Name st = dp_Name d
     \<and> ds_Critical st = dp_Critical d \<and> ds_Healthy st = (\<exists>u. r = Inr u)"
  by (cases r) (auto simp: note_check_def Let_def)

lemma check_all_ok: "report_ok current \<Longrightarrow> report_ok (fst (check_all ds current s))"
  by (induction ds arbitrary: current s) (auto simp: note_check_ok split: prod.split)

lemma check_all_names:
  "map (\<lambda>st. (ds_Name st, ds_Critical st)) (hr_Dependencies (fst (check_all ds current s)))
     = map (\<lambda>st. (ds_Name st, ds_Critical st)) (hr_Dependencies current) @ map (\<lambda>d. (dp_Name d, dp_Critical d)) ds"
proof (induction ds arbitrary: current s)
  case (Cons d ds)
  obtain r s1 where r: "dp_Check d s = (r, s1)" by fastforce
  obtain st where "hr_Dependencies (note_check d r current) = hr_Dependencies current @ [st]"
    "ds_Name st = dp_Name d" "ds_Critical st = dp_Critical d"
    using note_check_list [of d r current] by blast
  then show ?case using Cons r by simp
qed simp

text \<open>
  The cache: what it holds is a report of every dependency, or the zero report that no
  evaluation can return.
\<close>

definition checker_ok :: "'s Dependency list \<Rightarrow> Checker \<Rightarrow> bool" where
  "checker_ok deps c \<longleftrightarrow> hc_cachedAt c = zero_time \<or>
     report_ok (hc_cached c)
     \<and> map (\<lambda>st. (ds_Name st, ds_Critical st)) (hr_Dependencies (hc_cached c)) = map (\<lambda>d. (dp_Name d, dp_Critical d)) deps"

text \<open>The clock of a running process: far enough from the zero time.\<close>

definition modern :: "duration \<Rightarrow> instant \<Rightarrow> bool" where
  "modern cacheFor t \<longleftrightarrow> cacheFor \<le> time_sub t zero_time \<and> t \<noteq> zero_time"

lemma evaluate_facts:
  assumes ok: "checker_ok deps c" and now: "modern (hc_cacheFor c) (cx_now cx s)"
    and run: "evaluate deps cx c s = (r, c', s')"
  shows "checker_ok deps c' \<and> report_ok r
    \<and> map (\<lambda>st. (ds_Name st, ds_Critical st)) (hr_Dependencies r) = map (\<lambda>d. (dp_Name d, dp_Critical d)) deps
    \<and> hc_cacheFor c' = hc_cacheFor c \<and> hc_cached c' = r
    \<and> (c' = c \<and> s' = s \<and> cx_now cx s < hc_cachedAt c + hc_cacheFor c \<or> hc_cachedAt c' = cx_now cx s')"
proof (cases "time_sub (cx_now cx s) (hc_cachedAt c) < hc_cacheFor c")
  case True
  then have "hc_cachedAt c \<noteq> zero_time" using now by (auto simp: modern_def)
  moreover have "hc_cacheFor c \<le> max_int64"
    using now by (auto simp: modern_def time_sub_def min_int64_def max_int64_def max_def min_def split: if_splits)
  then have "cx_now cx s < hc_cachedAt c + hc_cacheFor c"
    using True by (auto simp: time_sub_def max_def min_def split: if_splits)
  ultimately show ?thesis using True ok run by (auto simp: evaluate_def checker_ok_def)
next
  case False
  let ?start = "\<lparr>hr_Status = ''ready'', hr_Dependencies = [], hr_ready = True\<rparr>"
  have "report_ok ?start" by (simp add: report_ok_def summary_def)
  with False run check_all_ok [of ?start deps "cx_use cx (WithTimeout cx (hc_timeout c) s) s"]
    check_all_names [of deps ?start "cx_use cx (WithTimeout cx (hc_timeout c) s) s"] show ?thesis
    by (auto simp: evaluate_def with_timeout_def checker_ok_def split: prod.splits)
qed

text \<open>The dependencies asked one after the other, each once, and what an answer means for the report.\<close>

fun probe :: "'s Dependency list \<Rightarrow> 's \<Rightarrow> (goerror + unit) list \<times> 's" where
  "probe [] s = ([], s)"
| "probe (d # ds) s = (case dp_Check d s of (r, s1) \<Rightarrow> case probe ds s1 of (rs, s2) \<Rightarrow> (r # rs, s2))"

definition status_after :: "'s Dependency \<Rightarrow> goerror + unit \<Rightarrow> dependencyStatus" where
  "status_after d r = \<lparr>ds_Name = dp_Name d, ds_Healthy = (\<exists>u. r = Inr u), ds_Critical = dp_Critical d,
     ds_Error = (if \<exists>u. r = Inr u then [] else ''unreachable'')\<rparr>"

lemma note_check_status: "hr_Dependencies (note_check d r current) = hr_Dependencies current @ [status_after d r]"
  by (cases r) (simp_all add: note_check_def status_after_def Let_def)

lemma check_all_probes:
  "check_all ds current s = (r, s') \<Longrightarrow>
     hr_Dependencies r = hr_Dependencies current @ map2 status_after ds (fst (probe ds s)) \<and> s' = snd (probe ds s)"
proof (induction ds arbitrary: current s)
  case (Cons d ds)
  obtain x s1 where x: "dp_Check d s = (x, s1)" by fastforce
  with Cons.prems have "check_all ds (note_check d x current) s1 = (r, s')" by simp
  from Cons.IH [OF this] x show ?case by (simp add: note_check_status split: prod.split)
qed simp

lemma evaluate_fresh:
  assumes "evaluate deps cx c s = (r, c', s')" and "\<not> time_sub (cx_now cx s) (hc_cachedAt c) < hc_cacheFor c"
  shows "hr_Dependencies r = map2 status_after deps (fst (probe deps (cx_use cx (WithTimeout cx (hc_timeout c) s) s)))"
    and "s' = cx_use cx (cx_deadline cx s) (snd (probe deps (cx_use cx (WithTimeout cx (hc_timeout c) s) s)))"
    and "c' = c\<lparr>hc_cached := r, hc_cachedAt := cx_now cx s'\<rparr>"
  using assms check_all_probes [of deps _ "cx_use cx (WithTimeout cx (hc_timeout c) s) s" r]
  by (auto simp: evaluate_def with_timeout_def split: prod.splits)

text \<open>
  C29. The readiness report. Either the last evaluation is younger than the caching time, and
  then its report is given again and nothing is asked; or every dependency is asked once, in
  order and under the timeout, and the report lists each as healthy exactly when its check
  succeeded, and is kept. It says "unready" exactly when a critical dependency failed,
  "degraded" when only others did, "ready" when none did, and the replica counts as ready in
  the last two cases.
\<close>

theorem readiness_report:
  assumes "checker_ok deps c" and "modern (hc_cacheFor c) (cx_now cx s)" and "evaluate deps cx c s = (r, c', s')"
  shows "checker_ok deps c' \<and> hc_cached c' = r
    \<and> map (\<lambda>st. (ds_Name st, ds_Critical st)) (hr_Dependencies r) = map (\<lambda>d. (dp_Name d, dp_Critical d)) deps
    \<and> hr_Status r = summary (hr_Dependencies r) \<and> (hr_ready r \<longleftrightarrow> hr_Status r \<noteq> ''unready'')
    \<and> (if time_sub (cx_now cx s) (hc_cachedAt c) < hc_cacheFor c
       then c' = c \<and> s' = s \<and> cx_now cx s < hc_cachedAt c + hc_cacheFor c
       else (let asked = probe deps (cx_use cx (WithTimeout cx (hc_timeout c) s) s)
             in hr_Dependencies r = map2 status_after deps (fst asked) \<and> s' = cx_use cx (cx_deadline cx s) (snd asked)
              \<and> hc_cachedAt c' = cx_now cx s'))"
proof -
  have "report_ok r \<Longrightarrow> hr_Status r = summary (hr_Dependencies r) \<and> (hr_ready r \<longleftrightarrow> hr_Status r \<noteq> ''unready'')"
    by (auto simp: report_ok_def summary_def)
  moreover have "c' = c \<and> s' = s \<and> cx_now cx s < hc_cachedAt c + hc_cacheFor c" if "time_sub (cx_now cx s) (hc_cachedAt c) < hc_cacheFor c"
    using that assms(2,3) by (auto simp: evaluate_def modern_def time_sub_def min_int64_def max_int64_def max_def min_def split: if_splits)
  ultimately show ?thesis
    using evaluate_facts [OF assms] evaluate_fresh [OF assms(3)] by (simp add: Let_def)
qed

theorem readiness_report_witness:
  "\<exists>c'. evaluate [\<lparr>dp_Name = ''redis'', dp_Critical = True, dp_Check = (\<lambda>s. (Inr (), s))\<rparr>,
        \<lparr>dp_Name = ''postgres'', dp_Critical = False, dp_Check = (\<lambda>s. (Inl (ErrText ''down''), s))\<rparr>]
      (still (\<lambda>s. s)) (NewChecker second second) 0
    = (\<lparr>hr_Status = ''degraded'', hr_Dependencies =
         [\<lparr>ds_Name = ''redis'', ds_Healthy = True, ds_Critical = True, ds_Error = []\<rparr>,
          \<lparr>ds_Name = ''postgres'', ds_Healthy = False, ds_Critical = False, ds_Error = ''unreachable''\<rparr>],
         hr_ready = True\<rparr>, c', 0) \<and> hc_cachedAt c' = 0"
proof -
  let ?deps = "[\<lparr>dp_Name = ''redis'', dp_Critical = True, dp_Check = (\<lambda>s. (Inr (), s))\<rparr>,
        \<lparr>dp_Name = ''postgres'', dp_Critical = False, dp_Check = (\<lambda>s. (Inl (ErrText ''down''), s))\<rparr>] :: int Dependency list"
  obtain r c' s' where run: "evaluate ?deps (still (\<lambda>s. s)) (NewChecker second second) 0 = (r, c', s')"
    by (metis prod_cases3)
  have late: "\<not> time_sub 0 zero_time < second"
    by (simp add: time_sub_def zero_time_def second_def min_int64_def max_int64_def)
  have "checker_ok ?deps (NewChecker second second)" by (simp add: checker_ok_def NewChecker_def)
  from readiness_report [OF this _ run] run late show ?thesis
    by (auto simp: modern_def NewChecker_def zero_time_def second_def evaluate_def note_check_def Let_def)
qed

end
