(* ===== verification/Controller.thy ===== *)
theory Controller
  imports Middleware Health Poll_Service Vote_Service
begin

text \<open>
  The HTTP handlers (\<open>internal/controller\<close>): the translation of requests to commands and of
  results to payloads, the query parameters, and the routes with their middleware. Matching
  a method and a path to a route is the router library's and a parameter; the structure of
  the routes, and which middleware stands before which, is the code's.
\<close>

subsection \<open>Payloads (dto.go)\<close>

definition newPollResponse :: "poll \<Rightarrow> pollResponse" where
  "newPollResponse p = \<lparr>re_ID = p_id p, re_Question = p_question p, re_Type = p_type p,
     re_MaxChoices = p_max_choices p, re_Status = p_status p,
     re_Options = map (\<lambda>x. \<lparr>or_ID = o_id x, or_Text = o_text x, or_Position = o_position x\<rparr>) (p_options p),
     re_CreatedAt = p_created_at p, re_StartsAt = p_starts_at p, re_EndsAt = p_ends_at p,
     re_FinishedAt = p_finished_at p\<rparr>"

definition toCommand :: "createPollRequest \<Rightarrow> CreatePollCommand" where
  "toCommand r = \<lparr>cp_Question = cr_Question r, cp_Type = cr_Type r, cp_MaxChoices = cr_MaxChoices r,
     cp_Options = cr_Options r, cp_StartsAt = cr_StartsAt r, cp_EndsAt = cr_EndsAt r\<rparr>"

definition percentage :: "int64 \<Rightarrow> int64 \<Rightarrow> float64" where
  "percentage votes cast =
     (if sint cast \<le> 0 then 0
      else float_div (math_Round (float_div (float_mul (float_of_int64 votes) 10000) (float_of_int64 cast))) 100)"

definition newResultsResponse :: "PollResults \<Rightarrow> instant \<Rightarrow> resultsResponse" where
  "newResultsResponse res generatedAt = \<lparr>rs_PollID = p_id (res_Poll res), rs_Question = p_question (res_Poll res),
     rs_Status = p_status (res_Poll res), rs_TotalVotes = res_Total res,
     rs_Options = map (\<lambda>x. let votes = lookup0 (res_Counts res) (o_id x)
        in \<lparr>rr_ID = o_id x, rr_Text = o_text x, rr_Votes = votes, rr_Percentage = percentage votes (res_Total res)\<rparr>)
        (p_options (res_Poll res)),
     rs_GeneratedAt = generatedAt\<rparr>"

subsection \<open>Handlers (handlers.go)\<close>

record 's Handlers =
  hd_Create :: "CreatePollCommand \<Rightarrow> ('s, poll) action"
  hd_Get :: "string \<Rightarrow> ('s, poll) action"
  hd_List :: "int \<Rightarrow> int \<Rightarrow> ('s, PollPage) action"
  hd_Activate :: "string \<Rightarrow> ('s, poll) action"
  hd_Finish :: "string \<Rightarrow> ('s, poll) action"
  hd_Results :: "string \<Rightarrow> ('s, PollResults) action"
  hd_Cast :: "VoteCommand \<Rightarrow> ('s, unit) action"
  hd_pollCacheTTL :: duration
  hd_now :: "'s \<Rightarrow> instant"

text \<open>
  A run-time panic leaves the calls that were running when it struck, so it is found under
  every wrapping they would have added.
\<close>

fun panic_of :: "goerror \<Rightarrow> string option" where
  "panic_of (GoPanic p) = Some p"
| "panic_of (Wrapped _ e) = panic_of e"
| "panic_of (DomainErr _ _ (Some e)) = panic_of e"
| "panic_of _ = None"

text \<open>The common end of a handler: the error envelope, or the payload of the result.\<close>

definition respond ::
  "json_lib \<Rightarrow> level \<Rightarrow> request \<Rightarrow> (goerror + 'a) \<times> 's \<Rightarrow> ('a \<Rightarrow> 's \<Rightarrow> writer \<Rightarrow> writer) \<Rightarrow> writer
     \<Rightarrow> string option \<times> writer \<times> 's"
where
  "respond js lv r res ok w =
     (case res of
        (Inl e, s) \<Rightarrow> (case panic_of e of Some p \<Rightarrow> (Some p, w, s) | None \<Rightarrow> (None, WriteError js lv r e w, s))
      | (Inr v, s) \<Rightarrow> (None, ok v s w, s))"

definition intQuery :: "request \<Rightarrow> string \<Rightarrow> int \<Rightarrow> goerror + int" where
  "intQuery r name fallback =
     (let raw = first_value (rq_query r) name
      in if raw = [] then Inr fallback
         else case parse_int raw of
           None \<Rightarrow> Inl (WrapError CodeInvalidRequest (ErrText ''strconv.Atoi'') (name @ '' must be an integer''))
         | Some v \<Rightarrow> if v < 0 then Inl (NewError CodeInvalidRequest (name @ '' must not be negative'')) else Inr v)"

definition GetPoll :: "json_lib \<Rightarrow> level \<Rightarrow> 's Handlers \<Rightarrow> 's handler" where
  "GetPoll js lv h r w s =
     respond js lv r (hd_Get h (rq_param r) s) (\<lambda>p _ w.
       let maxAge = whole_seconds (hd_pollCacheTTL h)
       in WriteJSON js lv 200 (PollBody (newPollResponse p))
            (set_header ''Cache-Control'' (''public, max-age='' @ itoa maxAge
               @ '', stale-while-revalidate='' @ itoa (maxAge * 2)) w)) w"

definition CastVote :: "json_lib \<Rightarrow> level \<Rightarrow> 's Handlers \<Rightarrow> 's handler" where
  "CastVote js lv h r w s =
     (case DecodeJSON (jl_vote js) r of
        Inl e \<Rightarrow> (None, WriteError js lv r e w, s)
      | Inr request \<Rightarrow>
          respond js lv r (hd_Cast h \<lparr>vc_PollID = rq_param r, vc_OptionIDs = vr_OptionIDs request,
              vc_VoterToken = rq_VoterToken r, vc_ClientIP = rq_ClientIP r\<rparr> s)
            (\<lambda>_ _ w. WriteJSON js lv 201 (VoteBody ''accepted'') w) w)"

definition CreatePoll :: "json_lib \<Rightarrow> level \<Rightarrow> 's Handlers \<Rightarrow> 's handler" where
  "CreatePoll js lv h r w s =
     (case DecodeJSON (jl_create js) r of
        Inl e \<Rightarrow> (None, WriteError js lv r e w, s)
      | Inr request \<Rightarrow>
          respond js lv r (hd_Create h (toCommand request) s)
            (\<lambda>p _ w. WriteJSON js lv 201 (PollBody (newPollResponse p)) w) w)"

definition ListPolls :: "json_lib \<Rightarrow> level \<Rightarrow> 's Handlers \<Rightarrow> 's handler" where
  "ListPolls js lv h r w s =
     (case intQuery r ''limit'' 0 of
        Inl e \<Rightarrow> (None, WriteError js lv r e w, s)
      | Inr limit \<Rightarrow>
          (case intQuery r ''offset'' 0 of
             Inl e \<Rightarrow> (None, WriteError js lv r e w, s)
           | Inr offset \<Rightarrow>
               respond js lv r (hd_List h limit offset s) (\<lambda>page _ w.
                 WriteJSON js lv 200 (PollListBody \<lparr>lr_Items = map newPollResponse (pg_Items page),
                   lr_Total = pg_Total page, lr_Limit = pg_Limit page, lr_Offset = pg_Offset page\<rparr>) w) w))"

definition ActivatePoll :: "json_lib \<Rightarrow> level \<Rightarrow> 's Handlers \<Rightarrow> 's handler" where
  "ActivatePoll js lv h r w s =
     respond js lv r (hd_Activate h (rq_param r) s)
       (\<lambda>p _ w. WriteJSON js lv 200 (PollBody (newPollResponse p)) w) w"

definition FinishPoll :: "json_lib \<Rightarrow> level \<Rightarrow> 's Handlers \<Rightarrow> 's handler" where
  "FinishPoll js lv h r w s =
     respond js lv r (hd_Finish h (rq_param r) s)
       (\<lambda>p _ w. WriteJSON js lv 200 (PollBody (newPollResponse p)) w) w"

definition GetResults :: "json_lib \<Rightarrow> level \<Rightarrow> 's Handlers \<Rightarrow> 's handler" where
  "GetResults js lv h r w s =
     respond js lv r (hd_Results h (rq_param r) s) (\<lambda>res s w.
       WriteJSON js lv 200 (ResultsBody (newResultsResponse res (hd_now h s)))
         (set_header ''Cache-Control'' ''no-store'' w)) w"

subsection \<open>Routes (router.go)\<close>

datatype admin_route = AListPolls | ACreatePoll | AActivate string | AFinish string | AResults string | AMiss | AWrongMethod

datatype route = Health_Live | Health_Ready | Show_Poll string | Vote_In string | Admin admin_route | Miss | WrongMethod

record ('a, 'p) RouterConfig =
  rc_AdminToken :: string
  rc_MaxRequestBytes :: int
  rc_RequestTimeout :: duration
  rc_TrustedProxies :: "'p list"
  rc_VoterCookie :: VoterCookieConfig
  rc_LogLevel :: level
  rc_netip :: "('a, 'p) netip"
  rc_json :: json_lib
  rc_mux :: "string \<Rightarrow> string \<Rightarrow> route"

definition endpoint_not_found :: "json_lib \<Rightarrow> level \<Rightarrow> 's handler" where
  "endpoint_not_found js lv r w s =
     (None, WriteError js lv r (NewError CodeNotFound ''endpoint not found'') w, s)"

definition method_not_allowed :: "json_lib \<Rightarrow> level \<Rightarrow> 's handler" where
  "method_not_allowed js lv r w s =
     (None, WriteError js lv r (NewError CodeInvalidRequest ''method not allowed for this endpoint'') w, s)"

definition with_param :: "string \<Rightarrow> 's handler \<Rightarrow> 's handler" where
  "with_param i next r w s = next (r\<lparr>rq_param := i\<rparr>) w s"

definition admin_handler :: "json_lib \<Rightarrow> level \<Rightarrow> 's Handlers \<Rightarrow> admin_route \<Rightarrow> 's handler" where
  "admin_handler js lv h route =
     (case route of
        AListPolls \<Rightarrow> ListPolls js lv h
      | ACreatePoll \<Rightarrow> CreatePoll js lv h
      | AActivate i \<Rightarrow> with_param i (ActivatePoll js lv h)
      | AFinish i \<Rightarrow> with_param i (FinishPoll js lv h)
      | AResults i \<Rightarrow> with_param i (GetResults js lv h)
      | AMiss \<Rightarrow> endpoint_not_found js lv
      | AWrongMethod \<Rightarrow> method_not_allowed js lv)"

definition route_handler ::
  "('a, 'p) RouterConfig \<Rightarrow> (nat \<Rightarrow> 's \<Rightarrow> 8 word list \<times> 's) \<Rightarrow> 's Handlers \<Rightarrow> 's handler \<Rightarrow> 's handler
     \<Rightarrow> route \<Rightarrow> 's handler"
where
  "route_handler cfg rnd h live ready route =
     (let js = rc_json cfg; lv = rc_LogLevel cfg in
      case route of
        Health_Live \<Rightarrow> live
      | Health_Ready \<Rightarrow> ready
      | Show_Poll i \<Rightarrow> with_param i (GetPoll js lv h)
      | Vote_In i \<Rightarrow> VoterCookie rnd (rc_VoterCookie cfg) (with_param i (CastVote js lv h))
      | Admin a \<Rightarrow> AdminAuth js lv (rc_AdminToken cfg) (admin_handler js lv h a)
      | Miss \<Rightarrow> endpoint_not_found js lv
      | WrongMethod \<Rightarrow> method_not_allowed js lv)"

definition NewRouter ::
  "('a, 'p) RouterConfig \<Rightarrow> 's contexts \<Rightarrow> (nat \<Rightarrow> 's \<Rightarrow> 8 word list \<times> 's) \<Rightarrow> 's Handlers
     \<Rightarrow> 's handler \<Rightarrow> 's handler \<Rightarrow> 's handler"
where
  "NewRouter cfg cx rnd h live ready =
     Correlation rnd
       (RealIP (rc_netip cfg) (rc_TrustedProxies cfg)
         (AccessLog (rc_LogLevel cfg)
           (Recover (rc_json cfg) (rc_LogLevel cfg)
             (Timeout cx (rc_RequestTimeout cfg)
               (BodyLimit (rc_MaxRequestBytes cfg)
                 (\<lambda>r. route_handler cfg rnd h live ready (rc_mux cfg (rq_method r) (rq_path r)) r))))))"

end
