(* ===== verification/Http_Laws.thy ===== *)
theory Http_Laws
  imports Controller
begin

text \<open>
  What goes out over HTTP: one status line, one JSON document, the request id on every
  answer, and one error envelope whose status is that of its code. The lemmas follow a
  response writer through the helpers, the handlers and the middleware.
\<close>

subsection \<open>A writer before and after its answer\<close>

definition pristine :: "string \<Rightarrow> writer \<Rightarrow> bool" where
  "pristine i w \<longleftrightarrow> wr_sent w = None \<and> wr_rec w \<in> {None, Some 0} \<and> wr_body w = []
     \<and> map_of (wr_header w) ''X-Request-Id'' = Some i"

definition document :: "json_lib \<Rightarrow> payload \<Rightarrow> string" where
  "document js v = (case jl_encode js v of None \<Rightarrow> [] | Some text \<Rightarrow> text)"

definition replied :: "json_lib \<Rightarrow> string \<Rightarrow> int \<Rightarrow> payload \<Rightarrow> writer \<Rightarrow> bool" where
  "replied js i status v w \<longleftrightarrow> wr_body w = document js v
     \<and> (\<exists>h. wr_sent w = Some (status, h) \<and> map_of h ''X-Request-Id'' = Some i
          \<and> map_of h ''Content-Type'' = Some ''application/json; charset=utf-8'')"

lemma log_line_simps [simp]:
  "wr_sent (log_line lv l m n w) = wr_sent w" "wr_body (log_line lv l m n w) = wr_body w"
  "wr_rec (log_line lv l m n w) = wr_rec w" "wr_header (log_line lv l m n w) = wr_header w"
  by (simp_all add: log_line_def)

lemma replied_log [simp]: "replied js i st v (log_line lv l m n w) = replied js i st v w"
  by (simp add: replied_def)

lemma pristine_simps [simp]:
  "pristine i (log_line lv l m n w) = pristine i w"
  "k \<noteq> ''X-Request-Id'' \<Longrightarrow> pristine i (set_header k x w) = pristine i w"
  "pristine i (w\<lparr>wr_cookies := cs\<rparr>) = pristine i w"
  by (simp_all add: pristine_def set_header_def update_conv')

text \<open>Either writer sends the status it is given, then the document.\<close>

lemma WriteJSON_replies:
  assumes "pristine i w"
  shows "replied js i status v (WriteJSON js lv status v w)"
  using assms
  by (auto simp: pristine_def replied_def document_def WriteJSON_def Let_def set_header_def update_conv'
      rec_WriteHeader_def raw_WriteHeader_def rec_Write_def raw_Write_def split: option.split)

definition envelope :: "string \<Rightarrow> goerror \<Rightarrow> payload" where
  "envelope i e = ErrorBody \<lparr>ed_Code = CodeOf e, ed_Message = MessageOf e, ed_RequestID = i\<rparr>"

lemma WriteError_replies:
  assumes "pristine i w" and "rq_RequestID r = i"
  shows "replied js i (StatusFor (CodeOf e)) (envelope i e) (WriteError js lv r e w)"
  using assms by (simp add: WriteError_def Let_def envelope_def WriteJSON_replies)

subsection \<open>Status codes\<close>

definition codes :: "error_code list" where
  "codes = [CodeInvalidRequest, CodeUnauthorized, CodeNotFound, CodeConflict, CodeAlreadyVoted,
     CodePayloadTooLarge, CodeRateLimited, CodeQuotaExceeded, CodeUnavailable, CodeInternal]"

lemma StatusFor_table:
  "StatusFor code = (if code = CodeInvalidRequest then 400 else if code = CodeUnauthorized then 401
     else if code = CodeNotFound then 404 else if code = CodeConflict \<or> code = CodeAlreadyVoted then 409
     else if code = CodePayloadTooLarge then 413 else if code = CodeRateLimited \<or> code = CodeQuotaExceeded then 429
     else if code = CodeUnavailable then 503 else 500)"
  by (simp add: StatusFor_def statusByCode_def)

text \<open>
  Error statuses. Every domain code has its status and everything else, an unclassified
  error included, answers 500; a status of 500 or more, which is what the log reports as a
  failure of the service, is given exactly to unavailability, to internal errors and to
  errors without a known code.
\<close>

theorem error_statuses:
  "StatusFor (CodeOf e) \<in> {400, 401, 404, 409, 413, 429, 500, 503}
     \<and> (500 \<le> StatusFor (CodeOf e) \<longleftrightarrow> CodeOf e \<in> - set codes \<union> {CodeUnavailable, CodeInternal})
     \<and> (case as_domain e of None \<Rightarrow> StatusFor (CodeOf e) = 500 | Some d \<Rightarrow> StatusFor (CodeOf e) = StatusFor (fst d))"
proof -
  have "case as_domain e of None \<Rightarrow> StatusFor (CodeOf e) = 500 | Some d \<Rightarrow> StatusFor (CodeOf e) = StatusFor (fst d)"
    by (simp add: CodeOf_def StatusFor_table split: option.split)
  then show ?thesis by (simp add: StatusFor_table codes_def)
qed

subsection \<open>Handlers\<close>

text \<open>A handler that answers: its status, its payload, and the errors as envelopes.\<close>

definition answers :: "json_lib \<Rightarrow> string \<Rightarrow> string option \<times> writer \<times> 's \<Rightarrow> bool" where
  "answers js i out \<longleftrightarrow> (case out of
       (Some p, w, s) \<Rightarrow> pristine i w
     | (None, w, s) \<Rightarrow> \<exists>st v. replied js i st v w
         \<and> (st \<in> {200, 201} \<and> (\<forall>d. v \<noteq> ErrorBody d)
            \<or> (\<exists>e. st = StatusFor (CodeOf e) \<and> v = envelope i e) \<or> st = 503 \<and> (\<exists>r. v = ReportBody r)))"

lemma error_answers:
  "pristine i w \<Longrightarrow> rq_RequestID r = i \<Longrightarrow> answers js i (None, WriteError js lv r e w, s)"
  by (auto simp: answers_def dest: WriteError_replies)

lemma json_answers:
  "pristine i w \<Longrightarrow> st \<in> {200, 201} \<Longrightarrow> \<forall>d. v \<noteq> ErrorBody d \<Longrightarrow> answers js i (None, WriteJSON js lv st v w, s)"
  unfolding answers_def using WriteJSON_replies [of i w js st v lv] by fastforce

lemma respond_answers:
  assumes "pristine i w" and "rq_RequestID r = i" and "st \<in> {200, 201}" and "\<And>v s d. p v s \<noteq> ErrorBody d"
    and "pristine i (g w)"
  shows "answers js i (respond js lv r res (\<lambda>v s w. WriteJSON js lv st (p v s) (g w)) w)"
proof -
  obtain q s where q: "res = (q, s)" by fastforce
  show ?thesis
  proof (cases q)
    case (Inl e)
    with q assms(1) error_answers [OF assms(1,2)] show ?thesis
      by (cases "panic_of e") (simp_all add: respond_def answers_def)
  next
    case (Inr v)
    have "\<forall>d. p v s \<noteq> ErrorBody d" using assms(4) by blast
    from json_answers [OF assms(5,3) this] Inr q show ?thesis by (simp add: respond_def)
  qed
qed

lemma handlers_answer:
  assumes p: "pristine i w" and r: "rq_RequestID r = i"
  shows "answers js i (GetPoll js lv h r w s)" "answers js i (CastVote js lv h r w s)"
    "answers js i (CreatePoll js lv h r w s)" "answers js i (ListPolls js lv h r w s)"
    "answers js i (ActivatePoll js lv h r w s)" "answers js i (FinishPoll js lv h r w s)"
    "answers js i (GetResults js lv h r w s)"
proof -
  note ok = respond_answers [OF p r] and bad = error_answers [OF p r]
  show "answers js i (GetPoll js lv h r w s)" unfolding GetPoll_def Let_def by (rule ok) (simp_all add: p)
  show "answers js i (GetResults js lv h r w s)" unfolding GetResults_def by (rule ok) (simp_all add: p)
  show "answers js i (ActivatePoll js lv h r w s)" "answers js i (FinishPoll js lv h r w s)"
    unfolding ActivatePoll_def FinishPoll_def by (rule ok, simp_all add: p)+
  show "answers js i (CastVote js lv h r w s)" unfolding CastVote_def
    by (cases "DecodeJSON (jl_vote js) r") (simp add: bad, simp, rule ok, simp_all add: p)
  show "answers js i (CreatePoll js lv h r w s)" unfolding CreatePoll_def
    by (cases "DecodeJSON (jl_create js) r") (simp add: bad, simp, rule ok, simp_all add: p)
  show "answers js i (ListPolls js lv h r w s)" unfolding ListPolls_def
    by (cases "intQuery r ''limit'' 0"; cases "intQuery r ''offset'' 0") (simp_all add: bad, rule ok, simp_all add: p)
qed

text \<open>Middleware hands the answer through.\<close>

lemma route_answers:
  assumes p: "pristine i w" and r: "rq_RequestID r = i"
    and live: "\<And>r w s. pristine i w \<Longrightarrow> rq_RequestID r = i \<Longrightarrow> answers (rc_json cfg) i (live r w s)"
    and ready: "\<And>r w s. pristine i w \<Longrightarrow> rq_RequestID r = i \<Longrightarrow> answers (rc_json cfg) i (ready r w s)"
  shows "answers (rc_json cfg) i (route_handler cfg rnd h live ready route r w s)"
proof -
  note hs = handlers_answer [OF p, of "r\<lparr>rq_param := k\<rparr>" for k] handlers_answer [OF p r]
  have admin: "answers (rc_json cfg) i (admin_handler (rc_json cfg) (rc_LogLevel cfg) h a r w s)" for a
    using hs error_answers [OF p r] r
    by (cases a) (simp_all add: admin_handler_def with_param_def endpoint_not_found_def method_not_allowed_def)
  have vote: "answers (rc_json cfg) i (with_param k (CastVote (rc_json cfg) (rc_LogLevel cfg) h) (WithVoterToken r t) w' s')"
    if "pristine i w'" for k t w' s'
    unfolding with_param_def WithVoterToken_def by (rule handlers_answer(2) [OF that]) (simp add: r)
  show ?thesis
  proof (cases route)
    case (Show_Poll k)
    with hs(1) [of k] r show ?thesis by (simp add: route_handler_def Let_def with_param_def)
  next
    case (Vote_In k)
    with vote p show ?thesis by (simp add: route_handler_def Let_def VoterCookie_def split: prod.split)
  next
    case (Admin a)
    with admin show ?thesis by (simp add: route_handler_def AdminAuth_def Let_def error_answers [OF p r])
  qed (simp_all add: route_handler_def Let_def endpoint_not_found_def method_not_allowed_def
      live [OF p r] ready [OF p r] error_answers [OF p r])
qed

lemma recover_answers:
  assumes "answers js (rq_RequestID r) (next r w s)" and "Recover js lv next r w s = (None, w', s')"
  shows "answers js (rq_RequestID r) (None, w', s')"
proof -
  obtain q w1 s1 where q: "next r w s = (q, w1, s1)" by (metis prod_cases3)
  show ?thesis
  proof (cases q)
    case None
    with assms q show ?thesis by (simp add: Recover_def)
  next
    case (Some p)
    with assms(1) q have "pristine (rq_RequestID r) (log_line lv LevelError ''panic recovered'' 0 w1)"
      by (simp add: answers_def)
    from error_answers [OF this refl] assms(2) q Some show ?thesis by (auto simp: Recover_def split: if_splits)
  qed
qed

end
