(* ===== verification/Identity_Laws.thy ===== *)
theory Identity_Laws
  imports Middleware
begin

text \<open>
  Who the client is: when forwarded addresses are believed, what request ids and device
  tokens look like, and that a device which returns its cookie keeps its token.
\<close>

subsection \<open>Addresses\<close>

definition hop_addr :: "('a, 'p) netip \<Rightarrow> string \<Rightarrow> 'a option" where
  "hop_addr ip h = ip_parse ip (trim_space h)"

definition trusted_hop :: "('a, 'p) netip \<Rightarrow> 'p list \<Rightarrow> string \<Rightarrow> bool" where
  "trusted_hop ip proxies h \<longleftrightarrow> (\<exists>a. hop_addr ip h = Some a \<and> isTrusted ip a proxies)"

lemma isTrusted_iff: "isTrusted ip a proxies \<longleftrightarrow> (\<exists>p \<in> set proxies. ip_contains ip p a)"
  by (induction proxies) auto

lemma walk_over:
  "list_all (trusted_hop ip proxies) pre \<Longrightarrow> hop_addr ip h = Some a \<Longrightarrow> \<not> isTrusted ip a proxies \<Longrightarrow>
     walk_hops ip proxies (pre @ h # post) = Some a"
  by (induction pre) (auto simp: trusted_hop_def hop_addr_def)

lemma walk_hops_Some:
  "walk_hops ip proxies hs = Some a \<longleftrightarrow> (\<exists>pre h post. hs = pre @ h # post \<and> list_all (trusted_hop ip proxies) pre
     \<and> hop_addr ip h = Some a \<and> \<not> isTrusted ip a proxies)"
proof (induction hs)
  case (Cons h hs)
  show ?case
  proof
    assume "walk_hops ip proxies (h # hs) = Some a"
    then obtain b where b: "hop_addr ip h = Some b" and
      "\<not> isTrusted ip b proxies \<and> a = b \<or> isTrusted ip b proxies \<and> walk_hops ip proxies hs = Some a"
      by (auto simp: hop_addr_def split: option.splits if_splits)
    then show "\<exists>pre k post. h # hs = pre @ k # post \<and> list_all (trusted_hop ip proxies) pre
        \<and> hop_addr ip k = Some a \<and> \<not> isTrusted ip a proxies"
    proof (elim disjE conjE)
      assume "\<not> isTrusted ip b proxies" "a = b"
      with b show ?thesis by (intro exI [of _ "[]"] exI [of _ h] exI [of _ hs]) simp
    next
      assume t: "isTrusted ip b proxies" and "walk_hops ip proxies hs = Some a"
      with Cons obtain pre k post where "hs = pre @ k # post" "list_all (trusted_hop ip proxies) pre"
        "hop_addr ip k = Some a" "\<not> isTrusted ip a proxies" by blast
      with b t show ?thesis
        by (intro exI [of _ "h # pre"] exI [of _ k] exI [of _ post]) (auto simp: trusted_hop_def)
    qed
  next
    assume "\<exists>pre k post. h # hs = pre @ k # post \<and> list_all (trusted_hop ip proxies) pre
        \<and> hop_addr ip k = Some a \<and> \<not> isTrusted ip a proxies"
    then obtain pre k post where "h # hs = pre @ k # post" "list_all (trusted_hop ip proxies) pre"
      "hop_addr ip k = Some a" "\<not> isTrusted ip a proxies" by blast
    with walk_over [of ip proxies pre k a post] show "walk_hops ip proxies (h # hs) = Some a" by metis
  qed
qed simp

text \<open>
  The hop that names the client: the last one that is not a trusted proxy, with everything
  after it trusted.
\<close>

definition client_hop :: "('a, 'p) netip \<Rightarrow> 'p list \<Rightarrow> request \<Rightarrow> 'a \<Rightarrow> bool" where
  "client_hop ip proxies r a \<longleftrightarrow> (\<exists>before h after. forwarded_hops r = before @ h # after
     \<and> hop_addr ip h = Some a \<and> \<not> isTrusted ip a proxies \<and> list_all (trusted_hop ip proxies) after)"

lemma walk_client: "walk_hops ip proxies (rev (forwarded_hops r)) = Some a \<longleftrightarrow> client_hop ip proxies r a"
proof -
  have split: "rev xs = pre @ h # post \<longleftrightarrow> xs = rev post @ h # rev pre" for xs pre post :: "string list" and h
    by (metis append.assoc append_Cons append_Nil rev.simps(2) rev_append rev_rev_ident)
  show ?thesis unfolding walk_hops_Some client_hop_def split
    by (metis list_all_rev rev_rev_ident)
qed

text \<open>
  C31. The client's address. Without a readable peer address it is "unknown". A peer that is
  not a trusted proxy is the client itself, whatever headers it sends. Behind a trusted proxy
  the client is the last forwarded hop that is not trusted, provided all hops after it are
  readable and trusted; otherwise it is the peer.
\<close>

theorem client_address:
  "case parseAddr ip (rq_remote r) of
     None \<Rightarrow> resolveClientIP ip proxies r = ''unknown''
   | Some peer \<Rightarrow>
       if (\<exists>p \<in> set proxies. ip_contains ip p peer) \<and> (\<exists>a. client_hop ip proxies r a)
       then \<exists>a. client_hop ip proxies r a \<and> resolveClientIP ip proxies r = ip_string ip (ip_unmap ip a)
       else resolveClientIP ip proxies r = ip_string ip peer"
proof (cases "parseAddr ip (rq_remote r)")
  case (Some peer)
  show ?thesis
  proof (cases "walk_hops ip proxies (rev (forwarded_hops r))")
    case None
    then have "\<nexists>a. client_hop ip proxies r a" using walk_client [of ip proxies r] by simp
    with Some None show ?thesis by (simp add: resolveClientIP_def)
  next
    case hop: (Some a)
    then have "client_hop ip proxies r a" by (simp add: walk_client)
    with Some hop show ?thesis by (cases "proxies = []") (auto simp: resolveClientIP_def isTrusted_iff)
  qed
qed (simp add: resolveClientIP_def)

subsection \<open>Tokens\<close>

lemma b64_byte:
  "n < 64 \<Longrightarrow> byte_of (b64_char n) = (if n < 26 then 65 + n else if n < 52 then 71 + n
     else if n < 62 then n - 4 else if n = 62 then 45 else 95)"
  by (simp add: b64_char_def byte_of_def)

lemma b64_alphabet:
  assumes "n < 64"
  shows "is_b64 (b64_char n)" "byte_of (b64_char n) \<noteq> 10" "byte_of (b64_char n) \<noteq> 13" "id_char (b64_char n)"
proof -
  show "byte_of (b64_char n) \<noteq> 10" "byte_of (b64_char n) \<noteq> 13" using assms by (auto simp: b64_byte)
  have "char_in 65 90 (b64_char n) \<or> char_in 97 122 (b64_char n) \<or> is_digit (b64_char n)
      \<or> b64_char n = CHR ''-'' \<or> b64_char n = CHR ''_''"
  proof (cases "n < 62")
    case True
    then show ?thesis using assms by (auto simp: char_in_def is_digit_def b64_byte)
  next
    case False
    then have "n = 62 \<or> n = 63" using assms by auto
    then show ?thesis by (auto simp: b64_char_def)
  qed
  then show "is_b64 (b64_char n)" "id_char (b64_char n)" by (auto simp: is_b64_def id_char_def)
qed

lemma b64_encode_chars:
  "\<forall>b \<in> set bs. b < 256 \<Longrightarrow> c \<in> set (b64_encode bs) \<Longrightarrow> \<exists>n < 64. c = b64_char n"
proof (induction bs rule: b64_encode.induct)
  case (2 a)
  then have "a div 4 < 64" "a mod 4 * 16 < 64" by auto
  with 2 show ?case by (simp, blast)
next
  case (3 a b)
  then have "a div 4 < 64" "a mod 4 * 16 + b div 16 < 64" "b mod 16 * 4 < 64" by auto
  with 3 show ?case by (simp, blast)
next
  case (4 a b c' rest)
  then have "a div 4 < 64" "a mod 4 * 16 + b div 16 < 64" "b mod 16 * 4 + c' div 64 < 64" "c' mod 64 < 64" by auto
  with 4 show ?case by (simp, blast)
qed simp

lemma b64_encode_length: "length (b64_encode bs) = (4 * length bs + 2) div 3"
  by (induction bs rule: b64_encode.induct) simp_all

definition rnd_ok :: "(nat \<Rightarrow> 's \<Rightarrow> 8 word list \<times> 's) \<Rightarrow> bool" where
  "rnd_ok rnd \<longleftrightarrow> (\<forall>s. length (fst (rnd tokenBytes s)) = tokenBytes)"

lemma token_shape:
  assumes "rnd_ok rnd" and "randomToken rnd s = (t, s')"
  shows "length t = 22" and "list_all (\<lambda>c. \<exists>n < 64. c = b64_char n) t"
proof -
  obtain bs where bs: "t = b64_encode (map unat (bs :: 8 word list))" "length bs = 16"
    using assms by (auto simp: randomToken_def rnd_ok_def tokenBytes_def split: prod.splits) (metis fst_conv)
  then show "length t = 22" by (simp add: b64_encode_length)
  have "\<forall>b \<in> set (map unat bs). b < 256" using unsigned_less [where 'b = 8 and 'a = nat] by auto
  from b64_encode_chars [OF this] bs(1) show "list_all (\<lambda>c. \<exists>n < 64. c = b64_char n) t"
    by (auto simp: list_all_iff)
qed

lemma token_accepted:
  assumes "rnd_ok rnd" and "randomToken rnd s = (t, s')"
  shows "sanitizeToken t = t" and "sanitizeRequestID t = t" and "t \<noteq> []"
proof -
  note shape = token_shape [OF assms]
  have all: "list_all (\<lambda>c. is_b64 c \<and> byte_of c \<noteq> 10 \<and> byte_of c \<noteq> 13 \<and> id_char c) t"
    using shape(2) by (auto simp: list_all_iff b64_alphabet)
  then have "filter (\<lambda>c. byte_of c \<noteq> 10 \<and> byte_of c \<noteq> 13) t = t" by (auto simp: list_all_iff intro: filter_True)
  with shape(1) all show "sanitizeToken t = t" by (auto simp: sanitizeToken_def b64_decodes_def list_all_iff)
  show "sanitizeRequestID t = t" using shape(1) all by (auto simp: sanitizeRequestID_def list_all_iff)
  show "t \<noteq> []" using shape(1) by auto
qed

text \<open>Handlers are called with the token of the request's device.\<close>

definition device_token :: "VoterCookieConfig \<Rightarrow> request \<Rightarrow> string" where
  "device_token cfg r = (case map_of (rq_cookies r) (vk_Name cfg) of None \<Rightarrow> [] | Some v \<Rightarrow> sanitizeToken v)"

lemma VoterCookie_known:
  "device_token cfg r \<noteq> [] \<Longrightarrow> VoterCookie rnd cfg next r w s = next (WithVoterToken r (device_token cfg r)) w s"
  by (simp add: VoterCookie_def device_token_def)

text \<open>
  C32. A device keeps its identity. A request without a usable cookie gets a fresh token and a
  cookie that carries it, for the whole site, hidden from scripts and living as long as
  configured. A later request that returns the cookie is given the same token, draws no
  random bytes and gets no new cookie.
\<close>

theorem device_identity:
  assumes "rnd_ok rnd" and "device_token cfg r = []" and "randomToken rnd s = (t, s1)"
    and "map_of (rq_cookies r2) (vk_Name cfg) = Some t"
  shows "VoterCookie rnd cfg next r w s = next (WithVoterToken r t) (w\<lparr>wr_cookies := wr_cookies w @
      [\<lparr>ck_Name = vk_Name cfg, ck_Value = t, ck_Path = ''/'', ck_Domain = vk_Domain cfg,
        ck_MaxAge = whole_seconds (vk_TTL cfg), ck_HttpOnly = True, ck_Secure = vk_Secure cfg,
        ck_SameSite = vk_SameSite cfg\<rparr>]\<rparr>) s1
    \<and> VoterCookie rnd cfg next r2 w2 s2 = next (WithVoterToken r2 t) w2 s2"
proof -
  have "device_token cfg r2 = t" using assms(4) token_accepted(1) [OF assms(1,3)] by (simp add: device_token_def)
  with VoterCookie_known [of cfg r2] token_accepted(3) [OF assms(1,3)] assms(2,3) show ?thesis
    by (simp add: VoterCookie_def device_token_def)
qed

definition zero_bytes :: "nat \<Rightarrow> nat \<Rightarrow> 8 word list \<times> nat" where
  "zero_bytes n k = (replicate n 0, k + 1)"

definition bare_request :: request where
  "bare_request = \<lparr>rq_method = ''GET'', rq_path = ''/'', rq_param = [], rq_query = [], rq_header = [], rq_cookies = [],
     rq_remote = [], rq_body = [], rq_limit = None, rq_RequestID = [], rq_ClientIP = [], rq_VoterToken = []\<rparr>"

theorem device_identity_witness:
  "VoterCookie zero_bytes \<lparr>vk_Name = ''v'', vk_TTL = 0, vk_Secure = True, vk_SameSite = ''lax'', vk_Domain = []\<rparr>
     (\<lambda>r w s. (Some (rq_VoterToken r), w, s)) (bare_request\<lparr>rq_cookies := [(''v'', ''AAAAAAAAAAAAAAAAAAAAAA'')]\<rparr>) new_writer 7
   = (Some ''AAAAAAAAAAAAAAAAAAAAAA'', new_writer, 7)"
proof -
  let ?cfg = "\<lparr>vk_Name = ''v'', vk_TTL = 0, vk_Secure = True, vk_SameSite = ''lax'', vk_Domain = []\<rparr> :: VoterCookieConfig"
  have ok: "rnd_ok zero_bytes" by (simp add: rnd_ok_def zero_bytes_def)
  have draw: "randomToken zero_bytes 0 = (''AAAAAAAAAAAAAAAAAAAAAA'', 1)" by code_simp
  have none: "device_token ?cfg bare_request = []" by (simp add: device_token_def bare_request_def)
  have some: "map_of (rq_cookies (bare_request\<lparr>rq_cookies := [(''v'', ''AAAAAAAAAAAAAAAAAAAAAA'')]\<rparr>)) (vk_Name ?cfg)
      = Some ''AAAAAAAAAAAAAAAAAAAAAA''" by simp
  show ?thesis using device_identity [OF ok none draw some, THEN conjunct2] by (simp add: WithVoterToken_def)
qed

subsection \<open>The administrator's credentials\<close>

lemma bearer_trimmed: "trim_space (bearerToken h) = bearerToken h"
proof (cases "cut (CHR '' '') h")
  case None
  have "trim_space ([] :: string) = []" by code_simp
  with None show ?thesis by (simp add: bearerToken_def)
next
  case (Some p)
  have "trim_space ([] :: string) = []" by code_simp
  with Some show ?thesis by (cases p) (simp add: bearerToken_def)
qed

lemma bearer_of: "bearerToken (''Bearer '' @ t) = trim_space t"
proof -
  have "equal_fold ''Bearer'' ''Bearer''" by (rule equal_fold_refl) (simp add: ascii_def byte_of_def)
  then show ?thesis by (simp add: bearerToken_def del: equal_fold.simps)
qed

text \<open>
  The administrator's token. A token can be presented in an Authorization header exactly
  when it neither begins nor ends with white space; then "Bearer" and the token present it.
  A configured token with white space at an end is accepted at start and can never be used.
\<close>

theorem token_presentable:
  "((\<exists>h. bearerToken h = t) \<longleftrightarrow> trim_space t = t) \<and> bearerToken (''Bearer '' @ t) = trim_space t"
  using bearer_trimmed bearer_of by metis

end
