(* ===== verification/Api.thy ===== *)
theory Api
  imports Config_Laws Http_Laws Identity_Laws Histories
begin

text \<open>
  The API process (\<open>cmd/api/main.go\<close>) and the worker (\<open>cmd/worker/main.go\<close>): how the
  loaded configuration becomes the settings of every component, and the router on the
  running system. What the source does not define (the servers, the libraries, the random
  bytes, the route matching) is one record of parameters.
\<close>

subsection \<open>The surroundings of a process\<close>

record ('a, 'p) site =
  si_rd :: redis_cmds
  si_cod :: pg_codec
  si_json :: json_codec
  si_valid :: "string \<Rightarrow> bool"
  si_uuid :: "nat \<Rightarrow> string"
  si_hash :: "string \<Rightarrow> 64 word"
  si_random :: "nat \<Rightarrow> nat \<Rightarrow> 8 word list"
  si_netip :: "('a, 'p) netip"
  si_http :: json_lib
  si_mux :: "string \<Rightarrow> string \<Rightarrow> route"

text \<open>A process of the API on a state \<open>'w\<close> of the components; on a world, a replica as it is deployed.\<close>

record 'w process =
  sv_world :: 'w
  sv_checker :: Checker
  sv_draws :: nat

type_synonym api = "world process"

definition on_world :: "('w, 'a) action \<Rightarrow> ('w process, 'a) action" where
  "on_world f s = (case f (sv_world s) of (r, w) \<Rightarrow> (r, s\<lparr>sv_world := w\<rparr>))"

text \<open>\<open>crypto/rand\<close>: the bytes of the next draw\<close>

definition draw :: "('a, 'p) site \<Rightarrow> nat \<Rightarrow> 'w process \<Rightarrow> 8 word list \<times> 'w process" where
  "draw st n s = (si_random st (sv_draws s) n, s\<lparr>sv_draws := sv_draws s + 1\<rparr>)"

subsection \<open>Settings\<close>

definition main_store_config :: "VoteSettings \<Rightarrow> store_config" where
  "main_store_config v = \<lparr>sc_Shards = nat (vt_Shards v), sc_DedupTTL = vt_DedupTTL v,
     sc_CounterRetention = vt_CounterRetention v, sc_RateLimit = vt_RateLimit v, sc_RateWindow = vt_RateWindow v,
     sc_PollQuota = vt_PollIPQuota v, sc_PollQuotaWindow = vt_PollIPQuotaWindow v\<rparr>"

definition main_cache_config :: "CacheSettings \<Rightarrow> cache_config" where
  "main_cache_config c = \<lparr>cc_LocalTTL = ch_LocalTTL c, cc_SharedTTL = ch_SharedTTL c,
     cc_NegativeTTL = ch_NegativeTTL c, cc_LocalCapacity = ch_Capacity c\<rparr>"

definition main_limits :: "PollSettings \<Rightarrow> PollLimits" where
  "main_limits p = \<lparr>pl_MaxQuestionLength = ps_MaxQuestionLength p, pl_MaxOptionLength = ps_MaxOptionLength p,
     pl_MaxOptions = ps_MaxOptions p, pl_MaxPageSize = ps_MaxPageSize p, pl_DefaultPageSize = ps_DefaultPageSize p\<rparr>"

definition main_env :: "('a, 'p) site \<Rightarrow> 'p Config \<Rightarrow> env" where
  "main_env st cfg = \<lparr>ev_rd = si_rd st, ev_cod = si_cod st, ev_json = si_json st,
     ev_store = main_store_config (cf_Vote cfg), ev_cache = main_cache_config (cf_Cache cfg),
     ev_limits = main_limits (cf_Polls cfg), ev_settle = cf_SettleAfter cfg, ev_valid = si_valid st,
     ev_uuid = si_uuid st, ev_hash = si_hash st\<rparr>"

subsection \<open>The API\<close>

text \<open>\<open>NewHandlers\<close>: the services of the process behind the handlers\<close>

definition NewHandlers ::
  "(string \<Rightarrow> bool) \<Rightarrow> 'w PollService \<Rightarrow> 'w VoteService \<Rightarrow> duration \<Rightarrow> 'w process Handlers"
where
  "NewHandlers valid polls votes pollCacheTTL = \<lparr>
     hd_Create = (\<lambda>c. on_world (poll_Create polls c)),
     hd_Get = (\<lambda>i. on_world (poll_Get polls i)),
     hd_List = (\<lambda>l k. on_world (poll_List polls l k)),
     hd_Activate = (\<lambda>i. on_world (poll_Activate polls i)),
     hd_Finish = (\<lambda>i. on_world (poll_Finish polls i)),
     hd_Results = (\<lambda>i. on_world (poll_Results polls i)),
     hd_Cast = (\<lambda>c. on_world (vote_Cast valid votes c)),
     hd_pollCacheTTL = pollCacheTTL,
     hd_now = (\<lambda>s. psv_now polls (sv_world s))\<rparr>"

text \<open>The deadlines of a process are those of its components.\<close>

definition on_process :: "'w contexts \<Rightarrow> 'w process contexts" where
  "on_process cx = \<lparr>cx_now = (\<lambda>s. cx_now cx (sv_world s)), cx_deadline = (\<lambda>s. cx_deadline cx (sv_world s)),
     cx_use = (\<lambda>d s. s\<lparr>sv_world := cx_use cx d (sv_world s)\<rparr>)\<rparr>"

lemma on_process_still [simp]: "on_process (still now) = still (\<lambda>s. now (sv_world s))"
  by (simp add: on_process_def still_def fun_eq_iff)

definition api_dependencies :: "'w VoteStore \<Rightarrow> 'w PollRepository \<Rightarrow> 'w Dependency list" where
  "api_dependencies votes repo =
     [\<lparr>dp_Name = ''redis'', dp_Critical = True, dp_Check = vs_Ping votes\<rparr>,
      \<lparr>dp_Name = ''postgres'', dp_Critical = False, dp_Check = pr_Ping repo\<rparr>]"

definition api_live :: "('a, 'p) site \<Rightarrow> 'p Config \<Rightarrow> 'w process handler" where
  "api_live st cfg r w s = (None, Live (si_http st) (cf_LogLevel cfg) w, s)"

definition api_ready ::
  "('a, 'p) site \<Rightarrow> 'p Config \<Rightarrow> 'w contexts \<Rightarrow> 'w Dependency list \<Rightarrow> 'w process handler"
where
  "api_ready st cfg cx deps r w s =
     (case Ready (si_http st) (cf_LogLevel cfg) deps cx (sv_checker s) w (sv_world s) of
        (w1, c, v) \<Rightarrow> (None, w1, s\<lparr>sv_checker := c, sv_world := v\<rparr>))"

definition main_router :: "('a, 'p) site \<Rightarrow> 'p Config \<Rightarrow> ('a, 'p) RouterConfig" where
  "main_router st cfg = \<lparr>rc_AdminToken = cf_AdminToken cfg, rc_MaxRequestBytes = ht_MaxRequestBytes (cf_HTTP cfg),
     rc_RequestTimeout = ht_RequestTimeout (cf_HTTP cfg), rc_TrustedProxies = cf_TrustedProxies cfg,
     rc_VoterCookie = \<lparr>vk_Name = co_Name (cf_Cookie cfg), vk_TTL = co_TTL (cf_Cookie cfg),
       vk_Secure = co_Secure (cf_Cookie cfg), vk_SameSite = sameSiteName (co_SameSite (cf_Cookie cfg)),
       vk_Domain = co_Domain (cf_Cookie cfg)\<rparr>,
     rc_LogLevel = cf_LogLevel cfg, rc_netip = si_netip st, rc_json = si_http st, rc_mux = si_mux st\<rparr>"

text \<open>The router of a process, on the services and the deadlines of its components.\<close>

definition api_on ::
  "('a, 'p) site \<Rightarrow> 'p Config \<Rightarrow> 'w contexts \<Rightarrow> 'w PollService \<Rightarrow> 'w VoteService \<Rightarrow> 'w process handler"
where
  "api_on st cfg cx polls votes =
     NewRouter (main_router st cfg) (on_process cx) (draw st)
       (NewHandlers (si_valid st) polls votes (ch_SharedTTL (cf_Cache cfg)))
       (api_live st cfg) (api_ready st cfg cx (api_dependencies (psv_store polls) (psv_repo polls)))"

text \<open>
  A replica on a world: every request finds the world as the one before left it, and no time
  passes while it is served, so that its deadlines stay in the future.
\<close>

definition main_handlers :: "('a, 'p) site \<Rightarrow> 'p Config \<Rightarrow> api Handlers" where
  "main_handlers st cfg = (let ev = main_env st cfg
     in NewHandlers (si_valid st) (main_polls ev) (main_votes ev) (ch_SharedTTL (cf_Cache cfg)))"

definition main_dependencies :: "('a, 'p) site \<Rightarrow> 'p Config \<Rightarrow> world Dependency list" where
  "main_dependencies st cfg = (let ev = main_env st cfg in api_dependencies (main_store ev) (main_repo ev))"

definition main_ready :: "('a, 'p) site \<Rightarrow> 'p Config \<Rightarrow> api handler" where
  "main_ready st cfg = api_ready st cfg (still clock) (main_dependencies st cfg)"

definition main_api :: "('a, 'p) site \<Rightarrow> 'p Config \<Rightarrow> api handler" where
  "main_api st cfg =
     (let ev = main_env st cfg in api_on st cfg (still clock) (main_polls ev) (main_votes ev))"

text \<open>What the server does with one request.\<close>

definition serve :: "('a, 'p) site \<Rightarrow> 'p Config \<Rightarrow> request \<Rightarrow> api \<Rightarrow> string option \<times> writer \<times> api" where
  "serve st cfg r s = main_api st cfg r new_writer s"

text \<open>The API as it starts on servers in the state of \<open>w\<close>.\<close>

definition start_api :: "('a, 'p) site \<Rightarrow> 'p Config \<Rightarrow> world \<Rightarrow> api" where
  "start_api st cfg w = \<lparr>sv_world = boot (main_env st cfg) w, sv_checker = NewChecker (cf_ProbeTimeout cfg) (cf_ProbeCacheFor cfg), sv_draws = 0\<rparr>"

subsection \<open>The worker\<close>

definition main_job :: "('a, 'p) site \<Rightarrow> 'p Config \<Rightarrow> world Job" where
  "main_job st cfg = NewJob (do_Sync (main_env st cfg)) (cf_SyncTimeout cfg)"

definition work :: "('a, 'p) site \<Rightarrow> 'p Config \<Rightarrow> (world, unit) action" where
  "work st cfg = job_RunOnce (still clock) (main_job st cfg)"

end
