(* ===== verification/Poll_Shapes.thy ===== *)
theory Poll_Shapes
  imports Histories
begin

text \<open>
  The shape of the stored polls: only creating, opening and closing touch them, and all polls
  that the service ever stored obey the rules of creation, which are stricter than the CHECK
  constraints of the schema.
\<close>

subsection \<open>Which events touch the polls\<close>

definition reshapes :: "event \<Rightarrow> bool" where
  "reshapes e \<longleftrightarrow> (\<exists>c x. e = EvCreate c x) \<or> (\<exists>i x. e = EvActivate i x) \<or> (\<exists>i x. e = EvFinish i x)"

lemma stored_step:
  assumes "sys_step ev e w w'" and "\<not> reshapes e" and "world_inv ev w" and "\<And>i j. w_votes ev w i j \<le> max_int64"
  shows "w_stored w' = w_stored w"
  using assms(1)
proof cases
  case (cast cmd r)
  with reads_tables(1) [of ev cmd w] show ?thesis by (intro same_tables_views [THEN conjunct1]) simp
next
  case (get i r)
  with reads_tables(2) [of ev i w] show ?thesis by (intro same_tables_views [THEN conjunct1]) simp
next
  case (results i r)
  with reads_tables(3) [of ev i w] show ?thesis by (intro same_tables_views [THEN conjunct1]) simp
next
  case (list l k r)
  with reads_tables(4) [of ev l k w] show ?thesis by (intro same_tables_views [THEN conjunct1]) simp
next
  case (sync report err)
  with sync_facts(1) [OF assms(3,4)] show ?thesis by blast
qed (use assms(2) in \<open>auto simp: reshapes_def env_tables intro!: same_tables_views [THEN conjunct1]\<close>)

lemma run_stored:
  assumes "run ev w es w'" and "world_inv ev w" and "roomy ev w es" and "\<forall>e \<in> set es. \<not> reshapes e"
  shows "w_stored w' = w_stored w"
  using assms(1,3,4)
proof (induction rule: run.induct)
  case (more es w1 e w2)
  have ok: "run_ok ev es w w1" using run_oks [OF more.hyps(1) assms(2)] roomy_butlast [OF more.prems(1)] by blast
  have "w_votes ev w1 i j \<le> max_int64" for i j using run_ok_room [OF ok more.prems(1), of i j] by simp
  with ok stored_step [OF more.hyps(2)] more.prems(2) have "w_stored w2 = w_stored w1"
    by (simp add: run_ok_def)
  also have "\<dots> = w_stored w" using more.IH roomy_butlast [OF more.prems(1)] more.prems(2) by simp
  finally show ?case .
qed simp

subsection \<open>Well-made polls\<close>

definition well_made :: "PollLimits \<Rightarrow> poll \<Rightarrow> bool" where
  "well_made lim p \<longleftrightarrow> p_question p \<noteq> [] \<and> int (rune_count (p_question p)) \<le> pl_MaxQuestionLength lim
     \<and> distinct (map o_text (p_options p))
     \<and> (\<forall>o' \<in> set (p_options p). o_text o' \<noteq> [] \<and> int (rune_count (o_text o')) \<le> pl_MaxOptionLength lim)
     \<and> 2 \<le> length (p_options p) \<and> int (length (p_options p)) \<le> pl_MaxOptions lim
     \<and> p_type p \<in> {PollTypeSingle, PollTypeMultiple} \<and> (p_type p = PollTypeSingle \<longrightarrow> p_max_choices p = 1)
     \<and> 1 \<le> p_max_choices p \<and> p_max_choices p \<le> int (length (p_options p))"

definition well_shaped :: "env \<Rightarrow> world \<Rightarrow> bool" where
  "well_shaped ev w \<longleftrightarrow> (\<forall>c p. w_stored w c = Some p \<longrightarrow> well_made (ev_limits ev) p)"

lemma fresh_shaped:
  assumes "fresh_start ev w"
  shows "well_shaped ev w"
proof -
  have "pg_tables (w_pg w) = empty_tables" using assms by (simp add: fresh_start_def)
  then have "w_stored w c = None" for c by (simp add: w_stored_def pg_stored_def stored_poll_None empty_tables_def)
  then show ?thesis by (simp add: well_shaped_def)
qed

lemma well_made_stored [simp]:
  "well_made lim (stamped stamp p) = well_made lim p" "well_made lim (with_status stamp s t p) = well_made lim p"
  by (simp_all add: well_made_def stamped_def with_status_def)

lemma built_well_made:
  assumes "command_ok lim cmd" and "p_question p = trim_space (cp_Question cmd)" and "p_type p = chosen_type cmd"
    and "p_max_choices p = chosen_max cmd" and "map o_text (p_options p) = option_texts (cp_Options cmd)"
  shows "well_made lim p"
proof -
  have len: "length (option_texts (cp_Options cmd)) = length (p_options p)"
    using arg_cong [OF assms(5), of length] by simp
  have texts: "set (option_texts (cp_Options cmd)) = o_text ` set (p_options p)" using assms(5) by (metis set_map)
  have "o_text o' \<noteq> []" if "o' \<in> set (p_options p)" for o'
  proof -
    have "o_text o' \<in> set (option_texts (cp_Options cmd))" using that texts by simp
    then show ?thesis by (auto simp: option_texts_def)
  qed
  moreover have "int (rune_count (o_text o')) \<le> pl_MaxOptionLength lim" if "o' \<in> set (p_options p)" for o'
    using assms(1) that texts by (simp add: command_ok_def)
  ultimately show ?thesis using assms len
    by (auto simp: well_made_def command_ok_def chosen_type_def chosen_max_def)
qed

lemma shaped_moved:
  "moved ev w w' i fr to p \<Longrightarrow> well_shaped ev w \<Longrightarrow> well_shaped ev w'"
  by (auto simp: moved_def well_shaped_def)

lemma shaped_step:
  assumes "sys_step ev e w w'" and "well_shaped ev w" and "world_inv ev w" and "\<And>i j. w_votes ev w i j \<le> max_int64"
  shows "well_shaped ev w'"
proof (cases "reshapes e")
  case False
  from stored_step [OF assms(1) False assms(3,4)] assms(2) show ?thesis by (simp add: well_shaped_def)
next
  case True
  have same: "well_shaped ev w'" if "w_stored w' = w_stored w" using that assms(2) by (simp add: well_shaped_def)
  from assms(1) show ?thesis
  proof cases
    case (create cmd r)
    from create_facts [OF assms(3) create(2)] consider "w_stored w' = w_stored w"
      | p where "w_stored w' = (w_stored w)(p_id p \<mapsto> stamped (pg_time (ev_cod ev)) p)" "well_made (ev_limits ev) p"
      using built_well_made by blast
    then show ?thesis by cases (use same assms(2) in \<open>auto simp: well_shaped_def\<close>)
  next
    case (activate i r)
    from activate_facts [OF assms(3) activate(2)] show ?thesis using same shaped_moved [OF _ assms(2)] by blast
  next
    case (finish i r)
    from finish_facts [OF assms(3) finish(2)] show ?thesis using same shaped_moved [OF _ assms(2)] by blast
  qed (use True in \<open>auto simp: reshapes_def\<close>)
qed

text \<open>
  C35. The polls of the service are well made. In every run, from a state whose polls are (a
  fresh deployment has none), each stored poll has a question and at least two different
  options, none of them blank, all within the configured lengths and number, a known type and
  status, and a limit of choices that its options can fill, so the limit that a ballot is
  checked against is the stored one; it is stored under its own id, and its options have
  different ids.
\<close>

theorem polls_well_made:
  assumes "run ev w es w'" and "world_inv ev w" and "well_shaped ev w" and "roomy ev w es"
    and "w_stored w' c = Some p"
  shows "well_made (ev_limits ev) p \<and> stored_poll_ok (pg_uuid (ev_cod ev)) c p \<and> effectiveMaxChoices p = p_max_choices p"
proof -
  have "well_shaped ev w'" using assms(1,4)
  proof (induction rule: run.induct)
    case stay
    then show ?case using assms(3) by simp
  next
    case (more es w1 e w2)
    have ok: "run_ok ev es w w1" using run_oks [OF more.hyps(1) assms(2)] roomy_butlast [OF more.prems] by blast
    have "w_votes ev w1 i j \<le> max_int64" for i j using run_ok_room [OF ok more.prems, of i j] by simp
    with ok shaped_step [OF more.hyps(2)] more.IH [OF roomy_butlast [OF more.prems]] show ?case by (simp add: run_ok_def)
  qed
  with assms(5) have made: "well_made (ev_limits ev) p" by (simp add: well_shaped_def)
  have "pg_inv (ev_cod ev) (w_pg w')" using run_oks [OF assms(1,2,4)] by (simp add: run_ok_def world_inv_def base_inv_def)
  then have "stored_poll_ok (pg_uuid (ev_cod ev)) c p"
    using stored_poll_sound assms(5) by (auto simp: w_stored_def pg_stored_def pg_inv_def)
  with made show ?thesis by (auto simp: well_made_def effectiveMaxChoices_def)
qed

lemma short_count: "length s \<le> n \<Longrightarrow> rune_count s \<le> n"
  using rune_count_le_length [of s] by simp

lemma demo_shaped: "well_shaped demo_env demo_world"
  by (auto simp: well_shaped_def w_stored_def pg_stored_def stored_poll_def demo_tables_def poll_of_row_def
      option_of_row_def options_of_def well_made_def demo_env_def short_count split: if_splits)

theorem polls_well_made_witness:
  "\<exists>p. w_stored (redis_loss (snd (do_Cast demo_env demo_vote demo_world))) ''p'' = Some p \<and> well_made (ev_limits demo_env) p"
proof -
  obtain p where p: "w_stored (redis_loss (snd (do_Cast demo_env demo_vote demo_world))) ''p'' = Some p"
    using run_oks [OF demo_run demo_inv demo_roomy] demo_stored unfolding run_ok_def onward_def by blast
  from polls_well_made [OF demo_run demo_inv demo_shaped demo_roomy p] p show ?thesis by blast
qed

end
