(* ===== verification/Api_Laws.thy ===== *)
theory Api_Laws
  imports Api Poll_Shapes
begin

text \<open>
  The deployed API: the settings of an accepted configuration satisfy what the components
  rely on, every request is at most one step of the system, chosen by its route, and every
  answer has one shape. The properties of \<open>System\<close> and its successors so hold for
  anything that happens over HTTP.
\<close>

subsection \<open>Settings\<close>

lemma main_env_simps [simp]:
  "ev_rd (main_env st cfg) = si_rd st" "ev_cod (main_env st cfg) = si_cod st" "ev_json (main_env st cfg) = si_json st"
  "ev_store (main_env st cfg) = main_store_config (cf_Vote cfg)" "ev_cache (main_env st cfg) = main_cache_config (cf_Cache cfg)"
  "ev_limits (main_env st cfg) = main_limits (cf_Polls cfg)" "ev_settle (main_env st cfg) = cf_SettleAfter cfg"
  "ev_valid (main_env st cfg) = si_valid st" "ev_uuid (main_env st cfg) = si_uuid st" "ev_hash (main_env st cfg) = si_hash st"
  by (simp_all add: main_env_def)

lemma main_router_simps [simp]:
  "rc_AdminToken (main_router st cfg) = cf_AdminToken cfg" "rc_MaxRequestBytes (main_router st cfg) = ht_MaxRequestBytes (cf_HTTP cfg)"
  "rc_TrustedProxies (main_router st cfg) = cf_TrustedProxies cfg" "rc_LogLevel (main_router st cfg) = cf_LogLevel cfg"
  "rc_netip (main_router st cfg) = si_netip st" "rc_json (main_router st cfg) = si_http st"
  "rc_mux (main_router st cfg) = si_mux st"
  by (simp_all add: main_router_def)

lemma main_api_eq:
  "main_api st cfg = NewRouter (main_router st cfg) (still (\<lambda>s. clock (sv_world s))) (draw st) (main_handlers st cfg)
     (api_live st cfg) (main_ready st cfg)"
  by (simp add: main_api_def api_on_def main_handlers_def main_ready_def main_dependencies_def main_polls_def Let_def)

lemma main_dependencies_eq:
  "main_dependencies st cfg =
     [\<lparr>dp_Name = ''redis'', dp_Critical = True, dp_Check = on_redis (store_Ping (si_rd st))\<rparr>,
      \<lparr>dp_Name = ''postgres'', dp_Critical = False, dp_Check = on_pg repo_Ping\<rparr>]"
  by (simp add: main_dependencies_def api_dependencies_def main_store_def store_on_redis_def main_repo_def repo_on_pg_def Let_def)

lemma cache_within:
  "16 \<le> capacity \<Longrightarrow> int (ttl_size (cache_run (NewTTL h capacity) ops)) \<le> capacity"
  using ttl_size_le [OF cache_run_ok [OF NewTTL_ok, of h capacity ops]]
    cache_run_capacity [OF NewTTL_ok, of h capacity ops]
  by (simp add: NewTTL_capacity sum_list_replicate shardCount_def go_div_def)

lemma page_within:
  assumes "1 \<le> pl_DefaultPageSize ls" and "1 \<le> pl_MaxPageSize ls" and "page_limits ls limit offset = (l, k)"
  shows "1 \<le> l \<and> l \<le> pl_MaxPageSize ls \<and> 0 \<le> k \<and> (0 \<le> offset \<longrightarrow> k = offset)"
  using assms by (auto simp: page_limits_def Let_def split: if_splits)

lemma wired:
  assumes "Load lib = Inr cfg"
  shows "store_config_ok (main_store_config (cf_Vote cfg)) \<and> config_ok (main_cache_config (cf_Cache cfg))
    \<and> minute \<le> sc_DedupTTL (main_store_config (cf_Vote cfg)) \<and> hour \<le> sc_CounterRetention (main_store_config (cf_Vote cfg))
    \<and> cc_LocalTTL (main_cache_config (cf_Cache cfg)) \<le> cc_SharedTTL (main_cache_config (cf_Cache cfg))
    \<and> int (ttl_size (cache_run (NewTTL h (cc_LocalCapacity (main_cache_config (cf_Cache cfg)))) ops)) \<le> ch_Capacity (cf_Cache cfg)
    \<and> fst (page_limits (main_limits (cf_Polls cfg)) limit offset) \<in> {1..ps_MaxPageSize (cf_Polls cfg)}"
proof -
  from Load_Inr(2) [OF assms] have V: "Vote_sound (cf_Vote cfg)" and C: "Cache_sound lib (cf_Cache cfg)"
    and P: "Polls_sound lib (cf_Polls cfg)" and le: "ch_LocalTTL (cf_Cache cfg) \<le> ch_SharedTTL (cf_Cache cfg)"
    by (simp_all add: fields_sound_def consistent_def)
  have "store_config_ok (main_store_config (cf_Vote cfg))" "minute \<le> vt_DedupTTL (cf_Vote cfg)"
    "hour \<le> vt_CounterRetention (cf_Vote cfg)"
    using V by (auto simp: store_config_ok_def main_store_config_def Vote_sound_def times)
  moreover have "config_ok (main_cache_config (cf_Cache cfg))" "16 \<le> ch_Capacity (cf_Cache cfg)"
    using C by (auto simp: config_ok_def main_cache_config_def Cache_sound_def times)
  moreover have "fst (page_limits (main_limits (cf_Polls cfg)) limit offset) \<in> {1..ps_MaxPageSize (cf_Polls cfg)}"
    using P page_within [OF _ _ surjective_pairing, of "main_limits (cf_Polls cfg)" limit offset]
    by (auto simp: Polls_sound_def main_limits_def)
  ultimately show ?thesis using le cache_within by (simp add: main_store_config_def main_cache_config_def)
qed

text \<open>
  Settings of the running service. With a configuration that loads, the vote store has
  between 1 and 1024 shards and keeps device marks and counters for at least a minute and an
  hour, every cache lifetime is positive and the local one at most the shared one, the
  in-process cache never exceeds its configured capacity, and every page of polls that can
  be asked for has between 1 and the configured maximum of entries.
\<close>

theorem configured_limits:
  assumes "Load lib = Inr cfg"
  shows "store_config_ok (main_store_config (cf_Vote cfg)) \<and> config_ok (main_cache_config (cf_Cache cfg))
    \<and> minute \<le> sc_DedupTTL (main_store_config (cf_Vote cfg)) \<and> hour \<le> sc_CounterRetention (main_store_config (cf_Vote cfg))
    \<and> cc_LocalTTL (main_cache_config (cf_Cache cfg)) \<le> cc_SharedTTL (main_cache_config (cf_Cache cfg))
    \<and> int (ttl_size (cache_run (NewTTL h (cc_LocalCapacity (main_cache_config (cf_Cache cfg)))) ops)) \<le> ch_Capacity (cf_Cache cfg)
    \<and> fst (page_limits (main_limits (cf_Polls cfg)) limit offset) \<in> {1..ps_MaxPageSize (cf_Polls cfg)}"
  using wired [OF assms] .

theorem configured_limits_witness:
  "\<exists>cfg. Load demo_lib = Inr cfg \<and> store_config_ok (main_store_config (cf_Vote cfg))
     \<and> config_ok (main_cache_config (cf_Cache cfg))"
proof -
  from demo_accepted Load_Inr(1) obtain cfg where "Load demo_lib = Inr cfg" by metis
  with configured_limits [OF this] show ?thesis by blast
qed

subsection \<open>From a request to its handler\<close>

text \<open>
  The request as it reaches its route: the middleware before the routes fills in the id, the
  address and the limit, and installs the recorder.
\<close>

definition prepared :: "('a, 'p) site \<Rightarrow> 'p Config \<Rightarrow> request \<Rightarrow> string \<Rightarrow> request" where
  "prepared st cfg r i = r\<lparr>rq_RequestID := i, rq_ClientIP := resolveClientIP (si_netip st) (cf_TrustedProxies cfg) r,
     rq_limit := Some (ht_MaxRequestBytes (cf_HTTP cfg))\<rparr>"

definition opened :: "string \<Rightarrow> writer" where
  "opened i = (set_header ''X-Request-Id'' i new_writer)\<lparr>wr_rec := Some 0, wr_written := 0\<rparr>"

definition routed :: "('a, 'p) site \<Rightarrow> 'p Config \<Rightarrow> request \<Rightarrow> api handler" where
  "routed st cfg r = route_handler (main_router st cfg) (draw st) (main_handlers st cfg) (api_live st cfg)
     (main_ready st cfg) (si_mux st (rq_method r) (rq_path r))"

text \<open>The id of a request and the state once it is chosen.\<close>

definition request_id :: "('a, 'p) site \<Rightarrow> request \<Rightarrow> api \<Rightarrow> string \<times> api" where
  "request_id st r s =
     (let given = sanitizeRequestID (first_value (rq_header r) ''X-Request-Id'')
      in if given = [] then randomToken (draw st) s else (given, s))"

lemma resolve_id [simp]: "resolveClientIP ip ps (r\<lparr>rq_RequestID := i\<rparr>) = resolveClientIP ip ps r"
proof -
  have "forwarded_hops (r\<lparr>rq_RequestID := i\<rparr>) = forwarded_hops r" by (simp add: forwarded_hops_def)
  moreover have "rq_remote (r\<lparr>rq_RequestID := i\<rparr>) = rq_remote r" by simp
  ultimately show ?thesis by (simp only: resolveClientIP_def)
qed

lemma randomToken_world: "sv_world (snd (randomToken (draw st) s)) = sv_world s"
  by (simp add: randomToken_def draw_def)

lemma request_id_world: "request_id st r s = (i, s1) \<Longrightarrow> sv_world s1 = sv_world s"
  using randomToken_world [of st s] by (auto simp: request_id_def Let_def split: if_splits)

lemma serve_eq:
  assumes "request_id st r s = (i, s1)"
  shows "serve st cfg r s = AccessLog (cf_LogLevel cfg) (Recover (si_http st) (cf_LogLevel cfg)
           (BodyLimit (ht_MaxRequestBytes (cf_HTTP cfg)) (\<lambda>q. routed st cfg q q)))
         (r\<lparr>rq_RequestID := i, rq_ClientIP := resolveClientIP (si_netip st) (cf_TrustedProxies cfg) r\<rparr>)
         (set_header ''X-Request-Id'' i new_writer) s1"
  using assms by (auto simp: serve_def main_api_eq NewRouter_def Correlation_def request_id_def Let_def RealIP_def
      WithRequestID_def WithClientIP_def routed_def split: prod.split if_splits)

text \<open>What comes out: the handler's answer, or the answer of recovery.\<close>

lemma serve_cases:
  assumes "request_id st r s = (i, s1)" and "serve st cfg r s = (p, w', s')"
  obtains q w where "routed st cfg r (prepared st cfg r i) (opened i) s1 = (q, w, s')"
    and "q = None \<Longrightarrow> p = None \<and> w' = log_line (cf_LogLevel cfg) (access_level (rec_statusOrOK w)) ''http request'' (rec_statusOrOK w) w"
    and "\<And>x. q = Some x \<Longrightarrow> x = ErrAbortHandler \<and> p = Some x \<and> w' = w \<or> x \<noteq> ErrAbortHandler \<and> p = None
      \<and> (\<exists>w2. Recover (si_http st) (cf_LogLevel cfg) (\<lambda>_ _ _. (q, w, s')) (prepared st cfg r i) (opened i) s1 = (None, w2, s')
          \<and> w' = log_line (cf_LogLevel cfg) (access_level (rec_statusOrOK w2)) ''http request'' (rec_statusOrOK w2) w2)"
proof -
  obtain q w s2 where run: "routed st cfg r (prepared st cfg r i) (opened i) s1 = (q, w, s2)"
    by (metis prod_cases3)
  let ?r = "r\<lparr>rq_RequestID := i, rq_ClientIP := resolveClientIP (si_netip st) (cf_TrustedProxies cfg) r\<rparr>"
  have "BodyLimit (ht_MaxRequestBytes (cf_HTTP cfg)) (\<lambda>q. routed st cfg q q) ?r (opened i) s1 = (q, w, s2)"
    using run by (simp add: BodyLimit_def prepared_def routed_def)
  with assms(2) show ?thesis unfolding serve_eq [OF assms(1)]
    by (cases q; intro that [of q w])
      (use run in \<open>auto simp: AccessLog_def Recover_def opened_def prepared_def WriteError_def Let_def split: if_splits\<close>)
qed

subsection \<open>A request is at most one step\<close>

definition authorised :: "'p Config \<Rightarrow> request \<Rightarrow> bool" where
  "authorised cfg r \<longleftrightarrow> Sum256 (string_bytes (cf_AdminToken cfg))
     = Sum256 (string_bytes (bearerToken (first_value (rq_header r) ''Authorization'')))"

text \<open>The step a request may take, from its route and its credentials.\<close>

definition permitted :: "('a, 'p) site \<Rightarrow> 'p Config \<Rightarrow> request \<Rightarrow> event \<Rightarrow> bool" where
  "permitted st cfg r e \<longleftrightarrow> (case si_mux st (rq_method r) (rq_path r) of
       Health_Live \<Rightarrow> False
     | Health_Ready \<Rightarrow> (\<exists>fs gs. e = EvNet fs gs)
     | Show_Poll i \<Rightarrow> (\<exists>x. e = EvGet i x)
     | Vote_In i \<Rightarrow> (\<exists>cmd x. e = EvCast cmd x \<and> vc_PollID cmd = i
          \<and> vc_ClientIP cmd = resolveClientIP (si_netip st) (cf_TrustedProxies cfg) r)
     | Admin a \<Rightarrow> authorised cfg r \<and> (case a of
           AListPolls \<Rightarrow> \<exists>l k x. e = EvList l k x
         | ACreatePoll \<Rightarrow> \<exists>c x. e = EvCreate c x
         | AActivate i \<Rightarrow> \<exists>x. e = EvActivate i x
         | AFinish i \<Rightarrow> \<exists>x. e = EvFinish i x
         | AResults i \<Rightarrow> \<exists>x. e = EvResults i x
         | _ \<Rightarrow> False)
     | _ \<Rightarrow> False)"

lemma on_world_state [simp]: "snd (on_world f s) = s\<lparr>sv_world := snd (f (sv_world s))\<rparr>"
  by (simp add: on_world_def split: prod.split)

lemma respond_state [simp]: "snd (snd (respond js lv r res ok w)) = snd res"
  by (simp add: respond_def split: prod.split sum.split option.split)

lemma handler_simps [simp]:
  "hd_Create (main_handlers st cfg) c = on_world (do_Create (main_env st cfg) c)"
  "hd_Get (main_handlers st cfg) i = on_world (do_Get (main_env st cfg) i)"
  "hd_List (main_handlers st cfg) l k = on_world (do_List (main_env st cfg) l k)"
  "hd_Activate (main_handlers st cfg) i = on_world (do_Activate (main_env st cfg) i)"
  "hd_Finish (main_handlers st cfg) i = on_world (do_Finish (main_env st cfg) i)"
  "hd_Results (main_handlers st cfg) i = on_world (do_Results (main_env st cfg) i)"
  "hd_Cast (main_handlers st cfg) v = on_world (do_Cast (main_env st cfg) v)"
  by (simp_all add: main_handlers_def NewHandlers_def Let_def request_defs)

text \<open>The step relation as a function of the request: each operation is the step of its event.\<close>

lemma steps_of:
  "sys_step ev (EvCast cmd (fst (do_Cast ev cmd w))) w (snd (do_Cast ev cmd w))"
  "sys_step ev (EvCreate c (fst (do_Create ev c w))) w (snd (do_Create ev c w))"
  "sys_step ev (EvActivate i (fst (do_Activate ev i w))) w (snd (do_Activate ev i w))"
  "sys_step ev (EvFinish i (fst (do_Finish ev i w))) w (snd (do_Finish ev i w))"
  "sys_step ev (EvGet i (fst (do_Get ev i w))) w (snd (do_Get ev i w))"
  "sys_step ev (EvResults i (fst (do_Results ev i w))) w (snd (do_Results ev i w))"
  "sys_step ev (EvList l k (fst (do_List ev l k w))) w (snd (do_List ev l k w))"
  by (auto intro: sys_step.intros surjective_pairing)

definition one_step :: "env \<Rightarrow> (event \<Rightarrow> bool) \<Rightarrow> world \<Rightarrow> world \<Rightarrow> bool" where
  "one_step ev P w w' \<longleftrightarrow> w' = w \<or> (\<exists>e. P e \<and> sys_step ev e w w')"

lemma one_step_mono: "one_step ev P w w' \<Longrightarrow> (\<And>e. P e \<Longrightarrow> Q e) \<Longrightarrow> one_step ev Q w w'"
  unfolding one_step_def by blast

lemma one_step_refl [simp]: "one_step ev P w w"
  by (simp add: one_step_def)

lemma handler_steps:
  fixes st cfg js lv r w s
  defines "ev \<equiv> main_env st cfg" and "h \<equiv> main_handlers st cfg"
  defines "v x \<equiv> sv_world (snd (snd (x r w s)))"
  shows "one_step ev (\<lambda>e. \<exists>x. e = EvGet (rq_param r) x) (sv_world s) (v (GetPoll js lv h))"
    "one_step ev (\<lambda>e. \<exists>cmd x. e = EvCast cmd x \<and> vc_PollID cmd = rq_param r \<and> vc_ClientIP cmd = rq_ClientIP r)
       (sv_world s) (v (CastVote js lv h))"
    "one_step ev (\<lambda>e. \<exists>c x. e = EvCreate c x) (sv_world s) (v (CreatePoll js lv h))"
    "one_step ev (\<lambda>e. \<exists>l k x. e = EvList l k x) (sv_world s) (v (ListPolls js lv h))"
    "one_step ev (\<lambda>e. \<exists>x. e = EvActivate (rq_param r) x) (sv_world s) (v (ActivatePoll js lv h))"
    "one_step ev (\<lambda>e. \<exists>x. e = EvFinish (rq_param r) x) (sv_world s) (v (FinishPoll js lv h))"
    "one_step ev (\<lambda>e. \<exists>x. e = EvResults (rq_param r) x) (sv_world s) (v (GetResults js lv h))"
proof -
  note [simp] = v_def ev_def h_def one_step_def
  show "one_step ev (\<lambda>e. \<exists>x. e = EvGet (rq_param r) x) (sv_world s) (v (GetPoll js lv h))"
    by (simp add: GetPoll_def) (metis steps_of(5))
  show "one_step ev (\<lambda>e. \<exists>cmd x. e = EvCast cmd x \<and> vc_PollID cmd = rq_param r \<and> vc_ClientIP cmd = rq_ClientIP r)
      (sv_world s) (v (CastVote js lv h))"
    by (auto simp add: CastVote_def split: sum.split) (metis VoteCommand.select_convs(1,4) steps_of(1))
  show "one_step ev (\<lambda>e. \<exists>c x. e = EvCreate c x) (sv_world s) (v (CreatePoll js lv h))"
    by (auto simp add: CreatePoll_def split: sum.split) (metis steps_of(2))
  show "one_step ev (\<lambda>e. \<exists>l k x. e = EvList l k x) (sv_world s) (v (ListPolls js lv h))"
    by (auto simp add: ListPolls_def split: sum.split) (metis steps_of(7))
  show "one_step ev (\<lambda>e. \<exists>x. e = EvActivate (rq_param r) x) (sv_world s) (v (ActivatePoll js lv h))"
    by (simp add: ActivatePoll_def) (metis steps_of(3))
  show "one_step ev (\<lambda>e. \<exists>x. e = EvFinish (rq_param r) x) (sv_world s) (v (FinishPoll js lv h))"
    by (simp add: FinishPoll_def) (metis steps_of(4))
  show "one_step ev (\<lambda>e. \<exists>x. e = EvResults (rq_param r) x) (sv_world s) (v (GetResults js lv h))"
    by (simp add: GetResults_def) (metis steps_of(6))
qed

text \<open>The probe asks the servers and changes nothing else; Redis answers a PING so.\<close>

definition ping_reads :: "redis_cmds \<Rightarrow> bool" where
  "ping_reads rd \<longleftrightarrow> (\<forall>now db. snd (rd_PING rd now db) = db)"

lemma ping_net:
  assumes "ping_reads rd"
  shows "snd (store_Ping rd st) = st\<lparr>rs_fates := tl (rs_fates st)\<rparr>" "snd (repo_Ping p) = p\<lparr>pg_fates := tl (pg_fates p)\<rparr>"
proof -
  have reads: "snd (rd_PING rd t db) = db" for t db using assms by (simp add: ping_reads_def)
  have again: "run_lost n (rd_PING rd t) db = db" for n t db
    by (induction n arbitrary: db) (simp_all add: reads)
  obtain n b where f: "next_fate st = Fate n b" by (cases "next_fate st")
  obtain x where "rd_PING rd (rs_now st) (rs_db st) = (x, rs_db st)"
    using reads [of "rs_now st" "rs_db st"] by (cases "rd_PING rd (rs_now st) (rs_db st)") simp
  then show "snd (store_Ping rd st) = st\<lparr>rs_fates := tl (rs_fates st)\<rparr>"
    by (simp add: store_Ping_def redis_call_def f again Let_def)
  show "snd (repo_Ping p) = p\<lparr>pg_fates := tl (pg_fates p)\<rparr>"
    by (auto simp: repo_Ping_def pg_query_def pg_tick_def split: go_try_splits pg_fate.splits)
qed

lemma ready_step:
  assumes "ping_reads (si_rd st)"
  shows "one_step ev (\<lambda>e. \<exists>fs gs. e = EvNet fs gs) (sv_world s) (sv_world (snd (snd (main_ready st cfg r w s))))"
proof -
  let ?w = "sv_world s"
  define fs where "fs = tl (rs_fates (w_redis ?w))"
  define gs where "gs = tl (pg_fates (w_pg ?w))"
  let ?w1 = "?w\<lparr>w_redis := (w_redis ?w)\<lparr>rs_fates := fs\<rparr>\<rparr>"
  have p1: "on_redis (store_Ping (si_rd st)) ?w = (fst (store_Ping (si_rd st) (w_redis ?w)), ?w1)"
    by (simp add: prod_eq_iff ping_net(1) [OF assms] fs_def)
  have p2: "on_pg repo_Ping ?w1 = (fst (repo_Ping (w_pg ?w)), renet fs gs ?w)"
    by (simp add: prod_eq_iff ping_net(2) [OF assms] gs_def renet_def)
  have all: "snd (check_all (main_dependencies st cfg) c ?w) = renet fs gs ?w" for c
    by (simp add: main_dependencies_eq p1 p2)
  obtain cur v where run: "check_all (main_dependencies st cfg)
      \<lparr>hr_Status = ''ready'', hr_Dependencies = [], hr_ready = True\<rparr> ?w = (cur, v)" by fastforce
  with all have v: "v = renet fs gs ?w" by (metis snd_conv)
  have "sv_world (snd (snd (main_ready st cfg r w s)))
      = (if time_sub (clock ?w) (hc_cachedAt (sv_checker s)) < hc_cacheFor (sv_checker s) then ?w else renet fs gs ?w)"
    by (simp add: main_ready_def api_ready_def Ready_def evaluate_def run v)
  moreover have "one_step ev (\<lambda>e. \<exists>fs gs. e = EvNet fs gs) ?w (renet fs gs ?w)"
    unfolding one_step_def by (rule disjI2) (intro exI conjI, rule refl, rule sys_step.net)
  ultimately show ?thesis by simp
qed

lemma prepared_simps [simp]:
  "rq_ClientIP (prepared st cfg r i) = resolveClientIP (si_netip st) (cf_TrustedProxies cfg) r"
  "rq_RequestID (prepared st cfg r i) = i" "rq_header (prepared st cfg r i) = rq_header r"
  by (simp_all add: prepared_def)

lemma vote_step:
  fixes st cfg s
  assumes "rq_ClientIP q = ip"
  shows "one_step (main_env st cfg) (\<lambda>e. \<exists>cmd x. e = EvCast cmd x \<and> vc_PollID cmd = i \<and> vc_ClientIP cmd = ip) (sv_world s)
     (sv_world (snd (snd (VoterCookie (draw st) ck (with_param i (CastVote js lv (main_handlers st cfg))) q w s))))"
    (is "one_step ?ev ?P _ _")
proof -
  let ?h = "with_param i (CastVote js lv (main_handlers st cfg))"
  have step: "one_step ?ev ?P (sv_world s2) (sv_world (snd (snd (?h (WithVoterToken q t) w2 s2))))" for t w2 s2
    using handler_steps(2) [of st cfg "(WithVoterToken q t)\<lparr>rq_param := i\<rparr>" s2 js lv w2] assms
    by (simp add: with_param_def WithVoterToken_def)
  obtain t s1 where t: "randomToken (draw st) s = (t, s1)" by fastforce
  with randomToken_world [of st s] have s1: "sv_world s1 = sv_world s" by simp
  show ?thesis
    unfolding VoterCookie_def Let_def t prod.case if_distrib [where f = "\<lambda>x. sv_world (snd (snd x))"]
    using step [of s] step [of s1, unfolded s1] by (simp only: if_split) blast
qed

lemma admin_step:
  fixes st cfg s
  defines "h \<equiv> main_handlers st cfg" and "ev \<equiv> main_env st cfg"
  shows "one_step ev (\<lambda>e. case a of AListPolls \<Rightarrow> \<exists>l k x. e = EvList l k x | ACreatePoll \<Rightarrow> \<exists>c x. e = EvCreate c x
       | AActivate i \<Rightarrow> \<exists>x. e = EvActivate i x | AFinish i \<Rightarrow> \<exists>x. e = EvFinish i x
       | AResults i \<Rightarrow> \<exists>x. e = EvResults i x | _ \<Rightarrow> False)
     (sv_world s) (sv_world (snd (snd (admin_handler js lv h a q w s))))"
  using handler_steps [where st = st and cfg = cfg and r = "q\<lparr>rq_param := k\<rparr>" and s = s and js = js and lv = lv and w = w for k]
    handler_steps [where st = st and cfg = cfg and r = q and s = s and js = js and lv = lv and w = w]
  by (cases a) (simp_all add: admin_handler_def with_param_def h_def ev_def endpoint_not_found_def method_not_allowed_def)

lemma routed_step:
  assumes "ping_reads (si_rd st)"
  shows "one_step (main_env st cfg) (permitted st cfg r) (sv_world s)
     (sv_world (snd (snd (routed st cfg r (prepared st cfg r i) w s))))"
proof (cases "si_mux st (rq_method r) (rq_path r)")
  case Health_Ready
  with ready_step [OF assms] show ?thesis
    by (simp add: routed_def route_handler_def Let_def permitted_def [abs_def])
next
  case (Show_Poll k)
  then show ?thesis
    using handler_steps(1) [of st cfg "(prepared st cfg r i)\<lparr>rq_param := k\<rparr>" s "si_http st" "cf_LogLevel cfg" w]
    by (simp add: routed_def route_handler_def Let_def permitted_def [abs_def] with_param_def)
next
  case (Vote_In k)
  then show ?thesis
    using vote_step [of "prepared st cfg r i" "resolveClientIP (si_netip st) (cf_TrustedProxies cfg) r" st cfg k s]
    by (simp add: routed_def route_handler_def Let_def permitted_def [abs_def])
next
  case (Admin a)
  then show ?thesis using admin_step [of st cfg a s]
    by (auto simp add: routed_def route_handler_def Let_def permitted_def [abs_def] AdminAuth_def authorised_def)
qed (simp_all add: routed_def route_handler_def Let_def api_live_def endpoint_not_found_def method_not_allowed_def)

lemma serve_step:
  assumes "ping_reads (si_rd st)" and "serve st cfg r s = (p, w, s')"
  shows "one_step (main_env st cfg) (permitted st cfg r) (sv_world s) (sv_world s')"
proof -
  obtain i s1 where id: "request_id st r s = (i, s1)" by fastforce
  obtain q w1 where "routed st cfg r (prepared st cfg r i) (opened i) s1 = (q, w1, s')"
    by (rule serve_cases [OF id assms(2)]) (rule that)
  with routed_step [OF assms(1), of cfg r s1 i "opened i"] show ?thesis by (simp add: request_id_world [OF id])
qed

subsection \<open>Everything that happens\<close>

text \<open>
  The life of the service: requests and runs of the worker in any order, between whatever
  happens outside (time passes, the process restarts, servers fail, Redis loses its data).
\<close>

datatype happening = Served request | Worked | Outside event

definition outside_event :: "event \<Rightarrow> bool" where
  "outside_event e \<longleftrightarrow> (\<exists>t. e = EvTick t) \<or> e = EvBoot \<or> (\<exists>fs gs. e = EvNet fs gs) \<or> e = EvRedisLoss"

inductive lives :: "('a, 'p) site \<Rightarrow> 'p Config \<Rightarrow> api \<Rightarrow> happening list \<Rightarrow> api \<Rightarrow> bool" for st cfg s where
  idle: "lives st cfg s [] s"
| request: "lives st cfg s hs s1 \<Longrightarrow> serve st cfg r s1 = (p, w, s2) \<Longrightarrow> lives st cfg s (hs @ [Served r]) s2"
| worker: "lives st cfg s hs s1 \<Longrightarrow> work st cfg (sv_world s1) = (x, v) \<Longrightarrow> lives st cfg s (hs @ [Worked]) (s1\<lparr>sv_world := v\<rparr>)"
| outside: "lives st cfg s hs s1 \<Longrightarrow> outside_event e \<Longrightarrow>
    sys_step (main_env st cfg) e (sv_world s1) v \<Longrightarrow> lives st cfg s (hs @ [Outside e]) (s1\<lparr>sv_world := v\<rparr>)"

definition caused :: "('a, 'p) site \<Rightarrow> 'p Config \<Rightarrow> happening \<Rightarrow> event \<Rightarrow> bool" where
  "caused st cfg h e \<longleftrightarrow> (case h of Served r \<Rightarrow> permitted st cfg r e
     | Worked \<Rightarrow> \<exists>report err. e = EvSync report err | Outside e' \<Rightarrow> e = e' \<and> outside_event e')"

lemma work_step:
  assumes "work st cfg w = (x, w')"
  shows "one_step (main_env st cfg) (\<lambda>e. \<exists>report err. e = EvSync report err) w w'"
proof -
  obtain report err v where run: "do_Sync (main_env st cfg) w = ((report, err), v)" by (metis prod_cases3 prod.collapse)
  with assms have "w' = v"
    by (cases err) (simp_all add: work_def job_RunOnce_def main_job_def NewJob_def)
  with sys_step.sync [OF run] show ?thesis unfolding one_step_def by blast
qed

text \<open>
  A run explains what happened: whatever kind of event is counted, it has at most as many of
  them as there were happenings that could cause one.
\<close>

definition explains :: "('a, 'p) site \<Rightarrow> 'p Config \<Rightarrow> happening list \<Rightarrow> event list \<Rightarrow> bool" where
  "explains st cfg hs es \<longleftrightarrow>
     (\<forall>P. tally P es \<le> int (length (filter (\<lambda>h. \<exists>e. caused st cfg h e \<and> P e) hs)))"

lemma explains_length: "explains st cfg hs es \<Longrightarrow> length es \<le> length hs"
proof -
  assume "explains st cfg hs es"
  then have "tally (\<lambda>_. True) es \<le> int (length (filter (\<lambda>h. \<exists>e. caused st cfg h e \<and> True) hs))"
    unfolding explains_def by blast
  moreover have "tally (\<lambda>_. True) es = int (length es)" by (simp add: tally_def)
  ultimately show ?thesis using length_filter_le [of "\<lambda>h. \<exists>e. caused st cfg h e \<and> True" hs] by linarith
qed

lemma explains_member:
  assumes "explains st cfg hs es" and "e \<in> set es"
  shows "\<exists>h \<in> set hs. caused st cfg h e"
proof (rule ccontr)
  assume no: "\<not> ?thesis"
  have "tally (\<lambda>e'. e' = e) es \<le> int (length (filter (\<lambda>h. \<exists>e'. caused st cfg h e' \<and> e' = e) hs))"
    using assms(1) unfolding explains_def by (rule spec)
  also have "filter (\<lambda>h. \<exists>e'. caused st cfg h e' \<and> e' = e) hs = []"
    unfolding filter_empty_conv using no by blast
  finally have "filter (\<lambda>e'. e' = e) es = []" by (simp add: tally_def)
  with assms(2) show False by (auto simp: filter_empty_conv)
qed

lemma explains_step:
  assumes "run ev w es v" and "explains st cfg hs es" and "one_step ev P v v'" and "\<And>e. P e \<Longrightarrow> caused st cfg h e"
  shows "\<exists>es. run ev w es v' \<and> explains st cfg (hs @ [h]) es"
proof (cases "v' = v")
  case True
  have "explains st cfg (hs @ [h]) es" unfolding explains_def
  proof
    fix Q
    have "tally Q es \<le> int (length (filter (\<lambda>h. \<exists>e. caused st cfg h e \<and> Q e) hs))"
      using assms(2) unfolding explains_def by blast
    then show "tally Q es \<le> int (length (filter (\<lambda>h. \<exists>e. caused st cfg h e \<and> Q e) (hs @ [h])))" by simp
  qed
  with assms(1) True show ?thesis by blast
next
  case False
  with assms(3) obtain e where e: "P e" "sys_step ev e v v'" by (auto simp: one_step_def)
  have "explains st cfg (hs @ [h]) (es @ [e])" unfolding explains_def
  proof
    fix Q
    have "tally Q es \<le> int (length (filter (\<lambda>h. \<exists>e. caused st cfg h e \<and> Q e) hs))"
      using assms(2) unfolding explains_def by blast
    with assms(4) [OF e(1)] show "tally Q (es @ [e]) \<le> int (length (filter (\<lambda>h. \<exists>e. caused st cfg h e \<and> Q e) (hs @ [h])))"
      by auto
  qed
  with run.more [OF assms(1) e(2)] show ?thesis by blast
qed

lemma lives_run:
  assumes "lives st cfg s hs s'" and ping: "ping_reads (si_rd st)"
  shows "\<exists>es. run (main_env st cfg) (sv_world s) es (sv_world s') \<and> explains st cfg hs es"
  using assms(1)
proof (induction rule: lives.induct)
  case idle
  show ?case by (intro exI [of _ "[]"]) (simp add: run.stay explains_def tally_def)
next
  case (request hs s1 r p w s2)
  from request.IH obtain es where es: "run (main_env st cfg) (sv_world s) es (sv_world s1)" "explains st cfg hs es"
    by blast
  show ?case by (rule explains_step [OF es serve_step [OF ping request.hyps(2)]]) (simp add: caused_def)
next
  case (worker hs s1 x v)
  from worker.IH obtain es where es: "run (main_env st cfg) (sv_world s) es (sv_world s1)" "explains st cfg hs es"
    by blast
  from explains_step [OF es work_step [OF worker.hyps(2)], of Worked] show ?case by (simp add: caused_def)
next
  case (outside hs s1 e v)
  from outside.IH obtain es where es: "run (main_env st cfg) (sv_world s) es (sv_world s1)" "explains st cfg hs es"
    by blast
  from outside.hyps(3) have "one_step (main_env st cfg) ((=) e) (sv_world s1) v" by (auto simp: one_step_def)
  from explains_step [OF es this, of "Outside e"] outside.hyps(2) show ?case by (simp add: caused_def)
qed

text \<open>
  C19. The service refines the system. Whatever requests arrive, whenever the worker runs and
  whatever happens outside, the data the service ends with is that of a run of the system
  as the steps define it: the run has at most one event for each happening, and its events are those the
  routes and credentials of the requests allow. Every property of runs is so one of the
  service behind its HTTP interface.
\<close>

theorem service_refines_system:
  assumes "lives st cfg s hs s'" and "ping_reads (si_rd st)"
  shows "\<exists>es. run (main_env st cfg) (sv_world s) es (sv_world s') \<and> length es \<le> length hs
    \<and> (\<forall>e \<in> set es. \<exists>h \<in> set hs. caused st cfg h e)"
proof -
  obtain es where es: "run (main_env st cfg) (sv_world s) es (sv_world s')" "explains st cfg hs es"
    using lives_run [OF assms] by (elim exE conjE)
  show ?thesis
    by (intro exI [of _ es] conjI ballI es(1) explains_length [OF es(2)] explains_member [OF es(2)])
qed

text \<open>A site on which a device votes in the poll of the concrete deployment.\<close>

definition demo_http :: json_lib where
  "demo_http = \<lparr>jl_encode = (\<lambda>_. Some ''{}''),
     jl_vote = (\<lambda>_ body. if body = [] then BodyInvalid (ErrText ''EOF'') else Decoded \<lparr>vr_OptionIDs = [body]\<rparr>),
     jl_create = (\<lambda>_ _. BodyInvalid (ErrText ''EOF''))\<rparr>"

definition demo_site :: "(string, unit) site" where
  "demo_site = \<lparr>si_rd = mem_redis, si_cod = demo_cod, si_json = demo_json, si_valid = (\<lambda>s. s \<noteq> []),
     si_uuid = (\<lambda>n. itoa (int n)), si_hash = (\<lambda>_. 0), si_random = (\<lambda>k n. replicate n (of_nat k)),
     si_netip = \<lparr>ip_parse = Some, ip_unmap = (\<lambda>a. a), ip_string = (\<lambda>a. a), ip_contains = (\<lambda>_ _. False),
       ip_split_host = (\<lambda>_. None)\<rparr>,
     si_http = demo_http, si_mux = (\<lambda>m path. if m = ''POST'' then Vote_In ''p'' else Miss)\<rparr>"

definition demo_cfg :: "unit Config" where
  "demo_cfg = \<lparr>cf_Environment = ''development'', cf_LogLevel = LevelInfo,
     cf_HTTP = \<lparr>ht_Address = '':8080'', ht_ReadHeaderTimeout = second, ht_ReadTimeout = second, ht_WriteTimeout = second,
       ht_IdleTimeout = second, ht_MaxHeaderBytes = 16384, ht_MaxRequestBytes = 65536, ht_RequestTimeout = second,
       ht_ShutdownTimeout = second\<rparr>,
     cf_Postgres = \<lparr>po_DSN = ''db'', po_MaxConns = 20, po_MinConns = 2, po_MaxConnLifetime = hour,
       po_MaxConnIdleTime = minute, po_ConnectTimeout = second\<rparr>,
     cf_Redis = \<lparr>rd_Addresses = [''r:1''], rd_Username = [], rd_Password = [], rd_DB = 0, rd_MasterName = [],
       rd_PoolSize = 128, rd_MinIdleConns = 16, rd_DialTimeout = second, rd_ReadTimeout = second,
       rd_WriteTimeout = second, rd_MaxRetries = 2\<rparr>,
     cf_AdminToken = replicate 32 (CHR ''x''),
     cf_Vote = \<lparr>vt_Shards = 1, vt_DedupTTL = 3600 * second, vt_CounterRetention = 7200 * second, vt_RateLimit = 0,
       vt_RateWindow = second, vt_PollIPQuota = 0, vt_PollIPQuotaWindow = second\<rparr>,
     cf_Cache = \<lparr>ch_LocalTTL = 2 * second, ch_SharedTTL = 30 * second, ch_NegativeTTL = 5 * second, ch_Capacity = 64\<rparr>,
     cf_SyncTimeout = 30 * second, cf_SettleAfter = 300 * second,
     cf_Polls = \<lparr>ps_MaxQuestionLength = 300, ps_MaxOptionLength = 200, ps_MaxOptions = 20,
       ps_DefaultPageSize = 20, ps_MaxPageSize = 100\<rparr>,
     cf_Cookie = \<lparr>co_Name = ''voter_id'', co_TTL = hour, co_Secure = True, co_SameSite = SameSiteLaxMode, co_Domain = []\<rparr>,
     cf_ProbeTimeout = second, cf_ProbeCacheFor = second, cf_TrustedProxies = []\<rparr>"

definition demo_api :: api where
  "demo_api = \<lparr>sv_world = demo_world, sv_checker = NewChecker second second, sv_draws = 0\<rparr>"

lemma demo_main: "main_env demo_site demo_cfg = demo_env"
  by (simp add: main_env_def demo_site_def demo_cfg_def demo_env_def main_store_config_def main_cache_config_def main_limits_def)

lemma demo_ping: "ping_reads (si_rd demo_site)"
  by (simp add: ping_reads_def demo_site_def mem_redis_def)

lemma demo_api_world [simp]: "sv_world demo_api = demo_world"
  by (simp add: demo_api_def)

definition demo_post :: request where
  "demo_post = bare_request\<lparr>rq_method := ''POST'', rq_body := ''a'', rq_remote := ''1''\<rparr>"

lemma demo_lives: "\<exists>s'. lives demo_site demo_cfg demo_api [Served demo_post] s'"
  using lives.request [OF lives.idle] by (metis append_Nil prod_cases3)

theorem service_refines_system_witness:
  "\<exists>s' es. lives demo_site demo_cfg demo_api [Served demo_post] s' \<and> run demo_env demo_world es (sv_world s')
     \<and> length es \<le> 1"
proof -
  obtain s' where l: "lives demo_site demo_cfg demo_api [Served demo_post] s'" using demo_lives by blast
  from service_refines_system [OF l demo_ping] l show ?thesis by (auto simp: demo_main)
qed

subsection \<open>Who can change what\<close>

text \<open>A request to an administrative route with the right credentials.\<close>

definition administers :: "('a, 'p) site \<Rightarrow> 'p Config \<Rightarrow> request \<Rightarrow> bool" where
  "administers st cfg r \<longleftrightarrow> (\<exists>a. si_mux st (rq_method r) (rq_path r) = Admin a) \<and> authorised cfg r"

lemma permitted_reshapes: "permitted st cfg r e \<Longrightarrow> reshapes e \<Longrightarrow> administers st cfg r"
  by (auto simp: permitted_def reshapes_def administers_def split: route.splits admin_route.splits)

lemma caused_votes:
  "caused st cfg h e \<Longrightarrow> may_count e i j \<Longrightarrow> \<exists>r. h = Served r \<and> si_mux st (rq_method r) (rq_path r) = Vote_In i"
  by (cases e; cases h)
    (auto simp: caused_def permitted_def outside_event_def split: route.splits admin_route.splits)

lemma filter_le: "(\<And>x. x \<in> set xs \<Longrightarrow> P x \<Longrightarrow> Q x) \<Longrightarrow> length (filter P xs) \<le> length (filter Q xs)"
  by (induction xs) (auto simp: le_Suc_eq)

definition roomy_for :: "env \<Rightarrow> world \<Rightarrow> nat \<Rightarrow> bool" where
  "roomy_for ev w n \<longleftrightarrow> (\<forall>i j. w_votes ev w i j + int n \<le> max_int64)"

lemma roomy_for_run: "roomy_for ev w n \<Longrightarrow> length es \<le> n \<Longrightarrow> roomy ev w es"
  unfolding roomy_for_def roomy_def by (meson add_left_mono of_nat_mono order_trans)

text \<open>
  C20. Only administrators shape polls. As long as no request to an administrative route
  carries the administrator's token (its digest), whatever else is requested, however often the worker runs and whatever
  fails, no poll is created, opened, closed or edited.
\<close>

theorem polls_need_the_administrator:
  assumes "lives st cfg s hs s'" and "ping_reads (si_rd st)" and "world_inv (main_env st cfg) (sv_world s)"
    and "roomy_for (main_env st cfg) (sv_world s) (length hs)"
    and "\<And>r. Served r \<in> set hs \<Longrightarrow> \<not> administers st cfg r"
  shows "w_stored (sv_world s') = w_stored (sv_world s)"
proof -
  obtain es where es: "run (main_env st cfg) (sv_world s) es (sv_world s')" "explains st cfg hs es"
    using lives_run [OF assms(1,2)] by blast
  have "\<not> reshapes e" if mem: "e \<in> set es" for e
  proof
    assume e: "reshapes e"
    obtain h where "h \<in> set hs" "caused st cfg h e" using explains_member [OF es(2) mem] by blast
    with e assms(5) permitted_reshapes [of st cfg _ e] show False
      by (cases h) (auto simp: caused_def reshapes_def outside_event_def)
  qed
  with run_stored [OF es(1) assms(3)] roomy_for_run [OF assms(4) explains_length [OF es(2)]] show ?thesis by blast
qed

lemma demo_roomy_for: "roomy_for demo_env demo_world (Suc 0)"
  by (simp add: roomy_for_def demo_votes max_int64_def)

lemma demo_unauthorised: "\<not> administers demo_site demo_cfg demo_post"
  by (simp add: administers_def demo_site_def demo_post_def)

theorem polls_need_the_administrator_witness:
  "\<exists>s'. lives demo_site demo_cfg demo_api [Served demo_post] s' \<and> w_stored (sv_world s') = w_stored demo_world"
proof -
  obtain s' where l: "lives demo_site demo_cfg demo_api [Served demo_post] s'" using demo_lives by blast
  have "w_stored (sv_world s') = w_stored (sv_world demo_api)"
    by (rule polls_need_the_administrator [OF l demo_ping])
      (simp_all add: demo_main demo_inv demo_roomy_for demo_unauthorised)
  with l show ?thesis by auto
qed

text \<open>
  C21. Counts come from vote requests. The live count of an option grows at most by the
  number of requests that were routed to the vote endpoint of its poll.
\<close>

theorem votes_need_requests:
  assumes "lives st cfg s hs s'" and "ping_reads (si_rd st)" and "world_inv (main_env st cfg) (sv_world s)"
    and "roomy_for (main_env st cfg) (sv_world s) (length hs)"
  shows "w_votes (main_env st cfg) (sv_world s') i j \<le> w_votes (main_env st cfg) (sv_world s) i j
    + int (length (filter (\<lambda>h. \<exists>r. h = Served r \<and> si_mux st (rq_method r) (rq_path r) = Vote_In i) hs))"
proof -
  obtain es where es: "run (main_env st cfg) (sv_world s) es (sv_world s')" "explains st cfg hs es"
    using lives_run [OF assms(1,2)] by blast
  have "run_ok (main_env st cfg) es (sv_world s) (sv_world s')"
    by (rule run_oks [OF es(1) assms(3) roomy_for_run [OF assms(4) explains_length [OF es(2)]]])
  then have "w_votes (main_env st cfg) (sv_world s') i j
      \<le> w_votes (main_env st cfg) (sv_world s) i j + tally (\<lambda>e. may_count e i j) es"
    by (simp add: run_ok_def)
  also have "tally (\<lambda>e. may_count e i j) es \<le> int (length (filter (\<lambda>h. \<exists>e. caused st cfg h e \<and> may_count e i j) hs))"
    using es(2) unfolding explains_def by blast
  also have "\<dots> \<le> int (length (filter (\<lambda>h. \<exists>r. h = Served r \<and> si_mux st (rq_method r) (rq_path r) = Vote_In i) hs))"
    unfolding of_nat_le_iff by (rule filter_le) (use caused_votes in blast)
  finally show ?thesis by simp
qed

theorem votes_need_requests_witness:
  "\<exists>s'. lives demo_site demo_cfg demo_api [Served demo_post] s' \<and> w_votes demo_env (sv_world s') ''p'' ''a'' \<le> 1
     \<and> w_votes demo_env (sv_world s') ''q'' ''a'' \<le> 0"
proof -
  obtain s' where l: "lives demo_site demo_cfg demo_api [Served demo_post] s'" using demo_lives by blast
  have route: "si_mux demo_site (rq_method demo_post) (rq_path demo_post) = Vote_In ''p''"
    by (simp add: demo_site_def demo_post_def)
  have "world_inv (main_env demo_site demo_cfg) (sv_world demo_api)"
    "roomy_for (main_env demo_site demo_cfg) (sv_world demo_api) (length [Served demo_post])"
    by (simp_all add: demo_main demo_inv demo_roomy_for)
  note bound = votes_need_requests [OF l demo_ping this]
  from bound [of "''p''" "''a''"] bound [of "''q''" "''a''"] l route show ?thesis
    by (auto simp: demo_main demo_votes)
qed

end
