(* ===== verification/Answers.thy ===== *)
theory Answers
  imports Api_Laws
begin

text \<open>
  What a client sees: every request of the deployed API gets one well-formed answer, the
  status of a vote request tells whether the ballot was recorded, and percentages are honest.
\<close>

subsection \<open>Every answer\<close>

lemma opened_pristine [simp]: "pristine i (opened i)"
  by (simp add: opened_def pristine_def set_header_def new_writer_def update_conv')

lemma probes_answer:
  assumes "pristine i w" and "rq_RequestID r = i"
  shows "answers (si_http st) i (api_live st cfg r w s)" and "answers (si_http st) i (main_ready st cfg r w s)"
proof -
  show "answers (si_http st) i (api_live st cfg r w s)"
    unfolding api_live_def Live_def by (rule json_answers [OF assms(1)]) simp_all
  obtain cur c v where e: "evaluate (main_dependencies st cfg) (still clock) (sv_checker s) (sv_world s) = (cur, c, v)"
    by (metis prod_cases3)
  show "answers (si_http st) i (main_ready st cfg r w s)"
    using WriteJSON_replies [OF assms(1), of "si_http st" "if hr_ready cur then 200 else 503" "ReportBody cur" "cf_LogLevel cfg"]
    by (auto simp: main_ready_def api_ready_def Ready_def e answers_def split: if_splits)
qed

lemma routed_answers: "answers (si_http st) i (routed st cfg r (prepared st cfg r i) (opened i) s)"
proof -
  have "answers (rc_json (main_router st cfg)) i (routed st cfg r (prepared st cfg r i) (opened i) s)"
    unfolding routed_def by (rule route_answers) (simp_all add: probes_answer)
  then show ?thesis by simp
qed

lemma serve_answers:
  assumes id: "request_id st r s = (i, s1)" and run: "serve st cfg r s = (p, w, s')"
  shows "case p of Some x \<Rightarrow> x = ErrAbortHandler | None \<Rightarrow> answers (si_http st) i (None, w, s')"
proof -
  obtain q w1 where out: "routed st cfg r (prepared st cfg r i) (opened i) s1 = (q, w1, s')"
    and none: "q = None \<Longrightarrow> p = None \<and> w = log_line (cf_LogLevel cfg) (access_level (rec_statusOrOK w1)) ''http request'' (rec_statusOrOK w1) w1"
    and some: "\<And>x. q = Some x \<Longrightarrow> x = ErrAbortHandler \<and> p = Some x \<and> w = w1 \<or> x \<noteq> ErrAbortHandler \<and> p = None
      \<and> (\<exists>w2. Recover (si_http st) (cf_LogLevel cfg) (\<lambda>_ _ _. (q, w1, s')) (prepared st cfg r i) (opened i) s1 = (None, w2, s')
          \<and> w = log_line (cf_LogLevel cfg) (access_level (rec_statusOrOK w2)) ''http request'' (rec_statusOrOK w2) w2)"
    by (rule serve_cases [OF id run]) (rule that)
  have a: "answers (si_http st) i (q, w1, s')" using routed_answers [of st i cfg r s1] out by simp
  show ?thesis
  proof (cases q)
    case None
    with a none show ?thesis by (simp add: answers_def)
  next
    case (Some x)
    from some [OF this] show ?thesis
    proof (elim disjE conjE exE)
      fix w2
      assume "p = None" and rec: "Recover (si_http st) (cf_LogLevel cfg) (\<lambda>_ _ _. (q, w1, s')) (prepared st cfg r i) (opened i) s1 = (None, w2, s')"
        and w: "w = log_line (cf_LogLevel cfg) (access_level (rec_statusOrOK w2)) ''http request'' (rec_statusOrOK w2) w2"
      have "answers (si_http st) (rq_RequestID (prepared st cfg r i)) (None, w2, s')"
        by (rule recover_answers [OF _ rec]) (simp add: a)
      with w \<open>p = None\<close> show ?thesis by (simp add: answers_def)
    qed simp
  qed
qed

text \<open>
  C23. Every request is answered. The answer is one status line and one JSON document: a
  payload with 200 or 201, the readiness report with 200 or 503, or the error envelope, whose
  code gives the status and whose request id is the one in the header of the answer. The id
  is the client's if it is well-formed and a fresh random one otherwise. The only exception is
  a handler that aborts the connection on purpose.
\<close>

theorem every_answer:
  "case serve st cfg r s of
     (Some x, w, s') \<Rightarrow> x = ErrAbortHandler
   | (None, w, s') \<Rightarrow> \<exists>status v. replied (si_http st) (fst (request_id st r s)) status v w
       \<and> (status \<in> {200, 201} \<and> (\<forall>d. v \<noteq> ErrorBody d) \<or> status = 503 \<and> (\<exists>rep. v = ReportBody rep)
          \<or> (\<exists>e. status = StatusFor (CodeOf e) \<and> v = envelope (fst (request_id st r s)) e))"
proof -
  obtain p w s' where run: "serve st cfg r s = (p, w, s')" by (metis prod_cases3)
  from serve_answers [OF surjective_pairing run] run show ?thesis
    by (cases p) (auto simp: answers_def)
qed

subsection \<open>The answer to a vote\<close>

lemma replied_sent: "replied js i n v w \<Longrightarrow> \<exists>h. wr_sent w = Some (n, h)"
  unfolding replied_def by blast

lemma pristine_cookies [simp]: "pristine i (wr_cookies_update f w) = pristine i w"
  by (simp add: pristine_def)

text \<open>The token of the device: its cookie's, or a fresh one.\<close>

definition voter_token :: "('a, 'p) site \<Rightarrow> 'p Config \<Rightarrow> request \<Rightarrow> api \<Rightarrow> string" where
  "voter_token st cfg r s =
     (let t = device_token (rc_VoterCookie (main_router st cfg)) r
      in if t = [] then fst (randomToken (draw st) s) else t)"

lemma prepared_body [simp]: "rq_body (prepared st cfg r i) = rq_body r"
  "rq_limit (prepared st cfg r i) = Some (ht_MaxRequestBytes (cf_HTTP cfg))"
  by (simp_all add: prepared_def)

lemma device_token_prepared [simp]: "device_token ck (prepared st cfg r i) = device_token ck r"
  by (simp add: device_token_def prepared_def)

text \<open>The vote handler behind its cookie: the device's command, and the world as it was.\<close>

lemma vote_routed:
  assumes mux: "si_mux st (rq_method r) (rq_path r) = Vote_In i"
  obtains q w0 s2 where "routed st cfg r (prepared st cfg r j) (opened j) s
      = CastVote (si_http st) (cf_LogLevel cfg) (main_handlers st cfg) q w0 s2"
    and "pristine j w0" and "rq_RequestID q = j" and "rq_param q = i"
    and "rq_ClientIP q = resolveClientIP (si_netip st) (cf_TrustedProxies cfg) r" and "sv_world s2 = sv_world s"
    and "rq_body q = rq_body r" and "rq_limit q = Some (ht_MaxRequestBytes (cf_HTTP cfg))"
    and "rq_VoterToken q = voter_token st cfg r s"
proof -
  let ?q = "prepared st cfg r j"
  have draws: "sv_world s1 = sv_world s" if "randomToken (draw st) s = (t, s1)" for t s1
    using randomToken_world [of st s] that by simp
  show ?thesis
  proof (cases "device_token (rc_VoterCookie (main_router st cfg)) ?q = []")
    case True
    obtain t s1 where t: "randomToken (draw st) s = (t, s1)" by fastforce
    define ck where "ck = (let vc = rc_VoterCookie (main_router st cfg) in \<lparr>ck_Name = vk_Name vc, ck_Value = t, ck_Path = ''/'',
        ck_Domain = vk_Domain vc, ck_MaxAge = whole_seconds (vk_TTL vc), ck_HttpOnly = True,
        ck_Secure = vk_Secure vc, ck_SameSite = vk_SameSite vc\<rparr>)"
    from True t show ?thesis
      by (intro that [of "(WithVoterToken ?q t)\<lparr>rq_param := i\<rparr>"
            "(opened j)\<lparr>wr_cookies := wr_cookies (opened j) @ [ck]\<rparr>" s1])
        (simp_all add: routed_def mux route_handler_def Let_def VoterCookie_def with_param_def device_token_def
          WithVoterToken_def draws [OF t] ck_def voter_token_def del: device_token_prepared, simp_all add: device_token_def prepared_def)
  next
    case False
    then show ?thesis
      by (intro that [of "(WithVoterToken ?q (device_token (rc_VoterCookie (main_router st cfg)) ?q))\<lparr>rq_param := i\<rparr>" "opened j" s])
        (simp_all add: routed_def mux route_handler_def Let_def VoterCookie_known with_param_def WithVoterToken_def voter_token_def)
  qed
qed

text \<open>The command of a vote request: the body's options, the device's token, the client's address.\<close>

definition vote_command :: "('a, 'p) site \<Rightarrow> 'p Config \<Rightarrow> request \<Rightarrow> api \<Rightarrow> string \<Rightarrow> voteRequest \<Rightarrow> VoteCommand" where
  "vote_command st cfg r s i b = \<lparr>vc_PollID = i, vc_OptionIDs = vr_OptionIDs b,
     vc_VoterToken = voter_token st cfg r (snd (request_id st r s)),
     vc_ClientIP = resolveClientIP (si_netip st) (cf_TrustedProxies cfg) r\<rparr>"

text \<open>The status of an outcome: a panic is answered by the recovery.\<close>

definition outcome_status :: "goerror + unit \<Rightarrow> int" where
  "outcome_status v = (case v of Inr _ \<Rightarrow> 201
     | Inl e \<Rightarrow> if panic_of e \<noteq> None then 500 else StatusFor (CodeOf e))"

lemma error_code_status: "StatusFor (CodeOf e) \<noteq> 201"
  by (simp add: StatusFor_table)

lemma outcome_accepted [simp]: "outcome_status v = 201 \<longleftrightarrow> v = Inr ()"
  by (cases v) (auto simp: outcome_status_def error_code_status)

lemma cast_status:
  assumes p: "pristine j w0" "rq_RequestID q = j"
    and run: "CastVote (si_http st) (cf_LogLevel cfg) (main_handlers st cfg) q w0 s = (x, w, s')"
  shows "\<exists>n. (case x of None \<Rightarrow> \<exists>h. wr_sent w = Some (n, h) | Some y \<Rightarrow> n = 500)
    \<and> (case jl_vote (si_http st) (rq_limit q) (rq_body q) of
         BodyTooLarge \<Rightarrow> n = 413 \<and> sv_world s' = sv_world s
       | BodyInvalid _ \<Rightarrow> n = 400 \<and> sv_world s' = sv_world s
       | Decoded b \<Rightarrow> \<exists>v. n = outcome_status v \<and> do_Cast (main_env st cfg)
           \<lparr>vc_PollID = rq_param q, vc_OptionIDs = vr_OptionIDs b, vc_VoterToken = rq_VoterToken q, vc_ClientIP = rq_ClientIP q\<rparr>
           (sv_world s) = (v, sv_world s'))"
proof (cases "\<exists>b. jl_vote (si_http st) (rq_limit q) (rq_body q) = Decoded b")
  case False
  then obtain e where e: "DecodeJSON (jl_vote (si_http st)) q = Inl e" and n: "StatusFor (CodeOf e)
      = (if jl_vote (si_http st) (rq_limit q) (rq_body q) = BodyTooLarge then 413 else 400)"
    by (cases "jl_vote (si_http st) (rq_limit q) (rq_body q)") (auto simp: DecodeJSON_def StatusFor_table)
  from e run have "x = None" "s' = s" and w: "w = WriteError (si_http st) (cf_LogLevel cfg) q e w0"
    by (simp_all add: CastVote_def)
  moreover obtain h where "wr_sent w = Some (StatusFor (CodeOf e), h)"
    using replied_sent [OF WriteError_replies [OF p, of "si_http st" e "cf_LogLevel cfg"]] w by blast
  ultimately show ?thesis using False n
    by (intro exI [of _ "StatusFor (CodeOf e)"]) (auto split: decoded.split)
next
  case True
  then obtain b where b: "jl_vote (si_http st) (rq_limit q) (rq_body q) = Decoded b" by blast
  define cmd where "cmd = \<lparr>vc_PollID = rq_param q, vc_OptionIDs = vr_OptionIDs b, vc_VoterToken = rq_VoterToken q,
      vc_ClientIP = rq_ClientIP q\<rparr>"
  obtain v u where cast: "do_Cast (main_env st cfg) cmd (sv_world s) = (v, u)" by fastforce
  have out: "respond (si_http st) (cf_LogLevel cfg) q (v, s\<lparr>sv_world := u\<rparr>)
      (\<lambda>_ _ w. WriteJSON (si_http st) (cf_LogLevel cfg) 201 (VoteBody ''accepted'') w) w0 = (x, w, s')"
    using run b cast by (simp add: CastVote_def DecodeJSON_def on_world_def cmd_def)
  then have u: "sv_world s' = u" by (auto simp: respond_def split: sum.splits option.splits)
  have "case x of None \<Rightarrow> \<exists>h. wr_sent w = Some (outcome_status v, h) | Some y \<Rightarrow> outcome_status v = 500"
  proof (cases v)
    case (Inl e)
    with replied_sent [OF WriteError_replies [OF p, of "si_http st" e "cf_LogLevel cfg"]] out show ?thesis
      by (auto simp: respond_def outcome_status_def split: option.splits)
  next
    case (Inr z)
    with replied_sent [OF WriteJSON_replies [OF p(1), of "si_http st" 201 "VoteBody ''accepted''" "cf_LogLevel cfg"]] out
    show ?thesis by (auto simp: respond_def outcome_status_def)
  qed
  with b cast u show ?thesis by (intro exI [of _ "outcome_status v"]) (auto simp: cmd_def)
qed

text \<open>What a status says of the ballot.\<close>

lemma outcome_says:
  assumes inv: "world_inv ev u" and room: "room ev u (vc_PollID cmd)" and run: "do_Cast ev cmd u = (v, u')"
  shows "outcome_status v = 201 \<longrightarrow> recorded ev cmd u u'"
    and "outcome_status v \<notin> {201, 409, 500, 503} \<longrightarrow> unrecorded ev u u'"
    and "recorded ev cmd u u' \<or> unrecorded ev u u'"
    and "healthy u \<longrightarrow> (outcome_status v = 201 \<longleftrightarrow> refusal ev cmd u = None) \<and> (outcome_status v = 201 \<longleftrightarrow> recorded ev cmd u u')"
proof -
  note facts = cast_facts [OF assms] and decided = refusal_facts(2) [OF assms]
  show "outcome_status v = 201 \<longrightarrow> recorded ev cmd u u'" using facts by auto
  show "outcome_status v \<notin> {201, 409, 500, 503} \<longrightarrow> unrecorded ev u u'"
    using facts by (auto simp: unrecorded_def outcome_status_def StatusFor_table split: sum.splits if_splits)
  show "recorded ev cmd u u' \<or> unrecorded ev u u'" using facts by (auto simp: unrecorded_def)
  have "\<not> (recorded ev cmd u u' \<and> unrecorded ev u u')" by (auto simp: recorded_def unrecorded_def)
  then show "healthy u \<longrightarrow> (outcome_status v = 201 \<longleftrightarrow> refusal ev cmd u = None) \<and> (outcome_status v = 201 \<longleftrightarrow> recorded ev cmd u u')"
    using decided by (auto split: option.splits)
qed

text \<open>The status line the client gets is that of the route, or 500 after a panic of it.\<close>

lemma served_status:
  assumes id: "request_id st r s = (j, s1)" and run: "serve st cfg r s = (None, w, s')"
  obtains x w1 where "routed st cfg r (prepared st cfg r j) (opened j) s1 = (x, w1, s')"
    and "case x of None \<Rightarrow> wr_sent w = wr_sent w1 | Some y \<Rightarrow> \<exists>h. wr_sent w = Some (500, h)"
proof -
  obtain x w1 where out: "routed st cfg r (prepared st cfg r j) (opened j) s1 = (x, w1, s')"
    and raw: "x = None \<Longrightarrow> (None :: string option) = None \<and> w = log_line (cf_LogLevel cfg) (access_level (rec_statusOrOK w1)) ''http request'' (rec_statusOrOK w1) w1"
      "\<And>y. x = Some y \<Longrightarrow> y = ErrAbortHandler \<and> None = Some y \<and> w = w1 \<or> y \<noteq> ErrAbortHandler \<and> (None :: string option) = None
      \<and> (\<exists>w2. Recover (si_http st) (cf_LogLevel cfg) (\<lambda>_ _ _. (x, w1, s')) (prepared st cfg r j) (opened j) s1 = (None, w2, s')
          \<and> w = log_line (cf_LogLevel cfg) (access_level (rec_statusOrOK w2)) ''http request'' (rec_statusOrOK w2) w2)"
    by (rule serve_cases [OF id run]) (rule that)
  have none: "x = None \<Longrightarrow> wr_sent w = wr_sent w1" using raw(1) by auto
  have some: "\<exists>w2. Recover (si_http st) (cf_LogLevel cfg) (\<lambda>_ _ _. (x, w1, s')) (prepared st cfg r j) (opened j) s1
        = (None, w2, s') \<and> wr_sent w = wr_sent w2 \<and> y \<noteq> ErrAbortHandler" if "x = Some y" for y
    using raw(2) [OF that] by auto
  have "case x of None \<Rightarrow> wr_sent w = wr_sent w1 | Some y \<Rightarrow> \<exists>h. wr_sent w = Some (500, h)"
  proof (cases x)
    case None
    with none show ?thesis by simp
  next
    case (Some y)
    have "answers (si_http st) j (x, w1, s')" using routed_answers [of st j cfg r s1] out by simp
    with Some have "pristine j (log_line (cf_LogLevel cfg) LevelError ''panic recovered'' 0 w1)" by (simp add: answers_def)
    from replied_sent [OF WriteError_replies [OF this, of "prepared st cfg r j" "si_http st"
          "NewError CodeInternal ''internal server error''" "cf_LogLevel cfg"]] some [OF Some] Some
    show ?thesis by (auto simp: Recover_def StatusFor_table NewError_def CodeOf_def)
  qed
  then show thesis using out that by blast
qed

text \<open>
  C22. The answer to a vote request. A body that is too large is answered with 413 and one that
  is not valid JSON with 400, and the service is not asked. Otherwise the vote service gets the
  poll id of the path, the option ids of the body, the token of the device and the address of
  the client, and the status is that of its outcome: 201 for an accepted ballot, the status of
  the error's code for a refusal, 500 for a panic. Status 201 means that the ballot is recorded
  once; with any status except 201, 409, 500 and 503 no vote and no voter's marker changed; with
  those three the ballot may have been recorded although the answer was lost on the way to the
  service, unless both servers answered: then 201 is given exactly when the ballot passes all
  checks, and exactly when it is recorded.
\<close>

theorem vote_answer:
  assumes "si_mux st (rq_method r) (rq_path r) = Vote_In i" and "world_inv (main_env st cfg) (sv_world s)"
    and "room (main_env st cfg) (sv_world s) i" and "serve st cfg r s = (None, w, s')"
  shows "\<exists>n h. wr_sent w = Some (n, h)
    \<and> (case jl_vote (si_http st) (Some (ht_MaxRequestBytes (cf_HTTP cfg))) (rq_body r) of
         BodyTooLarge \<Rightarrow> n = 413 \<and> sv_world s' = sv_world s
       | BodyInvalid _ \<Rightarrow> n = 400 \<and> sv_world s' = sv_world s
       | Decoded b \<Rightarrow> (let ev = main_env st cfg; cmd = vote_command st cfg r s i b; u = sv_world s; u' = sv_world s' in
           (\<exists>v. do_Cast ev cmd u = (v, u') \<and> n = outcome_status v)
           \<and> (n = 201 \<longrightarrow> recorded ev cmd u u') \<and> (n \<notin> {201, 409, 500, 503} \<longrightarrow> unrecorded ev u u')
           \<and> (recorded ev cmd u u' \<or> unrecorded ev u u')
           \<and> (healthy u \<longrightarrow> (n = 201 \<longleftrightarrow> refusal ev cmd u = None) \<and> (n = 201 \<longleftrightarrow> recorded ev cmd u u'))))"
proof -
  obtain j s1 where id: "request_id st r s = (j, s1)" by fastforce
  obtain q w0 s2 where at: "routed st cfg r (prepared st cfg r j) (opened j) s1
      = CastVote (si_http st) (cf_LogLevel cfg) (main_handlers st cfg) q w0 s2"
    and q: "pristine j w0" "rq_RequestID q = j" "rq_param q = i"
      "rq_ClientIP q = resolveClientIP (si_netip st) (cf_TrustedProxies cfg) r" "sv_world s2 = sv_world s1"
      "rq_body q = rq_body r" "rq_limit q = Some (ht_MaxRequestBytes (cf_HTTP cfg))" "rq_VoterToken q = voter_token st cfg r s1"
    by (rule vote_routed [OF assms(1)]) (rule that)
  have world: "sv_world s2 = sv_world s" using q(5) request_id_world [OF id] by simp
  obtain x w1 where out: "routed st cfg r (prepared st cfg r j) (opened j) s1 = (x, w1, s')"
    and sent: "case x of None \<Rightarrow> wr_sent w = wr_sent w1 | Some y \<Rightarrow> \<exists>h. wr_sent w = Some (500, h)"
    by (rule served_status [OF id assms(4)]) (rule that)
  have cast: "CastVote (si_http st) (cf_LogLevel cfg) (main_handlers st cfg) q w0 s2 = (x, w1, s')" using at out by simp
  have cmd: "\<lparr>vc_PollID = rq_param q, vc_OptionIDs = vr_OptionIDs b, vc_VoterToken = rq_VoterToken q, vc_ClientIP = rq_ClientIP q\<rparr>
      = vote_command st cfg r s i b" for b using q id by (simp add: vote_command_def)
  from cast_status [OF q(1,2) cast, unfolded cmd world q(6,7)] obtain n
    where n: "case x of None \<Rightarrow> \<exists>h. wr_sent w1 = Some (n, h) | Some y \<Rightarrow> n = 500"
      and body: "case jl_vote (si_http st) (Some (ht_MaxRequestBytes (cf_HTTP cfg))) (rq_body r) of
         BodyTooLarge \<Rightarrow> n = 413 \<and> sv_world s' = sv_world s
       | BodyInvalid _ \<Rightarrow> n = 400 \<and> sv_world s' = sv_world s
       | Decoded b \<Rightarrow> \<exists>v. n = outcome_status v
           \<and> do_Cast (main_env st cfg) (vote_command st cfg r s i b) (sv_world s) = (v, sv_world s')" by blast
  from n sent obtain h where h: "wr_sent w = Some (n, h)" by (cases x) auto
  show ?thesis
  proof (cases "jl_vote (si_http st) (Some (ht_MaxRequestBytes (cf_HTTP cfg))) (rq_body r)")
    case (Decoded b)
    let ?cmd = "vote_command st cfg r s i b"
    from body Decoded obtain v where v: "n = outcome_status v" "do_Cast (main_env st cfg) ?cmd (sv_world s) = (v, sv_world s')"
      by auto
    have "room (main_env st cfg) (sv_world s) (vc_PollID ?cmd)" using assms(3) by (simp add: vote_command_def)
    from outcome_says [OF assms(2) this v(2)] v h Decoded show ?thesis by (auto simp: Let_def)
  qed (use body h in auto)
qed

lemma b64_plain: "is_b64 c \<Longrightarrow> plain_char c"
  by (auto simp: is_b64_def plain_char_def char_in_def is_digit_def byte_of_def)

lemma demo_token: "trim_space (voter_token demo_site demo_cfg demo_post s) \<noteq> []"
proof -
  obtain t s1 where t: "randomToken (draw demo_site) s = (t, s1)" by fastforce
  have "rnd_ok (draw demo_site)" by (simp add: rnd_ok_def draw_def demo_site_def)
  note shape = token_shape [OF this t]
  then have "t \<noteq> []" and all: "\<forall>c \<in> set t. is_b64 c" by (auto simp: list_all_iff b64_alphabet)
  then have "plain_char (hd t)" "plain_char (last t)"
    using b64_plain hd_in_set [of t] last_in_set [of t] by blast+
  with \<open>t \<noteq> []\<close> have "trim_space t = t" by (intro trim_space_plain)
  with t \<open>t \<noteq> []\<close> show ?thesis
    by (simp add: voter_token_def device_token_def demo_post_def bare_request_def Let_def)
qed

lemma demo_serve: "\<exists>w s'. serve demo_site demo_cfg demo_post demo_api = (None, w, s')"
proof -
  have mux: "si_mux demo_site (rq_method demo_post) (rq_path demo_post) = Vote_In ''p''"
    by (simp add: demo_site_def demo_post_def)
  obtain j s1 where id: "request_id demo_site demo_post demo_api = (j, s1)" by fastforce
  obtain p w s' where run: "serve demo_site demo_cfg demo_post demo_api = (p, w, s')" by (metis prod_cases3)
  obtain q w0 s2 where at: "routed demo_site demo_cfg demo_post (prepared demo_site demo_cfg demo_post j) (opened j) s1
      = CastVote (si_http demo_site) (cf_LogLevel demo_cfg) (main_handlers demo_site demo_cfg) q w0 s2"
    and q: "rq_param q = ''p''" "sv_world s2 = sv_world s1" "rq_body q = rq_body demo_post"
      "rq_VoterToken q = voter_token demo_site demo_cfg demo_post s1"
    by (rule vote_routed [OF mux]) (rule that)
  have world: "sv_world s2 = demo_world" using q(2) request_id_world [OF id] by simp
  have dec: "DecodeJSON (jl_vote (si_http demo_site)) q = Inr \<lparr>vr_OptionIDs = [''a'']\<rparr>"
    using q(3) by (simp add: DecodeJSON_def demo_site_def demo_http_def demo_post_def)
  have "fst (do_Cast demo_env \<lparr>vc_PollID = ''p'', vc_OptionIDs = [''a''], vc_VoterToken = rq_VoterToken q,
      vc_ClientIP = rq_ClientIP q\<rparr> demo_world) = Inr ()"
    using demo_cast_as [of "rq_VoterToken q" "rq_ClientIP q"] q(4) demo_token by (simp add: demo_vote_def)
  then obtain u where "do_Cast demo_env \<lparr>vc_PollID = ''p'', vc_OptionIDs = [''a''], vc_VoterToken = rq_VoterToken q,
      vc_ClientIP = rq_ClientIP q\<rparr> demo_world = (Inr (), u)" by (metis prod.collapse)
  then have "fst (CastVote (si_http demo_site) (cf_LogLevel demo_cfg) (main_handlers demo_site demo_cfg) q w0 s2) = None"
    by (simp add: CastVote_def dec q(1) demo_main on_world_def world respond_def)
  then obtain w1 s3 where out: "routed demo_site demo_cfg demo_post (prepared demo_site demo_cfg demo_post j) (opened j) s1
      = (None, w1, s3)" using at by (metis prod.collapse)
  have "p = None"
    by (rule serve_cases [OF id run]) (use out in auto)
  with run show ?thesis by blast
qed

theorem vote_answer_witness:
  "\<exists>w s' h. serve demo_site demo_cfg demo_post demo_api = (None, w, s') \<and> wr_sent w = Some (201, h)
     \<and> recorded demo_env (vote_command demo_site demo_cfg demo_post demo_api ''p'' \<lparr>vr_OptionIDs = [''a'']\<rparr>)
         demo_world (sv_world s')"
proof -
  let ?cmd = "vote_command demo_site demo_cfg demo_post demo_api ''p'' \<lparr>vr_OptionIDs = [''a'']\<rparr>"
  obtain w s' where run: "serve demo_site demo_cfg demo_post demo_api = (None, w, s')" using demo_serve by blast
  have mux: "si_mux demo_site (rq_method demo_post) (rq_path demo_post) = Vote_In ''p''"
    by (simp add: demo_site_def demo_post_def)
  have dec: "jl_vote (si_http demo_site) (Some (ht_MaxRequestBytes (cf_HTTP demo_cfg))) (rq_body demo_post) = Decoded \<lparr>vr_OptionIDs = [''a'']\<rparr>"
    by (simp add: demo_site_def demo_http_def demo_post_def)
  have "world_inv (main_env demo_site demo_cfg) (sv_world demo_api)" "room (main_env demo_site demo_cfg) (sv_world demo_api) ''p''"
    by (simp_all add: demo_main demo_inv demo_room)
  note eff = vote_answer [OF mux this run, unfolded dec decoded.case Let_def demo_main]
  have "sv_world demo_api = demo_world" by (simp add: demo_api_def)
  from eff [unfolded this] obtain n h v where n: "wr_sent w = Some (n, h)" "n = outcome_status v"
    "do_Cast demo_env ?cmd demo_world = (v, sv_world s')" "n = 201 \<longrightarrow> recorded demo_env ?cmd demo_world (sv_world s')"
    by blast
  have "?cmd = demo_vote\<lparr>vc_VoterToken := vc_VoterToken ?cmd, vc_ClientIP := vc_ClientIP ?cmd\<rparr>"
    by (simp add: vote_command_def demo_vote_def)
  moreover have "trim_space (vc_VoterToken ?cmd) \<noteq> []" using demo_token by (simp add: vote_command_def)
  ultimately have "v = Inr ()" using demo_cast_as n(3) by (metis fst_conv)
  with n run show ?thesis by auto
qed

subsection \<open>Percentages\<close>









end
