(* ===== verification/Startup.thy ===== *)
theory Startup
  imports Api_Laws
begin

text \<open>
  The life of a process: connecting to PostgreSQL and Redis (\<open>internal/clients\<close>) and the
  \<open>run\<close> functions of both binaries (\<open>cmd/api/main.go\<close>, \<open>cmd/worker/main.go\<close>), which load
  the configuration, open both clients, do their work and close what they opened in the
  reverse order. The drivers are parameters; what they are relied on for is that they say
  truthfully what they opened and closed. The lemmas show that no path leaks a client.
\<close>

subsection \<open>Clients (clients.go)\<close>

text \<open>The settings of a pool that the program overrides, and the rest of the parsed DSN.\<close>

record 'r PoolConfig =
  pc_MaxConns :: int
  pc_MinConns :: int
  pc_MaxConnLifetime :: duration
  pc_MaxConnIdleTime :: duration
  pc_ConnectTimeout :: duration
  pc_rest :: 'r

record UniversalOptions =
  uo_Addrs :: "string list"
  uo_Username :: string
  uo_Password :: string
  uo_DB :: int
  uo_MasterName :: string
  uo_PoolSize :: int
  uo_MinIdleConns :: int
  uo_DialTimeout :: duration
  uo_ReadTimeout :: duration
  uo_WriteTimeout :: duration
  uo_MaxRetries :: int

text \<open>The drivers, on a process state; a ping carries its timeout.\<close>

record ('s, 'r, 'pool, 'client) drivers =
  dv_ParseConfig :: "string \<Rightarrow> goerror + 'r PoolConfig"
  dv_NewWithConfig :: "'r PoolConfig \<Rightarrow> ('s, 'pool) action"
  dv_PoolPing :: "'pool \<Rightarrow> duration \<Rightarrow> ('s, unit) action"
  dv_PoolClose :: "'pool \<Rightarrow> 's \<Rightarrow> 's"
  dv_NewUniversalClient :: "UniversalOptions \<Rightarrow> 's \<Rightarrow> 'client \<times> 's"
  dv_ClientPing :: "'client \<Rightarrow> duration \<Rightarrow> ('s, unit) action"
  dv_ClientClose :: "'client \<Rightarrow> ('s, unit) action"

definition NewPostgresPool ::
  "('s, 'r, 'pool, 'client) drivers \<Rightarrow> Postgres \<Rightarrow> ('s, 'pool) action"
where
  "NewPostgresPool dv cfg s =
     (case dv_ParseConfig dv (po_DSN cfg) of
        Inl e \<Rightarrow> (Inl (Wrapped ''parse DATABASE_URL'' e), s)
      | Inr parsed \<Rightarrow>
          go_try (dv_NewWithConfig dv (parsed\<lparr>pc_MaxConns := po_MaxConns cfg, pc_MinConns := po_MinConns cfg,
              pc_MaxConnLifetime := po_MaxConnLifetime cfg, pc_MaxConnIdleTime := po_MaxConnIdleTime cfg,
              pc_ConnectTimeout := po_ConnectTimeout cfg\<rparr>) s)
            (Wrapped ''create postgres pool'')
            (\<lambda>pool s. case dv_PoolPing dv pool (po_ConnectTimeout cfg) s of
                (Inl e, s) \<Rightarrow> (Inl (Wrapped ''reach postgres'' e), dv_PoolClose dv pool s)
              | (Inr _, s) \<Rightarrow> (Inr pool, s)))"

definition NewRedisClient ::
  "('s, 'r, 'pool, 'client) drivers \<Rightarrow> RedisSettings \<Rightarrow> ('s, 'client) action"
where
  "NewRedisClient dv cfg s =
     (case dv_NewUniversalClient dv \<lparr>uo_Addrs = rd_Addresses cfg, uo_Username = rd_Username cfg,
          uo_Password = rd_Password cfg, uo_DB = rd_DB cfg, uo_MasterName = rd_MasterName cfg,
          uo_PoolSize = rd_PoolSize cfg, uo_MinIdleConns = rd_MinIdleConns cfg, uo_DialTimeout = rd_DialTimeout cfg,
          uo_ReadTimeout = rd_ReadTimeout cfg, uo_WriteTimeout = rd_WriteTimeout cfg,
          uo_MaxRetries = rd_MaxRetries cfg\<rparr> s of
        (client, s) \<Rightarrow>
          (case dv_ClientPing dv client (rd_DialTimeout cfg) s of
             (Inl e, s) \<Rightarrow> (Inl (Wrapped ''reach redis'' e), snd (dv_ClientClose dv client s))
           | (Inr _, s) \<Rightarrow> (Inr client, s)))"

subsection \<open>run\<close>

text \<open>The common frame of both \<open>run\<close> functions, around what the binary does in between.\<close>

definition run_process ::
  "('s, 'r, 'pool, 'client) drivers \<Rightarrow> goerror + 'p Config \<Rightarrow> ('p Config \<Rightarrow> ('s, unit) action) \<Rightarrow> ('s, unit) action"
where
  "run_process dv loaded body s =
     (case loaded of
        Inl e \<Rightarrow> (Inl e, s)
      | Inr cfg \<Rightarrow>
          go_try (NewPostgresPool dv (cf_Postgres cfg) s) id (\<lambda>pool s.
            case go_try (NewRedisClient dv (cf_Redis cfg) s) id (\<lambda>client s.
                case body cfg s of (r, s) \<Rightarrow> (r, snd (dv_ClientClose dv client s))) of
              (r, s) \<Rightarrow> (r, dv_PoolClose dv pool s)))"

text \<open>The exit status of \<open>main\<close>.\<close>

definition exit_status :: "goerror + unit \<Rightarrow> int" where
  "exit_status r = (case r of Inl _ \<Rightarrow> 1 | Inr _ \<Rightarrow> 0)"

text \<open>
  The process state is the data of the service and the state of the drivers. The worker runs
  its job once.
\<close>

definition worker_body :: "('a, 'p) site \<Rightarrow> 'p Config \<Rightarrow> (world \<times> 'o, unit) action" where
  "worker_body st cfg = (\<lambda>(w, c). case work st cfg w of (r, w) \<Rightarrow> (r, (w, c)))"

definition worker_main ::
  "(world \<times> 'o, 'r, 'pool, 'client) drivers \<Rightarrow> ('a, 'p) site \<Rightarrow> 'p config_lib \<Rightarrow> world \<times> 'o \<Rightarrow> int \<times> world \<times> 'o"
where
  "worker_main dv st lib s =
     (case run_process dv (Load lib) (worker_body st) s of
        (r, s) \<Rightarrow> (exit_status r, s))"

text \<open>
  The API waits for its server: \<open>Some\<close> the result of \<open>ListenAndServe\<close> (where a closed server
  is no error), or \<open>None\<close> for the signal, after which it shuts the server down and ends well
  even if that is incomplete.
\<close>

record 's server =
  se_wait :: "'s \<Rightarrow> (goerror + unit) option \<times> 's"
  se_Shutdown :: "duration \<Rightarrow> ('s, unit) action"

definition api_body :: "('p Config \<Rightarrow> 's server) \<Rightarrow> 'p Config \<Rightarrow> ('s, unit) action" where
  "api_body mk cfg s =
     (case se_wait (mk cfg) s of
        (Some r, s) \<Rightarrow> (r, s)
      | (None, s) \<Rightarrow> (Inr (), snd (se_Shutdown (mk cfg) (ht_ShutdownTimeout (cf_HTTP cfg)) s)))"

definition api_main ::
  "('s, 'r, 'pool, 'client) drivers \<Rightarrow> ('p Config \<Rightarrow> 's server) \<Rightarrow> 'p config_lib \<Rightarrow> 's \<Rightarrow> int \<times> 's"
where
  "api_main dv mk lib s = (case run_process dv (Load lib) (api_body mk) s of (r, s) \<Rightarrow> (exit_status r, s))"

subsection \<open>Nothing leaks\<close>

datatype ('pool, 'client) handle = APool 'pool | AClient 'client

text \<open>The drivers keep the books: \<open>held s\<close> are the handles open in \<open>s\<close>.\<close>

definition drivers_ok ::
  "('s, 'r, 'pool, 'client) drivers \<Rightarrow> ('s \<Rightarrow> ('pool, 'client) handle set) \<Rightarrow> bool"
where
  "drivers_ok dv held \<longleftrightarrow>
     (\<forall>c s p s'. dv_NewWithConfig dv c s = (Inr p, s') \<longrightarrow> APool p \<notin> held s \<and> held s' = insert (APool p) (held s))
     \<and> (\<forall>c s e s'. dv_NewWithConfig dv c s = (Inl e, s') \<longrightarrow> held s' = held s)
     \<and> (\<forall>c s h s'. dv_NewUniversalClient dv c s = (h, s') \<longrightarrow> AClient h \<notin> held s \<and> held s' = insert (AClient h) (held s))
     \<and> (\<forall>p d s. held (snd (dv_PoolPing dv p d s)) = held s) \<and> (\<forall>h d s. held (snd (dv_ClientPing dv h d s)) = held s)
     \<and> (\<forall>p s. held (dv_PoolClose dv p s) = held s - {APool p})
     \<and> (\<forall>h s. held (snd (dv_ClientClose dv h s)) = held s - {AClient h})"

lemma drivers_okD:
  assumes "drivers_ok dv held"
  shows "dv_NewWithConfig dv c s = (Inr p, s') \<Longrightarrow> APool p \<notin> held s \<and> held s' = insert (APool p) (held s)"
    and "dv_NewWithConfig dv c s = (Inl e, s') \<Longrightarrow> held s' = held s"
    and "dv_NewUniversalClient dv u s = (h, s') \<Longrightarrow> AClient h \<notin> held s \<and> held s' = insert (AClient h) (held s)"
    and "dv_PoolPing dv p d s = (x, s') \<Longrightarrow> held s' = held s" and "dv_ClientPing dv h d s = (x, s') \<Longrightarrow> held s' = held s"
    and "held (dv_PoolClose dv p s) = held s - {APool p}"
    and "held (snd (dv_ClientClose dv h s)) = held s - {AClient h}"
  using assms unfolding drivers_ok_def by (simp_all, metis snd_conv, metis snd_conv)

lemma pool_held:
  assumes ok: "drivers_ok dv held" and run: "NewPostgresPool dv cfg s = (r, s')"
  shows "case r of Inl e \<Rightarrow> held s' = held s | Inr p \<Rightarrow> APool p \<notin> held s \<and> held s' = insert (APool p) (held s)"
proof (cases "dv_ParseConfig dv (po_DSN cfg)")
  case (Inr parsed)
  define c where "c = parsed\<lparr>pc_MaxConns := po_MaxConns cfg, pc_MinConns := po_MinConns cfg,
      pc_MaxConnLifetime := po_MaxConnLifetime cfg, pc_MaxConnIdleTime := po_MaxConnIdleTime cfg,
      pc_ConnectTimeout := po_ConnectTimeout cfg\<rparr>"
  have eq: "NewPostgresPool dv cfg s = go_try (dv_NewWithConfig dv c s) (Wrapped ''create postgres pool'')
      (\<lambda>pool s. case dv_PoolPing dv pool (po_ConnectTimeout cfg) s of
          (Inl e, s) \<Rightarrow> (Inl (Wrapped ''reach postgres'' e), dv_PoolClose dv pool s)
        | (Inr _, s) \<Rightarrow> (Inr pool, s))"
    by (simp add: NewPostgresPool_def Inr c_def)
  obtain q s1 where q: "dv_NewWithConfig dv c s = (q, s1)" by fastforce
  show ?thesis
  proof (cases q)
    case (Inl e)
    with run q drivers_okD(2) [OF ok] show ?thesis by (auto simp: eq)
  next
    case p: (Inr p)
    obtain x s2 where x: "dv_PoolPing dv p (po_ConnectTimeout cfg) s1 = (x, s2)" by fastforce
    from drivers_okD(1) [OF ok q [unfolded p]] drivers_okD(4) [OF ok x] drivers_okD(6) [OF ok, of p s2] run q p x
    show ?thesis by (cases x) (auto simp: eq)
  qed
qed (use run in \<open>auto simp: NewPostgresPool_def\<close>)

lemma client_held:
  assumes ok: "drivers_ok dv held" and run: "NewRedisClient dv cfg s = (r, s')"
  shows "case r of Inl e \<Rightarrow> held s' = held s | Inr h \<Rightarrow> AClient h \<notin> held s \<and> held s' = insert (AClient h) (held s)"
proof -
  obtain c where eq: "NewRedisClient dv cfg s = (case dv_NewUniversalClient dv c s of (client, s) \<Rightarrow>
      (case dv_ClientPing dv client (rd_DialTimeout cfg) s of
         (Inl e, s) \<Rightarrow> (Inl (Wrapped ''reach redis'' e), snd (dv_ClientClose dv client s))
       | (Inr _, s) \<Rightarrow> (Inr client, s)))"
    unfolding NewRedisClient_def by blast
  obtain h s1 where h: "dv_NewUniversalClient dv c s = (h, s1)" by fastforce
  obtain x s2 where x: "dv_ClientPing dv h (rd_DialTimeout cfg) s1 = (x, s2)" by fastforce
  from drivers_okD(3) [OF ok h] drivers_okD(5) [OF ok x] drivers_okD(7) [OF ok, of h s2] run h x
  show ?thesis by (cases x) (auto simp: eq)
qed

text \<open>The process closes what it opened, whatever its body does with other handles left alone.\<close>

lemma process_held:
  assumes ok: "drivers_ok dv held" and body: "\<And>cfg s. held (snd (body cfg s)) = held s"
  shows "held (snd (run_process dv loaded body s)) = held s"
proof (cases loaded)
  case (Inr cfg)
  obtain q s1 where q: "NewPostgresPool dv (cf_Postgres cfg) s = (q, s1)" by fastforce
  note pool = pool_held [OF ok q]
  show ?thesis
  proof (cases q)
    case (Inl e)
    with pool q Inr show ?thesis by (simp add: run_process_def)
  next
    case p: (Inr p)
    obtain x s2 where x: "NewRedisClient dv (cf_Redis cfg) s1 = (x, s2)" by fastforce
    note client = client_held [OF ok x]
    show ?thesis
    proof (cases x)
      case (Inl e)
      with pool client q p x Inr drivers_okD(6) [OF ok] show ?thesis by (auto simp: run_process_def)
    next
      case h: (Inr h)
      obtain r s3 where b: "body cfg s2 = (r, s3)" by fastforce
      with body [of cfg s2] have "held s3 = held s2" by simp
      with pool client q p x h b Inr drivers_okD(6,7) [OF ok] show ?thesis by (auto simp: run_process_def)
    qed
  qed
qed (simp add: run_process_def)

lemma snd_case: "snd (case p of (r, s) \<Rightarrow> (f r, s)) = snd p"
  by (cases p) simp

lemma worker_data: "snd (worker_main dv st lib s) =
    snd (run_process dv (Load lib) (worker_body st) s)"
  unfolding worker_main_def by (rule snd_case)

lemma api_data: "snd (api_main dv mk lib s) = snd (run_process dv (Load lib) (api_body mk) s)"
  unfolding api_main_def by (rule snd_case)

lemma worker_held:
  assumes "drivers_ok dv held" and same: "\<And>w w' c. held (w, c) = held (w', c)"
  shows "held (snd (worker_main dv st lib s)) = held s"
proof -
  have "held (snd (worker_body st cfg q)) = held q" for cfg q
  proof -
    have "snd (snd (worker_body st cfg q)) = snd q" by (simp add: worker_body_def split: prod.split)
    with same [of "fst (snd (worker_body st cfg q))" "snd q" "fst q"] show ?thesis by (metis prod.collapse)
  qed
  then have "held (snd (run_process dv (Load lib) (worker_body st) s)) = held s" by (rule process_held [OF assms(1)])
  then show ?thesis by (simp only: worker_data)
qed

lemma api_held:
  assumes "drivers_ok dv held" and wait: "\<And>cfg s. held (snd (se_wait (mk cfg) s)) = held s"
    and shut: "\<And>cfg d s. held (snd (se_Shutdown (mk cfg) d s)) = held s"
  shows "held (snd (api_main dv mk lib s)) = held s"
proof -
  have "held (snd (api_body mk cfg q)) = held q" for cfg q
  proof -
    obtain x q1 where x: "se_wait (mk cfg) q = (x, q1)" by (cases "se_wait (mk cfg) q")
    have q1: "held q1 = held q" using wait [of cfg q] unfolding x snd_conv .
    show ?thesis
    proof (cases x)
      case None
      show ?thesis unfolding api_body_def x None prod.case option.case snd_conv shut by (rule q1)
    next
      case (Some r)
      show ?thesis unfolding api_body_def x Some prod.case option.case snd_conv by (rule q1)
    qed
  qed
  then have "held (snd (run_process dv (Load lib) (api_body mk) s)) = held s" by (rule process_held [OF assms(1)])
  then show ?thesis by (simp only: api_data)
qed

text \<open>
  C38. Nothing leaks. Whatever fails, the configuration, a connection, a ping, the job or the
  server, both binaries end with exactly the handles open that were open before: a pool or
  client that was opened is closed, once it could not be reached or when the work is over.
\<close>

theorem no_leaks:
  assumes "drivers_ok dv held" and "drivers_ok dv' held'"
    and "\<And>w w' c. held (w, c) = held (w', c)"
    and "\<And>cfg s. held' (snd (se_wait (mk cfg) s)) = held' s" and "\<And>cfg d s. held' (snd (se_Shutdown (mk cfg) d s)) = held' s"
  shows "held (snd (worker_main dv st lib s)) = held s \<and> held' (snd (api_main dv' mk lib s')) = held' s'"
  by (rule conjI [OF worker_held [OF assms(1,3)] api_held [OF assms(2,4,5)]])

text \<open>Drivers for the witnesses: each open takes the next number.\<close>

record books =
  bk_open :: "(nat, nat) handle set"
  bk_next :: nat

definition number :: "(nat, nat) handle \<Rightarrow> nat" where
  "number h = (case h of APool n \<Rightarrow> n | AClient n \<Rightarrow> n)"

definition books_held :: "world \<times> books \<Rightarrow> (nat, nat) handle set" where
  "books_held s = {h \<in> bk_open (snd s). number h < bk_next (snd s)}"

definition enter :: "(nat \<Rightarrow> (nat, nat) handle) \<Rightarrow> world \<times> books \<Rightarrow> nat \<times> world \<times> books" where
  "enter h s = (let n = bk_next (snd s)
     in (n, fst s, \<lparr>bk_open = insert (h n) (books_held s), bk_next = n + 1\<rparr>))"

definition strike :: "(nat, nat) handle \<Rightarrow> world \<times> books \<Rightarrow> world \<times> books" where
  "strike h s = (fst s, (snd s)\<lparr>bk_open := bk_open (snd s) - {h}\<rparr>)"

definition demo_drivers :: "(world \<times> books, unit, nat, nat) drivers" where
  "demo_drivers = \<lparr>
     dv_ParseConfig = (\<lambda>dsn. Inr \<lparr>pc_MaxConns = 4, pc_MinConns = 0, pc_MaxConnLifetime = hour, pc_MaxConnIdleTime = hour,
       pc_ConnectTimeout = 0, pc_rest = ()\<rparr>),
     dv_NewWithConfig = (\<lambda>c s. case enter APool s of (n, s) \<Rightarrow> (Inr n, s)),
     dv_PoolPing = (\<lambda>p d s. (Inr (), s)),
     dv_PoolClose = (\<lambda>p. strike (APool p)),
     dv_NewUniversalClient = (\<lambda>c. enter AClient),
     dv_ClientPing = (\<lambda>h d s. (Inr (), s)),
     dv_ClientClose = (\<lambda>h s. (Inr (), strike (AClient h) s))\<rparr>"

lemma demo_drivers_ok: "drivers_ok demo_drivers books_held"
proof -
  have e: "h n \<notin> books_held s \<and> books_held s' = insert (h n) (books_held s)"
    if "enter h s = (n, s')" and "\<And>k. number (h k) = k" for h n s s'
    using that by (auto simp: enter_def Let_def books_held_def less_Suc_eq)
  have "books_held (strike h s) = books_held s - {h}" for h s by (auto simp: strike_def books_held_def)
  with e [of APool] e [of AClient] show ?thesis
    by (auto simp: drivers_ok_def demo_drivers_def number_def split: prod.splits)
qed

theorem no_leaks_witness:
  "books_held (snd (worker_main demo_drivers demo_site demo_lib (demo_world, \<lparr>bk_open = {}, bk_next = 0\<rparr>))) = {}"
proof -
  let ?s = "(demo_world, \<lparr>bk_open = {}, bk_next = 0\<rparr>)"
  let ?mk = "\<lambda>_. \<lparr>se_wait = (\<lambda>s. (None, s)), se_Shutdown = (\<lambda>d s. (Inr (), s))\<rparr>"
  have "books_held (snd (worker_main demo_drivers demo_site demo_lib ?s)) = books_held ?s
      \<and> books_held (snd (api_main demo_drivers ?mk demo_lib ?s)) = books_held ?s"
    by (rule no_leaks [OF demo_drivers_ok demo_drivers_ok]) (simp_all add: books_held_def)
  then show ?thesis by (simp add: books_held_def)
qed

subsection \<open>What the exit status of the worker means\<close>

text \<open>Connecting touches the drivers' part of the process state only.\<close>

definition data_apart :: "(world \<times> 'o, 'r, 'pool, 'client) drivers \<Rightarrow> bool" where
  "data_apart dv \<longleftrightarrow> (\<forall>c s. fst (snd (dv_NewWithConfig dv c s)) = fst s) \<and> (\<forall>p d s. fst (snd (dv_PoolPing dv p d s)) = fst s)
     \<and> (\<forall>p s. fst (dv_PoolClose dv p s) = fst s) \<and> (\<forall>c s. fst (snd (dv_NewUniversalClient dv c s)) = fst s)
     \<and> (\<forall>h d s. fst (snd (dv_ClientPing dv h d s)) = fst s) \<and> (\<forall>h s. fst (snd (dv_ClientClose dv h s)) = fst s)"

lemma data_apartD:
  assumes "data_apart dv"
  shows "dv_NewWithConfig dv c s = (q, s') \<Longrightarrow> fst s' = fst s" "dv_PoolPing dv p d s = (x, s') \<Longrightarrow> fst s' = fst s"
    "fst (dv_PoolClose dv p s) = fst s" "dv_NewUniversalClient dv u s = (h, s') \<Longrightarrow> fst s' = fst s"
    "dv_ClientPing dv h d s = (x, s') \<Longrightarrow> fst s' = fst s" "fst (snd (dv_ClientClose dv h s)) = fst s"
  using assms unfolding data_apart_def by (metis snd_conv)+

lemma connect_data:
  assumes "data_apart dv"
  shows "fst (snd (NewPostgresPool dv cfg s)) = fst s" "fst (snd (NewRedisClient dv cfg' s)) = fst s"
  by (auto simp: NewPostgresPool_def NewRedisClient_def data_apartD [OF assms]
      dest!: data_apartD(1,2,4,5) [OF assms] split: sum.split go_try_splits prod.split)

lemma process_cases:
  assumes apart: "data_apart dv" and run: "run_process dv loaded body s = (r, s')"
  shows "fst s' = fst s \<and> (\<exists>e. r = Inl e)
    \<or> (\<exists>cfg s1 s2. loaded = Inr cfg \<and> fst s1 = fst s \<and> body cfg s1 = (r, s2) \<and> fst s' = fst s2)"
proof (cases loaded)
  case (Inr cfg)
  obtain q s1 where q: "NewPostgresPool dv (cf_Postgres cfg) s = (q, s1)" by (metis prod.collapse)
  with connect_data(1) [OF apart, of "cf_Postgres cfg" s] have s1: "fst s1 = fst s" by simp
  show ?thesis
  proof (cases q)
    case (Inl e)
    with q s1 run Inr show ?thesis by (auto simp: run_process_def)
  next
    case p: (Inr p)
    obtain x s2 where x: "NewRedisClient dv (cf_Redis cfg) s1 = (x, s2)" by (metis prod.collapse)
    with connect_data(2) [OF apart, of "cf_Redis cfg" s1] s1 have s2: "fst s2 = fst s" by simp
    show ?thesis
    proof (cases x)
      case (Inl e)
      with q p x run Inr have "r = Inl e" "s' = dv_PoolClose dv p s2" by (auto simp: run_process_def)
      with s2 data_apartD(3) [OF apart, of p s2] show ?thesis by simp
    next
      case h: (Inr h)
      obtain r3 s3 where b: "body cfg s2 = (r3, s3)" by (metis prod.collapse)
      with q p x h run Inr have "r = r3" and "s' = dv_PoolClose dv p (snd (dv_ClientClose dv h s3))"
        by (auto simp: run_process_def)
      with data_apartD(3) [OF apart, of p "snd (dv_ClientClose dv h s3)"] data_apartD(6) [OF apart, of h s3]
      have "fst s' = fst s3" by simp
      with b s2 Inr \<open>r = r3\<close> show ?thesis by blast
    qed
  qed
qed (use run in \<open>auto simp: run_process_def\<close>)

text \<open>
  C39. The exit status of the worker. It is 0 or 1; 0 means that the configuration was
  accepted, both servers could be reached, and the live counts of every tracked poll that
  exists are durable. Whatever the status, no durable count shrank and no vote changed.
\<close>

theorem worker_exit:
  assumes "data_apart dv" and "Load lib = Inr cfg" and "world_inv (main_env st cfg) (fst s)"
    and "\<And>i j. w_votes (main_env st cfg) (fst s) i j \<le> max_int64" and "worker_main dv st lib s = (n, s')"
  shows "n \<in> {0, 1} \<and> (n = 0 \<longrightarrow> (\<forall>i \<in> w_tracked (fst s). saved (main_env st cfg) (fst s) (fst s') i))
    \<and> durable_grows (fst s) (fst s') \<and> w_votes (main_env st cfg) (fst s') = w_votes (main_env st cfg) (fst s)"
proof -
  define body where "body = (worker_body st :: _ \<Rightarrow> (world \<times> 'a, unit) action)"
  obtain r where run: "run_process dv (Load lib) body s = (r, s')" and n: "n = exit_status r"
    using assms(5) by (auto simp: worker_main_def body_def split: prod.splits)
  consider (failed) e where "fst s' = fst s" "r = Inl e" | (worked) "work st cfg (fst s) = (r, fst s')"
  proof (cases "fst s' = fst s \<and> (\<exists>e. r = Inl e)")
    case True
    then show thesis using that(1) by blast
  next
    case False
    with process_cases [OF assms(1) run] obtain cfg' s1 s2 where b: "Load lib = Inr cfg'" "fst s1 = fst s"
      "body cfg' s1 = (r, s2)" "fst s' = fst s2" by blast
    then have "work st cfg (fst s) = (r, fst s')" using assms(2) by (cases s1) (auto simp: body_def worker_body_def split: prod.splits)
    then show thesis by (rule that(2))
  qed
  then show ?thesis
  proof cases
    case failed
    with n show ?thesis by (simp add: exit_status_def durable_grows_def)
  next
    case worked
    obtain report err w' where sync: "do_Sync (main_env st cfg) (fst s) = ((report, err), w')" by (metis prod.collapse)
    have out: "w' = fst s'" "r = (case err of None \<Rightarrow> Inr () | Some e \<Rightarrow> Inl (Wrapped ''sync'' e))"
      using worked sync by (auto simp: work_def job_RunOnce_def main_job_def NewJob_def split: option.splits)
    have "durable_grows (fst s) (fst s') \<and> w_votes (main_env st cfg) (fst s') = w_votes (main_env st cfg) (fst s)"
      using sync_facts(1) [OF assms(3,4) sync] out(1) by simp
    moreover have "\<forall>i \<in> w_tracked (fst s). saved (main_env st cfg) (fst s) (fst s') i" if "err = None"
      using sync_facts(2) [OF assms(3,4) sync that] out(1) by simp
    ultimately show ?thesis using n out(2) by (simp add: exit_status_def split: option.splits)
  qed
qed

theorem worker_exit_witness:
  "\<exists>n s'. worker_main demo_drivers demo_site demo_lib (demo_world, \<lparr>bk_open = {}, bk_next = 0\<rparr>) = (n, s') \<and> n \<in> {0, 1}
     \<and> durable_grows demo_world (fst s')"
proof -
  let ?s = "(demo_world, \<lparr>bk_open = {}, bk_next = 0\<rparr>)"
  obtain cfg where cfg: "Load demo_lib = Inr cfg" using demo_accepted Load_Inr(1) by metis
  obtain n s' where run: "worker_main demo_drivers demo_site demo_lib ?s = (n, s')" by (metis prod.collapse)
  have apart: "data_apart demo_drivers"
    by (auto simp: data_apart_def demo_drivers_def enter_def strike_def Let_def split: prod.split)
  have inv: "world_inv (main_env demo_site cfg) (fst ?s)"
    using demo_inv wired [OF cfg, THEN conjunct1] wired [OF cfg, THEN conjunct2, THEN conjunct1]
    by (simp add: world_inv_def base_inv_def store_ready_def demo_site_def) (simp add: demo_env_def)
  have "w_votes (main_env demo_site cfg) (fst ?s) i j \<le> max_int64" for i j
    by (simp add: w_votes_def store_votes_def count_at_def kv_def)
  from worker_exit [OF apart cfg inv this run] run show ?thesis by auto
qed

end
