(* ===== verification/Rate_Limit.thy ===== *)
theory Rate_Limit
  imports Dedup
begin

text \<open>
  The abuse guard in time: \<open>guardScript\<close> counts the attempts of an address, and of an
  address in a poll, in windows that start with the first attempt. A meter is one of these
  counters; an invariant ties what it shows to the ballots it has let through, and bounds
  how many can be admitted in any stretch of time as long as a window.
\<close>

subsection \<open>Meters\<close>

datatype meter = RateOf string | QuotaOf string string

fun meter_key :: "meter \<Rightarrow> string" where
  "meter_key (RateOf ip) = ipTag ip @ '':rl''"
| "meter_key (QuotaOf ip p) = ipTag ip @ '':pq:'' @ p"

fun meter_limit :: "store_config \<Rightarrow> meter \<Rightarrow> int" where
  "meter_limit cfg (RateOf _) = sc_RateLimit cfg"
| "meter_limit cfg (QuotaOf _ _) = sc_PollQuota cfg"

fun meter_window :: "store_config \<Rightarrow> meter \<Rightarrow> int" where
  "meter_window cfg (RateOf _) = whole_seconds (sc_RateWindow cfg)"
| "meter_window cfg (QuotaOf _ _) = whole_seconds (sc_PollQuotaWindow cfg)"

fun charged :: "meter \<Rightarrow> GuardRequest \<Rightarrow> bool" where
  "charged (RateOf ip) g \<longleftrightarrow> g_ClientIP g = ip"
| "charged (QuotaOf ip p) g \<longleftrightarrow> g_ClientIP g = ip \<and> g_PollID g = p"

text \<open>Addresses and ids are written without a closing brace, which ends the hash tag.\<close>

fun plain_meter :: "meter \<Rightarrow> bool" where
  "plain_meter (RateOf ip) \<longleftrightarrow> CHR ''}'' \<notin> set ip"
| "plain_meter (QuotaOf ip p) \<longleftrightarrow> CHR ''}'' \<notin> set ip \<and> CHR ''}'' \<notin> set p"

lemma tag_eq:
  assumes "CHR ''}'' \<notin> set x" and "CHR ''}'' \<notin> set s" and "ipTag y @ t = ipTag x @ s"
  shows "y = x \<and> t = s"
proof -
  have "x @ CHR ''}'' # s = y @ CHR ''}'' # t" using assms(3) by (simp add: ipTag_def)
  then show ?thesis using append_Cons_eq_iff [OF assms(1,2), of y t] by blast
qed

lemma meter_keys:
  assumes "plain_meter m"
  shows "meter_key (RateOf ip) = meter_key m \<longleftrightarrow> m = RateOf ip"
    and "meter_key (QuotaOf ip p) = meter_key m \<longleftrightarrow> m = QuotaOf ip p"
proof -
  have "\<exists>x s. CHR ''}'' \<notin> set x \<and> CHR ''}'' \<notin> set s \<and> meter_key m = ipTag x @ s
      \<and> (m = RateOf x \<and> s = '':rl'' \<or> (\<exists>q. m = QuotaOf x q \<and> s = '':pq:'' @ q))"
    using assms by (cases m) auto
  then obtain x s where x: "CHR ''}'' \<notin> set x" "CHR ''}'' \<notin> set s" "meter_key m = ipTag x @ s"
    and m: "m = RateOf x \<and> s = '':rl'' \<or> (\<exists>q. m = QuotaOf x q \<and> s = '':pq:'' @ q)" by blast
  show "meter_key (RateOf ip) = meter_key m \<longleftrightarrow> m = RateOf ip"
    using tag_eq [OF x(1,2), of ip "'':rl''"] m x(3) by auto
  show "meter_key (QuotaOf ip p) = meter_key m \<longleftrightarrow> m = QuotaOf ip p"
    using tag_eq [OF x(1,2), of ip "'':pq:'' @ p"] m x(3) by auto
qed

lemma meter_key_inj:
  assumes "plain_meter m" and "meter_key m' = meter_key m"
  shows "m' = m"
  using assms meter_keys [OF assms(1)] by (cases m') simp_all

lemma meter_apart:
  "meter_key m \<noteq> countsKey (tagForShard p n)" "meter_key m \<noteq> votedKey (tagForShard p n) h"
  "meter_key m \<noteq> trackedPollsKey" "meter_key m \<noteq> keyPrefix @ k"
  using key_apart by (cases m; simp)+

subsection \<open>One counter\<close>

text \<open>Counting a hit, the first part of a limit check.\<close>

definition hit :: "redis_cmds \<Rightarrow> string \<Rightarrow> int \<Rightarrow> instant \<Rightarrow> rdb \<Rightarrow> (goerror + int) \<times> rdb" where
  "hit rd key window now db = go_try (rd_INCR rd now key db) id (\<lambda>hits db.
     go_try (if hits = 1 then rd_EXPIRE rd now key window db else (Inr 0, db)) id (\<lambda>_ db. (Inr hits, db)))"

lemma limit_check_hit:
  "limit_check rd key limit window verdict now k db =
     (if limit \<le> 0 then k db
      else go_try (hit rd key window now db) id (\<lambda>hits db. if limit < hits then (Inr verdict, db) else k db))"
  by (auto simp: limit_check_def hit_def split: go_try_splits)

text \<open>
  \<open>metered\<close>: of the ballots since some moment, \<open>A\<close> were let through. The counter, if
  its window is open, shows the hits of that window; \<open>b\<close> bounds what earlier windows let
  through, and a window that began after the moment lasts until \<open>T\<close> at least.
\<close>

definition metered :: "string \<Rightarrow> int \<Rightarrow> int \<Rightarrow> instant \<Rightarrow> int \<Rightarrow> instant \<Rightarrow> rdb \<Rightarrow> bool" where
  "metered key limit b T A now db \<longleftrightarrow>
     (case kv now db key of None \<Rightarrow> A \<le> b
      | Some v \<Rightarrow> \<exists>n. v = RString (itoa n) \<and> 1 \<le> n \<and> n \<le> max_int64
          \<and> ((\<exists>d. deadline db key = Some d \<and> T \<le> d) \<and> A \<le> b + min n limit \<or> b = limit \<and> A \<le> min n limit))"

lemma metered_frame: "db' key = db key \<Longrightarrow> metered key limit b T A now db' = metered key limit b T A now db"
proof -
  assume "db' key = db key"
  then have "kv now db' key = kv now db key" "deadline db' key = deadline db key" by (simp_all add: kv_def deadline_def)
  then show ?thesis unfolding metered_def by (simp only:)
qed

lemma meteredI:
  assumes "kv now db key = Some (RString (itoa n))" and "1 \<le> n" and "n \<le> max_int64"
    and "(\<exists>d. deadline db key = Some d \<and> T \<le> d) \<and> A \<le> b + min n limit \<or> b = limit \<and> A \<le> min n limit"
  shows "metered key limit b T A now db"
  using assms by (auto simp: metered_def)

lemma metered_later:
  assumes "metered key limit b T A now db" and "now \<le> t" and "t < T \<or> A \<le> b"
  shows "metered key limit b T A t db"
  using assms by (auto simp: metered_def kv_def deadline_def split: option.splits if_splits)

lemma hit_metered:
  assumes ok: "redis_ok rd" and lim: "0 < limit" and win: "0 < window" and T: "T \<le> now + window * second"
    and m: "metered key limit b T A now db"
  shows "case hit rd key window now db of (Inl e, db') \<Rightarrow> db' = db
    | (Inr n, db') \<Rightarrow> metered key limit b T A now db' \<and> (n \<le> limit \<longrightarrow> metered key limit b T (A + 1) now db')"
proof (cases "kv now db key")
  case None
  let ?db = "db(key \<mapsto> (RString (itoa 1), Some (now + window * second)))"
  have pos: "0 < window * second" using win by (simp add: second_def)
  have "hit rd key window now db = (Inr 1, ?db)"
    using redis_incr(1) [OF ok None] redis_expire(2) [OF ok _ win, of now "db(key \<mapsto> (RString (itoa 1), None))" key]
    by (simp add: hit_def)
  moreover have "A \<le> b" using m None by (simp add: metered_def)
  moreover have "(1 :: int) \<le> max_int64" by (simp add: max_int64_def)
  moreover have "kv now ?db key = Some (RString (itoa 1))" "deadline ?db key = Some (now + window * second)"
    using pos by simp_all
  ultimately show ?thesis using lim T by (auto intro!: meteredI [of now ?db key 1])
next
  case (Some v)
  with m obtain n where v: "v = RString (itoa n)" and n: "1 \<le> n" "n \<le> max_int64"
    and A: "(\<exists>d. deadline db key = Some d \<and> T \<le> d) \<and> A \<le> b + min n limit \<or> b = limit \<and> A \<le> min n limit"
    by (auto simp: metered_def)
  have parse: "parse_int (itoa n) = Some n" using n by (intro parse_int_itoa) (simp_all add: min_int64_def)
  show ?thesis
  proof (cases "n = max_int64")
    case True
    then have "checked_sum n 1 = None" by (simp add: checked_sum_def)
    with redis_okD(1) [OF ok, unfolded incr_law_def, THEN spec [of _ now], THEN spec [of _ key], THEN spec [of _ db]]
      Some v parse show ?thesis by (auto simp: hit_def)
  next
    case False
    let ?db = "db(key \<mapsto> (RString (itoa (n + 1)), deadline db key))"
    have "checked_sum n 1 = Some (n + 1)" using n False by (simp add: checked_sum_def min_int64_def)
    from redis_incr(2) [OF ok Some [unfolded v] parse this] n
    have "hit rd key window now db = (Inr (n + 1), ?db)" by (simp add: hit_def)
    moreover have "kv now ?db key = Some (RString (itoa (n + 1)))" using Some by (intro kv_upd_same_deadline) simp
    moreover have "n + 1 \<le> max_int64" using n False by simp
    moreover have "deadline ?db key = deadline db key" by simp
    ultimately show ?thesis using A n by (auto intro!: meteredI [of now ?db key "n + 1"])
  qed
qed

subsection \<open>The script\<close>

lemma check_keeps:
  assumes "\<And>d. P d \<Longrightarrow> P (snd (hit rd key window now d))" and "\<And>d. P d \<Longrightarrow> P (snd (k d))" and "P db"
  shows "P (snd (limit_check rd key limit window v now k db))"
  using assms by (auto simp: limit_check_hit intro!: go_try_snd [where P = P])

lemma check_through:
  assumes "fst (limit_check rd key limit window v now k db) = Inr r" and "r \<noteq> v"
  obtains d where "limit_check rd key limit window v now k db = k d"
    and "limit \<le> 0 \<and> d = db \<or> 0 < limit \<and> (\<exists>n \<le> limit. hit rd key window now db = (Inr n, d))"
proof (cases "limit \<le> 0")
  case True
  then show thesis by (intro that [of db]) (simp_all add: limit_check_hit)
next
  case False
  obtain q d where h: "hit rd key window now db = (q, d)" by fastforce
  with assms False obtain n where "q = Inr n" "n \<le> limit"
    by (cases q) (auto simp: limit_check_hit split: if_splits)
  with False h show thesis by (intro that [of d]) (auto simp: limit_check_hit)
qed

lemma hit_frame:
  assumes "redis_ok rd" and "k \<noteq> key"
  shows "snd (hit rd key window now db) k = db k"
  unfolding hit_def
  by (rule go_try_snd [where P = "\<lambda>d. d k = db k"], rule redis_incr_frame [OF assms],
      rule go_try_snd [where P = "\<lambda>d. d k = db k"]) (simp_all add: redis_expire_frame [OF assms])

definition guard_cmd :: "redis_cmds \<Rightarrow> store_config \<Rightarrow> GuardRequest \<Rightarrow> instant \<Rightarrow> rdb \<Rightarrow> (goerror + int) \<times> rdb" where
  "guard_cmd rd cfg g = guardScript rd (meter_key (RateOf (g_ClientIP g))) (meter_key (QuotaOf (g_ClientIP g) (g_PollID g)))
     (sc_RateLimit cfg) (whole_seconds (sc_RateWindow cfg)) (sc_PollQuota cfg) (whole_seconds (sc_PollQuotaWindow cfg))"

text \<open>What the guard did to a meter that is on, with windows that last past \<open>T\<close>.\<close>

definition metering :: "store_config \<Rightarrow> meter \<Rightarrow> int \<Rightarrow> instant \<Rightarrow> int \<Rightarrow> instant \<Rightarrow> rdb \<Rightarrow> bool" where
  "metering cfg m = metered (meter_key m) (meter_limit cfg m)"

definition meter_on :: "store_config \<Rightarrow> meter \<Rightarrow> bool" where
  "meter_on cfg m \<longleftrightarrow> plain_meter m \<and> 0 < meter_limit cfg m \<and> 0 < meter_window cfg m"

lemma meter_hit:
  assumes ok: "redis_ok rd" and on: "meter_on cfg m" and T: "T \<le> now + meter_window cfg m * second"
    and m: "metering cfg m b T A now db"
  shows "hit rd (meter_key m) (meter_window cfg m) now db = (Inr n, d) \<Longrightarrow> n \<le> meter_limit cfg m \<Longrightarrow>
      metering cfg m b T (A + 1) now d"
    and "metering cfg m b T A now (snd (hit rd (meter_key m) (meter_window cfg m) now db))"
  using hit_metered [OF ok _ _ T, of "meter_limit cfg m" "meter_key m" b A db] on m
  by (auto simp: metering_def meter_on_def split: prod.splits sum.splits)

lemma other_hit:
  assumes ok: "redis_ok rd" and on: "meter_on cfg m" and T: "T \<le> now + meter_window cfg m * second"
    and m: "metering cfg m b T A now db"
  shows "metering cfg m b T A now (snd (hit rd (meter_key m') (meter_window cfg m') now db))"
proof (cases "meter_key m' = meter_key m")
  case True
  then have eq: "m' = m" using on by (auto simp: meter_on_def intro: meter_key_inj)
  show ?thesis unfolding eq by (rule meter_hit(2) [OF assms])
next
  case False
  define d where "d = snd (hit rd (meter_key m') (meter_window cfg m') now db)"
  have "d (meter_key m) = db (meter_key m)" unfolding d_def by (rule hit_frame [OF ok False [THEN not_sym]])
  from m show ?thesis unfolding metering_def d_def [symmetric] metered_frame [of d _ db, OF \<open>d _ = db _\<close>] .
qed

lemma guard_keeps:
  assumes "redis_ok rd" and "meter_on cfg m" and "T \<le> now + meter_window cfg m * second"
    and "metering cfg m b T A now db"
  shows "metering cfg m b T A now (snd (guard_cmd rd cfg g now db))"
proof -
  let ?P = "metering cfg m b T A now"
  have rate: "?P (snd (hit rd (meter_key (RateOf x)) (whole_seconds (sc_RateWindow cfg)) now d))" if "?P d" for x d
    using other_hit [OF assms(1-3) that, of "RateOf x"] unfolding meter_window.simps .
  have quota: "?P (snd (hit rd (meter_key (QuotaOf x p)) (whole_seconds (sc_PollQuotaWindow cfg)) now d))" if "?P d" for x p d
    using other_hit [OF assms(1-3) that, of "QuotaOf x p"] unfolding meter_window.simps .
  have stop: "?P (snd ((Inr VerdictAllow :: goerror + int), d))" if "?P d" for d using that unfolding snd_conv .
  have second: "?P (snd (limit_check rd (meter_key (QuotaOf x p)) (sc_PollQuota cfg) (whole_seconds (sc_PollQuotaWindow cfg))
      VerdictQuotaExceeded now (\<lambda>db. (Inr VerdictAllow, db)) d))" if "?P d" for x p d
    by (rule check_keeps [where P = ?P, OF quota stop that])
  show ?thesis unfolding guard_cmd_def guardScript_def
    by (rule check_keeps [where P = ?P, OF rate second assms(4)])
qed

lemma guard_counts:
  assumes ok: "redis_ok rd" and on: "meter_on cfg m" and T: "T \<le> now + meter_window cfg m * second"
    and m: "metering cfg m b T A now db" and g: "charged m g"
    and run: "fst (guard_cmd rd cfg g now db) = Inr v" "v \<noteq> VerdictRateLimited" "v \<noteq> VerdictQuotaExceeded"
  shows "metering cfg m b T (A + 1) now (snd (guard_cmd rd cfg g now db))"
proof -
  let ?rate = "RateOf (g_ClientIP g)" and ?quota = "QuotaOf (g_ClientIP g) (g_PollID g)"
  define quota where "quota = limit_check rd (meter_key ?quota) (meter_limit cfg ?quota) (meter_window cfg ?quota)
      VerdictQuotaExceeded now (\<lambda>db. (Inr VerdictAllow, db))"
  have cmd: "guard_cmd rd cfg g now = limit_check rd (meter_key ?rate) (meter_limit cfg ?rate) (meter_window cfg ?rate)
      VerdictRateLimited now quota"
    by (simp add: guard_cmd_def guardScript_def quota_def fun_eq_iff)
  obtain d where d: "guard_cmd rd cfg g now db = quota d"
    and rate: "meter_limit cfg ?rate \<le> 0 \<and> d = db
      \<or> 0 < meter_limit cfg ?rate \<and> (\<exists>n \<le> meter_limit cfg ?rate. hit rd (meter_key ?rate) (meter_window cfg ?rate) now db = (Inr n, d))"
    using run(1,2) unfolding cmd by (elim check_through)
  obtain d' where d': "quota d = (Inr VerdictAllow, d')"
    and quota: "meter_limit cfg ?quota \<le> 0 \<and> d' = d
      \<or> 0 < meter_limit cfg ?quota \<and> (\<exists>n \<le> meter_limit cfg ?quota. hit rd (meter_key ?quota) (meter_window cfg ?quota) now d = (Inr n, d'))"
    using run(1,3) unfolding d quota_def by (elim check_through)
  have pos: "0 < meter_limit cfg m" using on by (simp add: meter_on_def)
  have "m = ?rate \<or> m = ?quota" using g by (cases m) auto
  then have "metering cfg m b T (A + 1) now d'"
  proof
    assume "m = ?rate"
    with rate pos meter_hit(1) [OF ok on T m] have "metering cfg m b T (A + 1) now d" by auto
    from other_hit [OF ok on T this, of ?quota] this quota show ?thesis by (auto simp del: meter_key.simps meter_window.simps)
  next
    assume q: "m = ?quota"
    from other_hit [OF ok on T m, of ?rate] m rate have "metering cfg m b T A now d"
      by (auto simp del: meter_key.simps meter_window.simps)
    from meter_hit(1) [OF ok on T this] quota pos q show ?thesis by auto
  qed
  with d d' show ?thesis by simp
qed

subsection \<open>The store\<close>

text \<open>A meter on the Redis state, counting since \<open>t1\<close>, whose windows last past \<open>T\<close>.\<close>

definition meter_inv :: "env \<Rightarrow> meter \<Rightarrow> int \<Rightarrow> instant \<Rightarrow> int \<Rightarrow> redis_state \<Rightarrow> bool" where
  "meter_inv ev m b t1 A st \<longleftrightarrow> t1 \<le> rs_now st
     \<and> metering (ev_store ev) m b (t1 + meter_window (ev_store ev) m * second) A (rs_now st) (rs_db st)"

lemma meter_inv_frame:
  assumes "meter_inv ev m b t1 A st" and "rs_now st' = rs_now st" and "rs_db st' (meter_key m) = rs_db st (meter_key m)"
  shows "meter_inv ev m b t1 A st'"
proof -
  have same: "kv now (rs_db st') (meter_key m) = kv now (rs_db st) (meter_key m)"
    "deadline (rs_db st') (meter_key m) = deadline (rs_db st) (meter_key m)" for now
    using assms(3) by (simp_all add: kv_def deadline_def)
  from assms(1) show ?thesis unfolding meter_inv_def metering_def metered_def same assms(2) .
qed

lemma meter_call:
  assumes "meter_inv ev m b t1 A st" and "\<And>db. snd (cmd (rs_now st) db) (meter_key m) = db (meter_key m)"
  shows "meter_inv ev m b t1 A (snd (redis_call cmd st))"
proof (rule meter_inv_frame [OF assms(1) redis_call_now])
  show "rs_db (snd (redis_call cmd st)) (meter_key m) = rs_db st (meter_key m)"
    by (rule redis_call_invariant [where P = "\<lambda>db. db (meter_key m) = rs_db st (meter_key m)"]) (simp_all add: assms(2))
qed

lemma meter_plain:
  assumes "meter_inv ev m b t1 A st" and "\<And>db. snd (cmd (rs_now st) db) (meter_key m) = db (meter_key m)"
  shows "meter_inv ev m b t1 A (snd (go_try (redis_call cmd st) w (\<lambda>v st. (Inr (h v), st))))"
  by (rule go_try_snd [where P = "meter_inv ev m b t1 A"], rule meter_call, rule assms(1), rule assms(2)) simp

lemma guard_call:
  "store_Guard rd cfg g st = go_try (redis_call (guard_cmd rd cfg g) st)
     (\<lambda>e. WrapError CodeUnavailable e ''voting is temporarily unavailable'') (\<lambda>verdict st. (Inr verdict, st))"
  by (simp add: store_Guard_def guard_cmd_def [abs_def] Let_def)

text \<open>The run whose reply arrived comes after those whose replies were lost.\<close>

lemma redis_call_reply:
  assumes "redis_call cmd st = (Inr v, st')" and "\<And>db. P db \<Longrightarrow> P (snd (cmd (rs_now st) db))" and "P (rs_db st)"
  obtains db where "P db" and "cmd (rs_now st) db = (Inr v, rs_db st')"
proof -
  obtain n replied where f: "next_fate st = Fate n replied" by (cases "next_fate st")
  have "P (run_lost n (cmd (rs_now st)) (rs_db st))" using assms(2,3) by (rule run_lost_invariant)
  with assms(1) f show thesis
    by (intro that [of "run_lost n (cmd (rs_now st)) (rs_db st)"])
      (auto simp: redis_call_def Let_def split: if_splits prod.splits)
qed

lemma meter_guard:
  assumes ok: "redis_ok (ev_rd ev)" and on: "meter_on (ev_store ev) m" and m: "meter_inv ev m b t1 A st"
  shows "meter_inv ev m b t1 A (snd (store_Guard (ev_rd ev) (ev_store ev) g st))"
    and "store_Guard (ev_rd ev) (ev_store ev) g st = (Inr v, st') \<Longrightarrow> charged m g \<Longrightarrow>
      v \<noteq> VerdictRateLimited \<Longrightarrow> v \<noteq> VerdictQuotaExceeded \<Longrightarrow> meter_inv ev m b t1 (A + 1) st'"
proof -
  let ?T = "t1 + meter_window (ev_store ev) m * second"
  have T: "?T \<le> rs_now st + meter_window (ev_store ev) m * second" and t1: "t1 \<le> rs_now st"
    and p: "metering (ev_store ev) m b ?T A (rs_now st) (rs_db st)" using m by (simp_all add: meter_inv_def)
  note keeps = guard_keeps [OF ok on T]
  have "metering (ev_store ev) m b ?T A (rs_now st) (rs_db (snd (redis_call (guard_cmd (ev_rd ev) (ev_store ev) g) st)))"
    by (rule redis_call_invariant [where P = "metering (ev_store ev) m b ?T A (rs_now st)"]) (rule keeps, assumption, rule p)
  with t1 show "meter_inv ev m b t1 A (snd (store_Guard (ev_rd ev) (ev_store ev) g st))"
    unfolding guard_call by (intro go_try_snd [where P = "meter_inv ev m b t1 A"]) (simp_all add: meter_inv_def)
  show "meter_inv ev m b t1 (A + 1) st'" if run: "store_Guard (ev_rd ev) (ev_store ev) g st = (Inr v, st')"
    and g: "charged m g" and v: "v \<noteq> VerdictRateLimited" "v \<noteq> VerdictQuotaExceeded"
  proof -
    have call: "redis_call (guard_cmd (ev_rd ev) (ev_store ev) g) st = (Inr v, st')"
      using run by (auto simp: guard_call go_try_eq_Inr)
    obtain db where "metering (ev_store ev) m b ?T A (rs_now st) db"
      and db: "guard_cmd (ev_rd ev) (ev_store ev) g (rs_now st) db = (Inr v, rs_db st')"
      by (rule redis_call_reply [where P = "metering (ev_store ev) m b ?T A (rs_now st)", OF call keeps p])
    from guard_counts [OF ok on T this(1) g, unfolded db fst_conv snd_conv, OF refl v]
    have "metering (ev_store ev) m b ?T (A + 1) (rs_now st) (rs_db st')" .
    with t1 call redis_call_now [of "guard_cmd (ev_rd ev) (ev_store ev) g" st] show ?thesis by (simp add: meter_inv_def)
  qed
qed

text \<open>Nothing but the guard touches a meter.\<close>

lemma meter_kept:
  assumes ok: "redis_ok (ev_rd ev)" and on: "meter_on (ev_store ev) m"
  shows "redis_kept ev (meter_inv ev m b t1 A)"
proof -
  let ?P = "meter_inv ev m b t1 A"
  note apart = meter_apart [of m]
  have ballot: "?P (snd (store_CastBallot (ev_rd ev) (ev_store ev) bl st))" if "?P st" for bl st
    unfolding store_CastBallot_def Let_def shardTag_def
    using that by (auto intro!: go_try_snd [where P = ?P] meter_call simp: cast_script_frame [OF ok] apart)
  have tallies: "?P (snd (store_Counters (ev_rd ev) (ev_store ev) p ids st))" if "?P st" for p ids st
    unfolding store_Counters_def
    by (rule go_try_snd [where P = ?P], rule meter_call [OF that]) (simp_all add: hgetall_shards_frame [OF ok])
  have track: "?P (snd (store_TrackPoll (ev_rd ev) p st))" if "?P st" for p st
    unfolding store_TrackPoll_def by (rule meter_plain, rule that) (simp add: redis_write_frame(5) [OF ok] apart)
  have untrack: "?P (snd (store_UntrackPoll (ev_rd ev) p st))" if "?P st" for p st
    unfolding store_UntrackPoll_def by (rule meter_plain, rule that) (simp add: redis_write_frame(6) [OF ok] apart)
  have tracked: "?P (snd (store_TrackedPolls (ev_rd ev) st))" if "?P st" for st
    unfolding store_TrackedPolls_def by (rule meter_plain, rule that) (simp add: smembers_frame [OF ok])
  have getk: "?P (snd (rstore_Get (ev_rd ev) (ev_json ev) k st))" if "?P st" for k st
    unfolding rstore_Get_def
    by (rule go_try_snd [where P = ?P], rule meter_call [OF that]) (auto simp: get_frame [OF ok] split: option.split)
  have touch: "?P st'" if "?P st" "rs_now st' = rs_now st"
    "rs_db st' = rs_db st \<or> (\<exists>k x. rs_db st' = (rs_db st)(keyPrefix @ k := x))" for st st'
    by (rule meter_inv_frame [OF that(1,2)]) (use that(3) apart(4) in auto)
  have write_key: "?P (snd (rstore_Set (ev_rd ev) (ev_json ev) k en ttl st))"
    "?P (snd (rstore_Delete (ev_rd ev) k st))" if "?P st" for k en ttl st
    using rstore_Set_cases [OF ok surjective_pairing, of "ev_json ev" k en ttl st]
      rstore_Delete_cases [OF ok surjective_pairing, of k st] touch [OF that] by blast+
  show ?thesis
    unfolding redis_kept_def
    by (intro allI impI conjI; (rule meter_guard(1) [OF ok on] ballot tallies track untrack tracked getk write_key, assumption))
qed

subsection \<open>Runs\<close>

text \<open>The ballots of a run that were admitted at a meter's charge.\<close>

definition charge :: "VoteCommand \<Rightarrow> GuardRequest" where
  "charge cmd = \<lparr>g_ClientIP = vc_ClientIP cmd, g_PollID = vc_PollID cmd\<rparr>"

fun admitted :: "meter \<Rightarrow> event \<Rightarrow> bool" where
  "admitted m (EvCast cmd (Inr _)) \<longleftrightarrow> charged m (charge cmd)"
| "admitted m _ \<longleftrightarrow> False"

fun_cases admittedE: "admitted m e"

lemma meter_later:
  assumes "meter_inv ev m b t1 A st" and "rs_now st \<le> t"
    and "t < t1 + meter_window (ev_store ev) m * second \<or> A \<le> b"
  shows "meter_inv ev m b t1 A (st\<lparr>rs_now := t\<rparr>)"
  using assms metered_later by (auto simp: meter_inv_def metering_def)

lemma meter_step:
  assumes "sys_step ev e w w'" and "redis_ok (ev_rd ev)" and "meter_on (ev_store ev) m"
    and m: "meter_inv ev m b t1 A (w_redis w)" and "e \<noteq> EvRedisLoss"
    and "clock w' < t1 + meter_window (ev_store ev) m * second"
  shows "meter_inv ev m b t1 (A + (if admitted m e then 1 else 0)) (w_redis w')"
proof (cases "admitted m e")
  case False
  have "meter_inv ev m b t1 A (w_redis w')"
    by (rule kept_step [OF assms(1) meter_kept [OF assms(2,3)] m assms(5)])
      (use assms(6) meter_later in \<open>auto simp: meter_inv_def\<close>)
  with False show ?thesis by simp
next
  case True
  then obtain cmd u where e: "e = EvCast cmd (Inr u)" and g: "charged m (charge cmd)" by (rule admittedE)
  have run: "do_Cast ev cmd w = (Inr u, w')" by (rule castE [OF assms(1) [unfolded e]])
  obtain p w1 v w2 where p: "cache_Poll (main_cache ev) (vc_PollID cmd) w = (Inr p, w1)"
    and v: "vs_Guard (main_store ev) (charge cmd) w1 = (Inr v, w2)" "v \<noteq> VerdictRateLimited" "v \<noteq> VerdictQuotaExceeded"
    and c: "vs_CastBallot (main_store ev) (cast_ballot_of cmd) w2 = (Inr (), w')"
    unfolding charge_def by (rule cast_parts [OF run])
  note kept = meter_kept [OF assms(2,3)]
  have m1: "meter_inv ev m b t1 A (w_redis w1)"
    using cache_Poll_redis [OF kept m, of "vc_PollID cmd"] unfolding p by simp
  obtain d where d: "store_Guard (ev_rd ev) (ev_store ev) (charge cmd) (w_redis w1) = (Inr v, d)" "w2 = w1\<lparr>w_redis := d\<rparr>"
    using v(1) by (auto simp: on_redis_eq)
  have "meter_inv ev m b t1 (A + 1) (w_redis w2)" using meter_guard(2) [OF assms(2,3) m1 d(1) g v(2,3)] d(2) by simp
  from redis_keptD(2) [OF kept this, of "cast_ballot_of cmd"] VoterHash_ok c True show ?thesis
    by (auto simp: on_redis_eq)
qed

lemma meter_run:
  assumes "run ev w es w'" and "redis_ok (ev_rd ev)" and "meter_on (ev_store ev) m"
    and "meter_inv ev m b t1 0 (w_redis w)" and "EvRedisLoss \<notin> set es"
    and "clock w' < t1 + meter_window (ev_store ev) m * second"
  shows "meter_inv ev m b t1 (int (length (filter (admitted m) es))) (w_redis w')"
  using assms(1,5,6)
proof (induction rule: run.induct)
  case stay
  then show ?case using assms(4) by simp
next
  case (more es w1 e w2)
  then have "meter_inv ev m b t1 (int (length (filter (admitted m) es))) (w_redis w1)"
    using step_clock [OF more.hyps(2)] by simp
  from meter_step [OF more.hyps(2) assms(2,3) this _ more.prems(2)] more.prems(1) show ?case by (auto split: if_splits)
qed

text \<open>Before the counting starts: whatever happened, the meter is in order.\<close>

lemma meter_restart:
  assumes "meter_inv ev m (meter_limit (ev_store ev) m) t1 0 st" and "0 \<le> meter_limit (ev_store ev) m"
  shows "meter_inv ev m (meter_limit (ev_store ev) m) (rs_now st) 0 st"
  using assms by (auto simp: meter_inv_def metering_def metered_def split: option.splits)

lemma meter_fresh:
  assumes "kv (rs_now st) (rs_db st) (meter_key m) = None" and "0 \<le> b"
  shows "meter_inv ev m b (rs_now st) 0 st"
  using assms by (simp add: meter_inv_def metering_def metered_def)

lemma meter_idle:
  assumes "run ev w es w'" and ok: "redis_ok (ev_rd ev)" and on: "meter_on (ev_store ev) m"
    and "kv (clock w) (rs_db (w_redis w)) (meter_key m) = None"
  shows "meter_inv ev m (meter_limit (ev_store ev) m) (clock w') 0 (w_redis w')"
  using assms(1)
proof (induction rule: run.induct)
  let ?b = "meter_limit (ev_store ev) m"
  have pos: "0 \<le> ?b" using on by (simp add: meter_on_def)
  case stay
  then show ?case using meter_fresh [of "w_redis w" m ?b ev] assms(4) pos by (simp add: clock_def)
next
  let ?b = "meter_limit (ev_store ev) m"
  have pos: "0 \<le> ?b" using on by (simp add: meter_on_def)
  case (more es w1 e w2)
  show ?case
  proof (cases "e = EvRedisLoss")
    case True
    then have "w2 = redis_loss w1" using more.hyps(2) by (simp add: step_simps)
    then show ?thesis using meter_fresh [of "w_redis w2" m ?b ev] pos by (simp add: redis_loss_def clock_def)
  next
    case False
    have "meter_inv ev m ?b (clock w1) 0 (w_redis w2)"
      by (rule kept_step [OF more.hyps(2) meter_kept [OF ok on] more.IH False])
        (use meter_later pos in \<open>auto simp: meter_inv_def\<close>)
    from meter_restart [OF this pos] show ?thesis by (simp add: clock_def)
  qed
qed

text \<open>
  C33. The limits per network. Take any history, in which an address (or an address under one
  spelling of a poll's id) had no counter at first, and any stretch of it that is shorter than
  the window and in which Redis loses no data: of the ballots from that address (under that
  spelling of the poll's id) at most twice the limit are admitted in it, and at most the limit if
  it starts with no window open. Retried calls, outages, restarts and other clients make no
  difference. (Another spelling of the same poll's id has a quota of its own.)
\<close>

theorem network_limits:
  assumes "redis_ok (ev_rd ev)" and "meter_on (ev_store ev) m"
    and "kv (clock w) (rs_db (w_redis w)) (meter_key m) = None"
    and "run ev w es1 w1" and "run ev w1 es2 w2" and "EvRedisLoss \<notin> set es2"
    and "clock w2 < clock w1 + meter_window (ev_store ev) m * second"
  shows "int (length (filter (admitted m) es2))
    \<le> (if kv (clock w1) (rs_db (w_redis w1)) (meter_key m) = None then 1 else 2) * meter_limit (ev_store ev) m"
proof -
  let ?b = "if kv (clock w1) (rs_db (w_redis w1)) (meter_key m) = None then 0 else meter_limit (ev_store ev) m"
  have pos: "0 \<le> meter_limit (ev_store ev) m" using assms(2) by (simp add: meter_on_def)
  have "meter_inv ev m ?b (clock w1) 0 (w_redis w1)"
    using meter_idle [OF assms(4,1,2,3)] meter_fresh [of "w_redis w1" m 0 ev] by (simp add: clock_def)
  from meter_run [OF assms(5,1,2) this assms(6,7)] pos show ?thesis
    by (auto simp: meter_inv_def metering_def metered_def split: option.splits if_splits)
qed

text \<open>One ballot a minute from an address.\<close>

definition limited_env :: env where
  "limited_env = demo_env\<lparr>ev_store := (ev_store demo_env)\<lparr>sc_RateLimit := 1, sc_RateWindow := 60 * second\<rparr>\<rparr>"

theorem network_limits_witness:
  "\<exists>r1 r2 w2. run limited_env demo_world [EvCast demo_vote r1, EvCast (demo_vote\<lparr>vc_VoterToken := ''u''\<rparr>) r2] w2
     \<and> ((\<exists>e. r1 = Inl e) \<or> (\<exists>e. r2 = Inl e))"
proof -
  let ?v = "demo_vote\<lparr>vc_VoterToken := ''u''\<rparr>" and ?m = "RateOf ''1''"
  obtain r1 w1 where c1: "do_Cast limited_env demo_vote demo_world = (r1, w1)" by fastforce
  obtain r2 w2 where c2: "do_Cast limited_env ?v w1 = (r2, w2)" by fastforce
  have run: "run limited_env demo_world [EvCast demo_vote r1, EvCast ?v r2] w2"
    using run.more [OF run.more [OF run.stay sys_step.cast [OF c1]] sys_step.cast [OF c2]] by simp
  have rd: "redis_ok (ev_rd limited_env)" by (simp add: limited_env_def mem_redis_ok)
  have on: "meter_on (ev_store limited_env) ?m"
    by (simp add: meter_on_def limited_env_def whole_seconds_def second_def)
  have new: "kv (clock demo_world) (rs_db (w_redis demo_world)) (meter_key ?m) = None"
    using meter_apart(3) [of ?m] by (simp add: kv_def)
  have "clock w2 = clock demo_world"
    using request_clock(1) [of limited_env demo_vote demo_world] request_clock(1) [of limited_env ?v w1] c1 c2 by simp
  then have "clock w2 < clock demo_world + meter_window (ev_store limited_env) ?m * second"
    by (simp add: limited_env_def whole_seconds_def second_def)
  from network_limits [OF rd on new run.stay run _ this]
  have "int (length (filter (admitted ?m) [EvCast demo_vote r1, EvCast ?v r2])) \<le> 1"
    using new by (simp add: limited_env_def)
  then have "(\<exists>e. r1 = Inl e) \<or> (\<exists>e. r2 = Inl e)"
    by (cases r1; cases r2) (simp_all add: charge_def demo_vote_def)
  with run show ?thesis by blast
qed

end
