(* ===== verification/Listing.thy ===== *)
theory Listing
  imports Histories
begin

text \<open>
  The list of polls (\<open>PollService.List\<close> with its three queries): which page comes back, in
  which order, and that every item is the poll as a lookup of its id would find it.
\<close>

subsection \<open>Grouping the options\<close>

definition group_of :: "(string \<times> poll_option list) list \<Rightarrow> string \<Rightarrow> poll_option list" where
  "group_of out c = (case map_of out c of None \<Rightarrow> [] | Some l \<Rightarrow> l)"

lemma group_of_options:
  "group_of (group_options out qs) c = group_of out c @ map option_of_row (filter (\<lambda>q. opt_poll_id q = c) qs)"
  by (induction out qs rule: group_options.induct) (auto simp: group_of_def update_conv' split: option.splits)

lemma options_in_order_of:
  "c \<in> ids \<Longrightarrow> filter (\<lambda>q. opt_poll_id q = c) (options_in_order ids t) = options_of t c"
  by (auto simp: options_in_order_def options_of_def filter_sort intro!: arg_cong [where f = "sort_key _"] filter_cong)

text \<open>A row of the page, completed with its options, is the stored poll.\<close>

lemma item_stored:
  assumes "distinct (map row_id (t_polls t))" and "r \<in> set (t_polls t)" and "row_id r \<in> ids"
  shows "stored_poll t (row_id r) = Some (with_options (group_options [] (options_in_order ids t)) (poll_of_row r))"
proof -
  have "group_of (group_options [] (options_in_order ids t)) (row_id r) = map option_of_row (options_of t (row_id r))"
    unfolding group_of_options options_in_order_of [OF assms(3)] by (simp add: group_of_def)
  with find_by_id [OF assms(1,2)] show ?thesis
    by (simp add: stored_poll_def with_options_def group_of_def poll_of_row_def)
qed

subsection \<open>The order\<close>

definition newest_first :: "world \<Rightarrow> string list \<Rightarrow> bool" where
  "newest_first w ids \<longleftrightarrow> distinct ids \<and> set ids = dom (w_stored w)
     \<and> sorted_wrt (\<lambda>c d. \<forall>p q. w_stored w c = Some p \<longrightarrow> w_stored w d = Some q \<longrightarrow>
         (p_created_at q, d) < (p_created_at p, c)) ids"

lemma row_stored:
  assumes "distinct (map row_id (t_polls t))" and "r \<in> set (t_polls t)"
  shows "\<exists>p. stored_poll t (row_id r) = Some p \<and> p_created_at p = row_created_at r"
  using find_by_id [OF assms] by (simp add: stored_poll_def poll_of_row_def)

lemma rows_newest_first:
  assumes "pg_tables (w_pg w) = t" and "distinct (map row_id (t_polls t))"
  shows "newest_first w (map row_id (rev (sort_key (\<lambda>r. (row_created_at r, row_id r)) (t_polls t))))"
proof -
  have created: "p_created_at p = row_created_at r" if "r \<in> set (t_polls t)" "stored_poll t (row_id r) = Some p" for r p
    using row_stored [OF assms(2) that(1)] that(2) by auto
  let ?key = "\<lambda>r. (row_created_at r, row_id r)" and ?rows = "sort_key (\<lambda>r. (row_created_at r, row_id r)) (t_polls t)"
  have st: "w_stored w = stored_poll t" using assms(1) by (simp add: w_stored_def pg_stored_def fun_eq_iff)
  have ids: "distinct (map row_id ?rows)" "distinct ?rows"
    using assms(2) by (simp_all add: distinct_map)
  have "c \<in> dom (stored_poll t) \<longleftrightarrow> c \<in> row_id ` set (t_polls t)" for c using stored_poll_None [of t c] by auto
  then have "dom (stored_poll t) = row_id ` set (t_polls t)" by blast
  moreover have "sorted_wrt (\<lambda>r s. ?key s < ?key r) (rev ?rows)"
  proof -
    have "sorted_wrt (\<lambda>r s. ?key r \<le> ?key s \<and> row_id r \<noteq> row_id s) ?rows"
      using sorted_sort_key [of ?key "t_polls t"] ids(1)
      by (simp add: sorted_map sorted_wrt_map distinct_conv_nth sorted_wrt_iff_nth_less)
    then show ?thesis unfolding sorted_wrt_rev by (rule sorted_wrt_mono_rel [rotated]) (auto simp: less_le)
  qed
  then have "sorted_wrt (\<lambda>c d. \<forall>p q. stored_poll t c = Some p \<longrightarrow> stored_poll t d = Some q \<longrightarrow>
      (p_created_at q, d) < (p_created_at p, c)) (map row_id (rev ?rows))"
    unfolding sorted_wrt_map by (rule sorted_wrt_mono_rel [rotated]) (auto simp: created)
  moreover have "distinct (map row_id (rev ?rows))" using ids(1) unfolding rev_map [symmetric] distinct_rev .
  ultimately show ?thesis by (simp add: newest_first_def st)
qed

subsection \<open>The page\<close>

lemma row_id_poll: "p_id (poll_of_row r) = row_id r"
  by (simp add: poll_of_row_def)

text \<open>What the three queries answer, when they answer.\<close>

lemma page_items:
  assumes ok: "tables_ok cod t" and canon: "codec_ok cod"
    and page: "rows = page_of limit offset t" and ids: "uuid_args cod (map row_id rows) = Some is"
  shows "map (\<lambda>p. Some (with_options (group_options [] (options_in_order (set is) t)) p)) (map poll_of_row rows)
    = map (stored_poll t) (map row_id rows)"
proof -
  have dist: "distinct (map row_id (t_polls t))" using ok by (simp add: tables_ok_def)
  have rows: "set rows \<subseteq> set (t_polls t)"
    unfolding page page_of_def by (auto dest!: in_set_takeD in_set_dropD)
  with ok have "\<forall>k \<in> set (map row_id rows). pg_uuid cod k = Some k" by (auto simp: tables_ok_def)
  with ids have "is = map row_id rows" by (simp add: uuid_args_canonical)
  moreover have "Some (with_options (group_options [] (options_in_order (row_id ` set rows) t)) (poll_of_row x))
      = stored_poll t (row_id x)" if "x \<in> set rows" for x
    using item_stored [OF dist, of x "row_id ` set rows"] rows that by auto
  ultimately show ?thesis by simp
qed

lemma list_outcome:
  assumes inv: "pg_inv (ev_cod ev) (w_pg w)" and lim: "page_limits (ev_limits ev) l k = (limit, offset)" "0 \<le> limit" "0 \<le> offset"
    and run: "do_List ev l k w = (r, w')"
  shows "case r of Inl e \<Rightarrow> CodeOf e = CodeUnavailable
    | Inr page \<Rightarrow> pg_Limit page = limit \<and> pg_Offset page = offset
        \<and> pg_Total page = int (length (t_polls (pg_tables (w_pg w))))
        \<and> map Some (pg_Items page) = map (w_stored w) (map row_id (page_of limit offset (pg_tables (w_pg w))))"
proof -
  let ?t = "pg_tables (w_pg w)"
  note pg = pg_invD [OF inv]
  have st: "w_stored w = stored_poll ?t" by (simp add: w_stored_def pg_stored_def fun_eq_iff)
  show ?thesis
    using run pg(1,2) lim page_items [OF pg(2,1) refl, of limit offset]
    by (auto simp: do_List_def poll_List_def repo_CountPolls_def repo_ListPollPage_def repo_ListOptionsByPollIDs_def
        go_try_eq_Inl go_try_eq_Inr on_pg_eq pg_query_eq st row_id_poll o_def comp_def split: sum.splits if_splits option.splits prod.splits)
qed

text \<open>
  C34. The list of polls. A page that comes back is a contiguous part of all polls in order of
  creation, newest first (and by descending id at the same instant), from the requested offset
  (0 for a negative one) and at most as long as the limit in force: the requested one, or the
  configured default when none was, and never above the configured maximum. Every item is
  complete, with the options that a lookup of the poll in the database finds, and the total
  counts all polls. Listing changes nothing; an error is "unavailable".
\<close>

theorem list_effect:
  assumes "world_inv ev w" and "limits_ok (ev_limits ev)" and "do_List ev l k w = (r, w')"
  shows "same_data ev w w' \<and> (case r of Inl e \<Rightarrow> CodeOf e = CodeUnavailable
    | Inr page \<Rightarrow> 1 \<le> pg_Limit page \<and> pg_Limit page \<le> pl_MaxPageSize (ev_limits ev) \<and> pg_Offset page = max 0 k
        \<and> pg_Limit page = min (pl_MaxPageSize (ev_limits ev)) (if l \<le> 0 then pl_DefaultPageSize (ev_limits ev) else l)
        \<and> pg_Total page = int (card (dom (w_stored w)))
        \<and> (\<exists>ids. newest_first w ids \<and> map Some (pg_Items page)
              = map (w_stored w) (take (nat (pg_Limit page)) (drop (nat (pg_Offset page)) ids))))"
proof -
  have inv: "pg_inv (ev_cod ev) (w_pg w)" using assms(1) by (simp add: world_inv_def base_inv_def)
  obtain limit offset where lim: "page_limits (ev_limits ev) l k = (limit, offset)" by fastforce
  note range = page_limits_range(1-3) [OF assms(2) lim]
  have forced: "offset = max 0 k" "limit = min (pl_MaxPageSize (ev_limits ev)) (if l \<le> 0 then pl_DefaultPageSize (ev_limits ev) else l)"
    using lim by (auto simp: page_limits_def Let_def split: if_splits)
  define ids where "ids = map row_id (rev (sort_key (\<lambda>r. (row_created_at r, row_id r)) (t_polls (pg_tables (w_pg w)))))"
  have new: "newest_first w ids" unfolding ids_def by (rule rows_newest_first [OF refl pg_invD(4) [OF inv]])
  then have "length ids = card (dom (w_stored w))" using distinct_card [of ids] by (simp add: newest_first_def)
  then have total: "length (t_polls (pg_tables (w_pg w))) = card (dom (w_stored w))" by (simp add: ids_def)
  have "map row_id (page_of limit offset (pg_tables (w_pg w))) = take (nat limit) (drop (nat offset) ids)"
    by (simp add: ids_def page_of_def take_map drop_map)
  note out = list_outcome [OF inv lim _ range(3) assms(3), unfolded this total]
  have "same_data ev w w'" using list_same [OF assms(1), of l k] assms(3) by simp
  with out range new forced show ?thesis by (cases r) auto
qed

lemma demo_page: "\<exists>page. fst (do_List demo_env 0 0 demo_world) = Inr page"
  by (simp add: do_List_def poll_List_def page_limits_def demo_env_def demo_world_def repo_CountPolls_def repo_ListPollPage_def
      repo_ListOptionsByPollIDs_def on_pg_def pg_query_def pg_fate_of_def pg_tick_def page_of_def demo_tables_def
      demo_cod_def row_id_poll)

theorem list_effect_witness:
  "\<exists>page. fst (do_List demo_env 0 0 demo_world) = Inr page \<and> pg_Total page = int (card (dom (w_stored demo_world)))"
proof -
  have "limits_ok (ev_limits demo_env)" by (simp add: limits_ok_def demo_env_def)
  from list_effect [OF demo_inv this surjective_pairing, of 0 0] demo_page show ?thesis by auto
qed

end
