(* ===== verification/Readback.thy ===== *)
theory Readback
  imports Staleness Liveness
begin

text \<open>
  Creating and reading back: what a client gets under the id of a poll it created is that
  poll, with the status it has reached since, although the answer may come from a cache and
  that cache may have answered "missing" for the same id before.
\<close>

subsection \<open>Runs in sequence\<close>

lemma visits_first: "visits ev w es ws w' \<Longrightarrow> \<exists>vs. ws = w # vs"
  by (induction rule: visits.induct) auto

lemma visits_append:
  assumes "visits ev w es ws w1" and "visits ev w1 fs vs w2"
  shows "visits ev w (es @ fs) (ws @ tl vs) w2"
  using assms(2)
proof (induction rule: visits.induct)
  case here
  then show ?case using assms(1) by simp
next
  case (further fs vs v1 e v2)
  obtain us where "vs = w1 # us" using visits_first [OF further.hyps(1)] by blast
  with visits.further [OF further.IH further.hyps(2)] show ?case by simp
qed

text \<open>Every visited state lies between the first and the last.\<close>

lemma visits_between:
  assumes "visits ev w es ws w'" and "world_inv ev w" and "roomy ev w es" and "v \<in> set ws"
  shows "onward w v \<and> onward v w'"
  using assms(1,3,4)
proof (induction arbitrary: v rule: visits.induct)
  case here
  then show ?case by simp
next
  case (further es ws w1 e w2)
  note ok = run_oks [OF visits_run [OF further.hyps(1)] assms(2) roomy_butlast [OF further.prems(1)]]
  have "onward w1 w2"
    using run_oks [OF run.more [OF run.stay further.hyps(2)], simplified] ok roomy_parts(2) [OF ok further.prems(1)]
    by (simp add: run_ok_def)
  with further.IH [OF roomy_butlast [OF further.prems(1)]] further.prems(2) ok show ?case
    by (auto simp: run_ok_def intro: onward_trans)
qed

lemma create_stored:
  assumes "world_inv ev w" and "do_Create ev cmd w = (Inr p, w')"
  shows "w_stored w (p_id p) = None" "w_stored w' (p_id p) = Some (stamped (pg_time (ev_cod ev)) p)"
    "pg_inv (ev_cod ev) (w_pg w')"
  using create_facts [OF assms] by (auto simp: world_inv_def base_inv_def)

text \<open>
  C36. Created polls are read back. Take any history from empty caches in which a poll is
  created, and any request for it later, under any spelling of its id, that is answered with
  a poll: the answer has the question, type, limit, options, order and window that creation
  returned, with the instants at the resolution of the database, and at most its status has
  moved on. In particular no answer is left over from before the creation.
\<close>

theorem created_polls_read_back:
  assumes "world_inv ev w" and "cold ev w" and "visits ev w es ws w1" and "do_Create ev cmd w1 = (Inr p, w2)"
    and "visits ev w2 fs vs w3" and "roomy ev w (es @ [EvCreate cmd (Inr p)] @ fs)"
    and "do_Get ev i w3 = (Inr q, w4)" and "pg_uuid (ev_cod ev) i = Some (p_id p)"
  shows "evolves (stamped (pg_time (ev_cod ev)) p) q"
proof -
  let ?e = "EvCreate cmd (Inr p)"
  have start: "visits ev w (es @ [?e]) (ws @ [w2]) w2" using visits.further [OF assms(3) sys_step.create [OF assms(4)]] .
  note all = visits_append [OF start assms(5)]
  have room: "roomy ev w ((es @ [?e]) @ fs)" "roomy ev w (es @ ([?e] @ fs))" using assms(6) by simp_all
  note ok1 = run_oks [OF visits_run [OF assms(3)] assms(1) roomy_prefix [OF room(2)]]
  note ok2 = run_oks [OF visits_run [OF start] assms(1) roomy_prefix [OF room(1)]]
  have inv: "world_inv ev w1" "world_inv ev w2" using ok1 ok2 by (simp_all add: run_ok_def)
  have new: "w_stored w1 (p_id p) = None" "w_stored w2 (p_id p) = Some (stamped (pg_time (ev_cod ev)) p)"
    using create_stored [OF inv(1) assms(4)] by blast+
  have "world_inv ev w3" using run_oks [OF visits_run [OF all] assms(1) room(1)] by (simp add: run_ok_def)
  then have "serves ev w3 i q" using get_facts(3) [OF _ assms(7) refl] by blast
  from served_current [OF all assms(1,2) room(1) this]
  obtain v where v: "v \<in> set ((ws @ [w2]) @ tl vs)" "w_stored v (p_id p) = Some q"
    unfolding was_current_def assms(8) by blast
  have "v \<in> set vs"
  proof (rule ccontr)
    assume "v \<notin> set vs"
    with v(1) visits_first [OF assms(5)] have "v \<in> set ws" by (auto dest: list.set_sel(2) [rotated])
    from visits_between [OF assms(3,1) roomy_prefix [OF room(2)] this] have "onward v w1" by blast
    with v(2) new(1) show False unfolding onward_def by fastforce
  qed
  from visits_between [OF assms(5) inv(2) roomy_parts(2) [OF ok2 room(1)] this] have "onward w2 v" by blast
  with new(2) v(2) show ?thesis unfolding onward_def by fastforce
qed

subsection \<open>A poll created and read\<close>

definition demo_made :: poll where
  "demo_made = \<lparr>p_id = ''0'', p_question = ''Lunch?'', p_type = ''single'', p_max_choices = 1, p_status = ''draft'',
     p_options = [\<lparr>o_id = ''1'', o_text = ''Soup'', o_position = 0\<rparr>, \<lparr>o_id = ''2'', o_text = ''Salad'', o_position = 1\<rparr>],
     p_created_at = 1000, p_starts_at = None, p_ends_at = None, p_finished_at = None\<rparr>"

lemma plain_words:
  "trim_space ''Lunch?'' = ''Lunch?''" "trim_space ''Soup'' = ''Soup''" "trim_space ''Salad'' = ''Salad''"
  by (rule trim_space_plain; simp add: plain_char_def byte_of_def char_in_def)+

lemma demo_built: "buildPoll (main_polls demo_env) demo_create demo_world = (Inr demo_made, demo_world\<lparr>w_drawn := 3\<rparr>)"
proof -
  have texts: "option_texts (cp_Options demo_create) = [''Soup'', ''Salad'']"
    by (simp add: option_texts_def demo_create_def plain_words)
  have "command_ok (ev_limits demo_env) demo_create"
    using rune_count_le_length [of "''Lunch?''"] rune_count_le_length [of "''Soup''"] rune_count_le_length [of "''Salad''"]
    by (simp add: command_ok_def texts) (simp add: demo_create_def demo_env_def plain_words window_ok_def)
  then have "poll_fields (ev_limits demo_env) demo_create = Inr (''Lunch?'', ''single'', [''Soup'', ''Salad''], 1)"
    unfolding poll_fields_Inr texts by (simp add: demo_create_def plain_words chosen_type_def chosen_max_def)
  moreover have "digits 0 = ''0''" "digits 1 = ''1''" "digits (Suc (Suc 0)) = ''2''"
    by code_simp+
  ultimately show ?thesis
    by (simp add: buildPoll_def NewString_def demo_made_def itoa_def demo_create_def clock_def)
      (simp add: demo_env_def demo_world_def itoa_def)
qed

lemma demo_uuids: "pg_uuid demo_cod ''0'' = Some ''0''" "pg_uuid demo_cod ''1'' = Some ''1''" "pg_uuid demo_cod ''2'' = Some ''2''"
  by (simp_all add: demo_cod_def lower_char_def char_in_def byte_of_def)

lemma demo_codec: "pg_text demo_cod s" "pg_time demo_cod t = t"
  by (simp_all add: demo_cod_def)

lemma demo_stored_new: "\<exists>s. store_new (NewPollRepository demo_cod) demo_made (w_pg demo_world) = (Inr (), s) \<and> pg_fates s = []"
  by (simp add: store_new_def NewPollRepository_def repo_BeginTx_def pollTx_def pg_fate_of_def pg_tick_def
      pollTx_InsertPoll_def pollTx_InsertPollOptions_def pollTx_InsertZeroResults_def pollTx_Commit_def pollTx_Rollback_def
      tx_exec_def tx_commit_def Let_def insert_poll_def poll_row_of_def option_row_of_def demo_made_def demo_uuids demo_codec
      fits_int32_def poll_row_ok_def poll_known_def option_known_def option_insertable_def option_row_ok_def result_insertable_def
      empty_tables_def blank_def demo_tables_def)

lemma demo_made_read:
  assumes "w_local w = New_Cache demo_env" and "rs_db (w_redis w) = rs_db (w_redis demo_world)"
    and "rs_now (w_redis w) = 1000" and "rs_fates (w_redis w) = []" and "pg_fates (w_pg w) = []"
    and "pg_inv demo_cod (w_pg w)" and "w_stored w ''0'' = Some p"
  shows "fst (do_Get demo_env ''0'' w) = Inr p"
proof -
  have miss: "local_Get (main_cache demo_env) ''0'' w = (None, w)"
    using assms(1) by (cases w) (simp add: local_Get_def New_Cache_def new_get)
  have "rd_GET mem_redis 1000 (keyPrefix @ ''0'') (rs_db (w_redis demo_world)) = (Inr None, rs_db (w_redis demo_world))"
    by (simp add: mem_redis_def kv_def)
  then have tier: "rstore_Get mem_redis demo_json ''0'' (w_redis w) = (Inr None, w_redis w)"
    using assms(2-4) by (cases "w_redis w") (simp add: rstore_Get_def redis_call_plain)
  obtain r st where get: "repo_GetPoll demo_cod ''0'' (w_pg w) = (r, st)" by fastforce
  have st: "stored_poll (pg_tables (w_pg w)) ''0'' = Some p" using assms(7) by (simp add: w_stored_def pg_stored_def)
  have "r = Inr p"
  proof (cases r)
    case (Inl e)
    from repo_GetPoll_cases(3) [OF pg_invD(4) [OF assms(6)] get Inl] get_live(2) [OF assms(5) demo_uuids(1) get Inl] st
    show ?thesis by (auto simp: demo_uuids)
  next
    case (Inr q)
    from repo_GetPoll_cases(2) [OF pg_invD(4) [OF assms(6)] get Inr] st Inr show ?thesis by (auto simp: demo_uuids)
  qed
  with get show ?thesis
    by (simp add: do_Get_def poll_Get_def main_polls_def cache_Poll_def cache_resolve_def miss tier on_redis_def
        resolve_origin_def cache_store_def Let_def on_pg_def local_Set_def unwrap_def split: prod.split go_try_splits)
qed

theorem created_polls_read_back_witness:
  "\<exists>w2 q. do_Create demo_env demo_create demo_world = (Inr demo_made, w2) \<and> fst (do_Get demo_env ''0'' w2) = Inr q
     \<and> evolves demo_made q"
proof -
  obtain s where s: "store_new (NewPollRepository demo_cod) demo_made (w_pg demo_world) = (Inr (), s)" "pg_fates s = []"
    using demo_stored_new by blast
  define w2 where "w2 = demo_world\<lparr>w_drawn := 3, w_pg := s\<rparr>"
  have run: "do_Create demo_env demo_create demo_world = (Inr demo_made, w2)"
    using s(1) by (simp add: do_Create_def poll_Create_def demo_built store_new_on_pg main_repo_def on_pg_def w2_def)
  have id: "p_id demo_made = ''0''" by (simp add: demo_made_def)
  have inv: "pg_inv demo_cod (w_pg w2)" using create_stored(3) [OF demo_inv run] unfolding demo_fields .
  have same: "stamped (pg_time (ev_cod demo_env)) demo_made = demo_made"
    by (simp add: stamped_def demo_made_def demo_codec)
  have st: "w_stored w2 ''0'' = Some demo_made"
    using create_stored(2) [OF demo_inv run] unfolding same id .
  have get: "fst (do_Get demo_env ''0'' w2) = Inr demo_made"
    by (rule demo_made_read [OF _ _ _ _ _ inv st]) (simp_all add: w2_def s(2))
  then obtain w4 where "do_Get demo_env ''0'' w2 = (Inr demo_made, w4)" by (metis prod.collapse)
  moreover have "roomy demo_env demo_world ([] @ [EvCreate demo_create (Inr demo_made)] @ [])"
    by (simp add: roomy_def demo_votes max_int64_def)
  moreover have "pg_uuid (ev_cod demo_env) ''0'' = Some (p_id demo_made)" by (simp add: demo_uuids id)
  ultimately have "evolves (stamped (pg_time (ev_cod demo_env)) demo_made) demo_made"
    by (intro created_polls_read_back [OF demo_inv demo_cold visits.here run visits.here])
  then have "evolves demo_made demo_made" unfolding same .
  with run get show ?thesis by blast
qed

end
