(* ===== verification/Ttl_Refinement.thy ===== *)
theory Ttl_Refinement
  imports Ttl_Cache
begin

text \<open>
  The whole in-process cache against its specification: sixteen plain lists of entries, most
  recently used first, of bounded length, without the maps, the list elements and their
  identities. Every sequence of operations gets the same answers from both.
\<close>

subsection \<open>The specification\<close>

type_synonym 'v lists = "nat \<Rightarrow> 'v centry list"

fun lru_op :: "(string \<Rightarrow> nat) \<Rightarrow> int \<Rightarrow> 'v cache_op \<Rightarrow> 'v lists \<Rightarrow> 'v option list \<times> 'v lists" where
  "lru_op index cap (CGet k now) L =
     (case lru_Get k now (L (index k)) of (r, es) \<Rightarrow> ([r], L(index k := es)))"
| "lru_op index cap (CSet k v d now) L =
     ([], if d \<le> 0 then L else L(index k := lru_Set k v d now cap (L (index k))))"
| "lru_op index cap (CDelete k) L = ([], L(index k := drop_key k (L (index k))))"

fun lru_answers :: "(string \<Rightarrow> nat) \<Rightarrow> int \<Rightarrow> 'v lists \<Rightarrow> 'v cache_op list \<Rightarrow> 'v option list" where
  "lru_answers index cap L [] = []"
| "lru_answers index cap L (x # xs) =
     (case lru_op index cap x L of (rs, L') \<Rightarrow> rs @ lru_answers index cap L' xs)"

text \<open>What the code answers.\<close>

fun cache_answer :: "'v ttl \<Rightarrow> 'v cache_op \<Rightarrow> 'v option list" where
  "cache_answer c (CGet k now) = [fst (ttl_Get k now c)]"
| "cache_answer c _ = []"

fun cache_answers :: "'v ttl \<Rightarrow> 'v cache_op list \<Rightarrow> 'v option list" where
  "cache_answers c [] = []"
| "cache_answers c (x # xs) = cache_answer c x @ cache_answers (cache_step c x) xs"

subsection \<open>The simulation\<close>

definition lists_of :: "'v ttl \<Rightarrow> 'v lists" where
  "lists_of c i = (if i < shardCount then entries_of (t_shards c ! i) else [])"

lemma lists_of_index [simp]: "lists_of c (shard_index c k) = entries_of (shardFor c k)"
  by (simp add: lists_of_def shardFor_def shard_index_lt)

lemma lists_of_put:
  "ttl_ok c \<Longrightarrow> lists_of (put_shard c k s) = (lists_of c)(shard_index c k := entries_of s)"
  using shard_index_lt [of c k] by (auto simp: fun_eq_iff lists_of_def put_shard_def ttl_ok_def nth_list_update)

definition shards_of_size :: "int \<Rightarrow> 'v ttl \<Rightarrow> bool" where
  "shards_of_size cap c \<longleftrightarrow> map sh_capacity (t_shards c) = replicate shardCount cap"

lemma shardFor_capacity:
  assumes "ttl_ok c" and "shards_of_size cap c"
  shows "sh_capacity (shardFor c k) = cap"
proof -
  have "shard_index c k < length (t_shards c)" using assms(1) shard_index_lt [of c k] by (simp add: ttl_ok_def)
  then have "sh_capacity (shardFor c k) = map sh_capacity (t_shards c) ! shard_index c k" by (simp add: shardFor_def)
  with assms(2) shard_index_lt [of c k] show ?thesis by (simp add: shards_of_size_def)
qed

lemma same_hash [simp]: "t_hash (cache_step c x) = t_hash c"
  by (cases x) (simp_all add: ttl_Get_def ttl_Set_def ttl_Delete_def put_shard_def split_def Let_def)

lemma step_simulates:
  assumes ok: "ttl_ok c" and cap: "shards_of_size cap c"
  shows "lru_op (shard_index c) cap x (lists_of c) = (cache_answer c x, lists_of (cache_step c x))"
proof (cases x)
  case (CGet k now)
  from shard_Get_refines(2,3) [OF shardFor_ok [OF ok, of k], of k now] CGet show ?thesis
    by (simp add: ttl_Get_def lists_of_put [OF ok] split_def Let_def)
next
  case (CSet k v d now)
  from shard_Set_refines(2) [OF shardFor_ok [OF ok, of k], of k v d now] CSet show ?thesis
    by (simp add: ttl_Set_def lists_of_put [OF ok] shardFor_capacity [OF ok cap])
next
  case (CDelete k)
  from shard_Delete_refines(2) [OF shardFor_ok [OF ok, of k], of k] CDelete show ?thesis
    by (simp add: ttl_Delete_def lists_of_put [OF ok])
qed

lemma answers_simulate:
  assumes "ttl_ok c" and "shards_of_size cap c"
  shows "cache_answers c xs = lru_answers (shard_index c) cap (lists_of c) xs"
  using assms
proof (induction xs arbitrary: c)
  case (Cons x xs)
  have same: "shard_index (cache_step c x) = shard_index c" by (simp add: shard_index_def fun_eq_iff)
  have "shards_of_size cap (cache_step c x)" using Cons.prems by (simp add: shards_of_size_def cache_step_capacity)
  from Cons.IH [OF cache_step_ok [OF Cons.prems(1)] this] show ?case
    by (simp add: step_simulates [OF Cons.prems] same)
qed simp

text \<open>
  C37. The in-process cache is a bounded recency cache. For every hash, every capacity and
  every sequence of lookups, insertions and deletions, a new cache answers each lookup as
  sixteen plain lists do: a hit moves its entry to the front, an entry found after its
  deadline is dropped, an insertion replaces the entry of its key or, when the list is full,
  the least recently used one, and an insertion without a lifetime does nothing.
\<close>

theorem cache_refines_lists:
  fixes ops :: "'v cache_op list"
  shows "cache_answers (NewTTL h capacity) ops =
     lru_answers (\<lambda>k. unat (h k mod 16)) (max 1 (go_div capacity 16)) (\<lambda>_. []) ops"
proof -
  let ?c = "NewTTL h capacity :: 'v ttl"
  have "shards_of_size (max 1 (go_div capacity 16)) ?c" by (simp add: shards_of_size_def NewTTL_capacity)
  from answers_simulate [OF NewTTL_ok this]
  have "cache_answers ?c ops = lru_answers (shard_index ?c) (max 1 (go_div capacity 16)) (lists_of ?c) ops" .
  moreover have "shard_index ?c = (\<lambda>k. unat (h k mod 16))"
    by (simp add: fun_eq_iff shard_index_def NewTTL_def Let_def)
  moreover have "lists_of ?c = (\<lambda>_. [])"
    by (auto simp: fun_eq_iff lists_of_def NewTTL_def Let_def entries_of_def)
  ultimately show ?thesis by simp
qed

end
