(* ===== verification/Call_Budget.thy ===== *)
theory Call_Budget
  imports Requests
begin

text \<open>
  How much work a request is: the number of calls to Redis and to PostgreSQL that each
  request and the synchronisation pass make before they return. Every call consumes one fate
  of its server, so the calls made are the fates that are gone. Since each call is bounded by
  the timeouts of its driver, so is the request.
\<close>

subsection \<open>Counting calls\<close>

text \<open>From \<open>w\<close> to \<open>v\<close> there were at most \<open>a\<close> calls to Redis and \<open>b\<close> to PostgreSQL.\<close>

definition spent :: "nat \<Rightarrow> nat \<Rightarrow> world \<Rightarrow> world \<Rightarrow> bool" where
  "spent a b w v \<longleftrightarrow> (\<exists>k \<le> a. rs_fates (w_redis v) = drop k (rs_fates (w_redis w)))
     \<and> (\<exists>k \<le> b. pg_fates (w_pg v) = drop k (pg_fates (w_pg w)))"

lemma spent_here: "spent 0 0 w w"
  by (simp add: spent_def)

lemma spent_mono: "spent a b w v \<Longrightarrow> a \<le> c \<Longrightarrow> b \<le> d \<Longrightarrow> spent c d w v"
  unfolding spent_def by (meson order_trans)

lemma spent_same:
  "spent a b w v \<Longrightarrow> rs_fates (w_redis u) = rs_fates (w_redis v) \<Longrightarrow> pg_fates (w_pg u) = pg_fates (w_pg v) \<Longrightarrow> spent a b w u"
  by (simp add: spent_def)

lemma drop_at_most:
  "\<exists>k \<le> a. xs = drop k ys \<Longrightarrow> zs = xs \<or> zs = tl xs \<Longrightarrow> \<exists>k \<le> Suc a. zs = drop k ys"
  by (metis drop_Suc le_SucI Suc_le_mono tl_drop)

lemma spent_redis:
  assumes "spent a b w v" and "rs_fates (snd (f (w_redis v))) = rs_fates (w_redis v) \<or> rs_fates (snd (f (w_redis v))) = tl (rs_fates (w_redis v))"
  shows "spent (Suc a) b w (snd (on_redis f v))"
  using assms drop_at_most [of a "rs_fates (w_redis v)"] by (simp add: spent_def)

lemma spent_pg:
  assumes "spent a b w v" and "pg_fates (snd (f (w_pg v))) = pg_fates (w_pg v) \<or> pg_fates (snd (f (w_pg v))) = tl (pg_fates (w_pg v))"
  shows "spent a (Suc b) w (snd (on_pg f v))"
  using assms drop_at_most [of b "pg_fates (w_pg v)"] by (simp add: spent_def)

text \<open>Along a chain of calls: an error ends it, a value goes on.\<close>

lemma spent_try:
  assumes "spent a b w (snd r)" and "\<And>v s. spent a b w s \<Longrightarrow> spent c d w (snd (k v s))" and "a \<le> c" and "b \<le> d"
  shows "spent c d w (snd (go_try r f k))"
  using assms spent_mono [OF assms(1,3,4)] by (auto split: go_try_splits)

lemma spent_end:
  assumes "spent a b w (snd r)" and "a \<le> c" and "b \<le> d"
  shows "spent c d w (snd (go_try r f (\<lambda>v s. (g v, s))))"
  by (rule spent_try [OF assms(1) _ assms(2,3)]) (use assms(2,3) spent_mono in simp)

subsection \<open>The calls of the ports\<close>

lemma call_fates: "rs_fates (snd (redis_call cmd st)) = tl (rs_fates st)"
  by (simp add: redis_call_def Let_def split: fate.splits prod.splits)

lemma query_fates: "pg_fates (snd (pg_query q st)) = tl (pg_fates st)" "pg_fates (snd (pg_exec e st)) = tl (pg_fates st)"
  by (auto simp: pg_query_def pg_exec_def pg_tick_def split: pg_fate.splits sum.splits prod.splits)

lemma try_redis:
  assumes "\<And>v s. rs_fates (snd (k v s)) = rs_fates s"
  shows "rs_fates (snd (go_try (redis_call cmd st) f k)) = tl (rs_fates st)"
  using call_fates [of cmd st] assms by (auto split: go_try_splits)

lemma try_query:
  assumes "\<And>v s. pg_fates (snd (k v s)) = pg_fates s"
  shows "pg_fates (snd (go_try (pg_query q st) f k)) = tl (pg_fates st)"
  using query_fates(1) [of q st] assms by (auto split: go_try_splits)

lemma try_exec:
  assumes "\<And>v s. pg_fates (snd (k v s)) = pg_fates s"
  shows "pg_fates (snd (go_try (pg_exec e st) f k)) = tl (pg_fates st)"
  using query_fates(2) [of e st] assms by (auto split: go_try_splits)

lemma store_calls:
  assumes "spent a b w v"
  shows "spent (Suc a) b w (snd (vs_Guard (main_store ev) g v))" "spent (Suc a) b w (snd (vs_CastBallot (main_store ev) bl v))"
    "spent (Suc a) b w (snd (vs_Counters (main_store ev) p ids v))" "spent (Suc a) b w (snd (vs_TrackPoll (main_store ev) p v))"
    "spent (Suc a) b w (snd (vs_TrackedPolls (main_store ev) v))" "spent (Suc a) b w (snd (vs_UntrackPoll (main_store ev) p v))"
  unfolding main_simps store_Guard_def store_CastBallot_def store_Counters_def store_TrackPoll_def store_TrackedPolls_def
    store_UntrackPoll_def Let_def
  by (rule spent_redis [OF assms]; simp add: try_redis)+

lemma tier_calls:
  assumes "spent a b w v"
  shows "spent (Suc a) b w (snd (ss_Get (ca_shared (main_cache ev)) k v))"
    "spent (Suc a) b w (snd (ss_Set (ca_shared (main_cache ev)) k en d v))"
    "spent (Suc a) b w (snd (ss_Delete (ca_shared (main_cache ev)) k v))"
  unfolding tier_simps rstore_Get_def rstore_Set_def rstore_Delete_def
  by (rule spent_redis [OF assms]; simp add: try_redis split: option.split)+

lemma repo_calls:
  assumes "spent a b w v"
  shows "spent a (Suc b) w (snd (pr_GetPoll (main_repo ev) i v))" "spent a (Suc b) w (snd (pr_CountPolls (main_repo ev) v))"
    "spent a (Suc b) w (snd (pr_ListPollPage (main_repo ev) l k v))"
    "spent a (Suc b) w (snd (pr_ListOptionsByPollIDs (main_repo ev) is v))"
    "spent a (Suc b) w (snd (pr_UpdatePollStatus (main_repo ev) i fr to t v))"
    "spent a (Suc b) w (snd (pr_GetPollStatus (main_repo ev) i v))" "spent a (Suc b) w (snd (pr_GetResults (main_repo ev) i v))"
    "spent a (Suc b) w (snd (pr_SaveResults (main_repo ev) i m v))"
  unfolding main_simps repo_GetPoll_def repo_CountPolls_def repo_ListPollPage_def repo_ListOptionsByPollIDs_def
    repo_UpdatePollStatus_def repo_GetPollStatus_def repo_GetResults_def repo_SaveResults_def Let_def
  by (rule spent_pg [OF assms]; simp add: try_query try_exec)+

lemma local_calls:
  "spent a b w v \<Longrightarrow> spent a b w (snd (local_Get (main_cache ev) k v))"
  "spent a b w v \<Longrightarrow> spent a b w (local_Set (main_cache ev) k en d v)"
  "spent a b w v \<Longrightarrow> spent a b w (local_Delete (main_cache ev) k v)"
  by (auto simp: local_Get_def local_Set_def local_Delete_def spent_def split: prod.split)

subsection \<open>The cache\<close>

lemma store_cache_calls:
  "spent a b w v \<Longrightarrow> spent (Suc a) b w (snd (cache_store (main_cache ev) k en d v))"
  unfolding cache_store_def Let_def snd_conv by (intro local_calls(2) tier_calls(2))

lemma origin_calls:
  assumes "spent a b w v"
  shows "spent (Suc a) (Suc b) w (snd (resolve_origin (main_cache ev) k v))"
proof -
  obtain r s where r: "ca_origin (main_cache ev) k v = (r, s)" by fastforce
  then have s: "spent a (Suc b) w s" using repo_calls(1) [OF assms, of ev k] by (simp add: on_pg_eq) auto
  note stored = store_cache_calls [OF s, of ev k] spent_mono [OF s, of "Suc a" "Suc b"]
  show ?thesis
    using stored r by (cases r) (simp_all add: resolve_origin_def split_def del: tier_simps)
qed

lemma resolve_calls:
  assumes "spent a b w v"
  shows "spent (a + 2) (Suc b) w (snd (cache_resolve (main_cache ev) k v))"
proof -
  obtain r s where l: "local_Get (main_cache ev) k v = (r, s)" by fastforce
  have s: "spent a b w s" using local_calls(1) [OF assms, of ev k] l by simp
  obtain q u where g: "ss_Get (ca_shared (main_cache ev)) k s = (q, u)" by fastforce
  have u: "spent (Suc a) b w u" using tier_calls(1) [OF s, of ev k] unfolding g by simp
  have far: "spent (a + 2) (Suc b) w (snd (resolve_origin (main_cache ev) k u))" using origin_calls [OF u, of ev k] by simp
  have near: "spent (a + 2) (Suc b) w (local_Set (main_cache ev) k en d u)" for en d
    using local_calls(2) [OF u] by (rule spent_mono) simp_all
  have here: "spent (a + 2) (Suc b) w s" using s by (rule spent_mono) simp_all
  show ?thesis
    using far near here by (simp add: cache_resolve_def l g del: tier_simps split: option.split sum.split)
qed

lemma poll_calls:
  assumes "spent a b w v"
  shows "spent (a + 2) (Suc b) w (snd (cache_Poll (main_cache ev) k v))"
proof -
  obtain r s where l: "local_Get (main_cache ev) k v = (r, s)" by fastforce
  have s: "spent a b w s" using local_calls(1) [OF assms, of ev k] l by simp
  obtain q u where c: "cache_resolve (main_cache ev) k s = (q, u)" by fastforce
  have "spent (a + 2) (Suc b) w u" using resolve_calls [OF s, of ev k] unfolding c by simp
  moreover have "spent (a + 2) (Suc b) w s" using s by (rule spent_mono) simp_all
  ultimately show ?thesis by (simp add: cache_Poll_def l c split: option.split sum.split)
qed

lemma invalidate_calls:
  assumes "spent a b w v"
  shows "spent (Suc a) b w (snd (cache_Invalidate (main_cache ev) k v))"
  unfolding cache_Invalidate_def
  by (rule spent_end [OF tier_calls(3) [OF local_calls(3) [OF assms]]]) simp_all

subsection \<open>The requests\<close>

lemma cast_calls: "spent 4 1 w (snd (do_Cast ev cmd w))"
proof -
  have ballot: "spent 4 1 w (snd (cast_ballot (main_votes ev) cmd s))" if "spent 3 1 w s" for s
    unfolding cast_ballot_def main_wiring by (rule spent_end [OF store_calls(2) [OF that]]) simp_all
  have guard: "spent 4 1 w (snd (go_try (vs_Guard (main_store ev) g s) f (\<lambda>v s.
      if v = VerdictRateLimited then (Inl x, s) else if v = VerdictQuotaExceeded then (Inl y, s)
      else cast_ballot (main_votes ev) cmd s)))" if "spent 2 1 w s" for g s f x y
    by (rule spent_try [OF store_calls(1) [OF that]]) (use ballot spent_mono [of 3 1] in \<open>auto simp del: main_simps\<close>)
  have "spent 2 1 w (snd (cache_Poll (main_cache ev) k w))" for k
    by (rule spent_mono [OF poll_calls [OF spent_here]]) simp_all
  then show ?thesis
    unfolding do_Cast_def vote_Cast_def main_wiring loader_simps
    using guard spent_mono [OF spent_here, of 4 1 w] spent_mono [of 2 1 w _ 4 1]
    by (auto intro!: spent_try [of 2 1] simp del: main_simps split: sum.split)
qed

lemma read_calls:
  "spent 2 1 w (snd (do_Get ev i w))" "spent 3 2 w (snd (do_Results ev i w))" "spent 0 3 w (snd (do_List ev l k w))"
proof -
  have get: "spent 2 1 w (snd (poll_Get (main_polls ev) i w))"
  proof (cases "ev_valid ev i")
    case True
    have "spent 2 1 w (snd (go_try (cache_Poll (main_cache ev) i w) (Wrapped ''get poll'') (\<lambda>p s. (Inr p, s))))"
      by (rule spent_end [OF poll_calls [OF spent_here]]) simp_all
    with True show ?thesis by (simp add: poll_Get_def)
  next
    case False
    with spent_mono [OF spent_here, of 2 1 w] show ?thesis by (simp add: poll_Get_def)
  qed
  then show "spent 2 1 w (snd (do_Get ev i w))" by (simp add: do_Get_def)
  have merge: "spent 3 2 w (snd (case pr_GetResults (main_repo ev) i s of (durable, s1) \<Rightarrow>
      case vs_Counters (main_store ev) i ids s1 of (lv, s2) \<Rightarrow> h durable lv s2))"
    if "spent 2 1 w s" "\<And>d l s. snd (h d l s) = s" for s ids and h :: "_ \<Rightarrow> _ \<Rightarrow> _ \<Rightarrow> 'z \<times> world"
    using spent_mono [OF store_calls(3) [OF repo_calls(7) [OF that(1), of ev i], of ev i ids], of 3 2] that(2)
    by (simp add: split_def del: main_simps on_run)
  show "spent 3 2 w (snd (do_Results ev i w))"
    unfolding do_Results_def poll_Results_def main_wiring
    by (rule spent_try [OF get], rule merge) (simp_all split: sum.split prod.split)
  show "spent 0 3 w (snd (do_List ev l k w))"
    unfolding do_List_def poll_List_def main_wiring
    by (simp add: split_def del: main_simps on_run, rule spent_try [OF repo_calls(2) [OF spent_here]],
        rule spent_try [OF repo_calls(3)], assumption, rule spent_end [OF repo_calls(4)], assumption) simp_all
qed

lemma transition_calls: "spent 0 2 w (snd (poll_transition (main_polls ev) i fr to w))"
proof -
  obtain r s where u: "pr_UpdatePollStatus (main_repo ev) i fr to (clock w) w = (r, s)" by fastforce
  have s: "spent 0 1 w s" using repo_calls(5) [OF spent_here, of w ev i fr to "clock w"] unfolding u by simp
  have done_: "spent 0 2 w s" using s by (rule spent_mono) simp_all
  have none: "spent 0 2 w w" using spent_here by (rule spent_mono) simp_all
  have status: "spent 0 2 w (snd (go_try (pr_GetPollStatus (main_repo ev) i s) f (\<lambda>v s. (g v, s))))" for f g
    by (rule spent_end [OF repo_calls(6) [OF s]]) simp_all
  have poll: "spent 0 2 w (snd (go_try (pr_GetPoll (main_repo ev) i s) f (\<lambda>v s. (g v, s))))" for f g
    by (rule spent_end [OF repo_calls(1) [OF s]]) simp_all
  show ?thesis
    unfolding poll_transition_def main_wiring u prod.case
    by (auto simp del: main_simps on_run intro: done_ none status poll split: sum.split)
qed

lemma write_calls:
  "spent 2 2 w (snd (do_Activate ev i w))" "spent 1 2 w (snd (do_Finish ev i w))"
proof -
  have inval: "spent (Suc a) b w (snd (poll_invalidate (main_polls ev) k s))" if "spent a b w s" for a b k s
    using invalidate_calls [OF that, of ev k] by (simp add: poll_invalidate_def loader_simps)
  show "spent 2 2 w (snd (do_Activate ev i w))"
    unfolding do_Activate_def poll_Activate_def main_wiring
    by (rule spent_try [OF transition_calls], rule spent_try [OF store_calls(4)], assumption,
        rule spent_end [OF inval], assumption) simp_all
  show "spent 1 2 w (snd (do_Finish ev i w))"
    unfolding do_Finish_def poll_Finish_def
    by (rule spent_try [OF transition_calls], rule spent_end [OF inval], assumption) simp_all
qed

text \<open>A transaction: opening, three statements, closing, and the deferred rollback.\<close>

lemma tx_fates:
  "pg_fates (snd (tx_exec n e st)) = pg_fates st \<or> pg_fates (snd (tx_exec n e st)) = tl (pg_fates st)"
  "pg_fates (snd (tx_commit n st)) = pg_fates st \<or> pg_fates (snd (tx_commit n st)) = tl (pg_fates st)"
  "pg_fates (snd (pollTx_Rollback n st)) = pg_fates st \<or> pg_fates (snd (pollTx_Rollback n st)) = tl (pg_fates st)"
  "pg_fates (snd (repo_BeginTx cod st)) = tl (pg_fates st)"
  by (auto simp: tx_exec_def tx_commit_def pollTx_Rollback_def repo_BeginTx_def pg_tick_def Let_def
      split: option.split tx_state.split pg_fate.split)

lemma begin_result: "repo_BeginTx cod st = (Inr tx, st') \<Longrightarrow> \<exists>n. tx = pollTx cod n"
  by (auto simp: repo_BeginTx_def split: if_splits)

lemma tx_calls:
  assumes "spent a b w v"
  shows "spent a (Suc b) w (snd (tx_InsertPoll (tx_on_pg (pollTx cod n)) p v))"
    "spent a (Suc b) w (snd (tx_InsertPollOptions (tx_on_pg (pollTx cod n)) p v))"
    "spent a (Suc b) w (snd (tx_InsertZeroResults (tx_on_pg (pollTx cod n)) p v))"
    "spent a (Suc b) w (snd (tx_Commit (tx_on_pg (pollTx cod n)) v))"
    "spent a (Suc b) w (snd (tx_Rollback (tx_on_pg (pollTx cod n)) v))"
proof -
  have chain: "snd (go_try r f (\<lambda>v s. (g v, s))) = snd r" for r :: "(goerror + unit) \<times> pg_state" and f :: "goerror \<Rightarrow> goerror" and g :: "unit \<Rightarrow> goerror + unit"
    by (auto split: go_try_splits)
  show "spent a (Suc b) w (snd (tx_InsertPoll (tx_on_pg (pollTx cod n)) p v))"
    "spent a (Suc b) w (snd (tx_InsertPollOptions (tx_on_pg (pollTx cod n)) p v))"
    "spent a (Suc b) w (snd (tx_InsertZeroResults (tx_on_pg (pollTx cod n)) p v))"
    "spent a (Suc b) w (snd (tx_Commit (tx_on_pg (pollTx cod n)) v))"
    "spent a (Suc b) w (snd (tx_Rollback (tx_on_pg (pollTx cod n)) v))"
    by (simp only: tx_on_pg_simps, rule spent_pg [OF assms],
        simp add: pollTx_def pollTx_InsertPoll_def pollTx_InsertPollOptions_def pollTx_InsertZeroResults_def pollTx_Commit_def
          chain tx_fates)+
qed

lemma create_calls: "spent 0 6 w (snd (do_Create ev cmd w))"
proof -
  have new: "spent 0 6 w (snd (store_new (main_repo ev) p v))" if v: "spent 0 0 w v" for p v
  proof -
    obtain r s where b: "repo_BeginTx (ev_cod ev) (w_pg v) = (r, s)" by fastforce
    have start: "pr_BeginTx (main_repo ev) v = (map_sum id tx_on_pg r, v\<lparr>w_pg := s\<rparr>)"
      using b by (cases r) (simp_all add: main_repo_def repo_on_pg_def on_pg_def)
    have s: "spent 0 1 w (v\<lparr>w_pg := s\<rparr>)"
      using spent_pg [OF v, of "repo_BeginTx (ev_cod ev)"] tx_fates(4) [of "ev_cod ev" "w_pg v"] b by simp
    show ?thesis
    proof (cases r)
      case (Inl e)
      with start spent_mono [OF s, of 0 6] show ?thesis by (simp add: store_new_def)
    next
      case (Inr tx)
      with begin_result b obtain n where tx: "tx = pollTx (ev_cod ev) n" by blast
      let ?tx = "tx_on_pg tx"
      define body where "body = go_try (tx_InsertPoll ?tx p (v\<lparr>w_pg := s\<rparr>)) (Wrapped ''create poll'') (\<lambda>_ s.
            go_try (tx_InsertPollOptions ?tx p s) (Wrapped ''create poll'') (\<lambda>_ s.
            go_try (tx_InsertZeroResults ?tx p s) (Wrapped ''create poll'') (\<lambda>_ s.
            go_try (tx_Commit ?tx s) (Wrapped ''create poll'') (\<lambda>_ s. (Inr (), s)))))"
      have "spent 0 5 w (snd body)"
        unfolding body_def tx
        by (rule spent_try [OF tx_calls(1) [OF s]], rule spent_try [OF tx_calls(2)], assumption,
            rule spent_try [OF tx_calls(3)], assumption, rule spent_end [OF tx_calls(4)], assumption) simp_all
      from tx_calls(5) [OF this, of "ev_cod ev" n] have "spent 0 6 w (snd (tx_Rollback ?tx (snd body)))" by (simp add: tx)
      moreover have "snd (store_new (main_repo ev) p v) = snd (tx_Rollback ?tx (snd body))"
        by (simp add: store_new_def start Inr body_def [symmetric] split_def del: tx_on_pg_simps)
      ultimately show ?thesis by simp
    qed
  qed
  have "spent 0 0 w (snd (buildPoll (main_polls ev) cmd w))"
    by (rule buildPoll_keeps [where P = "spent 0 0 w", OF spent_here])
      (simp add: NewString_def spent_def)
  then show ?thesis
    unfolding do_Create_def poll_Create_def main_wiring
    by (rule spent_try) (rule spent_end [OF new], simp_all)
qed

lemma syncPoll_calls:
  assumes "spent a b w v"
  shows "spent (Suc (Suc a)) (Suc (Suc b)) w (snd (syncPoll (worker_sync ev) i v))"
proof -
  obtain r s where g: "pr_GetPoll (main_repo ev) i v = (r, s)" by fastforce
  have s: "spent a (Suc b) w s" using repo_calls(1) [OF assms, of ev i] unfolding g by simp
  have stop: "spent (Suc (Suc a)) (Suc (Suc b)) w s" using s by (rule spent_mono) simp_all
  have untrack: "spent (Suc (Suc a)) (Suc (Suc b)) w (snd (go_try (vs_UntrackPoll (main_store ev) i u) f (\<lambda>_ s. (Inr (), s))))"
    if "spent (Suc a) (Suc (Suc b)) w u" for u and f :: "goerror \<Rightarrow> goerror"
    by (rule spent_end [OF store_calls(6) [OF that]]) simp_all
  have missing: "spent (Suc a) (Suc (Suc b)) w s" using s by (rule spent_mono) simp_all
  have after: "spent (Suc (Suc a)) (Suc (Suc b)) w (snd (if c u then go_try (vs_UntrackPoll (main_store ev) i u) f (\<lambda>_ s. (Inr (), s)) else (Inr (), u)))"
    if "spent (Suc a) (Suc (Suc b)) w u" for u c and f :: "goerror \<Rightarrow> goerror"
    using untrack [OF that] spent_mono [OF that, of "Suc (Suc a)" "Suc (Suc b)"] by simp
  have saved: "spent (Suc (Suc a)) (Suc (Suc b)) w (snd (go_try (vs_Counters (main_store ev) i ids s) f (\<lambda>counts s.
      go_try (pr_SaveResults (main_repo ev) i counts s) f (\<lambda>_ s.
        if c s then go_try (vs_UntrackPoll (main_store ev) i s) h (\<lambda>_ s. (Inr (), s)) else (Inr (), s)))))"
    for ids c and f h :: "goerror \<Rightarrow> goerror"
    by (rule spent_try [OF store_calls(3) [OF s]], rule spent_try [OF repo_calls(8)], assumption, rule after,
        erule spent_mono) simp_all
  show ?thesis
    unfolding syncPoll_def main_wiring g prod.case
    by (auto simp del: main_simps on_run intro: stop untrack missing saved split: sum.split)
qed

lemma sync_all_calls:
  "spent a b w v \<Longrightarrow> spent (a + 2 * length ids) (b + 2 * length ids) w (snd (sync_all (worker_sync ev) ids n v))"
proof (induction ids arbitrary: a b n v)
  case (Cons i ids)
  obtain r s where p: "syncPoll (worker_sync ev) i v = (r, s)" by fastforce
  have s: "spent (Suc (Suc a)) (Suc (Suc b)) w s" using syncPoll_calls [OF Cons.prems, of ev i] p by simp
  from Cons.IH [OF s] p show ?case by (cases r) simp_all
qed simp

text \<open>
  C40. Every request ends after a fixed number of calls: casting a vote makes at most four
  calls to Redis and one query, reading a poll two and one, results three and two, listing
  three queries, activating two and two, finishing one and two, creating six statements of
  one transaction; a synchronisation pass makes one call and, for each poll it reports as
  tracked, at most two to either server, however many voters there are.
\<close>

theorem call_budget:
  "spent 4 1 w (snd (do_Cast ev cmd w)) \<and> spent 2 1 w (snd (do_Get ev i w)) \<and> spent 3 2 w (snd (do_Results ev i w))
    \<and> spent 0 3 w (snd (do_List ev l k w)) \<and> spent 0 6 w (snd (do_Create ev ccmd w)) \<and> spent 2 2 w (snd (do_Activate ev i w))
    \<and> spent 1 2 w (snd (do_Finish ev i w))
    \<and> spent (1 + 2 * nat (rp_Tracked (fst (fst (do_Sync ev w))))) (2 * nat (rp_Tracked (fst (fst (do_Sync ev w))))) w (snd (do_Sync ev w))"
proof -
  obtain r s where t: "vs_TrackedPolls (main_store ev) w = (r, s)" by fastforce
  have s: "spent 1 0 w s" using store_calls(5) [OF spent_here, of w ev] unfolding t by simp
  have "spent (1 + 2 * nat (rp_Tracked (fst (fst (do_Sync ev w))))) (2 * nat (rp_Tracked (fst (fst (do_Sync ev w))))) w (snd (do_Sync ev w))"
  proof (cases r)
    case (Inl e)
    with s t show ?thesis by (simp add: do_Sync_def sync_Sync_def del: main_simps)
  next
    case (Inr ids)
    obtain n u where all: "sync_all (worker_sync ev) ids 0 s = (n, u)" by fastforce
    from sync_all_calls [OF s, of ids ev 0] t Inr all show ?thesis
      by (simp add: do_Sync_def sync_Sync_def Let_def del: main_simps)
  qed
  then show ?thesis by (intro conjI cast_calls read_calls create_calls write_calls)
qed

end
