(* ===== verification/Interleaving.thy ===== *)
theory Interleaving
  imports Api_Laws
begin

text \<open>
  Requests that overlap. The handlers of a replica run as goroutines, several replicas share
  the servers, and a request waits at every call to a server; between two of its calls
  anything else may happen. Here the same services run on a state in which it does: before
  and after each call of the request stands a list of actions of the others (calls of other
  requests and passes, time, restarts, failures), and a passed deadline makes the remaining
  calls fail without reaching a server. The schedule is arbitrary, so what holds for every
  schedule holds for every interleaving at the granularity of calls. Access to the
  in-process cache is atomic (its shards are locked), and between two calls a request reads
  the clock once.
\<close>

subsection \<open>Actions\<close>

datatype act =
    OpGuard GuardRequest | OpCast Ballot | OpCounters string "string list"
  | OpTrack string | OpTracked | OpUntrack string | OpPingRedis
  | OpBegin | OpInsert nat poll | OpInsertOptions nat poll | OpInsertResults nat poll | OpCommit nat | OpRollback nat
  | OpLoad string | OpCount | OpPage int int | OpOptions "string list"
  | OpUpdate string "poll_status list" poll_status instant | OpStatus string | OpDurable string
  | OpSave string "(string \<times> int64) list" | OpPingPg
  | OpTierGet string | OpTierSet string entry duration | OpTierDelete string
  | OpLocal "entry ttl" | OpDraw
  | EnvTick instant | EnvBoot | EnvNet "fate list" "pg_fate list" | EnvLoss

text \<open>What an action does to the world; the answer goes to the one who called.\<close>

definition perform :: "env \<Rightarrow> act \<Rightarrow> world \<Rightarrow> world" where
  "perform ev a w =
     (let rd = ev_rd ev; cod = ev_cod ev; js = ev_json ev; cfg = ev_store ev in case a of
        OpGuard g \<Rightarrow> snd (on_redis (store_Guard rd cfg g) w)
      | OpCast b \<Rightarrow> snd (on_redis (store_CastBallot rd cfg b) w)
      | OpCounters i ids \<Rightarrow> snd (on_redis (store_Counters rd cfg i ids) w)
      | OpTrack i \<Rightarrow> snd (on_redis (store_TrackPoll rd i) w)
      | OpTracked \<Rightarrow> snd (on_redis (store_TrackedPolls rd) w)
      | OpUntrack i \<Rightarrow> snd (on_redis (store_UntrackPoll rd i) w)
      | OpPingRedis \<Rightarrow> snd (on_redis (store_Ping rd) w)
      | OpBegin \<Rightarrow> snd (on_pg (repo_BeginTx cod) w)
      | OpInsert n p \<Rightarrow> snd (on_pg (pollTx_InsertPoll cod n p) w)
      | OpInsertOptions n p \<Rightarrow> snd (on_pg (pollTx_InsertPollOptions cod n p) w)
      | OpInsertResults n p \<Rightarrow> snd (on_pg (pollTx_InsertZeroResults cod n p) w)
      | OpCommit n \<Rightarrow> snd (on_pg (pollTx_Commit n) w)
      | OpRollback n \<Rightarrow> snd (on_pg (pollTx_Rollback n) w)
      | OpLoad i \<Rightarrow> snd (on_pg (repo_GetPoll cod i) w)
      | OpCount \<Rightarrow> snd (on_pg repo_CountPolls w)
      | OpPage l k \<Rightarrow> snd (on_pg (repo_ListPollPage l k) w)
      | OpOptions ids \<Rightarrow> snd (on_pg (repo_ListOptionsByPollIDs cod ids) w)
      | OpUpdate i fr to t \<Rightarrow> snd (on_pg (repo_UpdatePollStatus cod i fr to t) w)
      | OpStatus i \<Rightarrow> snd (on_pg (repo_GetPollStatus cod i) w)
      | OpDurable i \<Rightarrow> snd (on_pg (repo_GetResults cod i) w)
      | OpSave i m \<Rightarrow> snd (on_pg (repo_SaveResults cod i m) w)
      | OpPingPg \<Rightarrow> snd (on_pg repo_Ping w)
      | OpTierGet k \<Rightarrow> snd (on_redis (rstore_Get rd js k) w)
      | OpTierSet k en d \<Rightarrow> snd (on_redis (rstore_Set rd js k en d) w)
      | OpTierDelete k \<Rightarrow> snd (on_redis (rstore_Delete rd k) w)
      | OpLocal l \<Rightarrow> w\<lparr>w_local := l\<rparr>
      | OpDraw \<Rightarrow> w\<lparr>w_drawn := w_drawn w + 1\<rparr>
      | EnvTick t \<Rightarrow> tick (max t (clock w)) w
      | EnvBoot \<Rightarrow> boot ev w
      | EnvNet fs gs \<Rightarrow> renet fs gs w
      | EnvLoss \<Rightarrow> redis_loss w)"

fun performs :: "env \<Rightarrow> act list \<Rightarrow> world \<Rightarrow> world" where
  "performs ev [] w = w"
| "performs ev (a # as) w = performs ev as (perform ev a w)"

text \<open>
  The actions that a server or the surroundings take part in; the others only touch the
  memory of the process.
\<close>

definition remote :: "act \<Rightarrow> bool" where
  "remote a \<longleftrightarrow> (case a of OpLocal _ \<Rightarrow> False | OpDraw \<Rightarrow> False | EnvBoot \<Rightarrow> False | _ \<Rightarrow> True)"

subsection \<open>A request among others\<close>

text \<open>
  \<open>co_trace\<close> is everything that has happened to the world, with the request's own actions
  marked; \<open>co_ahead\<close> what the others will do, up to the next call, after it, and so on;
  \<open>co_until\<close> the deadline of the context in force; \<open>co_flight\<close> what a running lookup of the
  same poll by another request will answer, when there is one to join.
\<close>

record conc =
  co_world :: world
  co_trace :: "(bool \<times> act) list"
  co_ahead :: "act list list"
  co_until :: "instant option"
  co_flight :: "string \<Rightarrow> (goerror + entry) option"

definition others :: "env \<Rightarrow> act list \<Rightarrow> conc \<Rightarrow> conc" where
  "others ev as c = c\<lparr>co_world := performs ev as (co_world c), co_trace := co_trace c @ map (Pair False) as\<rparr>"

definition own :: "env \<Rightarrow> act \<Rightarrow> conc \<Rightarrow> conc" where
  "own ev a c = c\<lparr>co_world := perform ev a (co_world c), co_trace := co_trace c @ [(True, a)]\<rparr>"

definition meddle :: "env \<Rightarrow> conc \<Rightarrow> conc" where
  "meddle ev c = (case co_ahead c of [] \<Rightarrow> c | as # rest \<Rightarrow> (others ev as c)\<lparr>co_ahead := rest\<rparr>)"

definition expired :: "conc \<Rightarrow> bool" where
  "expired c \<longleftrightarrow> (case co_until c of None \<Rightarrow> False | Some d \<Rightarrow> d \<le> clock (co_world c))"

text \<open>The world of a call that no server hears: its error is what the driver reports then.\<close>

definition cut_off :: "world \<Rightarrow> world" where
  "cut_off w = renet [Fate 0 False] [PgFailed] w"

definition shared :: "env \<Rightarrow> act \<Rightarrow> (world, 'a) action \<Rightarrow> (conc, 'a) action" where
  "shared ev a f c =
     (let c1 = meddle ev c in
      if expired c1 then (fst (f (cut_off (co_world c1))), meddle ev c1)
      else case f (co_world c1) of
             (r, w) \<Rightarrow> (r, meddle ev (c1\<lparr>co_world := w, co_trace := co_trace c1 @ [(True, a)]\<rparr>)))"

text \<open>The contexts of requests, with their deadlines.\<close>

definition conc_contexts :: "conc contexts" where
  "conc_contexts = \<lparr>cx_now = (\<lambda>c. clock (co_world c)), cx_deadline = co_until, cx_use = (\<lambda>d c. c\<lparr>co_until := d\<rparr>)\<rparr>"

subsection \<open>The components, shared\<close>

definition shared_store :: "env \<Rightarrow> conc VoteStore" where
  "shared_store ev = \<lparr>
     vs_Guard = (\<lambda>g. shared ev (OpGuard g) (vs_Guard (main_store ev) g)),
     vs_CastBallot = (\<lambda>b. shared ev (OpCast b) (vs_CastBallot (main_store ev) b)),
     vs_Counters = (\<lambda>i ids. shared ev (OpCounters i ids) (vs_Counters (main_store ev) i ids)),
     vs_TrackPoll = (\<lambda>i. shared ev (OpTrack i) (vs_TrackPoll (main_store ev) i)),
     vs_TrackedPolls = shared ev OpTracked (vs_TrackedPolls (main_store ev)),
     vs_UntrackPoll = (\<lambda>i. shared ev (OpUntrack i) (vs_UntrackPoll (main_store ev) i)),
     vs_Ping = shared ev OpPingRedis (vs_Ping (main_store ev))\<rparr>"

text \<open>A transaction is known by its number.\<close>

definition begin_number :: "pg_codec \<Rightarrow> (pg_state, nat) action" where
  "begin_number cod st = (case repo_BeginTx cod st of (Inl e, st') \<Rightarrow> (Inl e, st') | (Inr _, st') \<Rightarrow> (Inr (pg_next_tx st), st'))"

definition shared_tx :: "env \<Rightarrow> nat \<Rightarrow> conc PollTx" where
  "shared_tx ev n = (let tx = tx_on_pg (pollTx (ev_cod ev) n) in \<lparr>
     tx_InsertPoll = (\<lambda>p. shared ev (OpInsert n p) (tx_InsertPoll tx p)),
     tx_InsertPollOptions = (\<lambda>p. shared ev (OpInsertOptions n p) (tx_InsertPollOptions tx p)),
     tx_InsertZeroResults = (\<lambda>p. shared ev (OpInsertResults n p) (tx_InsertZeroResults tx p)),
     tx_Commit = shared ev (OpCommit n) (tx_Commit tx),
     tx_Rollback = shared ev (OpRollback n) (tx_Rollback tx)\<rparr>)"

definition shared_repo :: "env \<Rightarrow> conc PollRepository" where
  "shared_repo ev = \<lparr>
     pr_BeginTx = (\<lambda>c. case shared ev OpBegin (on_pg (begin_number (ev_cod ev))) c of
        (Inl e, c1) \<Rightarrow> (Inl e, c1) | (Inr n, c1) \<Rightarrow> (Inr (shared_tx ev n), c1)),
     pr_GetPoll = (\<lambda>i. shared ev (OpLoad i) (pr_GetPoll (main_repo ev) i)),
     pr_CountPolls = shared ev OpCount (pr_CountPolls (main_repo ev)),
     pr_ListPollPage = (\<lambda>l k. shared ev (OpPage l k) (pr_ListPollPage (main_repo ev) l k)),
     pr_ListOptionsByPollIDs = (\<lambda>ids. shared ev (OpOptions ids) (pr_ListOptionsByPollIDs (main_repo ev) ids)),
     pr_UpdatePollStatus = (\<lambda>i fr to t. shared ev (OpUpdate i fr to t) (pr_UpdatePollStatus (main_repo ev) i fr to t)),
     pr_GetPollStatus = (\<lambda>i. shared ev (OpStatus i) (pr_GetPollStatus (main_repo ev) i)),
     pr_GetResults = (\<lambda>i. shared ev (OpDurable i) (pr_GetResults (main_repo ev) i)),
     pr_SaveResults = (\<lambda>i m. shared ev (OpSave i m) (pr_SaveResults (main_repo ev) i m)),
     pr_Ping = shared ev OpPingPg (pr_Ping (main_repo ev))\<rparr>"

definition shared_tier :: "env \<Rightarrow> conc SharedStore" where
  "shared_tier ev = (let tier = ca_shared (main_cache ev) in \<lparr>
     ss_Get = (\<lambda>k. shared ev (OpTierGet k) (ss_Get tier k)),
     ss_Set = (\<lambda>k en d. shared ev (OpTierSet k en d) (ss_Set tier k en d)),
     ss_Delete = (\<lambda>k. shared ev (OpTierDelete k) (ss_Delete tier k))\<rparr>)"

definition shared_cache :: "env \<Rightarrow> conc Cache" where
  "shared_cache ev = \<lparr>
     ca_local = (\<lambda>c. w_local (co_world c)), ca_set_local = (\<lambda>l. own ev (OpLocal l)),
     ca_now = (\<lambda>c. clock (co_world c)), ca_shared = shared_tier ev, ca_origin = pr_GetPoll (shared_repo ev),
     ca_cfg = ev_cache ev, ca_flight = (\<lambda>k c. co_flight c k)\<rparr>"

definition shared_votes :: "env \<Rightarrow> conc VoteService" where
  "shared_votes ev = \<lparr>vsv_polls = CacheLoader (shared_cache ev), vsv_store = shared_store ev,
     vsv_now = (\<lambda>c. clock (co_world c))\<rparr>"

definition shared_polls :: "env \<Rightarrow> conc PollService" where
  "shared_polls ev = \<lparr>psv_repo = shared_repo ev, psv_store = shared_store ev,
     psv_cache = CacheLoader (shared_cache ev), psv_limits = ev_limits ev, psv_now = (\<lambda>c. clock (co_world c)),
     psv_valid = ev_valid ev, psv_NewString = (\<lambda>c. (ev_uuid ev (w_drawn (co_world c)), own ev OpDraw c))\<rparr>"

definition shared_sync :: "env \<Rightarrow> conc SyncService" where
  "shared_sync ev = \<lparr>sy_repo = shared_repo ev, sy_store = shared_store ev,
     sy_settleAfter = ev_settle ev, sy_now = (\<lambda>c. clock (co_world c))\<rparr>"

text \<open>The API of a replica, and the job of the worker, among others.\<close>

definition shared_api :: "('a, 'p) site \<Rightarrow> 'p Config \<Rightarrow> conc process handler" where
  "shared_api st cfg = (let ev = main_env st cfg in api_on st cfg conc_contexts (shared_polls ev) (shared_votes ev))"

definition shared_work :: "('a, 'p) site \<Rightarrow> 'p Config \<Rightarrow> (conc, unit) action" where
  "shared_work st cfg =
     job_RunOnce conc_contexts (NewJob (sync_Sync (shared_sync (main_env st cfg))) (cf_SyncTimeout cfg))"

subsection \<open>Requests as they overlap\<close>

datatype req =
    RqCast VoteCommand | RqCreate CreatePollCommand | RqActivate string | RqFinish string
  | RqGet string | RqResults string | RqList int int | RqSync

fun handle :: "env \<Rightarrow> req \<Rightarrow> conc \<Rightarrow> event \<times> conc" where
  "handle ev (RqCast cmd) c = map_prod (EvCast cmd) id (vote_Cast (ev_valid ev) (shared_votes ev) cmd c)"
| "handle ev (RqCreate cmd) c = map_prod (EvCreate cmd) id (poll_Create (shared_polls ev) cmd c)"
| "handle ev (RqActivate i) c = map_prod (EvActivate i) id (poll_Activate (shared_polls ev) i c)"
| "handle ev (RqFinish i) c = map_prod (EvFinish i) id (poll_Finish (shared_polls ev) i c)"
| "handle ev (RqGet i) c = map_prod (EvGet i) id (poll_Get (shared_polls ev) i c)"
| "handle ev (RqResults i) c = map_prod (EvResults i) id (poll_Results (shared_polls ev) i c)"
| "handle ev (RqList l k) c = map_prod (EvList l k) id (poll_List (shared_polls ev) l k c)"
| "handle ev RqSync c = map_prod (\<lambda>(report, err). EvSync report err) id (sync_Sync (shared_sync ev) c)"

text \<open>What others still do after the answer.\<close>

definition drain :: "env \<Rightarrow> conc \<Rightarrow> conc" where
  "drain ev c = (others ev (concat (co_ahead c)) c)\<lparr>co_ahead := []\<rparr>"

definition arrive :: "world \<Rightarrow> act list list \<Rightarrow> instant option \<Rightarrow> (string \<Rightarrow> (goerror + entry) option) \<Rightarrow> conc" where
  "arrive w ahead d fl = \<lparr>co_world = w, co_trace = [], co_ahead = ahead, co_until = d, co_flight = fl\<rparr>"

text \<open>
  A joint execution: one sequence of the actions that servers and surroundings see, each with
  the number of the request that made it (or another number, for the surroundings). Every
  request sees its own actions and those of all others, and they are just what it does in
  reply to what it sees. What the memory of its process holds in between is arbitrary, so the
  requests may be of one replica or of several.
\<close>

definition view :: "nat \<Rightarrow> (nat \<times> act) list \<Rightarrow> (bool \<times> act) list" where
  "view i G = map (\<lambda>(j, a). (j = i, a)) G"

definition joint :: "env \<Rightarrow> world \<Rightarrow> (nat \<times> act) list \<Rightarrow> req list \<Rightarrow> event list \<Rightarrow> bool" where
  "joint ev w G rqs outs \<longleftrightarrow> length outs = length rqs
     \<and> (\<forall>i < length rqs. \<exists>ahead d fl c. handle ev (rqs ! i) (arrive w ahead d fl) = (outs ! i, c)
          \<and> filter (\<lambda>x. remote (snd x)) (co_trace (drain ev c)) = view i G)"

end
