(* ===== verification/Interleaving_Laws.thy ===== *)
theory Interleaving_Laws
  imports Interleaving
begin

text \<open>
  What holds of every request however it is interleaved: each of its calls is an action of
  the model, so a property that the actions it makes and the actions of the others keep holds
  when it answers; the world is what the actions in its trace made of it; and casting a vote
  makes at most one attempt to record the ballot, after the checks.
\<close>

subsection \<open>Calls are actions\<close>

definition wired_as :: "env \<Rightarrow> act \<Rightarrow> (world, 'a) action \<Rightarrow> bool" where
  "wired_as ev a f \<longleftrightarrow> (\<forall>w. snd (f w) = perform ev a w)"

lemma begin_number_snd [simp]: "snd (begin_number cod st) = snd (repo_BeginTx cod st)"
  by (simp add: begin_number_def split: prod.split sum.split)

lemma store_wired:
  "wired_as ev (OpGuard g) (vs_Guard (main_store ev) g)" "wired_as ev (OpCast b) (vs_CastBallot (main_store ev) b)"
  "wired_as ev (OpCounters i ids) (vs_Counters (main_store ev) i ids)" "wired_as ev (OpTrack i) (vs_TrackPoll (main_store ev) i)"
  "wired_as ev OpTracked (vs_TrackedPolls (main_store ev))" "wired_as ev (OpUntrack i) (vs_UntrackPoll (main_store ev) i)"
  "wired_as ev OpPingRedis (vs_Ping (main_store ev))"
  by (simp_all add: wired_as_def perform_def) (simp add: main_store_def store_on_redis_def)

lemma repo_wired:
  "wired_as ev OpBegin (on_pg (begin_number (ev_cod ev)))" "wired_as ev (OpLoad i) (pr_GetPoll (main_repo ev) i)"
  "wired_as ev OpCount (pr_CountPolls (main_repo ev))" "wired_as ev (OpPage l k) (pr_ListPollPage (main_repo ev) l k)"
  "wired_as ev (OpOptions ids) (pr_ListOptionsByPollIDs (main_repo ev) ids)"
  "wired_as ev (OpUpdate i fr to t) (pr_UpdatePollStatus (main_repo ev) i fr to t)"
  "wired_as ev (OpStatus i) (pr_GetPollStatus (main_repo ev) i)" "wired_as ev (OpDurable i) (pr_GetResults (main_repo ev) i)"
  "wired_as ev (OpSave i m) (pr_SaveResults (main_repo ev) i m)" "wired_as ev OpPingPg (pr_Ping (main_repo ev))"
  by (simp_all add: wired_as_def perform_def) (simp add: main_repo_def repo_on_pg_def)

lemma tx_wired:
  "wired_as ev (OpInsert n p) (tx_InsertPoll (tx_on_pg (pollTx (ev_cod ev) n)) p)"
  "wired_as ev (OpInsertOptions n p) (tx_InsertPollOptions (tx_on_pg (pollTx (ev_cod ev) n)) p)"
  "wired_as ev (OpInsertResults n p) (tx_InsertZeroResults (tx_on_pg (pollTx (ev_cod ev) n)) p)"
  "wired_as ev (OpCommit n) (tx_Commit (tx_on_pg (pollTx (ev_cod ev) n)))"
  "wired_as ev (OpRollback n) (tx_Rollback (tx_on_pg (pollTx (ev_cod ev) n)))"
  by (simp_all add: wired_as_def perform_def pollTx_def)

lemma tier_wired:
  "wired_as ev (OpTierGet k) (ss_Get (ca_shared (main_cache ev)) k)"
  "wired_as ev (OpTierSet k en d) (ss_Set (ca_shared (main_cache ev)) k en d)"
  "wired_as ev (OpTierDelete k) (ss_Delete (ca_shared (main_cache ev)) k)"
  by (simp_all add: wired_as_def perform_def)

lemmas wired_ports = store_wired repo_wired tx_wired tier_wired

lemma shared_state:
  assumes "wired_as ev a f"
  shows "snd (shared ev a f c) =
    meddle ev (if expired (meddle ev c) then meddle ev c else own ev a (meddle ev c))"
  using assms by (auto simp: shared_def own_def wired_as_def Let_def split: prod.split) (metis snd_conv)+

subsection \<open>Steady properties\<close>

text \<open>
  A property that the others keep, and that the request keeps by the actions \<open>A\<close>: a call
  comes after actions of the others, and only when the deadline has not passed then.
\<close>

definition steady :: "env \<Rightarrow> (act \<Rightarrow> bool) \<Rightarrow> (conc \<Rightarrow> bool) \<Rightarrow> bool" where
  "steady ev A P \<longleftrightarrow> (\<forall>c. P c \<longrightarrow> P (meddle ev c)
     \<and> (\<forall>a. A a \<longrightarrow> \<not> expired (meddle ev c) \<longrightarrow> P (own ev a (meddle ev c)))
     \<and> (\<forall>a. A a \<longrightarrow> \<not> remote a \<longrightarrow> P (own ev a c)))"

lemma steadyD:
  assumes "steady ev A P" and "P c"
  shows "P (meddle ev c)" and "A a \<Longrightarrow> \<not> expired (meddle ev c) \<Longrightarrow> P (own ev a (meddle ev c))"
    and "A a \<Longrightarrow> \<not> remote a \<Longrightarrow> P (own ev a c)"
  using assms by (auto simp: steady_def)

lemma steady_shared:
  assumes "steady ev A P" and "P c" and "wired_as ev a f" and "A a"
  shows "P (snd (shared ev a f c))"
  unfolding shared_state [OF assms(3)] using steadyD [OF assms(1)] assms(2,4) by auto

named_theorems shared_simps \<open>the operations of the shared components\<close>

lemma shared_store_simps [shared_simps]:
  "vs_Guard (shared_store ev) g = shared ev (OpGuard g) (vs_Guard (main_store ev) g)"
  "vs_CastBallot (shared_store ev) b = shared ev (OpCast b) (vs_CastBallot (main_store ev) b)"
  "vs_Counters (shared_store ev) i ids = shared ev (OpCounters i ids) (vs_Counters (main_store ev) i ids)"
  "vs_TrackPoll (shared_store ev) i = shared ev (OpTrack i) (vs_TrackPoll (main_store ev) i)"
  "vs_TrackedPolls (shared_store ev) = shared ev OpTracked (vs_TrackedPolls (main_store ev))"
  "vs_UntrackPoll (shared_store ev) i = shared ev (OpUntrack i) (vs_UntrackPoll (main_store ev) i)"
  "vs_Ping (shared_store ev) = shared ev OpPingRedis (vs_Ping (main_store ev))"
  by (simp_all add: shared_store_def del: main_simps)

lemma shared_repo_simps [shared_simps]:
  "pr_GetPoll (shared_repo ev) i = shared ev (OpLoad i) (pr_GetPoll (main_repo ev) i)"
  "pr_CountPolls (shared_repo ev) = shared ev OpCount (pr_CountPolls (main_repo ev))"
  "pr_ListPollPage (shared_repo ev) l k = shared ev (OpPage l k) (pr_ListPollPage (main_repo ev) l k)"
  "pr_ListOptionsByPollIDs (shared_repo ev) ids = shared ev (OpOptions ids) (pr_ListOptionsByPollIDs (main_repo ev) ids)"
  "pr_UpdatePollStatus (shared_repo ev) i fr to t = shared ev (OpUpdate i fr to t) (pr_UpdatePollStatus (main_repo ev) i fr to t)"
  "pr_GetPollStatus (shared_repo ev) i = shared ev (OpStatus i) (pr_GetPollStatus (main_repo ev) i)"
  "pr_GetResults (shared_repo ev) i = shared ev (OpDurable i) (pr_GetResults (main_repo ev) i)"
  "pr_SaveResults (shared_repo ev) i m = shared ev (OpSave i m) (pr_SaveResults (main_repo ev) i m)"
  "pr_Ping (shared_repo ev) = shared ev OpPingPg (pr_Ping (main_repo ev))"
  by (simp_all add: shared_repo_def del: main_simps)

lemma shared_tx_simps [shared_simps]:
  "tx_InsertPoll (shared_tx ev n) p = shared ev (OpInsert n p) (tx_InsertPoll (tx_on_pg (pollTx (ev_cod ev) n)) p)"
  "tx_InsertPollOptions (shared_tx ev n) p = shared ev (OpInsertOptions n p) (tx_InsertPollOptions (tx_on_pg (pollTx (ev_cod ev) n)) p)"
  "tx_InsertZeroResults (shared_tx ev n) p = shared ev (OpInsertResults n p) (tx_InsertZeroResults (tx_on_pg (pollTx (ev_cod ev) n)) p)"
  "tx_Commit (shared_tx ev n) = shared ev (OpCommit n) (tx_Commit (tx_on_pg (pollTx (ev_cod ev) n)))"
  "tx_Rollback (shared_tx ev n) = shared ev (OpRollback n) (tx_Rollback (tx_on_pg (pollTx (ev_cod ev) n)))"
  by (simp_all add: shared_tx_def Let_def)

lemma shared_cache_simps [shared_simps]:
  "ss_Get (ca_shared (shared_cache ev)) k = shared ev (OpTierGet k) (ss_Get (ca_shared (main_cache ev)) k)"
  "ss_Set (ca_shared (shared_cache ev)) k en d = shared ev (OpTierSet k en d) (ss_Set (ca_shared (main_cache ev)) k en d)"
  "ss_Delete (ca_shared (shared_cache ev)) k = shared ev (OpTierDelete k) (ss_Delete (ca_shared (main_cache ev)) k)"
  "ca_origin (shared_cache ev) i = shared ev (OpLoad i) (pr_GetPoll (main_repo ev) i)"
  "ca_local (shared_cache ev) c = w_local (co_world c)" "ca_set_local (shared_cache ev) l c = own ev (OpLocal l) c"
  "ca_now (shared_cache ev) c = clock (co_world c)" "ca_cfg (shared_cache ev) = ev_cache ev"
  "ca_flight (shared_cache ev) k c = co_flight c k"
  by (simp_all add: shared_cache_def shared_tier_def shared_repo_simps Let_def del: tier_simps main_simps)

lemma shared_service_simps [shared_simps]:
  "vsv_polls (shared_votes ev) = CacheLoader (shared_cache ev)" "vsv_store (shared_votes ev) = shared_store ev"
  "vsv_now (shared_votes ev) c = clock (co_world c)"
  "psv_repo (shared_polls ev) = shared_repo ev" "psv_store (shared_polls ev) = shared_store ev"
  "psv_cache (shared_polls ev) = CacheLoader (shared_cache ev)" "psv_limits (shared_polls ev) = ev_limits ev"
  "psv_now (shared_polls ev) c = clock (co_world c)" "psv_valid (shared_polls ev) = ev_valid ev"
  "psv_NewString (shared_polls ev) c = (ev_uuid ev (w_drawn (co_world c)), own ev OpDraw c)"
  "sy_repo (shared_sync ev) = shared_repo ev" "sy_store (shared_sync ev) = shared_store ev"
  "sy_settleAfter (shared_sync ev) = ev_settle ev" "sy_now (shared_sync ev) c = clock (co_world c)"
  by (simp_all add: shared_votes_def shared_polls_def shared_sync_def)

subsection \<open>What requests keep\<close>

definition casting :: "act \<Rightarrow> bool" where
  "casting a \<longleftrightarrow> (case a of OpCast _ \<Rightarrow> True | _ \<Rightarrow> False)"

lemma casting_iff: "casting a \<longleftrightarrow> (\<exists>b. a = OpCast b)"
  by (simp add: casting_def split: act.split)

text \<open>The statuses an operation changes, by the status it sets, and the other calls a request can make.\<close>

definition sources :: "poll_status \<Rightarrow> poll_status list" where
  "sources to = (if to = PollStatusActive then [PollStatusDraft] else [PollStatusDraft, PollStatusActive])"

definition forward :: "act \<Rightarrow> bool" where
  "forward a \<longleftrightarrow> (case a of OpUpdate _ fr to _ \<Rightarrow> to \<in> {PollStatusActive, PollStatusFinished} \<and> fr = sources to | _ \<Rightarrow> True)"

definition plain :: "act \<Rightarrow> bool" where
  "plain a \<longleftrightarrow> (case a of OpCast _ \<Rightarrow> False | EnvTick _ \<Rightarrow> False | EnvBoot \<Rightarrow> False | EnvNet _ _ \<Rightarrow> False
     | EnvLoss \<Rightarrow> False | _ \<Rightarrow> forward a)"

lemma plain_forward: "plain a \<Longrightarrow> forward a"
  by (cases a) (simp_all add: plain_def)

lemma plain_not_casting: "plain a \<Longrightarrow> \<not> casting a"
  by (cases a) (simp_all add: plain_def casting_def)

definition cache_act :: "act \<Rightarrow> bool" where
  "cache_act a \<longleftrightarrow> (case a of OpLoad _ \<Rightarrow> True | OpTierGet _ \<Rightarrow> True | OpTierSet _ _ _ \<Rightarrow> True
     | OpTierDelete _ \<Rightarrow> True | OpLocal _ \<Rightarrow> True | _ \<Rightarrow> False)"

lemma cache_act_simps [simp]:
  "cache_act (OpLoad i)" "cache_act (OpTierGet k)" "cache_act (OpTierSet k en d)" "cache_act (OpTierDelete k)"
  "cache_act (OpLocal l)"
  by (simp_all add: cache_act_def)

lemma cache_plain: "cache_act a \<Longrightarrow> plain a"
  by (cases a) (simp_all add: cache_act_def plain_def forward_def)

lemma remote_simps [simp]: "\<not> remote (OpLocal l)" "\<not> remote OpDraw" "\<not> remote EnvBoot"
  by (simp_all add: remote_def)

lemma steady_local:
  assumes st: "steady ev A P" and A: "\<And>a. cache_act a \<Longrightarrow> A a" and c: "P c"
  shows "P (snd (local_Get (shared_cache ev) k c))" "P (local_Set (shared_cache ev) k en d c)"
    "P (local_Delete (shared_cache ev) k c)"
proof -
  have "P (own ev (OpLocal l) c)" for l using A [of "OpLocal l"] by (intro steadyD(3) [OF st c]) simp_all
  then show "P (snd (local_Get (shared_cache ev) k c))" "P (local_Set (shared_cache ev) k en d c)"
    "P (local_Delete (shared_cache ev) k c)"
    by (simp_all add: local_Get_def local_Set_def local_Delete_def shared_simps split: prod.split)
qed

lemma steady_cache:
  assumes st: "steady ev A P" and A: "\<And>a. cache_act a \<Longrightarrow> A a" and c: "P c"
  shows "P (snd (cache_Poll (shared_cache ev) k c))" "P (snd (cache_Invalidate (shared_cache ev) k c))"
proof -
  note local = steady_local [OF st A] and port = steady_shared [OF st _ _ A]
  show "P (snd (cache_Poll (shared_cache ev) k c))"
    by (rule cache_Poll_keeps [where P = P])
      (simp_all only: shared_simps c local port wired_ports cache_act_simps)
  show "P (snd (cache_Invalidate (shared_cache ev) k c))"
    by (rule cache_Invalidate_keeps [where P = P])
      (simp_all only: shared_simps c local port wired_ports cache_act_simps)
qed

lemma steady_store_new:
  assumes st: "steady ev A P" and A: "\<And>a. plain a \<Longrightarrow> A a" and c: "P c"
  shows "P (snd (store_new (shared_repo ev) p c))"
proof -
  note port = steady_shared [OF st _ _ A]
  obtain r c1 where b: "shared ev OpBegin (on_pg (begin_number (ev_cod ev))) c = (r, c1)" by fastforce
  have c1: "P c1" using port [OF c repo_wired(1)] b by (simp add: plain_def forward_def)
  have start: "pr_BeginTx (shared_repo ev) c = (case r of Inl e \<Rightarrow> (Inl e, c1) | Inr n \<Rightarrow> (Inr (shared_tx ev n), c1))"
    by (simp add: shared_repo_def b)
  show ?thesis
  proof (cases r)
    case (Inl e)
    with c1 start show ?thesis by (simp add: store_new_def)
  next
    case (Inr n)
    let ?body = "go_try (tx_InsertPoll (shared_tx ev n) p c1) (Wrapped ''create poll'') (\<lambda>_ s.
        go_try (tx_InsertPollOptions (shared_tx ev n) p s) (Wrapped ''create poll'') (\<lambda>_ s.
        go_try (tx_InsertZeroResults (shared_tx ev n) p s) (Wrapped ''create poll'') (\<lambda>_ s.
        go_try (tx_Commit (shared_tx ev n) s) (Wrapped ''create poll'') (\<lambda>_ s. (Inr (), s)))))"
    have "P (snd ?body)"
      by (intro go_try_snd [where P = P]) (simp_all add: shared_simps port c1 wired_ports plain_def forward_def del: tx_on_pg_simps)
    then have "P (snd (tx_Rollback (shared_tx ev n) (snd ?body)))"
      by (simp add: shared_simps port wired_ports plain_def forward_def del: tx_on_pg_simps)
    with start Inr show ?thesis by (simp add: store_new_def split_def)
  qed
qed

lemma steady_transition:
  assumes st: "steady ev A P" and A: "\<And>a. plain a \<Longrightarrow> A a" and c: "P c" and to: "to \<in> {PollStatusActive, PollStatusFinished}"
  shows "P (snd (poll_transition (shared_polls ev) i (sources to) to c))"
proof -
  note port = steady_shared [OF st _ _ A]
  have update: "P (snd (pr_UpdatePollStatus (shared_repo ev) i (sources to) to t c))" for t
    unfolding shared_simps by (rule port [OF c repo_wired(6)]) (use to in \<open>simp add: plain_def forward_def\<close>)
  have reads: "P (snd (pr_GetPollStatus (shared_repo ev) i c))" "P (snd (pr_GetPoll (shared_repo ev) i c))" if "P c" for c
    using that by (simp_all add: shared_simps port wired_ports plain_def forward_def del: main_simps)
  show ?thesis
    unfolding poll_transition_def shared_service_simps using c update reads
    by (auto split: prod.split sum.split intro!: go_try_snd [where P = P]) (metis snd_conv)+
qed

text \<open>Every request and every pass, however it is interleaved, keeps what its actions keep.\<close>

lemma steady_requests:
  assumes st: "steady ev A P" and A: "\<And>a. plain a \<Longrightarrow> A a" and c: "P c"
  shows "P (snd (poll_Create (shared_polls ev) ccmd c))"
    "P (snd (poll_Activate (shared_polls ev) i c))" "P (snd (poll_Finish (shared_polls ev) i c))"
    "P (snd (poll_Get (shared_polls ev) i c))" "P (snd (poll_Results (shared_polls ev) i c))"
    "P (snd (poll_List (shared_polls ev) l k c))" "P (snd (sync_Sync (shared_sync ev) c))"
proof -
  note port = steady_shared [OF st _ _ A]
  have cache: "P (snd (cache_Poll (shared_cache ev) k c))" "P (snd (cache_Invalidate (shared_cache ev) k c))" if "P c" for k c
    by (rule steady_cache [OF st _ that]; simp add: A cache_plain)+
  have new: "P (snd (store_new (shared_repo ev) p c))" if "P c" for p c
    by (rule steady_store_new [OF st A that])
  note simps = shared_simps loader_simps c port cache wired_ports new plain_def forward_def
  have draw: "P (own ev OpDraw c)" if "P c" for c using steadyD(3) [OF st that A] by (simp add: plain_def forward_def)
  have tr: "P (snd (poll_transition (shared_polls ev) i [PollStatusDraft] PollStatusActive c))"
    "P (snd (poll_transition (shared_polls ev) i [PollStatusDraft, PollStatusActive] PollStatusFinished c))"
    using steady_transition [OF st A c, of PollStatusActive i] steady_transition [OF st A c, of PollStatusFinished i]
    by (simp_all add: sources_def)
  show "P (snd (poll_Create (shared_polls ev) ccmd c))"
    by (rule poll_Create_keeps [where P = P]) (simp_all add: simps draw del: main_simps)
  show "P (snd (poll_Activate (shared_polls ev) i c))"
    by (rule poll_Activate_keeps [where P = P]) (simp_all add: simps tr del: main_simps)
  show "P (snd (poll_Finish (shared_polls ev) i c))"
    by (rule poll_Finish_keeps [where P = P]) (simp_all add: simps tr del: main_simps)
  show "P (snd (poll_Get (shared_polls ev) i c))"
    by (rule poll_Get_keeps [where P = P]) (simp_all add: simps del: main_simps)
  show "P (snd (poll_Results (shared_polls ev) i c))"
    by (rule poll_Results_keeps [where P = P]) (simp_all add: simps del: main_simps)
  show "P (snd (poll_List (shared_polls ev) l k c))"
    by (rule poll_List_keeps [where P = P]) (simp_all add: simps del: main_simps)
  show "P (snd (sync_Sync (shared_sync ev) c))"
    by (rule sync_Sync_keeps [where P = P]) (simp_all add: simps del: main_simps)
qed

lemma steady_vote:
  assumes st: "steady ev A P" and A: "\<And>a. plain a \<Longrightarrow> A a" "A (OpCast (cast_ballot_of cmd))" and c: "P c"
  shows "P (snd (vote_Cast v (shared_votes ev) cmd c))"
proof -
  have cache: "P (snd (cache_Poll (shared_cache ev) k c))" if "P c" for k c
    by (rule steady_cache [OF st _ that]) (simp add: A cache_plain)
  have "P (snd (vs_Guard (shared_store ev) g c))" if "P c" for g c
    unfolding shared_simps by (rule steady_shared [OF st that store_wired(1)]) (simp add: A plain_def forward_def)
  moreover have "P (snd (vs_CastBallot (shared_store ev) (cast_ballot_of cmd) c))" if "P c" for c
    unfolding shared_simps by (rule steady_shared [OF st that store_wired(2) A(2)])
  ultimately show ?thesis unfolding vote_Cast_def cast_ballot_def cast_ballot_of_def
    by (auto intro!: go_try_snd [where P = P] simp: shared_service_simps loader_simps cache c split: sum.split)
qed

lemma steady_handle:
  assumes "steady ev A P" and "\<And>a. plain a \<Longrightarrow> A a" and "\<And>cmd. rq = RqCast cmd \<Longrightarrow> A (OpCast (cast_ballot_of cmd))"
    and "P c"
  shows "P (snd (handle ev rq c))"
  using steady_requests [OF assms(1,2,4)] steady_vote [OF assms(1,2,3,4)] by (cases rq) simp_all

subsection \<open>The trace\<close>

text \<open>The world is what the trace made of the one at the start.\<close>

definition traced :: "env \<Rightarrow> world \<Rightarrow> conc \<Rightarrow> bool" where
  "traced ev w c \<longleftrightarrow> co_world c = performs ev (map snd (co_trace c)) w"

lemma performs_append [simp]: "performs ev (as @ bs) w = performs ev bs (performs ev as w)"
  by (induction as arbitrary: w) simp_all

lemma map_snd_Pair [simp]: "map snd (map (Pair b) as) = as"
  by (induction as) simp_all

lemma traced_steps:
  assumes "traced ev w c"
  shows "traced ev w (others ev as c)" "traced ev w (own ev a c)" "traced ev w (meddle ev c)" "traced ev w (drain ev c)"
proof -
  show o: "traced ev w (others ev as c)" for as using assms by (simp add: traced_def others_def comp_def)
  show "traced ev w (own ev a c)" using assms by (simp add: traced_def own_def)
  show "traced ev w (meddle ev c)" "traced ev w (drain ev c)"
    using assms o by (simp_all add: meddle_def drain_def traced_def split: list.split)
qed

lemma meddle_trace:
  obtains as where "co_trace (meddle ev c) = co_trace c @ map (Pair False) as"
    "co_world (meddle ev c) = performs ev as (co_world c)"
  by (cases "co_ahead c") (simp_all add: meddle_def others_def)

lemma traced_steady: "steady ev A (traced ev w)"
  by (simp add: steady_def traced_steps)

lemma arrive_simps [simp]:
  "co_world (arrive w ahead d fl) = w" "co_trace (arrive w ahead d fl) = []" "co_ahead (arrive w ahead d fl) = ahead"
  "co_until (arrive w ahead d fl) = d" "co_flight (arrive w ahead d fl) = fl"
  by (simp_all add: arrive_def)

lemma traced_arrive: "traced ev w (arrive w ahead d fl)"
  by (simp add: traced_def)

end
