(* ===== verification/Cast_Trace.thy ===== *)
theory Cast_Trace
  imports Interleaving_Laws Dedup
begin

text \<open>
  What one vote does among others: its checks first, which record nothing, and then at most
  one call that records the ballot, in the world as it is at that moment. What the servers
  hold depends only on the actions that reach them, so two requests that see the same calls
  see the same servers, whatever the memory of their processes.
\<close>

subsection \<open>The way to the ballot\<close>

definition leads :: "env \<Rightarrow> conc \<Rightarrow> conc \<Rightarrow> bool" where
  "leads ev c c' \<longleftrightarrow> (\<forall>P. steady ev plain P \<longrightarrow> P c \<longrightarrow> P c')"

lemma leads_refl [simp]: "leads ev c c"
  by (simp add: leads_def)

lemma leads_trans: "leads ev c c1 \<Longrightarrow> leads ev c1 c2 \<Longrightarrow> leads ev c c2"
  unfolding leads_def by blast

lemma leads_checks:
  "leads ev c (snd (cache_Poll (shared_cache ev) k c))" "leads ev c (snd (vs_Guard (shared_store ev) g c))"
proof -
  show "leads ev c (snd (cache_Poll (shared_cache ev) k c))"
    unfolding leads_def by (intro allI impI, rule steady_cache(1) [where A = plain]) (simp_all add: cache_plain)
  show "leads ev c (snd (vs_Guard (shared_store ev) g c))"
    unfolding leads_def shared_simps
    by (intro allI impI, rule steady_shared [where A = plain, OF _ _ store_wired(1)]) (simp_all add: plain_def forward_def)
qed

lemma cast_shape:
  assumes "vote_Cast v (shared_votes ev) cmd c = (r, c')"
  shows "(\<exists>e. r = Inl e) \<and> leads ev c c'
    \<or> distinct (vc_OptionIDs cmd) \<and> (\<exists>c1 x. leads ev c c1 \<and> vs_CastBallot (shared_store ev) (cast_ballot_of cmd) c1 = (x, c')
         \<and> r = map_sum (Wrapped ''cast vote'') id x)"
proof -
  let ?g = "\<lparr>g_ClientIP = vc_ClientIP cmd, g_PollID = vc_PollID cmd\<rparr>"
  obtain a c1 where p: "cache_Poll (shared_cache ev) (vc_PollID cmd) c = (a, c1)" by fastforce
  obtain b c2 where g: "vs_Guard (shared_store ev) ?g c1 = (b, c2)" by fastforce
  obtain x c3 where b: "vs_CastBallot (shared_store ev) (cast_ballot_of cmd) c2 = (x, c3)" by fastforce
  have l: "leads ev c c1" "leads ev c1 c2"
    using leads_checks(1) [of ev c "vc_PollID cmd"] leads_checks(2) [of ev c1 ?g] by (simp_all add: p g)
  from leads_trans [OF this] have l2: "leads ev c c2" .
  have last: "cast_ballot (shared_votes ev) cmd c2 = (map_sum (Wrapped ''cast vote'') id x, c3)"
    by (cases x) (simp_all add: cast_ballot_def shared_service_simps b [unfolded cast_ballot_of_def])
  have "(\<exists>e. r = Inl e) \<and> c' \<in> {c, c1, c2} \<or> (r, c') = cast_ballot (shared_votes ev) cmd c2 \<and> distinct (vc_OptionIDs cmd)"
    using assms unfolding vote_Cast_def
    by (cases a; cases b) (auto simp: shared_service_simps loader_simps p g ValidateBallot_Inr admissible_def split: if_splits sum.splits)
  then show ?thesis using l(1) l2 b last by auto
qed

text \<open>The calls that record a ballot, of a trace.\<close>

definition own_casts :: "(bool \<times> act) list \<Rightarrow> act list" where
  "own_casts tr = map snd (filter (\<lambda>(mine, a). mine \<and> casting a) tr)"

lemma own_casts_simps [simp]:
  "own_casts [] = []" "own_casts (t @ u) = own_casts t @ own_casts u" "own_casts (map (Pair False) as) = []"
  "own_casts ((b, a) # t) = (if b \<and> casting a then a # own_casts t else own_casts t)"
  by (induction as) (simp_all add: own_casts_def)

lemma casts_steady: "steady ev plain (\<lambda>c. own_casts (co_trace c) = l)"
proof -
  have "own_casts (co_trace (meddle ev c)) = own_casts (co_trace c)" for c by (rule meddle_trace [of ev c]) simp
  then show ?thesis by (simp add: steady_def own_def plain_not_casting)
qed

text \<open>What a vote leaves in the trace, and how it is answered.\<close>

lemma cast_cut_off: "\<exists>e. fst (vs_CastBallot (main_store ev) b (cut_off w)) = Inl e"
  by (auto simp: cut_off_def renet_def store_CastBallot_def Let_def redis_call_def next_fate_def split: go_try_splits)

lemma vote_trace:
  assumes run: "vote_Cast v (shared_votes ev) cmd c = (r, c')" and tr: "traced ev w c" and start: "own_casts (co_trace c) = []"
  shows "traced ev w c'"
    and "(\<exists>e. r = Inl e) \<and> own_casts (co_trace c') = []
      \<or> distinct (vc_OptionIDs cmd) \<and> (\<exists>T U. co_trace c' = T @ (True, OpCast (cast_ballot_of cmd)) # U \<and> own_casts T = [] \<and> own_casts U = []
           \<and> r = map_sum (Wrapped ''cast vote'') id
               (fst (vs_CastBallot (main_store ev) (cast_ballot_of cmd) (performs ev (map snd T) w))))"
proof -
  let ?b = "cast_ballot_of cmd"
  have "traced ev w (snd (vote_Cast v (shared_votes ev) cmd c))"
    by (rule steady_vote [where A = "\<lambda>_. True", OF traced_steady _ _ tr]) simp_all
  with run show "traced ev w c'" by simp
  have kept: "traced ev w c1 \<and> own_casts (co_trace c1) = []" if "leads ev c c1" for c1
    using that tr start traced_steady casts_steady unfolding leads_def by blast
  show "(\<exists>e. r = Inl e) \<and> own_casts (co_trace c') = []
      \<or> distinct (vc_OptionIDs cmd) \<and> (\<exists>T U. co_trace c' = T @ (True, OpCast ?b) # U \<and> own_casts T = [] \<and> own_casts U = []
           \<and> r = map_sum (Wrapped ''cast vote'') id (fst (vs_CastBallot (main_store ev) ?b (performs ev (map snd T) w))))"
    using cast_shape [OF run]
  proof (elim disjE exE conjE)
    fix e assume "r = Inl e" "leads ev c c'"
    with kept show ?thesis by blast
  next
    fix c1 x assume d: "distinct (vc_OptionIDs cmd)" and l: "leads ev c c1" and b: "vs_CastBallot (shared_store ev) ?b c1 = (x, c')"
      and r: "r = map_sum (Wrapped ''cast vote'') id x"
    let ?m = "meddle ev c1"
    have m: "traced ev w ?m" "own_casts (co_trace ?m) = []"
      using kept [OF l] traced_steps(3) by (auto intro: meddle_trace [of ev c1])
    show ?thesis
    proof (cases "expired ?m")
      case True
      with b have "c' = meddle ev ?m" "x = fst (vs_CastBallot (main_store ev) ?b (cut_off (co_world ?m)))"
        by (simp_all add: shared_simps shared_def Let_def del: main_simps)
      with m(2) r cast_cut_off [of ev ?b "co_world ?m"] show ?thesis by (auto intro: meddle_trace [of ev ?m])
    next
      case False
      obtain u v where f: "vs_CastBallot (main_store ev) ?b (co_world ?m) = (u, v)" by fastforce
      let ?n = "?m\<lparr>co_world := v, co_trace := co_trace ?m @ [(True, OpCast ?b)]\<rparr>"
      obtain as where as: "co_trace (meddle ev ?n) = co_trace ?n @ map (Pair False) as" by (rule meddle_trace)
      from b False f have "c' = meddle ev ?n" "x = u" by (simp_all add: shared_simps shared_def Let_def del: main_simps)
      with as m f r have "co_trace c' = co_trace ?m @ (True, OpCast ?b) # map (Pair False) as"
        "r = map_sum (Wrapped ''cast vote'') id (fst (vs_CastBallot (main_store ev) ?b (performs ev (map snd (co_trace ?m)) w)))"
        by (simp_all add: traced_def)
      with m(2) d show ?thesis
        by (intro disjI2 conjI [OF d] exI [of _ "co_trace ?m"] exI [of _ "map (Pair False) as"] conjI) simp_all
    qed
  qed
qed

end
