(* ===== verification/Lockstep.thy ===== *)
theory Lockstep
  imports Service_Frames Poll_Cache_Laws
begin

text \<open>
  The services are the same functions whatever their ports work on: when the ports of two
  sets of components answer alike and keep their states related, every request answers alike
  and keeps them related. One lemma per request, in a locale over the related ports.
\<close>

subsection \<open>Related runs\<close>

definition rel_run :: "('s \<Rightarrow> 't \<Rightarrow> bool) \<Rightarrow> 'a \<times> 's \<Rightarrow> 'a \<times> 't \<Rightarrow> bool" where
  "rel_run R x y \<longleftrightarrow> fst x = fst y \<and> R (snd x) (snd y)"

lemma rel_run_pair [simp]: "rel_run R (a, s) (b, t) \<longleftrightarrow> a = b \<and> R s t"
  by (simp add: rel_run_def)

lemma rel_try:
  assumes "rel_run R m n" and "\<And>v s t. R s t \<Longrightarrow> rel_run R (k v s) (l v t)"
  shows "rel_run R (go_try m w k) (go_try n w l)"
  using assms by (cases m; cases n) (auto split: go_try_splits)

lemma rel_prod:
  assumes "rel_run R m n" and "\<And>v s t. R s t \<Longrightarrow> rel_run Q (k v s) (l v t)"
  shows "rel_run Q (case m of (v, s) \<Rightarrow> k v s) (case n of (v, t) \<Rightarrow> l v t)"
  using assms by (cases m; cases n) simp

lemma rel_sum:
  assumes "\<And>e. rel_run Q (f e) (h e)" and "\<And>v. rel_run Q (k v) (l v)"
  shows "rel_run Q (case x of Inl e \<Rightarrow> f e | Inr v \<Rightarrow> k v) (case x of Inl e \<Rightarrow> h e | Inr v \<Rightarrow> l v)"
  using assms by (cases x) simp_all

lemma rel_option:
  assumes "rel_run Q f h" and "\<And>v. rel_run Q (k v) (l v)"
  shows "rel_run Q (case x of None \<Rightarrow> f | Some v \<Rightarrow> k v) (case x of None \<Rightarrow> h | Some v \<Rightarrow> l v)"
  using assms by (cases x) simp_all

lemma rel_if: "(b \<Longrightarrow> rel_run Q x y) \<Longrightarrow> (\<not> b \<Longrightarrow> rel_run Q u v) \<Longrightarrow> rel_run Q (if b then x else u) (if b then y else v)"
  by simp

subsection \<open>Related ports\<close>

locale lockstep =
  fixes R :: "'s \<Rightarrow> 't \<Rightarrow> bool"
    and S :: "'s VoteStore" and T :: "'t VoteStore"
    and P :: "'s PollRepository" and Q :: "'t PollRepository"
    and C :: "'s Cache" and D :: "'t Cache"
    and now :: "'s \<Rightarrow> instant" and later :: "'t \<Rightarrow> instant"
    and draw :: "'s \<Rightarrow> string \<times> 's" and pick :: "'t \<Rightarrow> string \<times> 't"
  assumes now: "R s t \<Longrightarrow> now s = later t"
    and draw: "R s t \<Longrightarrow> rel_run R (draw s) (pick t)"
    and guard: "R s t \<Longrightarrow> rel_run R (vs_Guard S g s) (vs_Guard T g t)"
    and cast: "R s t \<Longrightarrow> rel_run R (vs_CastBallot S b s) (vs_CastBallot T b t)"
    and counters: "R s t \<Longrightarrow> rel_run R (vs_Counters S i ids s) (vs_Counters T i ids t)"
    and track: "R s t \<Longrightarrow> rel_run R (vs_TrackPoll S i s) (vs_TrackPoll T i t)"
    and tracked: "R s t \<Longrightarrow> rel_run R (vs_TrackedPolls S s) (vs_TrackedPolls T t)"
    and untrack: "R s t \<Longrightarrow> rel_run R (vs_UntrackPoll S i s) (vs_UntrackPoll T i t)"
    and load: "R s t \<Longrightarrow> rel_run R (pr_GetPoll P i s) (pr_GetPoll Q i t)"
    and count: "R s t \<Longrightarrow> rel_run R (pr_CountPolls P s) (pr_CountPolls Q t)"
    and page: "R s t \<Longrightarrow> rel_run R (pr_ListPollPage P l k s) (pr_ListPollPage Q l k t)"
    and options: "R s t \<Longrightarrow> rel_run R (pr_ListOptionsByPollIDs P ids s) (pr_ListOptionsByPollIDs Q ids t)"
    and update: "R s t \<Longrightarrow> rel_run R (pr_UpdatePollStatus P i fr to at s) (pr_UpdatePollStatus Q i fr to at t)"
    and status: "R s t \<Longrightarrow> rel_run R (pr_GetPollStatus P i s) (pr_GetPollStatus Q i t)"
    and durable: "R s t \<Longrightarrow> rel_run R (pr_GetResults P i s) (pr_GetResults Q i t)"
    and save: "R s t \<Longrightarrow> rel_run R (pr_SaveResults P i m s) (pr_SaveResults Q i m t)"
    and new: "R s t \<Longrightarrow> rel_run R (store_new P p s) (store_new Q p t)"
    and tier_get: "R s t \<Longrightarrow> rel_run R (ss_Get (ca_shared C) i s) (ss_Get (ca_shared D) i t)"
    and tier_set: "R s t \<Longrightarrow> rel_run R (ss_Set (ca_shared C) i en d s) (ss_Set (ca_shared D) i en d t)"
    and tier_delete: "R s t \<Longrightarrow> rel_run R (ss_Delete (ca_shared C) i s) (ss_Delete (ca_shared D) i t)"
    and cache: "ca_origin C = pr_GetPoll P" "ca_origin D = pr_GetPoll Q" "ca_now C = now" "ca_now D = later" "ca_cfg C = ca_cfg D"
    and memory: "R s t \<Longrightarrow> ca_local C s = ca_local D t" "R s t \<Longrightarrow> R (ca_set_local C mem s) (ca_set_local D mem t)"
    and flight: "R s t \<Longrightarrow> ca_flight C i s = ca_flight D i t"
begin

lemmas steps = rel_prod [where R = R] rel_try [where R = R] rel_sum rel_option rel_if

lemma rel_local:
  assumes "R s t"
  shows "rel_run R (local_Get C i s) (local_Get D i t)" "R (local_Set C i en d s) (local_Set D i en d t)"
    "R (local_Delete C i s) (local_Delete D i t)"
  using assms memory now [OF assms]
  by (simp_all add: local_Get_def local_Set_def local_Delete_def cache split: prod.split)

lemma rel_store:
  assumes "R s t"
  shows "rel_run R (cache_store C i en d s) (cache_store D i en d t)"
  using rel_local(2) tier_set [OF assms, of i en d] by (simp add: cache_store_def Let_def cache rel_run_def)

lemma rel_origin: "R s t \<Longrightarrow> rel_run R (resolve_origin C i s) (resolve_origin D i t)"
  unfolding resolve_origin_def cache by (intro steps rel_store load) (simp_all add: cache)

lemma rel_resolve: "R s t \<Longrightarrow> rel_run R (cache_resolve C i s) (cache_resolve D i t)"
  unfolding cache_resolve_def by (intro steps rel_local(1) tier_get rel_origin) (simp_all add: rel_local(2) cache)

lemma rel_Poll: "R s t \<Longrightarrow> rel_run R (cache_Poll C i s) (cache_Poll D i t)"
proof -
  have "rel_run R (case ca_flight C i s of Some r \<Rightarrow> (r, s) | None \<Rightarrow> cache_resolve C i s)
      (case ca_flight D i t of Some r \<Rightarrow> (r, t) | None \<Rightarrow> cache_resolve D i t)" if "R s t" for s t
    unfolding flight [OF that] using that by (intro steps rel_resolve) simp_all
  then show "R s t \<Longrightarrow> rel_run R (cache_Poll C i s) (cache_Poll D i t)"
    unfolding cache_Poll_def by (intro steps rel_local(1)) simp_all
qed

lemma rel_Invalidate: "R s t \<Longrightarrow> rel_run R (cache_Invalidate C i s) (cache_Invalidate D i t)"
  unfolding cache_Invalidate_def by (intro steps tier_delete rel_local(3)) simp_all

subsection \<open>Related services\<close>

definition polls :: "PollLimits \<Rightarrow> (string \<Rightarrow> bool) \<Rightarrow> 's PollService" where
  "polls lim valid = \<lparr>psv_repo = P, psv_store = S, psv_cache = CacheLoader C, psv_limits = lim, psv_now = now,
     psv_valid = valid, psv_NewString = draw\<rparr>"

definition polls' :: "PollLimits \<Rightarrow> (string \<Rightarrow> bool) \<Rightarrow> 't PollService" where
  "polls' lim valid = \<lparr>psv_repo = Q, psv_store = T, psv_cache = CacheLoader D, psv_limits = lim, psv_now = later,
     psv_valid = valid, psv_NewString = pick\<rparr>"

definition votes :: "'s VoteService" where
  "votes = \<lparr>vsv_polls = CacheLoader C, vsv_store = S, vsv_now = now\<rparr>"

definition votes' :: "'t VoteService" where
  "votes' = \<lparr>vsv_polls = CacheLoader D, vsv_store = T, vsv_now = later\<rparr>"

definition sync :: "duration \<Rightarrow> 's SyncService" where
  "sync d = \<lparr>sy_repo = P, sy_store = S, sy_settleAfter = d, sy_now = now\<rparr>"

definition sync' :: "duration \<Rightarrow> 't SyncService" where
  "sync' d = \<lparr>sy_repo = Q, sy_store = T, sy_settleAfter = d, sy_now = later\<rparr>"

lemma loader: "pl_Poll (CacheLoader K) = cache_Poll K" "pl_Invalidate (CacheLoader K) = cache_Invalidate K"
  by (simp_all add: CacheLoader_def)

lemma rel_Cast: "R s t \<Longrightarrow> rel_run R (vote_Cast v votes cmd s) (vote_Cast v votes' cmd t)"
  unfolding vote_Cast_def cast_ballot_def votes_def votes'_def
  by (simp only: VoteService.select_convs loader, intro steps rel_Poll guard cast)
    (simp_all add: now split: sum.split, auto intro!: steps guard cast)

lemmas ports = polls_def polls'_def votes_def votes'_def sync_def sync'_def PollService.select_convs
  VoteService.select_convs SyncService.select_convs loader

lemma rel_draws: "R s t \<Longrightarrow> rel_run R (draw_options draw i ts s) (draw_options pick i ts t)"
proof (induction ts arbitrary: i s t)
  case (Cons x ts)
  show ?case
    unfolding draw_options.simps by (intro steps draw Cons.prems Cons.IH) simp_all
qed simp

lemma rel_build:
  assumes "R s t"
  shows "rel_run R (buildPoll (polls lim v) cmd s) (buildPoll (polls' lim v) cmd t)"
proof (cases "poll_fields lim cmd")
  case (Inr x)
  obtain q ty ts m where x: "x = (q, ty, ts, m)" by (cases x)
  have "rel_run R (case draw s of (u, s1) \<Rightarrow> case draw_options draw 0 ts s1 of (os, s2) \<Rightarrow> (h u (now s1) os, s2))
      (case pick t of (u, s1) \<Rightarrow> case draw_options pick 0 ts s1 of (os, s2) \<Rightarrow> (h u (later s1) os, s2))"
    for h :: "string \<Rightarrow> instant \<Rightarrow> poll_option list \<Rightarrow> goerror + poll"
    by (intro steps draw assms rel_draws) (simp_all add: now)
  from this [of "\<lambda>u at os. Inr \<lparr>p_id = u, p_question = q, p_type = ty, p_max_choices = m,
                     p_status = PollStatusDraft, p_options = os, p_created_at = at,
                     p_starts_at = cp_StartsAt cmd, p_ends_at = cp_EndsAt cmd, p_finished_at = None\<rparr>"]
  show ?thesis by (simp add: buildPoll_def ports Inr x)
qed (simp add: buildPoll_def ports assms)

lemma rel_Create: "R s t \<Longrightarrow> rel_run R (poll_Create (polls lim v) cmd s) (poll_Create (polls' lim v) cmd t)"
  unfolding poll_Create_def
  by (intro steps rel_build) (simp_all add: ports, auto intro!: steps new)

lemma rel_Get: "R s t \<Longrightarrow> rel_run R (poll_Get (polls lim v) i s) (poll_Get (polls' lim v) i t)"
  unfolding poll_Get_def ports by (intro steps rel_Poll) simp_all

lemma rel_List: "R s t \<Longrightarrow> rel_run R (poll_List (polls lim v) l k s) (poll_List (polls' lim v) l k t)"
  unfolding poll_List_def ports
  by (cases "page_limits lim l k") (simp, intro steps count page options, simp_all)

lemma rel_transition:
  "R s t \<Longrightarrow> rel_run R (poll_transition (polls lim v) i fr to s) (poll_transition (polls' lim v) i fr to t)"
  unfolding poll_transition_def ports by (intro steps) (simp_all add: now update, auto intro!: steps status load)

lemma rel_invalidate: "R s t \<Longrightarrow> rel_run R (poll_invalidate (polls lim v) i s) (poll_invalidate (polls' lim v) i t)"
  using rel_Invalidate [of s t i] by (simp add: poll_invalidate_def ports rel_run_def)

lemma rel_Activate: "R s t \<Longrightarrow> rel_run R (poll_Activate (polls lim v) i s) (poll_Activate (polls' lim v) i t)"
proof -
  have store: "psv_store (polls lim v) = S" "psv_store (polls' lim v) = T" by (simp_all add: ports)
  show "R s t \<Longrightarrow> rel_run R (poll_Activate (polls lim v) i s) (poll_Activate (polls' lim v) i t)"
    unfolding poll_Activate_def store by (intro steps rel_transition track rel_invalidate) simp_all
qed

lemma rel_Finish: "R s t \<Longrightarrow> rel_run R (poll_Finish (polls lim v) i s) (poll_Finish (polls' lim v) i t)"
  unfolding poll_Finish_def by (intro steps rel_transition rel_invalidate) simp_all

lemma rel_Results: "R s t \<Longrightarrow> rel_run R (poll_Results (polls lim v) i s) (poll_Results (polls' lim v) i t)"
  unfolding poll_Results_def
  by (intro steps rel_Get) (simp_all add: ports, auto intro!: steps durable counters split: sum.split prod.split)

lemma rel_settled: "R s t \<Longrightarrow> sync_settled (sync d) p s = sync_settled (sync' d) p t"
  by (cases "p_finished_at p") (simp_all add: sync_settled_def ports now)

lemma sync_ports: "sy_repo (sync d) = P" "sy_repo (sync' d) = Q" "sy_store (sync d) = S" "sy_store (sync' d) = T"
  by (simp_all add: ports)

lemma rel_syncPoll: "R s t \<Longrightarrow> rel_run R (syncPoll (sync d) i s) (syncPoll (sync' d) i t)"
proof -
  have settled: "rel_run R (if sync_settled (sync d) p s then go_try (vs_UntrackPoll S i s) w (\<lambda>_ s. (Inr (), s)) else (Inr (), s))
      (if sync_settled (sync' d) p t then go_try (vs_UntrackPoll T i t) w (\<lambda>_ s. (Inr (), s)) else (Inr (), t))"
    if "R s t" for p s t and w :: "goerror \<Rightarrow> goerror"
    unfolding rel_settled [OF that] using that by (intro steps untrack) simp_all
  show "R s t \<Longrightarrow> rel_run R (syncPoll (sync d) i s) (syncPoll (sync' d) i t)"
    unfolding syncPoll_def sync_ports by (intro steps load untrack counters save settled) simp_all
qed

lemma rel_sync_all: "R s t \<Longrightarrow> rel_run R (sync_all (sync d) ids n s) (sync_all (sync' d) ids n t)"
proof (induction ids arbitrary: n s t)
  case (Cons i ids)
  show ?case unfolding sync_all.simps by (intro steps rel_syncPoll Cons.prems Cons.IH) simp_all
qed simp

lemma rel_Sync: "R s t \<Longrightarrow> rel_run R (sync_Sync (sync d) s) (sync_Sync (sync' d) t)"
  unfolding sync_Sync_def Let_def sync_ports by (intro steps tracked rel_sync_all) simp_all

end

end
