(* ===== verification/Relay.thy ===== *)
theory Relay
  imports Lockstep Controller
begin

text \<open>
  The handlers and the middleware are the same functions whatever the services work on: on
  services that answer alike and keep their states related, the router answers alike and
  keeps them related. Inside \<open>Timeout\<close>, where another deadline is in force, the relation may
  be another one.
\<close>

subsection \<open>Related answers\<close>

definition rel_answer :: "('s \<Rightarrow> 't \<Rightarrow> bool) \<Rightarrow> string option \<times> writer \<times> 's \<Rightarrow> string option \<times> writer \<times> 't \<Rightarrow> bool" where
  "rel_answer R x y \<longleftrightarrow> fst x = fst y \<and> fst (snd x) = fst (snd y) \<and> R (snd (snd x)) (snd (snd y))"

definition rel_handler ::
  "('s \<Rightarrow> 't \<Rightarrow> bool) \<Rightarrow> ('s \<Rightarrow> 't \<Rightarrow> bool) \<Rightarrow> 's handler \<Rightarrow> 't handler \<Rightarrow> bool"
where
  "rel_handler R Q h k \<longleftrightarrow> (\<forall>r w s t. R s t \<longrightarrow> rel_answer Q (h r w s) (k r w t))"

lemma rel_answer_triple [simp]: "rel_answer R (p, w, s) (q, v, t) \<longleftrightarrow> p = q \<and> w = v \<and> R s t"
  by (simp add: rel_answer_def)

lemma rel_handlerI: "(\<And>r w s t. R s t \<Longrightarrow> rel_answer Q (h r w s) (k r w t)) \<Longrightarrow> rel_handler R Q h k"
  by (simp add: rel_handler_def)

lemma rel_handlerD: "rel_handler R Q h k \<Longrightarrow> R s t \<Longrightarrow> rel_answer Q (h r w s) (k r w t)"
  by (simp add: rel_handler_def)

lemma rel_handlerE:
  assumes "rel_handler R Q h k" and "R s t"
  obtains p v s' t' where "h r w s = (p, v, s')" "k r w t = (p, v, t')" "Q s' t'"
  using rel_handlerD [OF assms, of r w] by (cases "h r w s"; cases "k r w t") auto

lemma rel_respond:
  assumes "rel_run R m n" and "\<And>v s t w. R s t \<Longrightarrow> ok v s w = ok' v t w"
  shows "rel_answer R (respond js lv r m ok w) (respond js lv r n ok' w)"
  using assms by (cases m; cases n) (auto simp: respond_def split: sum.split option.split)

subsection \<open>Middleware\<close>

lemma rel_token:
  assumes "rel_run R (rnd tokenBytes s) (rnd' tokenBytes t)"
  obtains i s' t' where "randomToken rnd s = (i, s')" "randomToken rnd' t = (i, t')" "R s' t'"
  using assms by (cases "rnd tokenBytes s"; cases "rnd' tokenBytes t") (auto simp: randomToken_def)

lemma rel_Correlation:
  assumes "rel_handler R Q h k" and "\<And>s t. R s t \<Longrightarrow> rel_run R (rnd tokenBytes s) (rnd' tokenBytes t)"
  shows "rel_handler R Q (Correlation rnd h) (Correlation rnd' k)"
proof (rule rel_handlerI)
  fix r w s t assume R: "R s t"
  show "rel_answer Q (Correlation rnd h r w s) (Correlation rnd' k r w t)"
    by (rule rel_token [of R rnd s rnd' t, OF assms(2) [OF R]])
      (cases "sanitizeRequestID (first_value (rq_header r) ''X-Request-Id'') = []",
        use rel_handlerD [OF assms(1)] R in \<open>simp_all add: Correlation_def Let_def\<close>)
qed

lemma rel_VoterCookie:
  assumes "rel_handler R Q h k" and "\<And>s t. R s t \<Longrightarrow> rel_run R (rnd tokenBytes s) (rnd' tokenBytes t)"
  shows "rel_handler R Q (VoterCookie rnd cfg h) (VoterCookie rnd' cfg k)"
proof (rule rel_handlerI)
  fix r w s t assume R: "R s t"
  show "rel_answer Q (VoterCookie rnd cfg h r w s) (VoterCookie rnd' cfg k r w t)"
    by (rule rel_token [of R rnd s rnd' t, OF assms(2) [OF R]])
      (use rel_handlerD [OF assms(1)] R in \<open>simp add: VoterCookie_def Let_def\<close>)
qed

lemma rel_plain:
  assumes "rel_handler R Q h k"
  shows "rel_handler R Q (RealIP ip ps h) (RealIP ip ps k)" "rel_handler R Q (BodyLimit m h) (BodyLimit m k)"
    "rel_handler R Q (with_param i h) (with_param i k)"
  using assms by (simp_all add: rel_handler_def RealIP_def BodyLimit_def with_param_def)

lemma rel_AdminAuth:
  assumes "rel_handler R R h k"
  shows "rel_handler R R (AdminAuth js lv tok h) (AdminAuth js lv tok k)"
proof (rule rel_handlerI)
  show "rel_answer R (AdminAuth js lv tok h r w s) (AdminAuth js lv tok k r w t)" if "R s t" for r w s t
    unfolding AdminAuth_def Let_def using rel_handlerD [OF assms that] that by (simp only: rel_answer_triple split: if_split) simp
qed

lemma rel_AccessLog:
  assumes "rel_handler R Q h k"
  shows "rel_handler R Q (AccessLog lv h) (AccessLog lv k)"
proof (rule rel_handlerI)
  fix r w s t assume "R s t"
  from rel_handlerE [OF assms this, of r "w\<lparr>wr_rec := Some 0, wr_written := 0\<rparr>"]
  obtain p v s' t' where "h r (w\<lparr>wr_rec := Some 0, wr_written := 0\<rparr>) s = (p, v, s')"
    "k r (w\<lparr>wr_rec := Some 0, wr_written := 0\<rparr>) t = (p, v, t')" "Q s' t'" .
  then show "rel_answer Q (AccessLog lv h r w s) (AccessLog lv k r w t)"
    by (cases p) (simp_all add: AccessLog_def Let_def)
qed

lemma rel_Recover:
  assumes "rel_handler R Q h k"
  shows "rel_handler R Q (Recover js lv h) (Recover js lv k)"
proof (rule rel_handlerI)
  fix r w s t assume "R s t"
  from rel_handlerE [OF assms this, of r w]
  obtain p v s' t' where "h r w s = (p, v, s')" "k r w t = (p, v, t')" "Q s' t'" .
  then show "rel_answer Q (Recover js lv h r w s) (Recover js lv k r w t)"
    by (cases p) (simp_all add: Recover_def)
qed

lemma rel_Timeout:
  assumes "rel_handler P P' h k" and "\<And>s t. R s t \<Longrightarrow> P (cx_use cx (WithTimeout cx d s) s) (cx_use cy (WithTimeout cy d t) t)"
    and "\<And>s t s' t'. R s t \<Longrightarrow> P' s' t' \<Longrightarrow> Q (cx_use cx (cx_deadline cx s) s') (cx_use cy (cx_deadline cy t) t')"
  shows "rel_handler R Q (Timeout cx d h) (Timeout cy d k)"
proof (rule rel_handlerI)
  fix r w s t assume R: "R s t"
  from rel_handlerE [OF assms(1) assms(2) [OF R], of r w]
  obtain p v s' t' where "h r w (cx_use cx (WithTimeout cx d s) s) = (p, v, s')"
    "k r w (cx_use cy (WithTimeout cy d t) t) = (p, v, t')" "P' s' t'" .
  with assms(3) [OF R] show "rel_answer Q (Timeout cx d h r w s) (Timeout cy d k r w t)"
    by (simp add: Timeout_def)
qed

subsection \<open>The routes\<close>

locale relay =
  fixes R :: "'s \<Rightarrow> 't \<Rightarrow> bool" and H :: "'s Handlers" and K :: "'t Handlers"
    and rnd :: "nat \<Rightarrow> 's \<Rightarrow> 8 word list \<times> 's" and rnd' :: "nat \<Rightarrow> 't \<Rightarrow> 8 word list \<times> 't"
    and live ready :: "'s handler" and live' ready' :: "'t handler"
  assumes create: "R s t \<Longrightarrow> rel_run R (hd_Create H c s) (hd_Create K c t)"
    and read: "R s t \<Longrightarrow> rel_run R (hd_Get H i s) (hd_Get K i t)"
    and list: "R s t \<Longrightarrow> rel_run R (hd_List H l k s) (hd_List K l k t)"
    and activate: "R s t \<Longrightarrow> rel_run R (hd_Activate H i s) (hd_Activate K i t)"
    and finish: "R s t \<Longrightarrow> rel_run R (hd_Finish H i s) (hd_Finish K i t)"
    and results: "R s t \<Longrightarrow> rel_run R (hd_Results H i s) (hd_Results K i t)"
    and vote: "R s t \<Longrightarrow> rel_run R (hd_Cast H v s) (hd_Cast K v t)"
    and fixed: "hd_pollCacheTTL H = hd_pollCacheTTL K" "R s t \<Longrightarrow> hd_now H s = hd_now K t"
    and random: "R s t \<Longrightarrow> rel_run R (rnd n s) (rnd' n t)"
    and probes: "rel_handler R R live live'" "rel_handler R R ready ready'"
begin

lemma rel_GetPoll: "rel_handler R R (GetPoll js lv H) (GetPoll js lv K)"
  unfolding GetPoll_def [abs_def] fixed(1) by (intro rel_handlerI rel_respond read) simp_all

lemma rel_CastVote: "rel_handler R R (CastVote js lv H) (CastVote js lv K)"
proof (rule rel_handlerI)
  show "rel_answer R (CastVote js lv H r w s) (CastVote js lv K r w t)" if "R s t" for r w s t
    unfolding CastVote_def using that
    by (cases "DecodeJSON (jl_vote js) r") (simp_all, intro rel_respond vote, simp_all)
qed

lemma rel_CreatePoll: "rel_handler R R (CreatePoll js lv H) (CreatePoll js lv K)"
proof (rule rel_handlerI)
  show "rel_answer R (CreatePoll js lv H r w s) (CreatePoll js lv K r w t)" if "R s t" for r w s t
    unfolding CreatePoll_def using that
    by (cases "DecodeJSON (jl_create js) r") (simp_all, intro rel_respond create, simp_all)
qed

lemma rel_ListPolls: "rel_handler R R (ListPolls js lv H) (ListPolls js lv K)"
proof (rule rel_handlerI)
  show "rel_answer R (ListPolls js lv H r w s) (ListPolls js lv K r w t)" if "R s t" for r w s t
    unfolding ListPolls_def using that
    by (cases "intQuery r ''limit'' 0"; cases "intQuery r ''offset'' 0") (simp_all, intro rel_respond list, simp_all)
qed

lemma rel_moves:
  "rel_handler R R (ActivatePoll js lv H) (ActivatePoll js lv K)" "rel_handler R R (FinishPoll js lv H) (FinishPoll js lv K)"
  unfolding ActivatePoll_def [abs_def] FinishPoll_def [abs_def]
  by (intro rel_handlerI rel_respond activate finish; simp)+

lemma rel_GetResults: "rel_handler R R (GetResults js lv H) (GetResults js lv K)"
  unfolding GetResults_def [abs_def] by (intro rel_handlerI rel_respond results) (simp_all add: fixed(2))

lemma rel_misses: "rel_handler R R (endpoint_not_found js lv) (endpoint_not_found js lv)"
  "rel_handler R R (method_not_allowed js lv) (method_not_allowed js lv)"
  by (simp_all add: rel_handler_def endpoint_not_found_def method_not_allowed_def)

lemmas rel_handlers = rel_plain rel_AdminAuth rel_VoterCookie [where rnd = rnd and rnd' = rnd', OF _ random] rel_GetPoll rel_CastVote rel_CreatePoll rel_ListPolls
  rel_moves rel_GetResults rel_misses probes

lemma rel_route: "rel_handler R R (route_handler cfg rnd H live ready route) (route_handler cfg rnd' K live' ready' route)"
proof (cases route)
  case (Admin a)
  then show ?thesis by (cases a) (simp_all add: route_handler_def admin_handler_def Let_def rel_handlers)
next
  case (Vote_In i)
  have "rel_handler R R (VoterCookie rnd ck (with_param i (CastVote js lv H))) (VoterCookie rnd' ck (with_param i (CastVote js lv K)))"
    for js lv ck by (intro rel_handlers)
  with Vote_In show ?thesis by (simp add: route_handler_def Let_def)
qed (simp_all add: route_handler_def Let_def rel_handlers)

lemma rel_NewRouter:
  assumes outer: "\<And>s t. P s t \<Longrightarrow> rel_run P (rnd tokenBytes s) (rnd' tokenBytes t)"
    and into: "\<And>s t. P s t \<Longrightarrow> R (cx_use cx (WithTimeout cx (rc_RequestTimeout cfg) s) s)
      (cx_use cy (WithTimeout cy (rc_RequestTimeout cfg) t) t)"
    and restore: "\<And>s t s' t'. P s t \<Longrightarrow> R s' t' \<Longrightarrow> Q (cx_use cx (cx_deadline cx s) s') (cx_use cy (cx_deadline cy t) t')"
  shows "rel_handler P Q (NewRouter cfg cx rnd H live ready) (NewRouter cfg cy rnd' K live' ready')"
proof -
  have "rel_handler R R (\<lambda>r. route_handler cfg rnd H live ready (f r) r) (\<lambda>r. route_handler cfg rnd' K live' ready' (f r) r)" for f
    by (intro rel_handlerI) (rule rel_handlerD [OF rel_route])
  then show ?thesis unfolding NewRouter_def
    by (intro rel_Correlation rel_AccessLog rel_Recover rel_Timeout [where P = R and P' = R] rel_plain) (simp_all add: assms)
qed

end

end
