(* ===== verification/Undisturbed.thy ===== *)
theory Undisturbed
  imports Interleaving_Laws Relay
begin

text \<open>
  Nothing is lost by serving requests one at a time when none overlap: a request that the
  others leave alone, and a pass of the worker, do among others exactly what they do on a
  world of their own. The sequential system of the other theories is that special case of
  the overlapping one.
\<close>

subsection \<open>A state without others\<close>

definition calm :: "instant \<Rightarrow> conc \<Rightarrow> world \<Rightarrow> bool" where
  "calm t c w \<longleftrightarrow> co_world c = w \<and> clock w = t \<and> (\<forall>as \<in> set (co_ahead c). as = [])
     \<and> (\<forall>d. co_until c = Some d \<longrightarrow> t < d) \<and> co_flight c = (\<lambda>_. None)"

lemma calm_meddle: "calm t c w \<Longrightarrow> calm t (meddle ev c) w"
  by (auto simp: calm_def meddle_def others_def split: list.split)

lemma calm_shared:
  assumes c: "calm t c w" and clk: "clock (snd (f w)) = clock w"
  shows "rel_run (calm t) (shared ev a f c) (f w)"
proof -
  let ?c = "meddle ev c"
  obtain r v where f: "f w = (r, v)" by fastforce
  have m: "calm t ?c w" using calm_meddle [OF c] .
  then have "\<not> expired ?c" "co_world ?c = w" by (auto simp: calm_def expired_def split: option.split)
  moreover have "calm t (?c\<lparr>co_world := v, co_trace := tr\<rparr>) v" for tr
    using m clk f by (simp add: calm_def)
  ultimately show ?thesis using calm_meddle by (simp add: shared_def f Let_def)
qed

lemma calm_own: "calm t c w \<Longrightarrow> clock (perform ev a w) = clock w \<Longrightarrow> calm t (own ev a c) (perform ev a w)"
  by (simp add: calm_def own_def)

lemma repo_clock: "clock (snd (pr_GetPoll (main_repo ev) i w)) = clock w"
  "clock (snd (pr_CountPolls (main_repo ev) w)) = clock w" "clock (snd (pr_ListPollPage (main_repo ev) l k w)) = clock w"
  "clock (snd (pr_ListOptionsByPollIDs (main_repo ev) is w)) = clock w"
  "clock (snd (pr_UpdatePollStatus (main_repo ev) i fr to u w)) = clock w"
  "clock (snd (pr_GetPollStatus (main_repo ev) i w)) = clock w" "clock (snd (pr_GetResults (main_repo ev) i w)) = clock w"
  "clock (snd (pr_SaveResults (main_repo ev) i m w)) = clock w"
  by (simp_all add: clock_def)

lemma tier_clock: "clock (snd (ss_Get (ca_shared (main_cache ev)) k w)) = clock w"
  "clock (snd (ss_Set (ca_shared (main_cache ev)) k en d w)) = clock w"
  "clock (snd (ss_Delete (ca_shared (main_cache ev)) k w)) = clock w"
  by (simp_all add: clock_def rstore_clock)

lemma calm_new:
  assumes "calm t c w"
  shows "rel_run (calm t) (store_new (shared_repo ev) p c) (store_new (main_repo ev) p w)"
proof -
  let ?cod = "ev_cod ev"
  have call: "rel_run (calm t) (shared ev a (on_pg f) c) (on_pg f w)" if "calm t c w" for a c w and f :: "(pg_state, 'z) action"
    by (rule calm_shared [OF that]) (simp add: clock_def)
  have after: "calm t (snd (shared ev a (on_pg f) c)) (w\<lparr>w_pg := snd (f (w_pg w))\<rparr>)" if "calm t c w"
    for a c w and f :: "(pg_state, 'z) action"
    using call [OF that, of a f] by (simp add: rel_run_def on_pg_def split_def)
  obtain r s where b: "repo_BeginTx ?cod (w_pg w) = (r, s)" by fastforce
  obtain q c1 where q: "shared ev OpBegin (on_pg (begin_number ?cod)) c = (q, c1)" by fastforce
  show ?thesis
  proof (cases r)
    case (Inl e)
    with call [OF assms, of OpBegin "begin_number ?cod"] q b have "q = Inl e" "calm t c1 (w\<lparr>w_pg := s\<rparr>)"
      by (simp_all add: on_pg_def begin_number_def)
    with b Inl q show ?thesis
      by (simp add: store_new_def shared_repo_def main_repo_def repo_on_pg_def on_pg_def)
  next
    case (Inr tx)
    let ?n = "pg_next_tx (w_pg w)"
    have tx: "tx = pollTx ?cod ?n" using b Inr by (auto simp: repo_BeginTx_def split: if_splits)
    from call [OF assms, of OpBegin "begin_number ?cod"] q b Inr have n: "q = Inr ?n" "calm t c1 (w\<lparr>w_pg := s\<rparr>)"
      by (simp_all add: on_pg_def begin_number_def)
    let ?sb = "go_try (tx_InsertPoll (shared_tx ev ?n) p c1) (Wrapped ''create poll'') (\<lambda>_ c.
        go_try (tx_InsertPollOptions (shared_tx ev ?n) p c) (Wrapped ''create poll'') (\<lambda>_ c.
        go_try (tx_InsertZeroResults (shared_tx ev ?n) p c) (Wrapped ''create poll'') (\<lambda>_ c.
        go_try (tx_Commit (shared_tx ev ?n) c) (Wrapped ''create poll'') (\<lambda>_ c. (Inr (), c)))))"
    let ?mb = "go_try (tx_InsertPoll (tx_on_pg tx) p (w\<lparr>w_pg := s\<rparr>)) (Wrapped ''create poll'') (\<lambda>_ w.
        go_try (tx_InsertPollOptions (tx_on_pg tx) p w) (Wrapped ''create poll'') (\<lambda>_ w.
        go_try (tx_InsertZeroResults (tx_on_pg tx) p w) (Wrapped ''create poll'') (\<lambda>_ w.
        go_try (tx_Commit (tx_on_pg tx) w) (Wrapped ''create poll'') (\<lambda>_ w. (Inr (), w)))))"
    have body: "rel_run (calm t) ?sb ?mb"
      unfolding tx shared_simps tx_on_pg_simps by (intro rel_try [where R = "calm t"] call n(2)) simp_all
    have "rel_run (calm t) (case ?sb of (r, c) \<Rightarrow> (r, snd (tx_Rollback (shared_tx ev ?n) c)))
         (case ?mb of (r, w) \<Rightarrow> (r, snd (tx_Rollback (tx_on_pg tx) w)))"
      by (rule rel_prod [OF body]) (simp add: rel_run_def tx shared_simps after)
    with b Inr q n(1) show ?thesis
      by (simp add: store_new_def shared_repo_def main_repo_def repo_on_pg_def on_pg_def)
  qed
qed

subsection \<open>Requests and passes\<close>

interpretation calm: lockstep "calm t" "shared_store ev" "main_store ev" "shared_repo ev" "main_repo ev"
  "shared_cache ev" "main_cache ev" "\<lambda>c. clock (co_world c)" clock
  "\<lambda>c. (ev_uuid ev (w_drawn (co_world c)), own ev OpDraw c)" "NewString ev" for t ev
proof
  fix c w and p mem k assume c: "calm t c w"
  then have w: "co_world c = w" "co_flight c = (\<lambda>_. None)" by (simp_all add: calm_def)
  note port = calm_shared [OF c]
  show "clock (co_world c) = clock w" "ca_flight (shared_cache ev) k c = ca_flight (main_cache ev) k w"
    "ca_local (shared_cache ev) c = ca_local (main_cache ev) w"
    using w by (simp_all add: shared_simps)
  show "rel_run (calm t) (ev_uuid ev (w_drawn (co_world c)), own ev OpDraw c) (NewString ev w)"
    using calm_own [OF c, of ev OpDraw] w by (simp add: NewString_def perform_def clock_def)
  show "calm t (ca_set_local (shared_cache ev) mem c) (ca_set_local (main_cache ev) mem w)"
    using calm_own [OF c, of ev "OpLocal mem"] w by (simp add: shared_simps perform_def clock_def)
  show "rel_run (calm t) (store_new (shared_repo ev) p c) (store_new (main_repo ev) p w)"
    by (rule calm_new [OF c])
qed (simp_all only: shared_simps calm_shared port_clock repo_clock tier_clock, simp_all add: shared_cache_def main_cache_def)

lemma calm_services:
  "calm.polls ev (ev_limits ev) (ev_valid ev) = shared_polls ev" "calm.polls' ev (ev_limits ev) (ev_valid ev) = main_polls ev"
  "calm.votes ev = shared_votes ev" "calm.votes' ev = main_votes ev"
  "calm.sync ev (ev_settle ev) = shared_sync ev" "calm.sync' ev (ev_settle ev) = worker_sync ev"
  by (simp_all add: calm.ports shared_polls_def main_polls_def shared_votes_def main_votes_def shared_sync_def worker_sync_def)

text \<open>A process without others, and its probe.\<close>

definition calm_process :: "instant \<Rightarrow> conc process \<Rightarrow> api \<Rightarrow> bool" where
  "calm_process t s s' \<longleftrightarrow> calm t (sv_world s) (sv_world s') \<and> sv_checker s = sv_checker s' \<and> sv_draws s = sv_draws s'
     \<and> 0 < hc_timeout (sv_checker s')"

lemma calm_on_world:
  assumes "calm_process t s s'" and "\<And>c w. calm t c w \<Longrightarrow> rel_run (calm t) (f c) (g w)"
  shows "rel_run (calm_process t) (on_world f s) (on_world g s')"
  using assms(1) assms(2) [of "sv_world s" "sv_world s'"]
  by (cases "f (sv_world s)"; cases "g (sv_world s')") (simp add: calm_process_def on_world_def)

lemma calm_until: "calm t c w \<Longrightarrow> 0 < d \<Longrightarrow> calm t (cx_use conc_contexts (WithTimeout conc_contexts d c) c) w"
  by (auto simp: calm_def conc_contexts_def WithTimeout_def Let_def split: option.split)

lemma calm_restore: "calm t c w \<Longrightarrow> calm t c' w' \<Longrightarrow> calm t (cx_use conc_contexts (cx_deadline conc_contexts c) c') w'"
  by (simp add: calm_def conc_contexts_def)

lemma rel_checks:
  assumes "list_all2 (\<lambda>d e. dp_Name d = dp_Name e \<and> dp_Critical d = dp_Critical e
      \<and> (\<forall>s t. R s t \<longrightarrow> rel_run R (dp_Check d s) (dp_Check e t))) ds es" and "R s t"
  shows "rel_run R (check_all ds r s) (check_all es r t)"
  using assms
proof (induction ds es arbitrary: r s t rule: list_all2_induct)
  case (Cons d ds e es)
  then have "rel_run R (dp_Check d s) (dp_Check e t)" by blast
  moreover have "note_check d x r = note_check e x r" for x
    using Cons.hyps by (cases x) (simp_all add: note_check_def Let_def)
  ultimately show ?case using Cons.IH unfolding check_all.simps by (intro rel_prod [where R = R]) simp_all
qed simp

lemma calm_checks:
  assumes "calm t c w"
  shows "rel_run (calm t) (check_all (api_dependencies (shared_store ev) (shared_repo ev)) r c)
    (check_all (api_dependencies (main_store ev) (main_repo ev)) r w)"
proof -
  have "rel_run (calm t) (vs_Ping (shared_store ev) c) (vs_Ping (main_store ev) w)"
    "rel_run (calm t) (pr_Ping (shared_repo ev) c) (pr_Ping (main_repo ev) w)" if "calm t c w" for c w
    unfolding shared_simps using that
    by (intro calm_shared; simp add: clock_def main_store_def store_on_redis_def store_Ping_def redis_call_clock
        main_repo_def repo_on_pg_def)+
  then show ?thesis by (intro rel_checks assms) (simp add: api_dependencies_def)
qed

lemma calm_ready:
  "rel_handler (calm_process t) (calm_process t)
     (api_ready st cfg conc_contexts (api_dependencies (shared_store ev) (shared_repo ev)))
     (api_ready st cfg (still clock) (api_dependencies (main_store ev) (main_repo ev)))"
proof (rule rel_handlerI)
  fix r w s s' assume s: "calm_process t s s'"
  let ?d = "api_dependencies (shared_store ev) (shared_repo ev)" and ?e = "api_dependencies (main_store ev) (main_repo ev)"
  let ?k = "sv_checker s'" and ?c = "sv_world s" and ?v = "sv_world s'"
  let ?start = "\<lparr>hr_Status = ''ready'', hr_Dependencies = [], hr_ready = True\<rparr>"
  let ?u = "cx_use conc_contexts (WithTimeout conc_contexts (hc_timeout ?k) ?c) ?c"
  have c: "calm t ?c ?v" "sv_checker s = ?k" "0 < hc_timeout ?k" using s by (simp_all add: calm_process_def)
  have now: "cx_now conc_contexts c = clock w" if "calm t c w" for c w
    using that by (simp add: calm_def conc_contexts_def)
  obtain x c1 where x: "check_all ?d ?start ?u = (x, c1)" by fastforce
  obtain y v1 where y: "check_all ?e ?start ?v = (y, v1)" by fastforce
  have r: "y = x" "calm t c1 v1"
    using calm_checks [OF calm_until [OF c(1,3)], of ev ?start] by (simp_all add: x y)
  have f: "calm t (cx_use conc_contexts (cx_deadline conc_contexts ?c) c1) v1" by (rule calm_restore [OF c(1) r(2)])
  show "rel_answer (calm_process t) (api_ready st cfg conc_contexts ?d r w s) (api_ready st cfg (still clock) ?e r w s')"
    using now [OF c(1)] now [OF f] c s f r
    by (simp add: api_ready_def Ready_def evaluate_def with_timeout_def x y calm_process_def)
qed

lemmas calm_requests = calm.rel_Cast [where ev = ev, unfolded calm_services]
  calm.rel_Create [where ev = ev and lim = "ev_limits ev" and v = "ev_valid ev", unfolded calm_services]
  calm.rel_Get [where ev = ev and lim = "ev_limits ev" and v = "ev_valid ev", unfolded calm_services]
  calm.rel_List [where ev = ev and lim = "ev_limits ev" and v = "ev_valid ev", unfolded calm_services]
  calm.rel_Activate [where ev = ev and lim = "ev_limits ev" and v = "ev_valid ev", unfolded calm_services]
  calm.rel_Finish [where ev = ev and lim = "ev_limits ev" and v = "ev_valid ev", unfolded calm_services]
  calm.rel_Results [where ev = ev and lim = "ev_limits ev" and v = "ev_valid ev", unfolded calm_services]
  calm.rel_Sync [where ev = ev and d = "ev_settle ev", unfolded calm_services] for ev

interpretation calm_relay: relay "calm_process t"
  "NewHandlers (si_valid st) (shared_polls (main_env st cfg)) (shared_votes (main_env st cfg)) (ch_SharedTTL (cf_Cache cfg))"
  "main_handlers st cfg" "draw st" "draw st" "api_live st cfg"
  "api_ready st cfg conc_contexts (api_dependencies (shared_store (main_env st cfg)) (shared_repo (main_env st cfg)))"
  "api_live st cfg" "main_ready st cfg" for t st cfg
proof
  let ?ev = "main_env st cfg"
  let ?h = "NewHandlers (si_valid st) (shared_polls ?ev) (shared_votes ?ev) (ch_SharedTTL (cf_Cache cfg))"
  let ?k = "main_handlers st cfg"
  fix s s' assume s: "calm_process t s s'"
  note ports = main_handlers_def NewHandlers_def Let_def Handlers.select_convs
  show "rel_run (calm_process t) (hd_Create ?h c s) (hd_Create ?k c s')" for c
    unfolding ports by (intro calm_on_world s calm_requests)
  show "rel_run (calm_process t) (hd_Get ?h i s) (hd_Get ?k i s')" for i
    unfolding ports by (intro calm_on_world s calm_requests)
  show "rel_run (calm_process t) (hd_Activate ?h i s) (hd_Activate ?k i s')" for i
    unfolding ports by (intro calm_on_world s calm_requests)
  show "rel_run (calm_process t) (hd_Finish ?h i s) (hd_Finish ?k i s')" for i
    unfolding ports by (intro calm_on_world s calm_requests)
  show "rel_run (calm_process t) (hd_Results ?h i s) (hd_Results ?k i s')" for i
    unfolding ports by (intro calm_on_world s calm_requests)
  show "rel_run (calm_process t) (hd_List ?h l k s) (hd_List ?k l k s')" for l k
    unfolding ports by (intro calm_on_world s calm_requests)
  show "rel_run (calm_process t) (hd_Cast ?h v s) (hd_Cast ?k v s')" for v
    unfolding ports by (intro calm_on_world s calm_requests)
  show "hd_now ?h s = hd_now ?k s'"
    using s by (simp add: ports calm_process_def calm_def shared_simps main_polls_def)
  show "rel_run (calm_process t) (draw st n s) (draw st n s')" for n
    using s by (simp add: draw_def calm_process_def)
next
  show "rel_handler (calm_process t) (calm_process t) (api_live st cfg) (api_live st cfg)"
    by (simp add: rel_handler_def api_live_def)
  show "rel_handler (calm_process t) (calm_process t)
     (api_ready st cfg conc_contexts (api_dependencies (shared_store (main_env st cfg)) (shared_repo (main_env st cfg))))
     (main_ready st cfg)"
    using calm_ready by (simp add: main_ready_def main_dependencies_def Let_def)
qed (simp add: main_handlers_def NewHandlers_def Let_def)

lemma shared_api_eq:
  "shared_api st cfg = NewRouter (main_router st cfg) (on_process conc_contexts) (draw st)
     (NewHandlers (si_valid st) (shared_polls (main_env st cfg)) (shared_votes (main_env st cfg)) (ch_SharedTTL (cf_Cache cfg)))
     (api_live st cfg)
     (api_ready st cfg conc_contexts (api_dependencies (shared_store (main_env st cfg)) (shared_repo (main_env st cfg))))"
  by (simp add: shared_api_def api_on_def shared_polls_def Let_def)

lemma calm_api:
  assumes "0 < ht_RequestTimeout (cf_HTTP cfg)"
  shows "rel_handler (calm_process t) (calm_process t) (shared_api st cfg) (main_api st cfg)"
  unfolding shared_api_eq main_api_eq
proof (rule calm_relay.rel_NewRouter)
  show "rel_run (calm_process t) (draw st tokenBytes s) (draw st tokenBytes s')" if "calm_process t s s'" for s s'
    using that by (simp add: draw_def calm_process_def)
  let ?now = "still (\<lambda>s. clock (sv_world s)) :: api contexts" and ?cx = "on_process conc_contexts"
  let ?d = "rc_RequestTimeout (main_router st cfg)"
  show "calm_process t (cx_use ?cx (WithTimeout ?cx ?d s) s) (cx_use ?now (WithTimeout ?now ?d s') s')"
    if "calm_process t s s'" for s s'
    using that calm_until [of t "sv_world s" "sv_world s'" ?d] assms
    by (simp add: calm_process_def on_process_def WithTimeout_def main_router_def)
  show "calm_process t (cx_use ?cx (cx_deadline ?cx s) u) (cx_use ?now (cx_deadline ?now s') u')"
    if "calm_process t s s'" "calm_process t u u'" for s s' u u'
    using that calm_restore [of t "sv_world s" "sv_world s'" "sv_world u" "sv_world u'"]
    by (simp add: calm_process_def on_process_def)
qed

lemma calm_work:
  assumes "calm t c w"
  shows "rel_run (calm t) (shared_work st cfg c) (work st cfg w)"
proof -
  let ?ev = "main_env st cfg"
  define d where "d = jb_timeout (NewJob (sync_Sync (shared_sync ?ev)) (cf_SyncTimeout cfg))"
  have d: "0 < d" by (simp add: d_def NewJob_def second_def)
  let ?u = "cx_use conc_contexts (WithTimeout conc_contexts d c) c"
  have "rel_run (calm t) (sync_Sync (shared_sync ?ev) ?u) (do_Sync ?ev w)"
    unfolding do_Sync_def by (rule calm_requests(8) [OF calm_until [OF assms d]])
  then obtain x c1 w1 where r: "sync_Sync (shared_sync ?ev) ?u = (x, c1)" "do_Sync ?ev w = (x, w1)" "calm t c1 w1"
    by (cases "sync_Sync (shared_sync ?ev) ?u"; cases "do_Sync ?ev w") auto
  have "calm t (cx_use conc_contexts (cx_deadline conc_contexts c) c1) w1" by (rule calm_restore [OF assms r(3)])
  with r show ?thesis
    by (cases x; cases "snd x")
      (simp_all add: shared_work_def work_def main_job_def job_RunOnce_def with_timeout_def d_def [symmetric] Let_def,
       simp_all add: NewJob_def)
qed

subsection \<open>The sequential system is the overlapping one without others\<close>

text \<open>
  Serving in turn. With a configuration that loads, a request that the others leave
  alone while it is served (they do nothing between its calls, and no running lookup
  answers for it) gets, among the components that requests share and under the deadlines of
  its contexts, the answer that the replica gives it on a world of its own, and leaves the
  same world; and a pass of the worker likewise. The properties of \<open>serve\<close>, \<open>work\<close> and the
  runs of the system so hold of the program whenever requests do not overlap.
\<close>

theorem serving_in_turn:
  assumes "Load lib = Inr cfg" and "\<forall>as \<in> set ahead. as = []" and "0 < hc_timeout (sv_checker v)"
    and "serve st cfg r v = (p, w', v')" and "work st cfg u = (x, u')"
  shows "(\<exists>c. shared_api st cfg r new_writer \<lparr>sv_world = arrive (sv_world v) ahead None (\<lambda>_. None),
               sv_checker = sv_checker v, sv_draws = sv_draws v\<rparr>
             = (p, w', \<lparr>sv_world = c, sv_checker = sv_checker v', sv_draws = sv_draws v'\<rparr>)
           \<and> co_world c = sv_world v')
    \<and> (\<exists>c. shared_work st cfg (arrive u ahead None (\<lambda>_. None)) = (x, c) \<and> co_world c = u')"
proof -
  from Load_Inr(2) [OF assms(1)] have pos: "0 < ht_RequestTimeout (cf_HTTP cfg)"
    by (auto simp: fields_sound_def HTTP_sound_def millisecond_def second_def)
  have c: "calm (clock w) (arrive w ahead None (\<lambda>_. None)) w" for w using assms(2) by (simp add: calm_def)
  let ?s = "\<lparr>sv_world = arrive (sv_world v) ahead None (\<lambda>_. None), sv_checker = sv_checker v, sv_draws = sv_draws v\<rparr>"
  have "calm_process (clock (sv_world v)) ?s v" using c assms(3) by (simp add: calm_process_def)
  from rel_handlerE [OF calm_api [where st = st, OF pos] this, of r new_writer] obtain q z s s'
    where "shared_api st cfg r new_writer ?s = (q, z, s)" "serve st cfg r v = (q, z, s')" "calm_process (clock (sv_world v)) s s'"
    unfolding serve_def .
  with assms(4) have "\<exists>c. shared_api st cfg r new_writer ?s = (p, w', \<lparr>sv_world = c, sv_checker = sv_checker v', sv_draws = sv_draws v'\<rparr>)
      \<and> co_world c = sv_world v'" by (cases s) (auto simp: calm_process_def calm_def)
  moreover have "\<exists>c. shared_work st cfg (arrive u ahead None (\<lambda>_. None)) = (x, c) \<and> co_world c = u'"
    using calm_work [OF c [of u], of st cfg] assms(5) by (cases "shared_work st cfg (arrive u ahead None (\<lambda>_. None))") (auto simp: calm_def)
  ultimately show ?thesis ..
qed

theorem serving_in_turn_witness:
  "\<exists>cfg p w' v' c. Load demo_lib = Inr cfg \<and> serve demo_site cfg demo_post demo_api = (p, w', v')
     \<and> shared_api demo_site cfg demo_post new_writer
         \<lparr>sv_world = arrive demo_world [[], []] None (\<lambda>_. None), sv_checker = NewChecker second second, sv_draws = 0\<rparr>
       = (p, w', \<lparr>sv_world = c, sv_checker = sv_checker v', sv_draws = sv_draws v'\<rparr>)
     \<and> co_world c = sv_world v'"
proof -
  from demo_accepted Load_Inr(1) obtain cfg where l: "Load demo_lib = Inr cfg" by metis
  obtain p w' v' where s: "serve demo_site cfg demo_post demo_api = (p, w', v')" by (metis prod_cases3)
  obtain x u' where w: "work demo_site cfg demo_world = (x, u')" by fastforce
  have "0 < hc_timeout (sv_checker demo_api)" by (simp add: demo_api_def NewChecker_def second_def)
  from serving_in_turn [OF l _ this s w, of "[[], []]"] l s show ?thesis by (auto simp: demo_api_def)
qed

end
