(* ===== verification/Concurrent_Votes.thy ===== *)
theory Concurrent_Votes
  imports Cast_Trace Undisturbed
begin

text \<open>
  Votes that overlap: any number of requests on any number of replicas, with their calls to
  the servers interleaved in any order. However they race, a device is accepted once, and
  every accepted ballot is counted exactly once.
\<close>

subsection \<open>What the servers hold\<close>

definition same_servers :: "world \<Rightarrow> world \<Rightarrow> bool" where
  "same_servers w v \<longleftrightarrow> w_pg w = w_pg v \<and> w_redis w = w_redis v"

lemma perform_servers:
  assumes "same_servers w v"
  shows "same_servers (perform ev a w) (perform ev a v)"
  using assms by (cases a) (simp_all add: same_servers_def perform_def tick_def renet_def boot_def redis_loss_def clock_def)

lemma perform_local: "\<not> remote a \<Longrightarrow> same_servers (perform ev a w) w"
  by (cases a) (simp_all add: remote_def same_servers_def perform_def boot_def)

lemma same_servers_trans: "same_servers u v \<Longrightarrow> same_servers v w \<Longrightarrow> same_servers u w"
  by (simp add: same_servers_def)

lemma performs_servers: "same_servers w v \<Longrightarrow> same_servers (performs ev as w) (performs ev as v)"
  by (induction as arbitrary: w v) (simp_all add: perform_servers)

lemma performs_remote: "same_servers (performs ev as w) (performs ev (filter remote as) w)"
proof (induction as arbitrary: w)
  case (Cons a as)
  then show ?case
    using performs_servers [OF perform_local [of a ev w], of ev as] same_servers_trans by (cases "remote a") auto
qed (simp add: same_servers_def)

subsection \<open>Requests of a joint execution\<close>

text \<open>The servers after a part of the joint execution.\<close>

definition after :: "env \<Rightarrow> world \<Rightarrow> (nat \<times> act) list \<Rightarrow> redis_state" where
  "after ev w G = w_redis (performs ev (map snd G) w)"

definition casts_by :: "nat \<Rightarrow> (nat \<times> act) list \<Rightarrow> act list" where
  "casts_by k G = map snd (filter (\<lambda>(j, a). j = k \<and> casting a) G)"

lemma own_casts_view: "own_casts (view k G) = casts_by k G"
proof (induction G)
  case (Cons x G)
  then show ?case by (cases x) (simp add: view_def casts_by_def)
qed (simp add: view_def casts_by_def)

lemma own_casts_remote: "own_casts (filter (\<lambda>x. remote (snd x)) t) = own_casts t"
  by (induction t) (auto simp: casting_iff remote_def)

lemma map_snd_view: "map snd (view k G) = map snd G"
  by (induction G) (auto simp: view_def)

lemma view_split:
  assumes "view k G = t @ (True, a) # u"
  obtains G1 G2 where "G = G1 @ (k, a) # G2" "view k G1 = t" "view k G2 = u"
proof -
  from assms obtain G1 x G2 where "G = G1 @ x # G2" "view k G1 = t" "view k [x] = [(True, a)]" "view k G2 = u"
    unfolding view_def by (auto simp: map_eq_append_conv map_eq_Cons_conv)
  then show ?thesis by (intro that) (auto simp: view_def split: prod.splits)
qed

lemma drain_trace: "co_trace (drain ev c) = co_trace c @ map (Pair False) (concat (co_ahead c))"
  by (simp add: drain_def others_def)

lemma joint_cast:
  assumes j: "joint ev w G rqs outs" and k: "k < length rqs" and rq: "rqs ! k = RqCast cmd"
  shows "\<exists>r. outs ! k = EvCast cmd r \<and>
    ((\<exists>e. r = Inl e) \<and> casts_by k G = []
     \<or> distinct (vc_OptionIDs cmd) \<and> (\<exists>G1 G2. G = G1 @ (k, OpCast (cast_ballot_of cmd)) # G2 \<and> casts_by k G1 = [] \<and> casts_by k G2 = []
          \<and> r = map_sum (Wrapped ''cast vote'') id
              (fst (store_CastBallot (ev_rd ev) (ev_store ev) (cast_ballot_of cmd) (after ev w G1)))))"
proof -
  let ?R = "filter (\<lambda>x. remote (snd x))" and ?b = "cast_ballot_of cmd"
  from j k obtain ahead d fl c where h: "handle ev (rqs ! k) (arrive w ahead d fl) = (outs ! k, c)"
    and v: "?R (co_trace (drain ev c)) = view k G" unfolding joint_def by blast
  obtain r c' where run: "vote_Cast (ev_valid ev) (shared_votes ev) cmd (arrive w ahead d fl) = (r, c')" by fastforce
  with h rq have out: "outs ! k = EvCast cmd r" "c' = c" by simp_all
  define rest where "rest = map (Pair False) (concat (co_ahead c))"
  have view: "view k G = ?R (co_trace c) @ ?R rest" using v by (simp add: drain_trace rest_def)
  have casts: "casts_by k G = own_casts (co_trace c)"
    using own_casts_view [of k G] by (simp add: view own_casts_remote) (simp add: rest_def)
  from vote_trace(2) [OF run traced_arrive] have
    "(\<exists>e. r = Inl e) \<and> own_casts (co_trace c) = []
      \<or> distinct (vc_OptionIDs cmd) \<and> (\<exists>T U. co_trace c = T @ (True, OpCast ?b) # U \<and> own_casts T = [] \<and> own_casts U = []
           \<and> r = map_sum (Wrapped ''cast vote'') id (fst (vs_CastBallot (main_store ev) ?b (performs ev (map snd T) w))))"
    using out(2) by simp
  then have "(\<exists>e. r = Inl e) \<and> casts_by k G = []
     \<or> distinct (vc_OptionIDs cmd) \<and> (\<exists>G1 G2. G = G1 @ (k, OpCast ?b) # G2 \<and> casts_by k G1 = [] \<and> casts_by k G2 = []
          \<and> r = map_sum (Wrapped ''cast vote'') id (fst (store_CastBallot (ev_rd ev) (ev_store ev) ?b (after ev w G1))))"
  proof (elim disjE exE conjE)
    fix T U assume d: "distinct (vc_OptionIDs cmd)" and t: "co_trace c = T @ (True, OpCast ?b) # U" "own_casts T = []" "own_casts U = []"
      and r: "r = map_sum (Wrapped ''cast vote'') id (fst (vs_CastBallot (main_store ev) ?b (performs ev (map snd T) w)))"
    have "view k G = ?R T @ (True, OpCast ?b) # (?R U @ ?R rest)" using t by (simp add: view remote_def)
    from view_split [OF this] obtain G1 G2 where g: "G = G1 @ (k, OpCast ?b) # G2" "view k G1 = ?R T" "view k G2 = ?R U @ ?R rest" .
    have none: "casts_by k G1 = []" "casts_by k G2 = []"
      using own_casts_view [of k G1] own_casts_view [of k G2] t unfolding g
      by (simp_all add: own_casts_remote) (simp add: rest_def)
    have "map snd G1 = filter remote (map snd T)"
      using map_snd_view [of k G1] g(2) by (simp add: filter_map comp_def)
    with performs_remote [of ev "map snd T" w] have "w_redis (performs ev (map snd T) w) = after ev w G1"
      by (simp add: after_def same_servers_def)
    with r none g(1) d show ?thesis by auto
  qed (simp add: casts)
  with out(1) show ?thesis by blast
qed

lemma joint_accepted:
  assumes "joint ev w G rqs outs" and "k < length rqs" and "rqs ! k = RqCast cmd" and "outs ! k = EvCast cmd (Inr ())"
  obtains G1 G2 where "G = G1 @ (k, OpCast (cast_ballot_of cmd)) # G2"
    and "fst (store_CastBallot (ev_rd ev) (ev_store ev) (cast_ballot_of cmd) (after ev w G1)) = Inr ()"
proof -
  have got: "x = Inr ()" if "Inr () = map_sum (Wrapped s) id x" for s and x :: "goerror + unit"
    using that by (cases x) simp_all
  obtain r where r: "outs ! k = EvCast cmd r" and alt: "(\<exists>e. r = Inl e) \<and> casts_by k G = []
     \<or> distinct (vc_OptionIDs cmd) \<and> (\<exists>G1 G2. G = G1 @ (k, OpCast (cast_ballot_of cmd)) # G2 \<and> casts_by k G1 = [] \<and> casts_by k G2 = []
          \<and> r = map_sum (Wrapped ''cast vote'') id
              (fst (store_CastBallot (ev_rd ev) (ev_store ev) (cast_ballot_of cmd) (after ev w G1))))"
    using joint_cast [OF assms(1-3)] by blast
  have "r = Inr ()" using r assms(4) by simp
  with alt show ?thesis by (auto intro: that got)
qed

lemma joint_other:
  assumes j: "joint ev w G rqs outs" and k: "k < length rqs" and rq: "\<And>cmd. rqs ! k \<noteq> RqCast cmd"
  shows "casts_by k G = []" and "\<not> accepted (outs ! k) i o'"
proof -
  let ?R = "filter (\<lambda>x. remote (snd x))"
  from j k obtain ahead d fl c where h: "handle ev (rqs ! k) (arrive w ahead d fl) = (outs ! k, c)"
    and v: "?R (co_trace (drain ev c)) = view k G" unfolding joint_def by blast
  have "own_casts (co_trace (snd (handle ev (rqs ! k) (arrive w ahead d fl)))) = []"
    by (rule steady_handle [OF casts_steady]) (simp_all add: rq)
  with h have "own_casts (view k G) = []" by (simp add: v [symmetric] own_casts_remote drain_trace)
  then show "casts_by k G = []" by (simp add: own_casts_view)
  obtain out where out: "outs ! k = out" by blast
  show "\<not> accepted (outs ! k) i o'" using h rq unfolding out
    by (cases "rqs ! k") (auto simp: map_prod_def split: prod.splits)
qed

subsection \<open>A device is accepted once\<close>

lemma perform_clock: "clock w \<le> clock (perform ev a w)"
  by (cases a) (simp_all add: perform_def clock_def store_clock rstore_clock store_Ping_def redis_call_clock tick_def
      boot_def renet_def redis_loss_def split: go_try_splits)

lemma performs_clock: "clock w \<le> clock (performs ev as w)"
proof (induction as arbitrary: w)
  case (Cons a as)
  then show ?case using perform_clock [of w ev a] order_trans by fastforce
qed simp

definition ballots_safe :: "env \<Rightarrow> bool" where
  "ballots_safe ev \<longleftrightarrow> redis_ok (ev_rd ev) \<and> store_config_ok (ev_store ev) \<and> ping_reads (ev_rd ev)"

lemma claim_perform:
  assumes "ballots_safe ev" and "hash_ok h" and c: "claim ev i h d (w_redis w)" and "a \<noteq> EnvLoss"
    and "clock (perform ev a w) < d"
  shows "claim ev i h d (w_redis (perform ev a w))"
proof -
  have ok: "redis_ok (ev_rd ev)" "store_config_ok (ev_store ev)" "ping_reads (ev_rd ev)"
    using assms(1) by (simp_all add: ballots_safe_def)
  note store = claim_store [OF c ok(1,2) assms(2)] and tier = claim_tier [OF c ok(1) assms(2)]
  have ping: "claim ev i h d (snd (store_Ping (ev_rd ev) (w_redis w)))"
    using c by (simp add: ping_net(1) [OF ok(3)] claim_def)
  show ?thesis using assms(4,5) store tier ping c
    by (cases a) (simp_all add: perform_def tick_def boot_def renet_def claim_def clock_def)
qed

lemma claim_performs:
  assumes "ballots_safe ev" and "hash_ok h" and "claim ev i h d (w_redis w)" and "EnvLoss \<notin> set as"
    and "clock (performs ev as w) < d"
  shows "claim ev i h d (w_redis (performs ev as w))"
  using assms(3-5)
proof (induction as arbitrary: w)
  case (Cons a as)
  have "clock (perform ev a w) < d" using Cons.prems(3) performs_clock [of "perform ev a w" ev as] by simp
  then have "claim ev i h d (w_redis (perform ev a w))"
    by (rule claim_perform [OF assms(1,2) Cons.prems(1), rotated]) (use Cons.prems(2) in auto)
  from Cons.IH [OF this] Cons.prems show ?case by simp
qed simp

text \<open>Of two attempts to record the same voter's ballot, the later one is refused.\<close>

lemma second_refused:
  assumes safe: "ballots_safe ev" and G: "G = G1 @ (k, OpCast b) # G2 @ (j, OpCast b') # G3"
    and same: "b_PollID b' = b_PollID b" "b_VoterHash b' = b_VoterHash b" and h: "hash_ok (b_VoterHash b)"
    and first: "fst (store_CastBallot (ev_rd ev) (ev_store ev) b (after ev w G1)) = Inr ()"
    and no: "EnvLoss \<notin> snd ` set G" and time: "clock (performs ev (map snd G) w) < dedup_end ev (clock w)"
  shows "\<exists>e. fst (store_CastBallot (ev_rd ev) (ev_store ev) b' (after ev w (G1 @ (k, OpCast b) # G2))) = Inl e"
proof -
  let ?w1 = "performs ev (map snd G1) w"
  let ?w2 = "performs ev (map snd G2) (perform ev (OpCast b) ?w1)"
  have ok: "redis_ok (ev_rd ev)" "store_config_ok (ev_store ev)" using safe by (simp_all add: ballots_safe_def)
  obtain d where d: "store_CastBallot (ev_rd ev) (ev_store ev) b (w_redis ?w1) = (Inr (), d)"
    using first by (metis after_def prod.collapse)
  then have step: "w_redis (perform ev (OpCast b) ?w1) = d" by (simp add: perform_def)
  have early: "clock w \<le> clock ?w1" by (rule performs_clock)
  have "clock ?w2 \<le> clock (performs ev (map snd G) w)"
    using performs_clock [of ?w2 ev "OpCast b' # map snd G3"] by (simp add: G)
  then have late: "clock ?w2 < dedup_end ev (clock ?w1)" using time early by (simp add: dedup_end_def)
  have "claim ev (b_PollID b) (b_VoterHash b) (dedup_end ev (clock ?w1)) d"
    using store_claims [OF ok h d] by (simp add: clock_def)
  then have "claim ev (b_PollID b) (b_VoterHash b) (dedup_end ev (clock ?w1)) (w_redis ?w2)"
    using claim_performs [OF safe h _ _ late] no by (force simp: step G)
  from claim_voted [OF this] have "store_voted (ev_store ev) (w_redis ?w2) (b_PollID b') (b_VoterHash b')"
    by (simp add: same)
  from cast_again_observed(3) [OF ok this surjective_pairing] show ?thesis by (auto simp: after_def)
qed

text \<open>
  C2. One vote per device, however requests race. Of any two of the requests that are served
  together, on one replica or on several, with their calls to the servers (and anything else
  that happens) interleaved in any order, at most one is accepted when they carry the same
  poll id, spelled the same way, and the same token; as long as Redis loses no data and all of
  it takes less than the deduplication time. (Another spelling of the same uuid names other
  keys: the store tells spellings apart, and two such requests can both be accepted.)
\<close>

theorem racing_votes:
  assumes joint: "joint ev w G rqs outs" and safe: "ballots_safe ev"
    and no: "EnvLoss \<notin> snd ` set G" and time: "clock (performs ev (map snd G) w) < dedup_end ev (clock w)"
    and idx: "j < length rqs" "k < length rqs" "j \<noteq> k" and rqs: "rqs ! j = RqCast c1" "rqs ! k = RqCast c2"
    and same: "vc_PollID c2 = vc_PollID c1" "vc_VoterToken c2 = vc_VoterToken c1"
  shows "\<not> (outs ! j = EvCast c1 (Inr ()) \<and> outs ! k = EvCast c2 (Inr ()))"
proof
  assume acc: "outs ! j = EvCast c1 (Inr ()) \<and> outs ! k = EvCast c2 (Inr ())"
  let ?cast = "\<lambda>c H. fst (store_CastBallot (ev_rd ev) (ev_store ev) (cast_ballot_of c) (after ev w H))"
  obtain A B where A: "G = A @ (j, OpCast (cast_ballot_of c1)) # B" "?cast c1 A = Inr ()"
    by (rule joint_accepted [OF joint idx(1) rqs(1)]) (use acc in auto)
  obtain C D where C: "G = C @ (k, OpCast (cast_ballot_of c2)) # D" "?cast c2 C = Inr ()"
    by (rule joint_accepted [OF joint idx(2) rqs(2)]) (use acc in auto)
  have hash: "hash_ok (b_VoterHash (cast_ballot_of c))" for c using VoterHash_ok by simp
  have sames: "b_VoterHash (cast_ballot_of c2) = b_VoterHash (cast_ballot_of c1)" using same by simp
  from A(1) C(1) have "A @ (j, OpCast (cast_ballot_of c1)) # B = C @ (k, OpCast (cast_ballot_of c2)) # D" by simp
  then consider M where "C = A @ (j, OpCast (cast_ballot_of c1)) # M" | M where "A = C @ (k, OpCast (cast_ballot_of c2)) # M"
    using idx(3) by (auto simp: append_eq_append_conv2 append_eq_Cons_conv Cons_eq_append_conv)
  then show False
  proof cases
    case 1
    with second_refused [where ?G2.0 = M and j = k and ?G3.0 = D, OF safe _ _ sames hash A(2) no time] C same show False by simp
  next
    case 2
    with second_refused [where ?G2.0 = M and j = j and ?G3.0 = B, OF safe _ _ sames [symmetric] hash C(2) no time] A same show False by simp
  qed
qed

text \<open>
  A joint execution for any two requests: the first alone, the second after it and too late,
  its deadline passed.
\<close>

lemma solo_trace:
  assumes run: "handle ev rq (arrive w [] None (\<lambda>_. None)) = (e, c)"
  shows "co_ahead c = []" "\<forall>x \<in> set (co_trace c). fst x \<and> (plain (snd x) \<or> casting (snd x))" "traced ev w c"
proof -
  let ?c = "arrive w [] None (\<lambda>_. None)"
  have "steady ev (\<lambda>a. plain a \<or> casting a)
      (\<lambda>c. co_ahead c = [] \<and> (\<forall>x \<in> set (co_trace c). fst x \<and> (plain (snd x) \<or> casting (snd x))))"
    by (auto simp: steady_def meddle_def own_def)
  from steady_handle [where rq = rq and c = ?c, OF this] run
  show "co_ahead c = []" "\<forall>x \<in> set (co_trace c). fst x \<and> (plain (snd x) \<or> casting (snd x))"
    by (simp_all add: casting_iff)
  show "traced ev w c"
    using steady_handle [where rq = rq and c = ?c, OF traced_steady [of ev "\<lambda>_. True"] _ _ traced_arrive] run by simp
qed

lemma late_trace:
  assumes gs: "\<forall>a \<in> set gs. remote a" and run: "handle ev rq (arrive w [gs] (Some (clock w)) fl) = (e, c)"
  shows "filter (\<lambda>x. remote (snd x)) (co_trace (drain ev c)) = map (Pair False) gs"
proof -
  let ?R = "filter (\<lambda>x :: bool \<times> act. remote (snd x))"
  let ?P = "\<lambda>c. co_until c = Some (clock w) \<and> clock w \<le> clock (co_world c)
    \<and> (co_ahead c = [gs] \<and> ?R (co_trace c) = [] \<or> co_ahead c = [] \<and> ?R (co_trace c) = map (Pair False) gs)"
  have all: "?R (map (Pair False) gs) = map (Pair False) gs" using gs by (simp add: filter_map comp_def filter_id_conv)
  have "?P (meddle ev c)" if "?P c" for c
    using that order_trans [OF _ performs_clock [of "co_world c" ev gs]] all by (auto simp: meddle_def others_def)
  moreover have "?P (own ev a c)" if "?P c" "\<not> remote a" for a c
    using that order_trans [OF _ perform_clock [of "co_world c" ev a]] by (auto simp: own_def)
  ultimately have "steady ev (\<lambda>_. True) ?P" by (simp add: steady_def expired_def)
  from steady_handle [where rq = rq and c = "arrive w [gs] (Some (clock w)) fl", OF this] run all
  show ?thesis by (auto simp: drain_trace)
qed

lemma joint_two:
  assumes "handle ev q (arrive w ahead d fl) = (e, c)" and "handle ev q' (arrive w ahead' d' fl') = (e', c')"
    and "filter (\<lambda>x. remote (snd x)) (co_trace (drain ev c)) = view 0 G"
    and "filter (\<lambda>x. remote (snd x)) (co_trace (drain ev c')) = view 1 G"
  shows "joint ev w G [q, q'] [e, e']"
proof -
  have "\<exists>ahead d fl c. handle ev ([q, q'] ! i) (arrive w ahead d fl) = ([e, e'] ! i, c)
      \<and> filter (\<lambda>x. remote (snd x)) (co_trace (drain ev c)) = view i G" if "i < 2" for i
  proof (cases "i = 0")
    case True
    show ?thesis unfolding True by (rule exI [of _ ahead], rule exI [of _ d], rule exI [of _ fl], rule exI [of _ c]) (use assms in simp)
  next
    case False
    with that have i: "i = 1" by simp
    show ?thesis unfolding i by (rule exI [of _ ahead'], rule exI [of _ d'], rule exI [of _ fl'], rule exI [of _ c']) (use assms in simp)
  qed
  then show ?thesis by (simp add: joint_def)
qed

lemma joint_pair:
  assumes run: "handle ev rq (arrive w [] None (\<lambda>_. None)) = (e, c)"
  obtains G x where "joint ev w G [rq, rq'] [e, x]" "same_servers (performs ev (map snd G) w) (co_world c)"
    "\<forall>a \<in> snd ` set G. plain a \<or> casting a" "\<forall>k \<in> fst ` set G. k = 0"
proof -
  let ?R = "filter (\<lambda>x :: bool \<times> act. remote (snd x))"
  note c = solo_trace [OF run]
  define gs where "gs = filter remote (map snd (co_trace c))"
  define G where "G = map (Pair (0 :: nat)) gs"
  obtain x c' where x: "handle ev rq' (arrive w [gs] (Some (clock w)) (\<lambda>_. None)) = (x, c')" by fastforce
  have own: "?R t = map (Pair True) (filter remote (map snd t))" if "\<forall>x \<in> set t. fst x" for t
    using that by (induction t) auto
  have "?R (co_trace (drain ev c)) = view 0 G"
    using own [of "co_trace c"] c(1,2) by (simp add: drain_trace view_def G_def gs_def)
  moreover have "?R (co_trace (drain ev c')) = view 1 G"
    using late_trace [OF _ x] by (simp add: view_def G_def gs_def)
  ultimately have "joint ev w G [rq, rq'] [e, x]" by (rule joint_two [OF run x])
  moreover have "same_servers (performs ev gs w) (co_world c)"
    using performs_remote [of ev "map snd (co_trace c)" w] c(3) by (simp add: traced_def gs_def same_servers_def)
  ultimately show ?thesis using c(2) by (intro that) (auto simp: G_def gs_def comp_def)
qed

lemma calls_lose_nothing: "plain a \<or> casting a \<Longrightarrow> a \<noteq> EnvLoss"
  by (auto simp: plain_def casting_def)

lemma demo_safe: "ballots_safe demo_env"
  using demo_ping demo_inv by (simp add: ballots_safe_def demo_site_def world_inv_def base_inv_def store_ready_def)

text \<open>
  Two requests of one device on two replicas, each with an empty cache: the calls of the first
  come before those of the second, and both get as far as the vote store.
\<close>

lemma shared_step:
  assumes "co_until c = None" and "co_ahead c = [] # [] # rest"
  shows "shared ev a f c = (case f (co_world c) of (r, w) \<Rightarrow>
    (r, c\<lparr>co_world := w, co_trace := co_trace c @ [(True, a)], co_ahead := rest\<rparr>))"
  using assms by (cases c) (simp add: shared_def meddle_def others_def expired_def Let_def split: prod.split)

lemma shared_late:
  assumes "co_until c = None" and "co_ahead c = [gs]"
  shows "shared ev a f c = (case f (performs ev gs (co_world c)) of (r, w) \<Rightarrow>
    (r, c\<lparr>co_world := w, co_trace := co_trace c @ map (Pair False) gs @ [(True, a)], co_ahead := []\<rparr>))"
  using assms by (cases c) (simp add: shared_def meddle_def others_def expired_def Let_def split: prod.split)

lemma shared_alone:
  assumes "co_until c = None" and "co_ahead c = []"
  shows "shared ev a f c = (case f (co_world c) of (r, w) \<Rightarrow>
    (r, c\<lparr>co_world := w, co_trace := co_trace c @ [(True, a)]\<rparr>))"
  using assms by (cases c) (simp add: shared_def meddle_def others_def expired_def Let_def split: prod.split)

lemma demo_marks: "rstore_Set mem_redis demo_json ''p'' \<lparr>en_Poll = demo_poll, en_Missing = False\<rparr> d st
    = (Inl (Wrapped ''poll cache marshal'' (ErrText ''json: error calling MarshalJSON'')), st)"
  by (simp add: rstore_Set_def demo_json_def missing_entry_def)

lemma demo_checks: "CheckOpenAt demo_poll n = Inr ()" "ValidateBallot demo_poll [''a''] = Inr ()"
  by (simp_all add: CheckOpenAt_Inr ValidateBallot_Inr open_at_def admissible_def demo_poll_def OptionIDs_def effectiveMaxChoices_def)

lemma demo_guard: "rs_fates st = [] \<Longrightarrow> store_Guard mem_redis (ev_store demo_env) g st = (Inr 0, st)"
  by (simp add: store_Guard_def redis_call_plain guardScript_def limit_check_def demo_env_def)

definition demo_calls :: "act list" where
  "demo_calls = [OpTierGet ''p'', OpLoad ''p'',
     OpTierSet ''p'' \<lparr>en_Poll = demo_poll, en_Missing = False\<rparr> (cc_SharedTTL (ev_cache demo_env)),
     OpGuard \<lparr>g_ClientIP = ''1'', g_PollID = ''p''\<rparr>, OpCast (cast_ballot_of demo_vote)]"

lemma demo_remote [simp]: "filter remote demo_calls = demo_calls"
  by (simp add: demo_calls_def remote_def)

lemmas demo_evaluation = cache_Poll_def cache_resolve_def local_Get_def own_def perform_def New_Cache_def new_get
  on_redis_def demo_no_tier resolve_origin_def cache_store_def Let_def on_pg_def demo_get demo_marks local_Set_def unwrap_def

lemma demo_vote_fields [simp]:
  "vc_PollID demo_vote = ''p''" "vc_OptionIDs demo_vote = [''a'']" "vc_ClientIP demo_vote = ''1''" "trim_space (vc_VoterToken demo_vote) \<noteq> []"
proof -
  have "trim_space ''t'' = ''t''" by (rule trim_space_plain) (simp_all add: plain_char_def byte_of_def char_in_def)
  then show "trim_space (vc_VoterToken demo_vote) \<noteq> []" by (simp add: demo_vote_def)
qed (simp_all add: demo_vote_def)

lemma demo_recorded:
  obtains d where "store_CastBallot mem_redis (ev_store demo_env) (cast_ballot_of demo_vote) (w_redis demo_world) = (Inr (), d)"
proof -
  obtain w' where run: "do_Cast demo_env demo_vote demo_world = (Inr (), w')" using demo_cast by (metis prod.collapse)
  obtain l where l: "cache_Poll (main_cache demo_env) ''p'' demo_world = (Inr demo_poll, demo_world\<lparr>w_pg := pg_tick (w_pg demo_world), w_local := l\<rparr>)"
    using demo_served by blast
  obtain p w1 v w2 where parts: "cache_Poll (main_cache demo_env) (vc_PollID demo_vote) demo_world = (Inr p, w1)"
    "vs_Guard (main_store demo_env) \<lparr>g_ClientIP = vc_ClientIP demo_vote, g_PollID = vc_PollID demo_vote\<rparr> w1 = (Inr v, w2)"
    "vs_CastBallot (main_store demo_env) (cast_ballot_of demo_vote) w2 = (Inr (), w')"
    by (rule cast_parts [OF run])
  have "w_redis w1 = w_redis demo_world" using parts(1) l by auto
  with parts(2) have "w_redis w2 = w_redis demo_world" by (auto simp: on_redis_def demo_guard)
  with parts(3) show ?thesis using that by (auto simp: on_redis_def split: prod.splits)
qed

lemma demo_first:
  obtains c where "handle demo_env (RqCast demo_vote)
      (arrive demo_world [[], [], [], [], [], [], [], [], [], [], os] None (\<lambda>_. None)) = (EvCast demo_vote (Inr ()), c)"
    "co_ahead c = [os]" "filter (\<lambda>x. remote (snd x)) (co_trace c) = map (Pair True) demo_calls"
proof -
  obtain d where d: "store_CastBallot mem_redis (ev_store demo_env) (cast_ballot_of demo_vote) (w_redis demo_world) = (Inr (), d)"
    by (rule demo_recorded)
  let ?c = "arrive demo_world [[], [], [], [], [], [], [], [], [], [], os] None (\<lambda>_. None)"
  have "\<exists>c. handle demo_env (RqCast demo_vote) ?c = (EvCast demo_vote (Inr ()), c) \<and> co_ahead c = [os]
      \<and> filter (\<lambda>x. remote (snd x)) (co_trace c) = map (Pair True) demo_calls"
    using d by (simp add: vote_Cast_def cast_ballot_def cast_ballot_of_def shared_simps shared_step demo_evaluation demo_checks
        demo_guard remote_def demo_calls_def)
  then show ?thesis using that by blast
qed

lemma demo_second:
  obtains r c where "handle demo_env (RqCast demo_vote) (arrive demo_world [demo_calls] None (\<lambda>_. None)) = (EvCast demo_vote r, c)"
    "co_ahead c = []" "filter (\<lambda>x. remote (snd x)) (co_trace c) = map (Pair False) demo_calls @ map (Pair True) demo_calls"
proof -
  obtain d where d: "store_CastBallot mem_redis (ev_store demo_env) (cast_ballot_of demo_vote) (w_redis demo_world) = (Inr (), d)"
    by (rule demo_recorded)
  have tick: "pg_tick (w_pg demo_world) = w_pg demo_world" by (simp add: pg_tick_def)
  have up: "rs_fates d = []"
    using store_live(2) [of "w_redis demo_world" mem_redis "ev_store demo_env" "cast_ballot_of demo_vote"] d by simp
  have now: "rs_now d = 1000" using store_clock(2) [of mem_redis "ev_store demo_env" "cast_ballot_of demo_vote" "w_redis demo_world"] d by simp
  have "rs_db d (keyPrefix @ ''p'') = None" using store_apart(2) [OF mem_redis_ok d] by (simp add: apart_def)
  then have tier: "rstore_Get mem_redis demo_json ''p'' d = (Inr None, d)"
    using up by (simp add: rstore_Get_def redis_call_plain mem_redis_def kv_def)
  have performed: "performs demo_env demo_calls (demo_world\<lparr>w_local := l\<rparr>) = demo_world\<lparr>w_redis := d, w_local := l\<rparr>" for l
    using d by (simp add: demo_calls_def demo_evaluation demo_guard tick)
  obtain r e where e: "store_CastBallot mem_redis (ev_store demo_env) (cast_ballot_of demo_vote) d = (r, e)" by fastforce
  let ?c = "arrive demo_world [demo_calls] None (\<lambda>_. None)" and ?r = "map_sum (Wrapped ''cast vote'') id r"
  have "filter (\<lambda>x. remote (snd x)) (map (Pair False) demo_calls) = map (Pair False) demo_calls"
    by (simp add: demo_calls_def remote_def)
  then have "\<exists>c. handle demo_env (RqCast demo_vote) ?c = (EvCast demo_vote ?r, c) \<and> co_ahead c = []
      \<and> filter (\<lambda>x. remote (snd x)) (co_trace c) = map (Pair False) demo_calls @ map (Pair True) demo_calls"
    using e by (cases r) (simp_all add: vote_Cast_def cast_ballot_def cast_ballot_of_def shared_simps shared_late shared_alone
        performed tier up demo_evaluation tick demo_checks demo_guard, simp_all add: remote_def demo_calls_def)
  then show ?thesis using that by blast
qed

lemma demo_pair:
  obtains G r where "joint demo_env demo_world G [RqCast demo_vote, RqCast demo_vote] [EvCast demo_vote (Inr ()), EvCast demo_vote r]"
    "G = map (Pair 0) demo_calls @ map (Pair 1) demo_calls" "clock (performs demo_env (map snd G) demo_world) = 1000"
proof -
  obtain c where c: "handle demo_env (RqCast demo_vote)
      (arrive demo_world [[], [], [], [], [], [], [], [], [], [], demo_calls] None (\<lambda>_. None)) = (EvCast demo_vote (Inr ()), c)"
    "co_ahead c = [demo_calls]" "filter (\<lambda>x. remote (snd x)) (co_trace c) = map (Pair True) demo_calls" by (rule demo_first)
  obtain r d where d: "handle demo_env (RqCast demo_vote) (arrive demo_world [demo_calls] None (\<lambda>_. None)) = (EvCast demo_vote r, d)"
    "co_ahead d = []" "filter (\<lambda>x. remote (snd x)) (co_trace d) = map (Pair False) demo_calls @ map (Pair True) demo_calls"
    by (rule demo_second)
  let ?G = "map (Pair 0) demo_calls @ map (Pair (1 :: nat)) demo_calls"
  have later: "filter (\<lambda>x. remote (snd x)) (map (Pair False) demo_calls) = map (Pair False) demo_calls"
    by (simp add: demo_calls_def remote_def)
  have "joint demo_env demo_world ?G [RqCast demo_vote, RqCast demo_vote] [EvCast demo_vote (Inr ()), EvCast demo_vote r]"
    by (rule joint_two [OF c(1) d(1)]) (simp_all add: drain_trace c(2,3) d(2,3) later view_def comp_def)
  moreover have "clock (performs demo_env (map snd ?G) demo_world) = 1000"
    by (simp add: comp_def demo_calls_def perform_def on_redis_def on_pg_def clock_def store_clock rstore_clock case_prod_beta)
  ultimately show ?thesis by (intro that) (simp_all only:)
qed

theorem racing_votes_witness:
  "\<exists>G e. joint demo_env demo_world G [RqCast demo_vote, RqCast demo_vote] [EvCast demo_vote (Inr ()), EvCast demo_vote (Inl e)]
     \<and> (0, OpCast (cast_ballot_of demo_vote)) \<in> set G \<and> (1, OpCast (cast_ballot_of demo_vote)) \<in> set G"
proof -
  obtain G r where j: "joint demo_env demo_world G [RqCast demo_vote, RqCast demo_vote] [EvCast demo_vote (Inr ()), EvCast demo_vote r]"
    and G: "G = map (Pair 0) demo_calls @ map (Pair 1) demo_calls" "clock (performs demo_env (map snd G) demo_world) = 1000"
    by (rule demo_pair)
  have "clock (performs demo_env (map snd G) demo_world) < dedup_end demo_env (clock demo_world)"
    unfolding G(2) by (simp add: clock_def dedup_end_def demo_env_def whole_seconds_def second_def)
  moreover have "EnvLoss \<notin> snd ` set G" by (auto simp: G(1) demo_calls_def)
  ultimately have "r \<noteq> Inr ()" using racing_votes [OF j demo_safe, of 0 1 demo_vote demo_vote] by auto
  then obtain e where "r = Inl e" by (cases r) auto
  with j show ?thesis by (intro exI [of _ G] exI [of _ e]) (simp add: G(1) demo_calls_def)
qed

end
