(* ===== verification/Concurrent_Tally.thy ===== *)
theory Concurrent_Tally
  imports Concurrent_Votes Retention
begin

text \<open>
  Counting under races: what the requests of a joint execution add to the live counts of a
  poll, whatever the order of their calls. Every accepted ballot is counted, exactly once,
  and nothing else is: no update of a counter is lost or made twice.
\<close>

subsection \<open>What one action does to the counts\<close>

definition counting_ok :: "env \<Rightarrow> redis_state \<Rightarrow> bool" where
  "counting_ok ev st \<longleftrightarrow> store_ready (ev_rd ev) (ev_store ev) st \<and> tier_inv (ev_rd ev) (ev_json ev) st \<and> ping_reads (ev_rd ev)"

definition counts_for :: "string \<Rightarrow> string \<Rightarrow> act \<Rightarrow> bool" where
  "counts_for i j a \<longleftrightarrow> (case a of OpCast b \<Rightarrow> b_PollID b = i \<and> j \<in> set (b_OptionIDs b) | _ \<Rightarrow> False)"

text \<open>The ballot is recorded and its caller told so.\<close>

definition succeeds :: "env \<Rightarrow> redis_state \<Rightarrow> act \<Rightarrow> bool" where
  "succeeds ev st a \<longleftrightarrow> (case a of OpCast b \<Rightarrow> fst (store_CastBallot (ev_rd ev) (ev_store ev) b st) = Inr () | _ \<Rightarrow> False)"

text \<open>Actions after which no vote is missing, but for the passing of time and the loss of Redis.\<close>

definition forgets :: "act \<Rightarrow> bool" where
  "forgets a \<longleftrightarrow> (case a of EnvTick _ \<Rightarrow> True | EnvLoss \<Rightarrow> True | _ \<Rightarrow> False)"

definition sound_ballot :: "act \<Rightarrow> bool" where
  "sound_ballot a \<longleftrightarrow> (case a of OpCast b \<Rightarrow> hash_ok (b_VoterHash b) \<and> distinct (b_OptionIDs b) | _ \<Rightarrow> True)"

text \<open>Calls that leave the counts alone.\<close>

lemma counting_same:
  assumes "counting_ok ev st" and "store_ready (ev_rd ev) (ev_store ev) st' \<and> store_votes (ev_store ev) st' = store_votes (ev_store ev) st"
    and "apart st st' \<or> tier_inv (ev_rd ev) (ev_json ev) st'"
  shows "counting_ok ev st' \<and> store_votes (ev_store ev) st' = store_votes (ev_store ev) st"
  using assms apart_tier(2) [of st st' "ev_rd ev" "ev_json ev"] by (auto simp: counting_ok_def)

lemma store_counting:
  assumes "counting_ok ev st"
  shows "counting_ok ev (snd (store_Guard (ev_rd ev) (ev_store ev) g st))
      \<and> store_votes (ev_store ev) (snd (store_Guard (ev_rd ev) (ev_store ev) g st)) = store_votes (ev_store ev) st"
    "counting_ok ev (snd (store_Counters (ev_rd ev) (ev_store ev) p ids st))
      \<and> store_votes (ev_store ev) (snd (store_Counters (ev_rd ev) (ev_store ev) p ids st)) = store_votes (ev_store ev) st"
    "counting_ok ev (snd (store_TrackPoll (ev_rd ev) p st))
      \<and> store_votes (ev_store ev) (snd (store_TrackPoll (ev_rd ev) p st)) = store_votes (ev_store ev) st"
    "counting_ok ev (snd (store_UntrackPoll (ev_rd ev) p st))
      \<and> store_votes (ev_store ev) (snd (store_UntrackPoll (ev_rd ev) p st)) = store_votes (ev_store ev) st"
    "counting_ok ev (snd (store_TrackedPolls (ev_rd ev) st))
      \<and> store_votes (ev_store ev) (snd (store_TrackedPolls (ev_rd ev) st)) = store_votes (ev_store ev) st"
proof -
  have ready: "store_ready (ev_rd ev) (ev_store ev) st" and ok: "redis_ok (ev_rd ev)"
    using assms by (simp_all add: counting_ok_def store_ready_def)
  note law = redis_store.guard_frame [OF ready surjective_pairing] redis_store.counters_frame [OF ready surjective_pairing]
    redis_store.track_frame [OF ready surjective_pairing] redis_store.untrack_frame [OF ready surjective_pairing]
    redis_store.tracked_list [OF ready surjective_pairing]
  note far = store_apart [OF ok surjective_pairing]
  show "counting_ok ev (snd (store_Guard (ev_rd ev) (ev_store ev) g st))
      \<and> store_votes (ev_store ev) (snd (store_Guard (ev_rd ev) (ev_store ev) g st)) = store_votes (ev_store ev) st"
    by (rule counting_same [OF assms]) (use law(1) [of g] far(1) in simp_all)
  show "counting_ok ev (snd (store_Counters (ev_rd ev) (ev_store ev) p ids st))
      \<and> store_votes (ev_store ev) (snd (store_Counters (ev_rd ev) (ev_store ev) p ids st)) = store_votes (ev_store ev) st"
    by (rule counting_same [OF assms]) (use law(2) [of p ids] far(3) in simp_all)
  show "counting_ok ev (snd (store_TrackPoll (ev_rd ev) p st))
      \<and> store_votes (ev_store ev) (snd (store_TrackPoll (ev_rd ev) p st)) = store_votes (ev_store ev) st"
    by (rule counting_same [OF assms]) (use law(3) [of p] far(4) in simp_all)
  show "counting_ok ev (snd (store_UntrackPoll (ev_rd ev) p st))
      \<and> store_votes (ev_store ev) (snd (store_UntrackPoll (ev_rd ev) p st)) = store_votes (ev_store ev) st"
    by (rule counting_same [OF assms]) (use law(4) [of p] far(5) in simp_all)
  show "counting_ok ev (snd (store_TrackedPolls (ev_rd ev) st))
      \<and> store_votes (ev_store ev) (snd (store_TrackedPolls (ev_rd ev) st)) = store_votes (ev_store ev) st"
    by (rule counting_same [OF assms]) (use law(5) far(6) in simp_all)
qed

lemma tier_counting:
  assumes "counting_ok ev st"
  shows "counting_ok ev (snd (rstore_Get (ev_rd ev) (ev_json ev) k st))
      \<and> store_votes (ev_store ev) (snd (rstore_Get (ev_rd ev) (ev_json ev) k st)) = store_votes (ev_store ev) st"
    "counting_ok ev (snd (rstore_Set (ev_rd ev) (ev_json ev) k en ttl st))
      \<and> store_votes (ev_store ev) (snd (rstore_Set (ev_rd ev) (ev_json ev) k en ttl st)) = store_votes (ev_store ev) st"
    "counting_ok ev (snd (rstore_Delete (ev_rd ev) k st))
      \<and> store_votes (ev_store ev) (snd (rstore_Delete (ev_rd ev) k st)) = store_votes (ev_store ev) st"
proof -
  have ready: "store_ready (ev_rd ev) (ev_store ev) st" and ok: "redis_ok (ev_rd ev)" and tier: "tier_inv (ev_rd ev) (ev_json ev) st"
    using assms by (simp_all add: counting_ok_def store_ready_def)
  note same = cache_tier_same [OF ok tier]
  note kept = redis_tier.get_invar [OF tier, unfolded NewRedisStore_simps]
    redis_tier.set_invar [OF tier, unfolded NewRedisStore_simps] redis_tier.delete_invar [OF tier, unfolded NewRedisStore_simps]
  show "counting_ok ev (snd (rstore_Get (ev_rd ev) (ev_json ev) k st))
      \<and> store_votes (ev_store ev) (snd (rstore_Get (ev_rd ev) (ev_json ev) k st)) = store_votes (ev_store ev) st"
    by (rule counting_same [OF assms]) (use ready_same [OF ready same(1,2)] kept(1) in simp_all)
  show "counting_ok ev (snd (rstore_Set (ev_rd ev) (ev_json ev) k en ttl st))
      \<and> store_votes (ev_store ev) (snd (rstore_Set (ev_rd ev) (ev_json ev) k en ttl st)) = store_votes (ev_store ev) st"
    by (rule counting_same [OF assms]) (use ready_same [OF ready same(3,4)] kept(2) in simp_all)
  show "counting_ok ev (snd (rstore_Delete (ev_rd ev) k st))
      \<and> store_votes (ev_store ev) (snd (rstore_Delete (ev_rd ev) k st)) = store_votes (ev_store ev) st"
    by (rule counting_same [OF assms]) (use ready_same [OF ready same(5,6)] kept(3) in simp_all)
qed

text \<open>The network's plans do not matter, time only forgets, and a ballot counts at most once.\<close>

lemma outside_counting:
  assumes "counting_ok ev st"
  shows "counting_ok ev (st\<lparr>rs_fates := fs\<rparr>) \<and> store_votes (ev_store ev) (st\<lparr>rs_fates := fs\<rparr>) = store_votes (ev_store ev) st"
    "rs_now st \<le> t \<Longrightarrow> counting_ok ev (st\<lparr>rs_now := t\<rparr>) \<and> store_votes (ev_store ev) (st\<lparr>rs_now := t\<rparr>) i j \<le> store_votes (ev_store ev) st i j"
    "counting_ok ev (st\<lparr>rs_db := Map.empty\<rparr>) \<and> store_votes (ev_store ev) (st\<lparr>rs_db := Map.empty\<rparr>) i j = 0"
proof -
  show "counting_ok ev (st\<lparr>rs_fates := fs\<rparr>) \<and> store_votes (ev_store ev) (st\<lparr>rs_fates := fs\<rparr>) = store_votes (ev_store ev) st"
    using assms by (simp add: counting_ok_def store_ready_def tier_inv_def store_inv_def store_votes_def [abs_def])
  show "counting_ok ev (st\<lparr>rs_now := t\<rparr>) \<and> store_votes (ev_store ev) (st\<lparr>rs_now := t\<rparr>) i j \<le> store_votes (ev_store ev) st i j"
    if "rs_now st \<le> t"
    using assms that store_inv_later [of st t] votes_later [of st t "ev_store ev" i j]
    by (simp add: counting_ok_def store_ready_def tier_inv_def)
  show "counting_ok ev (st\<lparr>rs_db := Map.empty\<rparr>) \<and> store_votes (ev_store ev) (st\<lparr>rs_db := Map.empty\<rparr>) i j = 0"
    using assms by (simp add: counting_ok_def store_ready_def tier_inv_def empty_redis)
qed

lemma ballot_counting:
  assumes "counting_ok ev st" and "sound_ballot (OpCast b)" and "\<And>i j. store_votes (ev_store ev) st i j < max_int64"
    and "store_CastBallot (ev_rd ev) (ev_store ev) b st = (r, st')"
  shows "counting_ok ev st'"
    and "store_votes (ev_store ev) st' i j \<le> store_votes (ev_store ev) st i j + (if counts_for i j (OpCast b) then 1 else 0)"
    and "store_votes (ev_store ev) st i j + (if counts_for i j (OpCast b) \<and> succeeds ev st (OpCast b) then 1 else 0)
      \<le> store_votes (ev_store ev) st' i j"
proof -
  have ready: "store_ready (ev_rd ev) (ev_store ev) st" and ok: "redis_ok (ev_rd ev)"
    using assms(1) by (simp_all add: counting_ok_def store_ready_def)
  have h: "hash_ok (b_VoterHash b)" and room: "ballot_room (store_votes (ev_store ev) st) b"
    using assms(2,3) by (simp_all add: sound_ballot_def ballot_room_def)
  have run: "vs_CastBallot (Store (ev_rd ev) (ev_store ev)) b st = (r, st')" using assms(4) by simp
  show "counting_ok ev st'"
    using redis_store.cast_invar(1) [OF ready h room run] assms(1) apart_tier(2) [OF store_apart(2) [OF ok assms(4)]]
    by (simp add: counting_ok_def)
  note once = redis_store.cast_at_most_once [OF ready h room run]
  note full = redis_store.cast_accepted(2) [OF ready h room]
  show "store_votes (ev_store ev) st' i j \<le> store_votes (ev_store ev) st i j + (if counts_for i j (OpCast b) then 1 else 0)"
    using once by (auto simp: add_ballot_def counts_for_def)
  show "store_votes (ev_store ev) st i j + (if counts_for i j (OpCast b) \<and> succeeds ev st (OpCast b) then 1 else 0)
      \<le> store_votes (ev_store ev) st' i j"
    using once full [of "()" st'] run by (auto simp: add_ballot_def counts_for_def succeeds_def)
qed

lemma perform_counting:
  assumes ok: "counting_ok ev (w_redis w)" and "sound_ballot a"
    and room: "casting a \<Longrightarrow> (\<And>i j. w_votes ev w i j < max_int64)"
  shows "counting_ok ev (w_redis (perform ev a w))"
    and "w_votes ev (perform ev a w) i j \<le> w_votes ev w i j + (if counts_for i j a then 1 else 0)"
    and "\<not> forgets a \<Longrightarrow> w_votes ev w i j + (if counts_for i j a \<and> succeeds ev (w_redis w) a then 1 else 0)
      \<le> w_votes ev (perform ev a w) i j"
proof -
  note keep = store_counting [OF ok] tier_counting [OF ok] outside_counting(1) [OF ok]
  have ping: "ping_reads (ev_rd ev)" using ok by (simp add: counting_ok_def)
  have nonneg: "0 \<le> w_votes ev w i j"
    using ok by (simp add: w_votes_def store_votes_nonneg counting_ok_def store_ready_def)
  show "counting_ok ev (w_redis (perform ev a w))"
  proof (cases a)
    case (OpCast b)
    with assms(2) room show ?thesis
      using ballot_counting(1) [OF ok _ _ surjective_pairing, of b] by (simp add: perform_def casting_def w_votes_def)
  qed (use ok keep outside_counting(2) [OF ok, of "max t (clock w)" for t] outside_counting(3) [OF ok] in
      \<open>simp_all add: perform_def ping_net(1) [OF ping] tick_def boot_def renet_def redis_loss_def clock_def\<close>)
  show "w_votes ev (perform ev a w) i j \<le> w_votes ev w i j + (if counts_for i j a then 1 else 0)"
  proof (cases a)
    case (OpCast b)
    with assms(2) room show ?thesis
      using ballot_counting(2) [OF ok _ _ surjective_pairing, of b i j] by (simp add: perform_def casting_def w_votes_def)
  qed (use nonneg keep outside_counting(2) [OF ok, of "max t (clock w)" i j for t] outside_counting(3) [OF ok, of i j] in
      \<open>simp_all add: perform_def w_votes_def counts_for_def ping_net(1) [OF ping] tick_def boot_def renet_def redis_loss_def clock_def\<close>)
  show "w_votes ev w i j + (if counts_for i j a \<and> succeeds ev (w_redis w) a then 1 else 0)
      \<le> w_votes ev (perform ev a w) i j" if "\<not> forgets a"
  proof (cases a)
    case (OpCast b)
    with assms(2) room show ?thesis
      using ballot_counting(3) [OF ok _ _ surjective_pairing, of b i j] by (simp add: perform_def casting_def w_votes_def)
  qed (use that keep in
      \<open>simp_all add: perform_def w_votes_def counts_for_def forgets_def ping_net(1) [OF ping] boot_def renet_def\<close>)
qed

text \<open>Every action but the loss of Redis leaves the ends of the counters where they are.\<close>

lemma lasts_perform:
  assumes l: "lasts s u (w_redis w)" and ok: "counting_ok ev (w_redis w)" and "sound_ballot a" and "a \<noteq> EnvLoss"
    and u: "u < s + retention ev"
  shows "lasts s u (w_redis (perform ev a w))"
proof -
  have rd: "redis_ok (ev_rd ev)" and ping: "ping_reads (ev_rd ev)" using ok by (simp_all add: counting_ok_def store_ready_def)
  note keep = lasts_store(1-5) [OF l rd] lasts_tier [OF l rd]
  have cast: "hash_ok (b_VoterHash b) \<Longrightarrow> lasts s u (snd (store_CastBallot (ev_rd ev) (ev_store ev) b (w_redis w)))" for b
    using lasts_store(6) [OF l rd] u by (simp add: retention_def)
  show ?thesis
    using assms(3,4) l keep cast
    by (cases a) (simp_all add: perform_def sound_ballot_def ping_net(1) [OF ping] tick_def boot_def renet_def
        lasts_tick clock_def, simp_all add: lasts_def)
qed

text \<open>What an action adds to the counts, time included, while no counter comes to its end.\<close>

lemma perform_keeps_votes:
  assumes ok: "counting_ok ev (w_redis w)" and "sound_ballot a" and room: "casting a \<Longrightarrow> (\<And>i j. w_votes ev w i j < max_int64)"
    and l: "lasts s u (w_redis w)" and "a \<noteq> EnvLoss" and late: "clock (perform ev a w) \<le> u"
  shows "w_votes ev w i j + (if counts_for i j a \<and> succeeds ev (w_redis w) a then 1 else 0) \<le> w_votes ev (perform ev a w) i j"
proof (cases "forgets a")
  case True
  with assms(5) obtain t where a: "a = EnvTick t" by (cases a) (simp_all add: forgets_def)
  then have "clock (perform ev a w) = max t (clock w)" by (simp add: perform_def tick_def clock_def)
  with lasts_votes_tick [OF l, of "max t (clock w)" ev] late show ?thesis by (simp add: a perform_def counts_for_def)
next
  case False
  from perform_counting(3) [OF ok assms(2) room False] show ?thesis .
qed

subsection \<open>What a joint execution does to the counts\<close>

text \<open>How many actions satisfy a condition on what came before them and on themselves.\<close>

definition hits :: "((nat \<times> act) list \<Rightarrow> act \<Rightarrow> bool) \<Rightarrow> (nat \<times> act) list \<Rightarrow> int" where
  "hits Q G = int (card {p. p < length G \<and> Q (take p G) (snd (G ! p))})"

lemma hits_Nil [simp]: "hits Q [] = 0"
  by (simp add: hits_def)

lemma hits_snoc [simp]: "hits Q (G @ [x]) = hits Q G + (if Q G (snd x) then 1 else 0)"
proof -
  let ?S = "\<lambda>G. {p. p < length G \<and> Q (take p G) (snd (G ! p))}"
  have "?S (G @ [x]) = ?S G \<union> (if Q G (snd x) then {length G} else {})"
    by (auto simp: nth_append less_Suc_eq)
  moreover have "finite (?S G)" by simp
  ultimately show ?thesis by (simp add: hits_def)
qed

lemma hits_mono: "(\<And>H a. Q H a \<Longrightarrow> Q' H a) \<Longrightarrow> hits Q G \<le> hits Q' G"
  by (auto simp: hits_def intro!: card_mono)

lemma after_snoc: "after ev w (G @ [x]) = w_redis (perform ev (snd x) (performs ev (map snd G) w))"
  by (simp add: after_def)

lemma counting_bounds:
  assumes ok: "counting_ok ev (w_redis w)" and sound: "\<forall>x \<in> set G. sound_ballot (snd x)"
    and room: "\<And>i j. w_votes ev w i j + hits (\<lambda>_. casting) G \<le> max_int64"
  shows "counting_ok ev (after ev w G)"
    and "w_votes ev (performs ev (map snd G) w) i j \<le> w_votes ev w i j + hits (\<lambda>_. counts_for i j) G"
    and "EnvLoss \<notin> snd ` set G \<Longrightarrow> lasting ev (w_redis w) (clock (performs ev (map snd G) w)) \<Longrightarrow>
      w_votes ev w i j + hits (\<lambda>H a. counts_for i j a \<and> succeeds ev (after ev w H) a) G \<le> w_votes ev (performs ev (map snd G) w) i j"
proof -
  define s u where "s = clock w" and "u = clock (performs ev (map snd G) w)"
  have "counting_ok ev (after ev w G)
    \<and> (\<forall>i j. w_votes ev (performs ev (map snd G) w) i j \<le> w_votes ev w i j + hits (\<lambda>_. counts_for i j) G)
    \<and> (EnvLoss \<notin> snd ` set G \<longrightarrow> lasting ev (w_redis w) u \<longrightarrow> clock (performs ev (map snd G) w) \<le> u
      \<longrightarrow> lasts s u (after ev w G) \<and> (\<forall>i j. w_votes ev w i j + hits (\<lambda>H a. counts_for i j a \<and> succeeds ev (after ev w H) a) G \<le> w_votes ev (performs ev (map snd G) w) i j))"
    using sound room
  proof (induction G rule: rev_induct)
    case Nil
    with ok show ?case by (simp add: after_def lasting_def s_def clock_def)
  next
    case (snoc x G)
    let ?v = "performs ev (map snd G) w"
    have room': "w_votes ev w i j + hits (\<lambda>_. casting) G \<le> max_int64" for i j
      using snoc.prems(2) [of i j] by (simp split: if_splits)
    note IH = snoc.IH [OF _ room']
    have sound: "\<forall>x \<in> set G. sound_ballot (snd x)" "sound_ballot (snd x)" using snoc.prems(1) by simp_all
    have most: "w_votes ev ?v i j \<le> w_votes ev w i j + hits (\<lambda>_. counts_for i j) G" for i j
      using IH [OF sound(1)] by blast
    have least: "lasts s u (w_redis ?v)"
      "w_votes ev w i j + hits (\<lambda>H a. counts_for i j a \<and> succeeds ev (after ev w H) a) G \<le> w_votes ev ?v i j"
      if "EnvLoss \<notin> snd ` set G" "lasting ev (w_redis w) u" "clock ?v \<le> u" for i j
      using IH [OF sound(1)] that by (simp_all add: after_def)
    from IH [OF sound(1)] have ok: "counting_ok ev (w_redis ?v)" by (simp add: after_def)
    have few: "w_votes ev ?v i j < max_int64" if "casting (snd x)" for i j
    proof -
      have "hits (\<lambda>_. counts_for i j) G \<le> hits (\<lambda>_. casting) G"
        by (rule hits_mono) (auto simp: counts_for_def casting_def split: act.splits)
      with most [of i j] snoc.prems(2) [of i j] that show ?thesis by simp
    qed
    note step = perform_counting [OF ok sound(2) few]
    have upper: "w_votes ev (perform ev (snd x) ?v) i j \<le> w_votes ev w i j + hits (\<lambda>_. counts_for i j) (G @ [x])" for i j
      using step(2) [of i j] most [of i j] by simp
    have lower: "lasts s u (w_redis (perform ev (snd x) ?v))
        \<and> w_votes ev w i j + hits (\<lambda>H a. counts_for i j a \<and> succeeds ev (after ev w H) a) (G @ [x])
          \<le> w_votes ev (perform ev (snd x) ?v) i j"
      if no: "EnvLoss \<notin> snd ` set (G @ [x])" and l: "lasting ev (w_redis w) u" and late: "clock (perform ev (snd x) ?v) \<le> u" for i j
    proof -
      have early: "clock ?v \<le> u" using perform_clock [of ?v ev "snd x"] late by simp
      have no': "EnvLoss \<notin> snd ` set G" "snd x \<noteq> EnvLoss" using no by auto
      note before = least [OF no'(1) l early]
      have "u < s + retention ev" using l by (simp add: lasting_def s_def clock_def)
      with lasts_perform [OF before(1) ok sound(2) no'(2)]
        perform_keeps_votes [OF ok sound(2) few before(1) no'(2) late, of i j] before(2) [of i j]
      show ?thesis by (simp add: after_def)
    qed
    from step(1) upper lower show ?case by (simp add: after_def)
  qed
  then show "counting_ok ev (after ev w G)"
    and "w_votes ev (performs ev (map snd G) w) i j \<le> w_votes ev w i j + hits (\<lambda>_. counts_for i j) G"
    and "EnvLoss \<notin> snd ` set G \<Longrightarrow> lasting ev (w_redis w) (clock (performs ev (map snd G) w)) \<Longrightarrow>
      w_votes ev w i j + hits (\<lambda>H a. counts_for i j a \<and> succeeds ev (after ev w H) a) G \<le> w_votes ev (performs ev (map snd G) w) i j"
    by (simp_all add: u_def)
qed

subsection \<open>The calls and their requests\<close>

lemma cast_codes:
  assumes "store_config_ok (ev_store ev)" and "store_CastBallot (ev_rd ev) (ev_store ev) b st = (Inl e, st')"
  shows "CodeOf e \<in> {CodeAlreadyVoted, CodeUnavailable}"
proof -
  obtain q st1 where call: "redis_call (cast_cmd (ev_rd ev) (ev_store ev) b) st = (q, st1)" by fastforce
  note res = cast_result [OF assms(1) call assms(2)]
  show ?thesis
  proof (cases q)
    case (Inl x)
    from res(2) [OF this] show ?thesis by simp
  next
    case (Inr n)
    with res(3,4) show ?thesis by (cases "n = 1") auto
  qed
qed

lemma casts_by_hit: "p < length G \<Longrightarrow> fst (G ! p) = k \<Longrightarrow> casting (snd (G ! p)) \<Longrightarrow> casts_by k G \<noteq> []"
proof -
  assume "p < length G" "fst (G ! p) = k" "casting (snd (G ! p))"
  then have "G ! p \<in> set (filter (\<lambda>(j, a). j = k \<and> casting a) G)" by (simp add: split_def)
  then show ?thesis unfolding casts_by_def by (metis empty_iff list.map_disc_iff list.set(1))
qed

lemma cast_position:
  assumes j: "joint ev w G rqs outs" and k: "fst (G ! p) < length rqs" and p: "p < length G" "casting (snd (G ! p))"
  obtains cmd r where "rqs ! fst (G ! p) = RqCast cmd" "outs ! fst (G ! p) = EvCast cmd r"
    "snd (G ! p) = OpCast (cast_ballot_of cmd)" "distinct (vc_OptionIDs cmd)"
    "r = map_sum (Wrapped ''cast vote'') id (fst (store_CastBallot (ev_rd ev) (ev_store ev) (cast_ballot_of cmd) (after ev w (take p G))))"
    "\<And>q. q < length G \<Longrightarrow> fst (G ! q) = fst (G ! p) \<Longrightarrow> casting (snd (G ! q)) \<Longrightarrow> q = p"
proof -
  let ?k = "fst (G ! p)"
  have some: "casts_by ?k G \<noteq> []" using casts_by_hit [OF p(1) refl p(2)] .
  then obtain cmd where cmd: "rqs ! ?k = RqCast cmd" using joint_other(1) [OF j k] by blast
  from joint_cast [OF j k cmd] some obtain r G1 G2 where r: "outs ! ?k = EvCast cmd r" "distinct (vc_OptionIDs cmd)"
    and G: "G = G1 @ (?k, OpCast (cast_ballot_of cmd)) # G2" and none: "casts_by ?k G1 = []" "casts_by ?k G2 = []"
    and res: "r = map_sum (Wrapped ''cast vote'') id
      (fst (store_CastBallot (ev_rd ev) (ev_store ev) (cast_ballot_of cmd) (after ev w G1)))" by blast
  define a where "a = OpCast (cast_ballot_of cmd)"
  have split: "q = length G1" if q: "q < length H" "fst (H ! q) = k" "casting (snd (H ! q))" "H = G1 @ (k, a) # G2"
    "casts_by k G1 = []" "casts_by k G2 = []" for q H k
  proof (rule ccontr)
    assume ne: "q \<noteq> length G1"
    show False
    proof (cases "q < length G1")
      case True
      with casts_by_hit [OF True] q show False by (simp add: nth_append)
    next
      case False
      with ne have less: "length G1 < q" by simp
      define n where "n = q - Suc (length G1)"
      have "q = length G1 + Suc n" using less by (simp add: n_def)
      with q(1,4) have "H ! q = G2 ! n" "n < length G2" by (simp_all add: nth_append)
      with casts_by_hit [of n G2] q(2,3,6) show False by simp
    qed
  qed
  have at: "q = length G1" if "q < length G" "fst (G ! q) = ?k" "casting (snd (G ! q))" for q
    by (rule split [OF that _ none], unfold a_def, rule G)
  have here: "p = length G1" using at [OF p(1) refl p(2)] .
  have "G ! length G1 = (?k, a)" "take (length G1) G = G1" by (subst G, simp add: a_def)+
  then have sn: "snd (G ! p) = OpCast (cast_ballot_of cmd)" and tk: "take p G = G1"
    unfolding here by (metis a_def snd_conv)+
  have same: "q = p" if "q < length G" "fst (G ! q) = ?k" "casting (snd (G ! q))" for q
    using at [OF that] here by (rule trans [OF _ sym])
  show ?thesis by (rule that [OF cmd r(1) sn r(2) res [folded tk] same])
qed

lemma hits_le_card:
  assumes "finite S" and "\<And>p. p < length G \<Longrightarrow> Q (take p G) (snd (G ! p)) \<Longrightarrow> fst (G ! p) \<in> S"
    and "\<And>p q. p < length G \<Longrightarrow> q < length G \<Longrightarrow> Q (take p G) (snd (G ! p)) \<Longrightarrow> Q (take q G) (snd (G ! q)) \<Longrightarrow>
      fst (G ! p) = fst (G ! q) \<Longrightarrow> p = q"
  shows "hits Q G \<le> int (card S)"
proof -
  have "card {p. p < length G \<and> Q (take p G) (snd (G ! p))} \<le> card S"
    by (rule card_inj_on_le [where f = "\<lambda>p. fst (G ! p)"]) (use assms in \<open>auto intro!: inj_onI\<close>)
  then show ?thesis by (simp add: hits_def)
qed

lemma card_le_hits:
  assumes "\<And>k. k \<in> S \<Longrightarrow> \<exists>p. p < length G \<and> Q (take p G) (snd (G ! p)) \<and> fst (G ! p) = k"
  shows "int (card S) \<le> hits Q G"
proof -
  let ?T = "{p. p < length G \<and> Q (take p G) (snd (G ! p))}"
  have "S \<subseteq> (\<lambda>p. fst (G ! p)) ` ?T" using assms by fastforce
  then have "card S \<le> card ?T" by (intro surj_card_le) simp_all
  then show ?thesis by (simp add: hits_def)
qed

lemma tally_card: "tally P es = int (card {k. k < length es \<and> P (es ! k)})"
  by (simp add: tally_def length_filter_conv_card)

text \<open>Who votes in a joint execution: its requests, and nobody else.\<close>

definition votes_within :: "(nat \<times> act) list \<Rightarrow> req list \<Rightarrow> bool" where
  "votes_within G rqs \<longleftrightarrow> (\<forall>x \<in> set G. casting (snd x) \<longrightarrow> fst x < length rqs)"

lemma counts_casting: "counts_for i j a \<Longrightarrow> casting a"
  by (auto simp: counts_for_def casting_def split: act.splits)

lemma joint_hits:
  assumes j: "joint ev w G rqs outs" and own: "votes_within G rqs" and cfg: "store_config_ok (ev_store ev)"
  shows "hits (\<lambda>_. casting) G \<le> int (length rqs)"
    and "hits (\<lambda>_. counts_for i o') G \<le> tally (\<lambda>e. may_count e i o') outs"
    and "tally (\<lambda>e. accepted e i o') outs \<le> hits (\<lambda>H a. counts_for i o' a \<and> succeeds ev (after ev w H) a) G"
    and "\<forall>x \<in> set G. sound_ballot (snd x)"
proof -
  have len: "length outs = length rqs" using j by (simp add: joint_def)
  have k: "fst (G ! p) < length rqs" if "p < length G" "casting (snd (G ! p))" for p
    using own that by (auto simp: votes_within_def)
  have uniq: "p = q" if "p < length G" "q < length G" "casting (snd (G ! p))" "casting (snd (G ! q))" "fst (G ! p) = fst (G ! q)" for p q
    using cast_position [OF j k [OF that(1,3)] that(1,3)] that(2,4,5) by metis
  have "hits (\<lambda>_. casting) G \<le> int (card {..<length rqs})"
    by (rule hits_le_card) (use k uniq in auto)
  then show "hits (\<lambda>_. casting) G \<le> int (length rqs)" by simp
  have may: "may_count (outs ! fst (G ! p)) i o'" if p: "p < length G" "counts_for i o' (snd (G ! p))" for p
  proof -
    have c: "casting (snd (G ! p))" by (rule counts_casting [OF p(2)])
    obtain cmd r where r: "outs ! fst (G ! p) = EvCast cmd r" "snd (G ! p) = OpCast (cast_ballot_of cmd)"
      "r = map_sum (Wrapped ''cast vote'') id
        (fst (store_CastBallot (ev_rd ev) (ev_store ev) (cast_ballot_of cmd) (after ev w (take p G))))"
      using cast_position [OF j k [OF p(1) c] p(1) c] by metis
    obtain a st where a: "store_CastBallot (ev_rd ev) (ev_store ev) (cast_ballot_of cmd) (after ev w (take p G)) = (a, st)"
      by fastforce
    with p(2) r cast_codes [OF cfg, of "cast_ballot_of cmd" "after ev w (take p G)"] show ?thesis
      by (cases a) (auto simp: counts_for_def)
  qed
  show "hits (\<lambda>_. counts_for i o') G \<le> tally (\<lambda>e. may_count e i o') outs"
    unfolding tally_card
  proof (rule hits_le_card)
    show "fst (G ! p) \<in> {k. k < length outs \<and> may_count (outs ! k) i o'}" if "p < length G" "counts_for i o' (snd (G ! p))" for p
      using may [OF that] k [OF that(1) counts_casting [OF that(2)]] by (simp add: len)
    show "p = q" if "p < length G" "q < length G" "counts_for i o' (snd (G ! p))" "counts_for i o' (snd (G ! q))"
      "fst (G ! p) = fst (G ! q)" for p q
      by (rule uniq [OF that(1,2) counts_casting [OF that(3)] counts_casting [OF that(4)] that(5)])
  qed simp
  show "tally (\<lambda>e. accepted e i o') outs \<le> hits (\<lambda>H a. counts_for i o' a \<and> succeeds ev (after ev w H) a) G"
    unfolding tally_card
  proof (rule card_le_hits)
    fix n assume n: "n \<in> {k. k < length outs \<and> accepted (outs ! k) i o'}"
    with joint_other(2) [OF j, of n] len obtain cmd where cmd: "rqs ! n = RqCast cmd" by auto
    with joint_cast [OF j _ cmd] n len have out: "outs ! n = EvCast cmd (Inr ())" "vc_PollID cmd = i" "o' \<in> set (vc_OptionIDs cmd)"
      by (auto elim: accepted.elims)
    obtain G1 G2 where G: "G = G1 @ (n, OpCast (cast_ballot_of cmd)) # G2"
      "fst (store_CastBallot (ev_rd ev) (ev_store ev) (cast_ballot_of cmd) (after ev w G1)) = Inr ()"
      by (rule joint_accepted [OF j _ cmd out(1)]) (use n len in auto)
    show "\<exists>p. p < length G \<and> (counts_for i o' (snd (G ! p)) \<and> succeeds ev (after ev w (take p G)) (snd (G ! p))) \<and> fst (G ! p) = n"
      by (rule exI [of _ "length G1"]) (use G out in \<open>simp add: counts_for_def succeeds_def\<close>)
  qed
  show "\<forall>x \<in> set G. sound_ballot (snd x)"
  proof
    fix x assume "x \<in> set G"
    then obtain p where p: "p < length G" "x = G ! p" by (auto simp: in_set_conv_nth)
    show "sound_ballot (snd x)"
    proof (cases "casting (snd x)")
      case True
      with p k obtain cmd where "snd x = OpCast (cast_ballot_of cmd)" "distinct (vc_OptionIDs cmd)"
        using cast_position [OF j k p(1)] by metis
      then show ?thesis using VoterHash_ok by (simp add: sound_ballot_def)
    qed (simp add: sound_ballot_def casting_def split: act.splits)
  qed
qed

text \<open>
  C18. Counting under races. Let any number of requests be served together, with their calls
  (and restarts, outages, passing time and everything else) interleaved in any order, and let
  only they vote. The live count of an option then grows at most by the number of those votes
  for it that were accepted or left without an answer that rules it out. As long as Redis loses
  no data and no counter reaches the end of its retention time meanwhile, it grows at least by
  the number of the accepted ones, so that no concurrent increment is lost.
\<close>

theorem racing_count:
  assumes "joint ev w G rqs outs" and "votes_within G rqs" and "counting_ok ev (w_redis w)"
    and "\<And>i j. w_votes ev w i j + int (length rqs) \<le> max_int64"
  shows "w_votes ev (performs ev (map snd G) w) i j \<le> w_votes ev w i j + tally (\<lambda>e. may_count e i j) outs
    \<and> (EnvLoss \<notin> snd ` set G \<and> lasting ev (w_redis w) (clock (performs ev (map snd G) w)) \<longrightarrow>
         w_votes ev w i j + tally (\<lambda>e. accepted e i j) outs \<le> w_votes ev (performs ev (map snd G) w) i j)"
proof -
  have "store_config_ok (ev_store ev)" using assms(3) by (simp add: counting_ok_def store_ready_def)
  note hits = joint_hits [OF assms(1,2) this]
  have room: "w_votes ev w i j + hits (\<lambda>_. casting) G \<le> max_int64" for i j using hits(1) assms(4) [of i j] by simp
  note bounds = counting_bounds [OF assms(3) hits(4) room]
  show ?thesis using bounds(2,3) [of i j] hits(2,3) [of i j] by fastforce
qed

theorem racing_count_witness:
  "\<exists>G r. joint demo_env demo_world G [RqCast demo_vote, RqCast demo_vote] [EvCast demo_vote (Inr ()), EvCast demo_vote r]
     \<and> w_votes demo_env (performs demo_env (map snd G) demo_world) ''p'' ''a'' \<in> {1, 2}"
proof -
  obtain G r where j: "joint demo_env demo_world G [RqCast demo_vote, RqCast demo_vote] [EvCast demo_vote (Inr ()), EvCast demo_vote r]"
    and G: "G = map (Pair 0) demo_calls @ map (Pair 1) demo_calls" and now: "clock (performs demo_env (map snd G) demo_world) = 1000"
    by (rule demo_pair)
  have own: "votes_within G [RqCast demo_vote, RqCast demo_vote]" by (auto simp: votes_within_def G)
  have ok: "counting_ok demo_env (w_redis demo_world)"
    using demo_inv demo_ping by (simp add: counting_ok_def world_inv_def base_inv_def demo_site_def)
  have room: "w_votes demo_env demo_world i j + int (length [RqCast demo_vote, RqCast demo_vote]) \<le> max_int64" for i j
    by (simp add: demo_votes max_int64_def)
  note count = racing_count [OF j own ok room, of "''p''" "''a''"]
  have "EnvLoss \<notin> snd ` set G" by (auto simp: G demo_calls_def)
  moreover have "lasting demo_env (w_redis demo_world) (clock (performs demo_env (map snd G) demo_world))"
    unfolding now by (rule demo_lasting) (simp_all add: second_def)
  ultimately have "w_votes demo_env (performs demo_env (map snd G) demo_world) ''p'' ''a''
      \<le> tally (\<lambda>e. may_count e ''p'' ''a'') [EvCast demo_vote (Inr ()), EvCast demo_vote r]"
    "tally (\<lambda>e. accepted e ''p'' ''a'') [EvCast demo_vote (Inr ()), EvCast demo_vote r]
      \<le> w_votes demo_env (performs demo_env (map snd G) demo_world) ''p'' ''a''"
    using count by (simp_all add: demo_votes)
  moreover have "tally (\<lambda>e. may_count e i k) [a, b] \<le> 2" for a b i k
    using tally_length [of _ "[a, b]"] by simp
  moreover have "1 \<le> tally (\<lambda>e. accepted e ''p'' ''a'') [EvCast demo_vote (Inr ()), e]" for e
    by (simp add: tally_def demo_vote_def)
  ultimately have "w_votes demo_env (performs demo_env (map snd G) demo_world) ''p'' ''a'' \<le> 2"
    "1 \<le> w_votes demo_env (performs demo_env (map snd G) demo_world) ''p'' ''a''"
    by (blast intro: order_trans)+
  then have "w_votes demo_env (performs demo_env (map snd G) demo_world) ''p'' ''a'' \<in> {1, 2}" by auto
  with j show ?thesis by blast
qed

end
