(* ===== verification/Concurrent_Moves.thy ===== *)
theory Concurrent_Moves
  imports Concurrent_Votes
begin

text \<open>
  Opening and closing a poll under races: the conditional UPDATE of the database decides, so
  of several administrators who activate or finish the same poll at the same time one
  succeeds, on whatever replicas and in whatever order their calls arrive.
\<close>

subsection \<open>What a successful call leaves in the trace\<close>

lemma shared_done:
  assumes run: "shared ev a f c = (Inr v, c')" and tr: "traced ev w c" and wired: "wired_as ev a f"
    and cut: "\<And>w. \<exists>e. fst (f (cut_off w)) = Inl e"
  shows "\<exists>T as. co_trace c' = T @ (True, a) # map (Pair False) as \<and> fst (f (performs ev (map snd T) w)) = Inr v"
proof -
  let ?m = "meddle ev c"
  have "\<not> expired ?m"
    using run cut [of "co_world ?m"] by (auto simp: shared_def Let_def split: if_splits)
  moreover obtain r u where f: "f (co_world ?m) = (r, u)" by fastforce
  let ?n = "?m\<lparr>co_world := u, co_trace := co_trace ?m @ [(True, a)]\<rparr>"
  obtain as where "co_trace (meddle ev ?n) = co_trace ?n @ map (Pair False) as" by (rule meddle_trace)
  moreover have "co_world ?m = performs ev (map snd (co_trace ?m)) w"
    using traced_steps(3) [OF tr] by (simp add: traced_def)
  ultimately show ?thesis using run f
    by (intro exI [of _ "co_trace ?m"] exI [of _ as]) (simp add: shared_def Let_def)
qed

text \<open>Whatever follows only adds to the trace.\<close>

lemma prefix_steady: "steady ev A (\<lambda>c. \<exists>U. co_trace c = t @ U)"
proof -
  have "\<exists>U. co_trace (meddle ev c) = t @ U" if "\<exists>U. co_trace c = t @ U" for c
    using that by (auto intro: meddle_trace [of ev c])
  moreover have "\<exists>U. co_trace (own ev a c) = t @ U" if "\<exists>U. co_trace c = t @ U" for a c
    using that by (auto simp: own_def)
  ultimately show ?thesis unfolding steady_def by blast
qed

lemma update_cut_off: "\<exists>e. fst (pr_UpdatePollStatus (main_repo ev) i fr to t (cut_off w)) = Inl e"
  by (auto simp: cut_off_def renet_def repo_UpdatePollStatus_def Let_def pg_exec_def pg_fate_of_def split: go_try_splits)

definition moved_in :: "env \<Rightarrow> world \<Rightarrow> string \<Rightarrow> string list \<Rightarrow> string \<Rightarrow> (bool \<times> act) list \<Rightarrow> bool" where
  "moved_in ev w i fr to tr \<longleftrightarrow> (\<exists>T U t. tr = T @ (True, OpUpdate i fr to t) # U
     \<and> fst (repo_UpdatePollStatus (ev_cod ev) i fr to t (w_pg (performs ev (map snd T) w))) = Inr ())"

lemma moved_steady: "steady ev A (\<lambda>c. moved_in ev w i fr to (co_trace c))"
proof -
  have more: "moved_in ev w i fr to (tr @ U)" if "moved_in ev w i fr to tr" for tr U
    using that by (fastforce simp: moved_in_def)
  have "moved_in ev w i fr to (co_trace (meddle ev c))" if "moved_in ev w i fr to (co_trace c)" for c
    by (rule meddle_trace [of ev c]) (use more that in simp)
  moreover have "moved_in ev w i fr to (co_trace (own ev a c))" if "moved_in ev w i fr to (co_trace c)" for a c
    using more that by (simp add: own_def)
  ultimately show ?thesis unfolding steady_def by blast
qed

lemma transition_trace:
  assumes run: "poll_transition (shared_polls ev) i fr to c = (Inr p, c')" and tr: "traced ev w c"
  shows "moved_in ev w i fr to (co_trace c')"
proof -
  let ?t = "clock (co_world c)"
  let ?f = "pr_UpdatePollStatus (main_repo ev) i fr to ?t"
  obtain r c1 where u: "shared ev (OpUpdate i fr to ?t) ?f c = (r, c1)" by fastforce
  have get: "go_try (pr_GetPollStatus (shared_repo ev) i s) g (\<lambda>x s. (Inl (e x), s)) \<noteq> (Inr p, c')" for s g and e :: "string \<Rightarrow> goerror"
    by (auto split: go_try_splits)
  from run u obtain v where v: "r = Inr v" and load: "pr_GetPoll (shared_repo ev) i c1 = (Inr p, c')"
    unfolding poll_transition_def
    by (cases r) (auto simp: shared_service_simps shared_repo_simps(5) get go_try_eq_Inr split: if_splits simp del: main_simps)
  from shared_done [OF u [unfolded v] tr repo_wired(6) update_cut_off] have "moved_in ev w i fr to (co_trace c1)"
    unfolding moved_in_def by (auto simp: v)
  from steady_shared [OF moved_steady this repo_wired(2) TrueI, of i] load show ?thesis
    by (simp add: shared_repo_simps del: main_simps)
qed

text \<open>The two operations, and when they succeed.\<close>

fun move_of :: "event \<Rightarrow> (string \<times> poll_status) option" where
  "move_of (EvActivate i (Inr p)) = Some (i, PollStatusActive)"
| "move_of (EvFinish i (Inr p)) = Some (i, PollStatusFinished)"
| "move_of _ = None"

lemma poll_Activate_moved:
  assumes run: "poll_Activate (shared_polls ev) i c = (Inr p, c')" and tr: "traced ev w c"
  shows "moved_in ev w i [PollStatusDraft] PollStatusActive (co_trace c')"
proof -
  let ?P = "\<lambda>c. moved_in ev w i [PollStatusDraft] PollStatusActive (co_trace c)"
  obtain q c1 where t: "poll_transition (shared_polls ev) i [PollStatusDraft] PollStatusActive c = (Inr q, c1)"
    using run by (auto simp: poll_Activate_def go_try_eq_Inr)
  note p1 = transition_trace [OF t tr]
  have track: "?P (snd (vs_TrackPoll (shared_store ev) k c))" if "?P c" for k c
    unfolding shared_simps by (rule steady_shared [OF moved_steady that store_wired(4) TrueI])
  have inval: "?P (snd (cache_Invalidate (shared_cache ev) k c))" if "?P c" for k c
    by (rule steady_cache(2) [OF moved_steady TrueI that])
  have "?P (snd (poll_Activate (shared_polls ev) i c))"
    unfolding poll_Activate_def t go_try_Inr shared_service_simps poll_invalidate_def loader_simps
    by (auto intro!: go_try_snd [where P = ?P] simp: p1 track inval)
  with run show ?thesis by simp
qed

lemma poll_Finish_moved:
  assumes run: "poll_Finish (shared_polls ev) i c = (Inr p, c')" and tr: "traced ev w c"
  shows "moved_in ev w i [PollStatusDraft, PollStatusActive] PollStatusFinished (co_trace c')"
proof -
  let ?P = "\<lambda>c. moved_in ev w i [PollStatusDraft, PollStatusActive] PollStatusFinished (co_trace c)"
  obtain q c1 where t: "poll_transition (shared_polls ev) i [PollStatusDraft, PollStatusActive] PollStatusFinished c = (Inr q, c1)"
    using run by (auto simp: poll_Finish_def go_try_eq_Inr)
  note p1 = transition_trace [OF t tr]
  have inval: "?P (snd (cache_Invalidate (shared_cache ev) k c))" if "?P c" for k c
    by (rule steady_cache(2) [OF moved_steady TrueI that])
  have "?P (snd (poll_Finish (shared_polls ev) i c))"
    unfolding poll_Finish_def t go_try_Inr shared_service_simps poll_invalidate_def loader_simps
    by (auto intro!: go_try_snd [where P = ?P] simp: p1 inval)
  with run show ?thesis by simp
qed

lemma handle_moved:
  assumes "handle ev rq c = (e, c')" and "traced ev w c" and "move_of e = Some (i, to)"
  shows "moved_in ev w i (sources to) to (co_trace c')"
proof (cases rq)
  case (RqActivate k)
  with assms obtain p where "poll_Activate (shared_polls ev) i c = (Inr p, c')" "to = PollStatusActive"
    by (cases "poll_Activate (shared_polls ev) k c"; cases "fst (poll_Activate (shared_polls ev) k c)") auto
  with poll_Activate_moved [OF _ assms(2)] show ?thesis by (simp add: sources_def)
next
  case (RqFinish k)
  with assms obtain p where "poll_Finish (shared_polls ev) i c = (Inr p, c')" "to = PollStatusFinished"
    by (cases "poll_Finish (shared_polls ev) k c"; cases "fst (poll_Finish (shared_polls ev) k c)") auto
  with poll_Finish_moved [OF _ assms(2)] show ?thesis by (simp add: sources_def)
qed (use assms in \<open>auto simp: map_prod_def split: prod.splits\<close>)

text \<open>In a joint execution.\<close>

definition after_pg :: "env \<Rightarrow> world \<Rightarrow> (nat \<times> act) list \<Rightarrow> pg_state" where
  "after_pg ev w G = w_pg (performs ev (map snd G) w)"

lemma joint_moved:
  assumes j: "joint ev w G rqs outs" and k: "k < length rqs" and m: "move_of (outs ! k) = Some (i, to)"
  obtains G1 t G2 where "G = G1 @ (k, OpUpdate i (sources to) to t) # G2"
    and "fst (repo_UpdatePollStatus (ev_cod ev) i (sources to) to t (after_pg ev w G1)) = Inr ()"
proof -
  let ?R = "filter (\<lambda>x :: bool \<times> act. remote (snd x))"
  from j k obtain ahead d fl c where h: "handle ev (rqs ! k) (arrive w ahead d fl) = (outs ! k, c)"
    and v: "?R (co_trace (drain ev c)) = view k G" unfolding joint_def by blast
  from handle_moved [OF h traced_arrive m] obtain T U t where t: "co_trace c = T @ (True, OpUpdate i (sources to) to t) # U"
    and r: "fst (repo_UpdatePollStatus (ev_cod ev) i (sources to) to t (w_pg (performs ev (map snd T) w))) = Inr ()"
    by (auto simp: moved_in_def)
  define rest where "rest = map (Pair False) (concat (co_ahead c))"
  have "view k G = ?R T @ (True, OpUpdate i (sources to) to t) # (?R U @ ?R rest)"
    using v t by (simp add: drain_trace rest_def remote_def)
  from view_split [OF this] obtain G1 G2 where g: "G = G1 @ (k, OpUpdate i (sources to) to t) # G2" "view k G1 = ?R T" .
  have "map snd G1 = filter remote (map snd T)"
    using map_snd_view [of k G1] g(2) by (simp add: filter_map comp_def)
  with performs_remote [of ev "map snd T" w] have "w_pg (performs ev (map snd T) w) = after_pg ev w G1"
    by (simp add: after_pg_def same_servers_def)
  with r g(1) that show ?thesis by simp
qed

subsection \<open>The conditional UPDATE decides\<close>

text \<open>The poll is stored, and no open transaction is about to store it again.\<close>

definition stored_once :: "string \<Rightarrow> pg_state \<Rightarrow> bool" where
  "stored_once c st \<longleftrightarrow> (\<exists>r \<in> set (t_polls (pg_tables st)). row_id r = c)
     \<and> (\<forall>n rows. pg_txs st n = Some (TxOpen rows) \<longrightarrow> (\<forall>r \<in> set (t_polls rows). row_id r \<noteq> c))"

definition past :: "string \<Rightarrow> string list \<Rightarrow> pg_state \<Rightarrow> bool" where
  "past c fr st \<longleftrightarrow> (\<forall>r \<in> set (t_polls (pg_tables st)). row_id r = c \<longrightarrow> row_status r \<notin> set fr)"

lemma copy_options_polls: "copy_options cod i xs db rows = Some rows' \<Longrightarrow> t_polls rows' = t_polls rows"
  by (induction cod i xs db rows rule: copy_options.induct) (auto split: option.splits if_splits)

lemma copy_results_polls: "copy_results cod i xs db rows = Some rows' \<Longrightarrow> t_polls rows' = t_polls rows"
  by (induction cod i xs db rows rule: copy_results.induct) (auto split: option.splits if_splits)

lemma insert_poll_polls:
  "insert_poll cod p db rows = Some rows' \<Longrightarrow> \<exists>r. t_polls rows' = t_polls rows @ [r] \<and> (\<forall>q \<in> set (t_polls db). row_id q \<noteq> row_id r)"
  by (auto simp: insert_poll_def poll_known_def image_iff split: option.splits if_splits) (metis)

text \<open>Statements of a transaction leave the tables alone and, of a stored poll, the open rows too.\<close>

lemma tx_exec_once:
  assumes "stored_once c st" and "\<And>rows rows'. stmt (pg_tables st) rows = Some rows' \<Longrightarrow>
      \<exists>rs. t_polls rows' = t_polls rows @ rs \<and> (\<forall>r \<in> set rs. \<forall>q \<in> set (t_polls (pg_tables st)). row_id q \<noteq> row_id r)"
  shows "stored_once c (snd (tx_exec n stmt st)) \<and> pg_tables (snd (tx_exec n stmt st)) = pg_tables st"
proof -
  have "\<forall>r \<in> set (t_polls rows'). row_id r \<noteq> c" if "pg_txs st n = Some (TxOpen rows)" "stmt (pg_tables st) rows = Some rows'" for rows rows'
    using assms(1) that(1) assms(2) [OF that(2)] unfolding stored_once_def by fastforce
  with assms(1) show ?thesis
    by (auto simp: tx_exec_def stored_once_def pg_tick_def Let_def split: option.splits tx_state.splits)
qed

lemma tx_once:
  assumes "stored_once c st"
  shows "stored_once c (snd (pollTx_InsertPoll cod n p st)) \<and> pg_tables (snd (pollTx_InsertPoll cod n p st)) = pg_tables st"
    "stored_once c (snd (pollTx_InsertPollOptions cod n p st)) \<and> pg_tables (snd (pollTx_InsertPollOptions cod n p st)) = pg_tables st"
    "stored_once c (snd (pollTx_InsertZeroResults cod n p st)) \<and> pg_tables (snd (pollTx_InsertZeroResults cod n p st)) = pg_tables st"
proof -
  have keep: "stored_once c (snd (go_try (tx_exec n stmt st) g (\<lambda>_ st. (Inr (), st))))
      \<and> pg_tables (snd (go_try (tx_exec n stmt st) g (\<lambda>_ st. (Inr (), st)))) = pg_tables st"
    if "stored_once c (snd (tx_exec n stmt st)) \<and> pg_tables (snd (tx_exec n stmt st)) = pg_tables st" for stmt g
    using that by (auto split: go_try_splits)
  show "stored_once c (snd (pollTx_InsertPoll cod n p st)) \<and> pg_tables (snd (pollTx_InsertPoll cod n p st)) = pg_tables st"
    unfolding pollTx_InsertPoll_def using insert_poll_polls by (intro keep tx_exec_once assms) fastforce
  show "stored_once c (snd (pollTx_InsertPollOptions cod n p st)) \<and> pg_tables (snd (pollTx_InsertPollOptions cod n p st)) = pg_tables st"
    unfolding pollTx_InsertPollOptions_def using copy_options_polls by (intro keep tx_exec_once assms) fastforce
  show "stored_once c (snd (pollTx_InsertZeroResults cod n p st)) \<and> pg_tables (snd (pollTx_InsertZeroResults cod n p st)) = pg_tables st"
    unfolding pollTx_InsertZeroResults_def using copy_results_polls by (intro keep tx_exec_once assms) fastforce
qed

lemma end_once:
  assumes "stored_once c st"
  shows "stored_once c (snd (pollTx_Commit n st)) \<and> (past c fr st \<longrightarrow> past c fr (snd (pollTx_Commit n st)))"
    "stored_once c (snd (pollTx_Rollback n st)) \<and> pg_tables (snd (pollTx_Rollback n st)) = pg_tables st"
    "stored_once c (snd (repo_BeginTx cod st)) \<and> pg_tables (snd (repo_BeginTx cod st)) = pg_tables st"
proof -
  have "stored_once c (snd (tx_commit n st)) \<and> (past c fr st \<longrightarrow> past c fr (snd (tx_commit n st)))"
    using assms by (auto simp: tx_commit_def stored_once_def past_def pg_tick_def join_tables_def Let_def
        split: option.splits tx_state.splits pg_fate.splits)
  then show "stored_once c (snd (pollTx_Commit n st)) \<and> (past c fr st \<longrightarrow> past c fr (snd (pollTx_Commit n st)))"
    by (auto simp: pollTx_Commit_def split: go_try_splits)
  show "stored_once c (snd (pollTx_Rollback n st)) \<and> pg_tables (snd (pollTx_Rollback n st)) = pg_tables st"
    using assms by (auto simp: pollTx_Rollback_def stored_once_def pg_tick_def split: option.splits)
  show "stored_once c (snd (repo_BeginTx cod st)) \<and> pg_tables (snd (repo_BeginTx cod st)) = pg_tables st"
    using assms by (auto simp: repo_BeginTx_def stored_once_def pg_tick_def empty_tables_def)
qed

text \<open>Statements outside transactions.\<close>

lemma query_once: "pg_txs (snd (pg_query q st)) = pg_txs st \<and> pg_tables (snd (pg_query q st)) = pg_tables st"
  by (auto simp: pg_query_def pg_tick_def split: pg_fate.split)

lemma query_try:
  "pg_txs (snd (go_try (pg_query q st) g (\<lambda>v. Pair (h v)))) = pg_txs st"
  "pg_tables (snd (go_try (pg_query q st) g (\<lambda>v. Pair (h v)))) = pg_tables st"
  using query_once [of q st] by (auto split: go_try_splits)

lemma reads_once:
  assumes "st' \<in> {snd (repo_GetPoll cod i st), snd (repo_CountPolls st), snd (repo_ListPollPage l k st),
    snd (repo_ListOptionsByPollIDs cod ids st), snd (repo_GetPollStatus cod i st), snd (repo_GetResults cod i st), snd (repo_Ping st)}"
  shows "pg_txs st' = pg_txs st \<and> pg_tables st' = pg_tables st"
  using assms by (auto simp: repo_GetPoll_def repo_CountPolls_def repo_ListPollPage_def repo_ListOptionsByPollIDs_def
      repo_GetPollStatus_def repo_GetResults_def repo_Ping_def query_try)

lemma exec_run:
  assumes "pg_exec stmt st = (r, st')"
  shows "pg_txs st' = pg_txs st" and "pg_tables st' = pg_tables st \<or> (\<exists>x. stmt (pg_tables st) = Inr (x, pg_tables st'))"
    and "r = Inr x \<Longrightarrow> stmt (pg_tables st) = Inr (x, pg_tables st')"
  using assms by (auto simp: pg_exec_def pg_tick_def split: pg_fate.splits sum.splits prod.splits)

lemma save_once:
  "pg_txs (snd (repo_SaveResults cod i m st)) = pg_txs st \<and> t_polls (pg_tables (snd (repo_SaveResults cod i m st))) = t_polls (pg_tables st)"
proof (cases "m = []")
  case False
  let ?stmt = "\<lambda>t. uuid_arg cod i (\<lambda>p. (case uuid_args cod (map fst m) of None \<Rightarrow> Inl pg_invalid
                      | Some ids \<Rightarrow> upsert_results p ids (map (\<lambda>(_, v). sint v) m) t))"
  obtain r st' where run: "pg_exec ?stmt st = (r, st')" by fastforce
  have "t_polls t' = t_polls t" if "?stmt t = Inr (x, t')" for t t' x
    using that by (auto simp: uuid_arg_def upsert_results_def split: option.splits if_splits)
  with exec_run(1,2) [OF run] have "pg_txs st' = pg_txs st \<and> t_polls (pg_tables st') = t_polls (pg_tables st)" by metis
  with run False show ?thesis by (auto simp: repo_SaveResults_def split: go_try_splits)
qed (simp add: repo_SaveResults_def)

text \<open>An update moves every matching row, and says whether there was one.\<close>

lemma update_run:
  assumes "repo_UpdatePollStatus cod i fr to t st = (r, st')"
  shows "pg_txs st' = pg_txs st"
    and "t_polls (pg_tables st') = t_polls (pg_tables st) \<or> (\<exists>c f. pg_uuid cod i = Some c \<and> t_polls (pg_tables st')
      = map (\<lambda>r. if row_id r = c \<and> row_status r \<in> set fr then set_status to f r else r) (t_polls (pg_tables st)))"
    and "r = Inr () \<Longrightarrow> pg_uuid cod i = Some c \<Longrightarrow> (\<exists>r \<in> set (t_polls (pg_tables st)). row_id r = c \<and> row_status r \<in> set fr)
      \<and> (\<exists>f. t_polls (pg_tables st') = map (\<lambda>r. if row_id r = c \<and> row_status r \<in> set fr then set_status to f r else r) (t_polls (pg_tables st)))"
proof -
  let ?f = "if to = PollStatusFinished then Some (pg_time cod t) else None"
  let ?stmt = "\<lambda>tb. uuid_arg cod i (\<lambda>c. update_status c fr to ?f tb)"
  obtain q st1 where run: "pg_exec ?stmt st = (q, st1)" by fastforce
  have st': "st' = st1" and q: "r = Inr () \<Longrightarrow> \<exists>x. q = Inr x \<and> x \<noteq> []"
    using assms run by (auto simp: repo_UpdatePollStatus_def Let_def split: go_try_splits if_splits)
  show "pg_txs st' = pg_txs st" using exec_run(1) [OF run] st' by simp
  have stmt: "\<exists>c. pg_uuid cod i = Some c \<and> x = map row_id (filter (\<lambda>r. row_id r = c \<and> row_status r \<in> set fr) (t_polls tb))
      \<and> t_polls tb' = map (\<lambda>r. if row_id r = c \<and> row_status r \<in> set fr then set_status to ?f r else r) (t_polls tb)"
    if "?stmt tb = Inr (x, tb')" for tb tb' x
    using that by (auto simp: uuid_arg_def update_status_def Let_def split: option.splits if_splits)
  show "t_polls (pg_tables st') = t_polls (pg_tables st) \<or> (\<exists>c f. pg_uuid cod i = Some c \<and> t_polls (pg_tables st')
      = map (\<lambda>r. if row_id r = c \<and> row_status r \<in> set fr then set_status to f r else r) (t_polls (pg_tables st)))"
    using exec_run(2) [OF run]
  proof (elim disjE exE)
    assume "pg_tables st1 = pg_tables st"
    then show ?thesis unfolding st' by simp
  next
    fix x assume "?stmt (pg_tables st) = Inr (x, pg_tables st1)"
    from stmt [OF this] show ?thesis unfolding st' by blast
  qed
  assume r: "r = Inr ()" and c: "pg_uuid cod i = Some c"
  from q [OF r] obtain x where x: "q = Inr x" "x \<noteq> []" by blast
  from stmt [OF exec_run(3) [OF run x(1)]] c x(2) have
    "filter (\<lambda>r. row_id r = c \<and> row_status r \<in> set fr) (t_polls (pg_tables st)) \<noteq> []"
    "t_polls (pg_tables st') = map (\<lambda>r. if row_id r = c \<and> row_status r \<in> set fr then set_status to ?f r else r) (t_polls (pg_tables st))"
    by (auto simp: st')
  then show "(\<exists>r \<in> set (t_polls (pg_tables st)). row_id r = c \<and> row_status r \<in> set fr)
      \<and> (\<exists>f. t_polls (pg_tables st') = map (\<lambda>r. if row_id r = c \<and> row_status r \<in> set fr then set_status to f r else r) (t_polls (pg_tables st)))"
    by (auto simp: filter_empty_conv)
qed

lemma update_once:
  assumes "stored_once c st"
  shows "stored_once c (snd (repo_UpdatePollStatus cod i fr to t st))"
    and "past c (sources to') st \<Longrightarrow> forward (OpUpdate i fr to t) \<Longrightarrow>
      past c (sources to') (snd (repo_UpdatePollStatus cod i fr to t st))"
proof -
  obtain r st' where run: "repo_UpdatePollStatus cod i fr to t st = (r, st')" by fastforce
  obtain h f where rows: "t_polls (pg_tables st') = map (\<lambda>r. if h r then set_status to f r else r) (t_polls (pg_tables st))"
    and h: "\<And>r. h r \<Longrightarrow> row_status r \<in> set fr"
    using update_run(2) [OF run]
  proof (elim disjE exE conjE)
    assume "t_polls (pg_tables st') = t_polls (pg_tables st)"
    then show ?thesis by (intro that [of "\<lambda>_. False"]) simp_all
  next
    fix c f assume "t_polls (pg_tables st') = map (\<lambda>r. if row_id r = c \<and> row_status r \<in> set fr then set_status to f r else r) (t_polls (pg_tables st))"
    then show ?thesis by (rule that) simp
  qed
  have ids: "map row_id (t_polls (pg_tables st')) = map row_id (t_polls (pg_tables st))"
    unfolding rows by simp
  have "c \<in> set (map row_id (t_polls (pg_tables st)))" using assms by (auto simp: stored_once_def)
  then have "c \<in> set (map row_id (t_polls (pg_tables st')))" by (simp only: ids)
  then have "\<exists>r \<in> set (t_polls (pg_tables st')). row_id r = c" by auto
  then show "stored_once c (snd (repo_UpdatePollStatus cod i fr to t st))"
    using assms update_run(1) [OF run] run by (simp add: stored_once_def)
  assume p: "past c (sources to') st" and "forward (OpUpdate i fr to t)"
  then have fr: "to \<in> {PollStatusActive, PollStatusFinished}" "fr = sources to" by (simp_all add: forward_def)
  have "row_status (if h r then set_status to f r else r) \<notin> set (sources to')"
    if r: "r \<in> set (t_polls (pg_tables st))" "row_id r = c" for r
  proof (cases "h r")
    case True
    then have "row_status r \<in> set (sources to)" using h fr by auto
    with p r fr show ?thesis by (auto simp: past_def sources_def set_status_def split: if_splits)
  qed (use p r in \<open>simp add: past_def\<close>)
  note moved = this
  show "past c (sources to') (snd (repo_UpdatePollStatus cod i fr to t st))"
    unfolding run snd_conv past_def
  proof (intro ballI impI)
    fix q assume q: "q \<in> set (t_polls (pg_tables st'))" "row_id q = c"
    then obtain r where r: "r \<in> set (t_polls (pg_tables st))" "q = (if h r then set_status to f r else r)"
      unfolding rows by auto
    with q(2) have "row_id r = c" by (simp split: if_splits)
    from moved [OF r(1) this] r(2) show "row_status q \<notin> set (sources to')" by simp
  qed
qed

lemma perform_once:
  assumes "stored_once c (w_pg w)"
  shows "stored_once c (w_pg (perform ev a w))"
    and "past c (sources to) (w_pg w) \<Longrightarrow> forward a \<Longrightarrow> past c (sources to) (w_pg (perform ev a w))"
proof -
  define Q where "Q st' \<longleftrightarrow> stored_once c st' \<and> (past c (sources to) (w_pg w) \<longrightarrow> past c (sources to) st')" for st'
  have same: "Q st'" if "pg_txs st' = pg_txs (w_pg w)" "t_polls (pg_tables st') = t_polls (pg_tables (w_pg w))" for st'
    using assms that by (simp add: stored_once_def past_def Q_def)
  have same': "Q st'" if "stored_once c st' \<and> pg_tables st' = pg_tables (w_pg w)" for st'
    using that by (simp add: past_def Q_def)
  have reads: "Q st'" if "st' \<in> {snd (repo_GetPoll cod i (w_pg w)), snd (repo_CountPolls (w_pg w)), snd (repo_ListPollPage l k (w_pg w)),
      snd (repo_ListOptionsByPollIDs cod ids (w_pg w)), snd (repo_GetPollStatus cod i (w_pg w)),
      snd (repo_GetResults cod i (w_pg w)), snd (repo_Ping (w_pg w))}" for st' cod i l k ids
    using reads_once [OF that] by (intro same) simp_all
  have quiet: "Q (w_pg w)" "Q ((w_pg w)\<lparr>pg_fates := gs\<rparr>)" "Q (snd (repo_SaveResults cod i m (w_pg w)))" for gs cod i m
    by (rule same; simp add: save_once)+
  have facts:
    "Q (snd (repo_GetPoll cod i (w_pg w)))" "Q (snd (repo_CountPolls (w_pg w)))" "Q (snd (repo_ListPollPage l k (w_pg w)))"
    "Q (snd (repo_ListOptionsByPollIDs cod ids (w_pg w)))" "Q (snd (repo_GetPollStatus cod i (w_pg w)))"
    "Q (snd (repo_GetResults cod i (w_pg w)))" "Q (snd (repo_Ping (w_pg w)))" for cod i l k ids
    by (rule reads [of _ cod i l k ids], simp)+
  have commit: "Q (snd (pollTx_Commit n (w_pg w)))" for n using end_once(1) [OF assms] by (simp add: Q_def)
  note txs = tx_once [OF assms, THEN same'] end_once(2,3) [OF assms, THEN same'] commit
  have "Q (w_pg (perform ev a w))" if "forward a"
  proof (cases a)
    case (OpUpdate i fr to' t)
    with update_once [OF assms] that show ?thesis by (simp add: perform_def Q_def)
  qed (simp_all add: perform_def quiet facts txs tick_def boot_def renet_def redis_loss_def)
  moreover have "stored_once c (w_pg (perform ev a w))"
  proof (cases a)
    case (OpUpdate i fr to' t)
    with update_once [OF assms] show ?thesis by (simp add: perform_def)
  qed (use calculation in \<open>simp_all add: forward_def Q_def\<close>)
  ultimately have "stored_once c (w_pg (perform ev a w)) \<and> (past c (sources to) (w_pg w) \<longrightarrow> forward a \<longrightarrow> past c (sources to) (w_pg (perform ev a w)))"
    by (simp add: Q_def)
  then show "stored_once c (w_pg (perform ev a w))"
    and "past c (sources to) (w_pg w) \<Longrightarrow> forward a \<Longrightarrow> past c (sources to) (w_pg (perform ev a w))" by blast+
qed

lemma performs_once:
  assumes "stored_once c (w_pg w)"
  shows "stored_once c (w_pg (performs ev as w))"
    and "past c (sources to) (w_pg w) \<Longrightarrow> \<forall>a \<in> set as. forward a \<Longrightarrow> past c (sources to) (w_pg (performs ev as w))"
proof -
  have "stored_once c (w_pg (performs ev as w))
    \<and> (past c (sources to) (w_pg w) \<longrightarrow> (\<forall>a \<in> set as. forward a) \<longrightarrow> past c (sources to) (w_pg (performs ev as w)))"
    using assms
  proof (induction as arbitrary: w)
    case (Cons a as)
    from Cons.IH [OF perform_once(1) [OF Cons.prems]] perform_once(2) [OF Cons.prems] show ?case by simp
  qed simp
  then show "stored_once c (w_pg (performs ev as w))"
    and "past c (sources to) (w_pg w) \<Longrightarrow> \<forall>a \<in> set as. forward a \<Longrightarrow> past c (sources to) (w_pg (performs ev as w))"
    by blast+
qed

text \<open>Once one update has moved the poll, another of the same kind finds nothing to move.\<close>

lemma second_finds_nothing:
  assumes G: "G = G1 @ (k, OpUpdate i (sources to) to t) # G2 @ (j, OpUpdate i' (sources to) to t') # G3"
    and to: "to \<in> {PollStatusActive, PollStatusFinished}"
    and uuid: "pg_uuid (ev_cod ev) i = Some c" "pg_uuid (ev_cod ev) i' = Some c"
    and once: "stored_once c (w_pg w)" and fwd: "\<forall>x \<in> set G. forward (snd x)"
    and first: "fst (repo_UpdatePollStatus (ev_cod ev) i (sources to) to t (after_pg ev w G1)) = Inr ()"
  shows "fst (repo_UpdatePollStatus (ev_cod ev) i' (sources to) to t' (after_pg ev w (G1 @ (k, OpUpdate i (sources to) to t) # G2))) \<noteq> Inr ()"
proof
  let ?w1 = "performs ev (map snd G1) w"
  let ?w2 = "perform ev (OpUpdate i (sources to) to t) ?w1"
  let ?w3 = "performs ev (map snd G2) ?w2"
  assume again: "fst (repo_UpdatePollStatus (ev_cod ev) i' (sources to) to t' (after_pg ev w (G1 @ (k, OpUpdate i (sources to) to t) # G2))) = Inr ()"
  have once1: "stored_once c (w_pg ?w1)" and once2: "stored_once c (w_pg ?w2)"
    using performs_once(1) [OF once, of ev "map snd G1"] perform_once(1) by blast+
  obtain st where u: "repo_UpdatePollStatus (ev_cod ev) i (sources to) to t (w_pg ?w1) = (Inr (), st)"
    using first by (metis after_pg_def prod.collapse)
  have "to \<notin> set (sources to)" using to by (auto simp: sources_def)
  then have "past c (sources to) (w_pg ?w2)"
    using update_run(3) [OF u refl uuid(1)] u unfolding past_def by (auto simp: perform_def set_status_def)
  from performs_once(2) [OF once2 this, of "map snd G2"] fwd have past: "past c (sources to) (w_pg ?w3)" by (auto simp: G)
  obtain st' where "repo_UpdatePollStatus (ev_cod ev) i' (sources to) to t' (w_pg ?w3) = (Inr (), st')"
    using again by (simp add: after_pg_def) (metis prod.collapse)
  from update_run(3) [OF this refl uuid(2)] past show False by (auto simp: past_def)
qed

text \<open>
  C30. Administrators who race. Of any number of requests served together that activate the
  same poll (under whatever spelling of its id), with their calls interleaved in any order,
  at most one succeeds; and likewise of those that finish it; as long as the poll is stored
  (once), and statuses are only changed by the service. The losers are refused by the
  conditional update, so nobody is told that a change happened which another one made.
\<close>

theorem racing_administrators:
  assumes joint: "joint ev w G rqs outs" and fwd: "\<forall>x \<in> set G. forward (snd x)" and once: "stored_once c (w_pg w)"
    and idx: "j < length rqs" "k < length rqs" "j \<noteq> k"
    and uuid: "pg_uuid (ev_cod ev) i = Some c" "pg_uuid (ev_cod ev) i' = Some c"
  shows "\<not> (move_of (outs ! j) = Some (i, to) \<and> move_of (outs ! k) = Some (i', to))"
proof
  assume "move_of (outs ! j) = Some (i, to) \<and> move_of (outs ! k) = Some (i', to)"
  then have outs: "move_of (outs ! j) = Some (i, to)" "move_of (outs ! k) = Some (i', to)" by simp_all
  have valid: "to \<in> {PollStatusActive, PollStatusFinished}" using outs(1) by (cases "outs ! j" rule: move_of.cases) auto
  obtain A t B where A: "G = A @ (j, OpUpdate i (sources to) to t) # B"
    "fst (repo_UpdatePollStatus (ev_cod ev) i (sources to) to t (after_pg ev w A)) = Inr ()"
    by (rule joint_moved [OF joint idx(1) outs(1)])
  obtain C u D where C: "G = C @ (k, OpUpdate i' (sources to) to u) # D"
    "fst (repo_UpdatePollStatus (ev_cod ev) i' (sources to) to u (after_pg ev w C)) = Inr ()"
    by (rule joint_moved [OF joint idx(2) outs(2)])
  from A(1) C(1) have "A @ (j, OpUpdate i (sources to) to t) # B = C @ (k, OpUpdate i' (sources to) to u) # D" by simp
  then consider M where "C = A @ (j, OpUpdate i (sources to) to t) # M" | M where "A = C @ (k, OpUpdate i' (sources to) to u) # M"
    using idx(3) by (auto simp: append_eq_append_conv2 append_eq_Cons_conv Cons_eq_append_conv)
  then show False
  proof cases
    case 1
    with C(1) have "G = A @ (j, OpUpdate i (sources to) to t) # M @ (k, OpUpdate i' (sources to) to u) # D" by simp
    from second_finds_nothing [OF this valid uuid once fwd A(2)] 1 C(2) show False by simp
  next
    case 2
    with A(1) have "G = C @ (k, OpUpdate i' (sources to) to u) # M @ (j, OpUpdate i (sources to) to t) # B" by simp
    from second_finds_nothing [OF this valid uuid(2,1) once fwd C(2)] 2 A(2) show False by simp
  qed
qed

lemma demo_finished: "\<exists>q. fst (do_Finish demo_env ''p'' demo_world) = Inr q"
proof -
  let ?f = "repo_UpdatePollStatus demo_cod ''p'' [PollStatusDraft, PollStatusActive] PollStatusFinished 1000 (w_pg demo_world)"
  have u: "fst ?f = Inr ()" "pg_fates (snd ?f) = []"
    by (simp_all add: repo_UpdatePollStatus_def pg_exec_def pg_fate_of_def pg_tick_def uuid_arg_def update_status_def Let_def
        demo_cod_def lower_char_def char_in_def byte_of_def demo_tables_def set_status_def poll_row_ok_def blank_def)
  moreover have "\<exists>q. fst (repo_GetPoll demo_cod ''p'' (snd ?f)) = Inr q"
    by (simp add: repo_UpdatePollStatus_def pg_exec_def pg_fate_of_def pg_tick_def uuid_arg_def update_status_def Let_def
        demo_cod_def lower_char_def char_in_def byte_of_def demo_tables_def set_status_def poll_row_ok_def blank_def
        repo_GetPoll_def pg_query_def poll_join_def poll_of_row_def option_of_row_def join_order_def)
  ultimately show ?thesis
    by (cases ?f) (auto simp: do_Finish_def poll_Finish_def poll_transition_def main_polls_def on_pg_def clock_def
        poll_invalidate_def split: prod.splits sum.splits go_try_splits)
qed

theorem racing_administrators_witness:
  "\<exists>G q x. joint demo_env demo_world G [RqFinish ''p'', RqFinish ''p''] [EvFinish ''p'' (Inr q), x]
     \<and> move_of x \<noteq> Some (''p'', PollStatusFinished)"
proof -
  obtain q w1 where run: "do_Finish demo_env ''p'' demo_world = (Inr q, w1)" using demo_finished by (metis prod.collapse)
  have "calm 1000 (arrive demo_world [] None (\<lambda>_. None)) demo_world" by (simp add: calm_def clock_def)
  from calm_requests(6) [OF this, of demo_env "''p''"] run obtain c where
    "handle demo_env (RqFinish ''p'') (arrive demo_world [] None (\<lambda>_. None)) = (EvFinish ''p'' (Inr q), c)"
    by (cases "poll_Finish (shared_polls demo_env) ''p'' (arrive demo_world [] None (\<lambda>_. None))")
      (auto simp: do_Finish_def calm_def)
  then obtain G x where j: "joint demo_env demo_world G [RqFinish ''p'', RqFinish ''p''] [EvFinish ''p'' (Inr q), x]"
    "\<forall>a \<in> snd ` set G. plain a \<or> casting a" by (rule joint_pair)
  have "\<forall>x \<in> set G. forward (snd x)" using j(2) plain_forward by (auto simp: casting_iff forward_def)
  moreover have "stored_once ''p'' (w_pg demo_world)" by (simp add: stored_once_def demo_world_def demo_tables_def)
  ultimately show ?thesis using racing_administrators [OF j(1), of "''p''" 0 1 "''p''" "''p''" PollStatusFinished] j(1)
    by (intro exI [of _ G] exI [of _ q] exI [of _ x]) (simp add: demo_uuid)
qed

end
