(* ===== verification/Deadlines.thy ===== *)
theory Deadlines
  imports Undisturbed
begin

text \<open>
  How long a request can keep working. \<open>Timeout\<close> puts a deadline on everything behind it,
  and nothing behind it moves the deadline back: the readiness probe, which derives a
  context of its own, can only bring it forward. So however slow the servers are and
  whatever else happens, a request reaches no server after its deadline.
\<close>

subsection \<open>Actions in time\<close>

text \<open>Every own action of the trace that reaches a server starts before \<open>D\<close>.\<close>

fun in_time :: "env \<Rightarrow> instant \<Rightarrow> world \<Rightarrow> (bool \<times> act) list \<Rightarrow> bool" where
  "in_time ev D w [] = True"
| "in_time ev D w ((mine, a) # tr) = ((mine \<and> remote a \<longrightarrow> clock w < D) \<and> in_time ev D (perform ev a w) tr)"

lemma in_time_append [simp]:
  "in_time ev D w (t @ u) \<longleftrightarrow> in_time ev D w t \<and> in_time ev D (performs ev (map snd t) w) u"
proof (induction t arbitrary: w)
  case (Cons x t)
  then show ?case by (cases x) simp
qed simp

lemma in_time_others [simp]: "in_time ev D w (map (Pair False) as)"
  by (induction as arbitrary: w) simp_all

definition punctual :: "env \<Rightarrow> instant \<Rightarrow> world \<Rightarrow> conc \<Rightarrow> bool" where
  "punctual ev D w c \<longleftrightarrow> traced ev w c \<and> in_time ev D w (co_trace c)"

definition bounded :: "env \<Rightarrow> instant \<Rightarrow> world \<Rightarrow> conc \<Rightarrow> bool" where
  "bounded ev D w c \<longleftrightarrow> punctual ev D w c \<and> (\<exists>d. co_until c = Some d \<and> d \<le> D)"

lemma meddle_until [simp]: "co_until (meddle ev c) = co_until c"
  by (simp add: meddle_def others_def split: list.split)

lemma punctual_meddle: "punctual ev D w c \<Longrightarrow> punctual ev D w (meddle ev c)"
  using traced_steps(3) [of ev w c] by (auto simp: punctual_def intro: meddle_trace [of ev c])

lemma bounded_steady: "steady ev A (bounded ev D w)"
proof -
  have m: "bounded ev D w (meddle ev c)" if "bounded ev D w c" for c
    using that punctual_meddle by (simp add: bounded_def)
  have o: "bounded ev D w (own ev a c)" if "bounded ev D w c" "remote a \<Longrightarrow> \<not> expired c" for a c
    using that traced_steps(2) [of ev w c a] by (auto simp: bounded_def punctual_def own_def expired_def traced_def)
  show ?thesis unfolding steady_def using m o by blast
qed

lemma bounded_until:
  assumes "punctual ev D w c" and "\<And>d. co_until c' = Some d \<Longrightarrow> d \<le> D" and "co_until c' \<noteq> None"
    and "co_world c' = co_world c" and "co_trace c' = co_trace c"
  shows "bounded ev D w c'"
  using assms by (auto simp: bounded_def punctual_def traced_def)

lemma conc_use [simp]:
  "cx_use conc_contexts d c = c\<lparr>co_until := d\<rparr>" "cx_now conc_contexts c = clock (co_world c)" "cx_deadline conc_contexts c = co_until c"
  by (simp_all add: conc_contexts_def)

lemma within_timeout: "bounded ev D w c \<Longrightarrow> bounded ev D w (c\<lparr>co_until := WithTimeout conc_contexts t c\<rparr>)"
  by (auto simp: bounded_def punctual_def traced_def WithTimeout_def Let_def)

lemma within_restored: "bounded ev D w c \<Longrightarrow> bounded ev D w c' \<Longrightarrow> bounded ev D w (c'\<lparr>co_until := co_until c\<rparr>)"
  by (auto simp: bounded_def punctual_def traced_def)

subsection \<open>Behind the middleware\<close>

text \<open>A process related to itself, with its deadline kept: the router's relational lemma then says that it is.\<close>

definition bounded_process :: "env \<Rightarrow> instant \<Rightarrow> world \<Rightarrow> conc process \<Rightarrow> conc process \<Rightarrow> bool" where
  "bounded_process ev D w s t \<longleftrightarrow> s = t \<and> bounded ev D w (sv_world s)"

lemma bounded_run:
  assumes "bounded_process ev D w s t" and "\<And>c. bounded ev D w c \<Longrightarrow> bounded ev D w (snd (f c))"
  shows "rel_run (bounded_process ev D w) (on_world f s) (on_world f t)"
  using assms(1) assms(2) [of "sv_world s"] by (cases "f (sv_world s)") (auto simp: bounded_process_def on_world_def)

lemma bounded_checks:
  assumes "bounded ev D w c"
  shows "bounded ev D w (snd (check_all (api_dependencies (shared_store ev) (shared_repo ev)) r c))"
proof -
  note port = steady_shared [OF bounded_steady _ _ TrueI]
  have "bounded ev D w (snd (vs_Ping (shared_store ev) c))" "bounded ev D w (snd (pr_Ping (shared_repo ev) c))"
    if "bounded ev D w c" for c
    unfolding shared_simps by (rule port [OF that store_wired(7)], rule port [OF that repo_wired(10)])
  with assms show ?thesis by (simp add: api_dependencies_def split_def)
qed

lemma bounded_ready:
  "rel_handler (bounded_process ev D w) (bounded_process ev D w)
     (api_ready st cfg conc_contexts (api_dependencies (shared_store ev) (shared_repo ev)))
     (api_ready st cfg conc_contexts (api_dependencies (shared_store ev) (shared_repo ev)))"
proof (rule rel_handlerI)
  fix r wr s t assume s: "bounded_process ev D w s t"
  let ?d = "api_dependencies (shared_store ev) (shared_repo ev)" and ?c = "sv_world s"
  let ?u = "?c\<lparr>co_until := WithTimeout conc_contexts (hc_timeout (sv_checker s)) ?c\<rparr>"
  let ?start = "\<lparr>hr_Status = ''ready'', hr_Dependencies = [], hr_ready = True\<rparr>"
  have c: "s = t" "bounded ev D w ?c" using s by (auto simp: bounded_process_def)
  obtain x c1 where x: "check_all ?d ?start ?u = (x, c1)" by fastforce
  with bounded_checks [OF within_timeout [OF c(2)], of ?start "hc_timeout (sv_checker s)"] have "bounded ev D w c1" by simp
  then have "bounded ev D w (c1\<lparr>co_until := co_until ?c\<rparr>)" by (rule within_restored [OF c(2)])
  with c x show "rel_answer (bounded_process ev D w) (api_ready st cfg conc_contexts ?d r wr s) (api_ready st cfg conc_contexts ?d r wr t)"
    by (simp add: api_ready_def Ready_def evaluate_def with_timeout_def bounded_process_def)
qed

interpretation bounded_relay: relay "bounded_process (main_env st cfg) D w"
  "NewHandlers (si_valid st) (shared_polls (main_env st cfg)) (shared_votes (main_env st cfg)) ttl"
  "NewHandlers (si_valid st) (shared_polls (main_env st cfg)) (shared_votes (main_env st cfg)) ttl"
  "draw st" "draw st" "api_live st cfg"
  "api_ready st cfg conc_contexts (api_dependencies (shared_store (main_env st cfg)) (shared_repo (main_env st cfg)))"
  "api_live st cfg"
  "api_ready st cfg conc_contexts (api_dependencies (shared_store (main_env st cfg)) (shared_repo (main_env st cfg)))"
  for st cfg D w ttl
proof
  let ?ev = "main_env st cfg"
  let ?R = "bounded_process ?ev D w" and ?h = "NewHandlers (si_valid st) (shared_polls ?ev) (shared_votes ?ev) ttl"
  note kept = steady_requests [OF bounded_steady [of ?ev "\<lambda>_. True"] TrueI] steady_vote [OF bounded_steady [of ?ev "\<lambda>_. True"] TrueI TrueI]
  note ports = NewHandlers_def Handlers.select_convs
  fix s t assume s: "?R s t"
  show "rel_run ?R (hd_Create ?h c s) (hd_Create ?h c t)" for c
    unfolding ports by (intro bounded_run s kept)
  show "rel_run ?R (hd_Get ?h i s) (hd_Get ?h i t)" for i
    unfolding ports by (intro bounded_run s kept)
  show "rel_run ?R (hd_List ?h l k s) (hd_List ?h l k t)" for l k
    unfolding ports by (intro bounded_run s kept)
  show "rel_run ?R (hd_Activate ?h i s) (hd_Activate ?h i t)" for i
    unfolding ports by (intro bounded_run s kept)
  show "rel_run ?R (hd_Finish ?h i s) (hd_Finish ?h i t)" for i
    unfolding ports by (intro bounded_run s kept)
  show "rel_run ?R (hd_Results ?h i s) (hd_Results ?h i t)" for i
    unfolding ports by (intro bounded_run s kept)
  show "rel_run ?R (hd_Cast ?h v s) (hd_Cast ?h v t)" for v
    unfolding ports by (intro bounded_run s kept)
  show "hd_now ?h s = hd_now ?h t" using s by (simp add: bounded_process_def)
  show "rel_run ?R (draw st n s) (draw st n t)" for n using s by (auto simp: draw_def bounded_process_def)
next
  show "rel_handler (bounded_process (main_env st cfg) D w) (bounded_process (main_env st cfg) D w) (api_live st cfg) (api_live st cfg)"
    by (simp add: rel_handler_def api_live_def)
qed (simp_all add: bounded_ready)

subsection \<open>From arrival to answer\<close>

text \<open>The process as the request finds it, and as it leaves it.\<close>

definition arrived :: "world \<Rightarrow> instant option \<Rightarrow> conc process \<Rightarrow> conc process \<Rightarrow> bool" where
  "arrived w u s t \<longleftrightarrow> s = t \<and> co_world (sv_world s) = w \<and> co_trace (sv_world s) = [] \<and> co_until (sv_world s) = u"

definition answered :: "env \<Rightarrow> instant \<Rightarrow> world \<Rightarrow> instant option \<Rightarrow> conc process \<Rightarrow> conc process \<Rightarrow> bool" where
  "answered ev D w u s t \<longleftrightarrow> s = t \<and> punctual ev D w (sv_world s) \<and> co_until (sv_world s) = u"

lemma timeout_bounds:
  "co_world c = w \<Longrightarrow> co_trace c = [] \<Longrightarrow> bounded ev (clock w + d) w (c\<lparr>co_until := WithTimeout conc_contexts d c\<rparr>)"
  by (auto simp: bounded_def punctual_def traced_def WithTimeout_def Let_def split: option.split)

lemma shared_api_punctual:
  "rel_handler (arrived w u) (answered (main_env st cfg) (clock w + ht_RequestTimeout (cf_HTTP cfg)) w u)
     (shared_api st cfg) (shared_api st cfg)"
  unfolding shared_api_eq
proof (rule bounded_relay.rel_NewRouter)
  let ?cx = "on_process conc_contexts" and ?D = "clock w + ht_RequestTimeout (cf_HTTP cfg)"
  show "rel_run (arrived w u) (draw st tokenBytes s) (draw st tokenBytes t)" if "arrived w u s t" for s t
    using that by (auto simp: draw_def arrived_def)
  show "bounded_process (main_env st cfg) ?D w (cx_use ?cx (WithTimeout ?cx (rc_RequestTimeout (main_router st cfg)) s) s)
      (cx_use ?cx (WithTimeout ?cx (rc_RequestTimeout (main_router st cfg)) t) t)" if "arrived w u s t" for s t
    using that timeout_bounds [of "sv_world s" w "main_env st cfg" "ht_RequestTimeout (cf_HTTP cfg)"]
    by (auto simp: arrived_def bounded_process_def on_process_def WithTimeout_def main_router_def)
  show "answered (main_env st cfg) ?D w u (cx_use ?cx (cx_deadline ?cx s) s') (cx_use ?cx (cx_deadline ?cx t) t')"
    if "arrived w u s t" "bounded_process (main_env st cfg) ?D w s' t'" for s t s' t'
    using that by (auto simp: arrived_def answered_def bounded_process_def bounded_def punctual_def traced_def on_process_def)
qed

lemma shared_work_punctual:
  assumes "shared_work st cfg (arrive w ahead u fl) = (r, c)"
  shows "punctual (main_env st cfg) (clock w + jb_timeout (main_job st cfg)) w c \<and> co_until c = u"
proof -
  let ?ev = "main_env st cfg" and ?c = "arrive w ahead u fl"
  define d where "d = jb_timeout (main_job st cfg)"
  have timeout: "jb_timeout (NewJob (sync_Sync (shared_sync ?ev)) (cf_SyncTimeout cfg)) = d"
    by (simp add: d_def main_job_def NewJob_def)
  let ?u = "?c\<lparr>co_until := WithTimeout conc_contexts d ?c\<rparr>"
  obtain x c1 where x: "sync_Sync (shared_sync ?ev) ?u = (x, c1)" by fastforce
  have "bounded ?ev (clock w + d) w (snd (sync_Sync (shared_sync ?ev) ?u))"
    by (rule steady_requests(7) [OF bounded_steady [of ?ev "\<lambda>_. True"] TrueI timeout_bounds]) simp_all
  with x have "punctual ?ev (clock w + d) w (c1\<lparr>co_until := u\<rparr>)" by (simp add: bounded_def punctual_def traced_def)
  moreover have "c = c1\<lparr>co_until := u\<rparr>"
    using assms x timeout
    by (cases x; cases "snd x") (simp_all add: shared_work_def job_RunOnce_def with_timeout_def Let_def, simp_all add: NewJob_def)
  ultimately show ?thesis by (simp add: d_def)
qed

text \<open>
  C28. Work ends at the deadline. Whatever else the servers are doing and however long they
  take, every call of a request that reaches a server starts less than the configured
  request timeout after the request arrived, and every call of a pass of the worker less
  than the pass's timeout after it began; afterwards the deadline that was in force before
  is in force again. So a slow server cannot keep a request or a pass working for ever.
\<close>

theorem work_ends_at_the_deadline:
  assumes "shared_api st cfg r wr \<lparr>sv_world = arrive w ahead u fl, sv_checker = k, sv_draws = n\<rparr> = (p, wr', s)"
    and "shared_work st cfg (arrive w ahead u fl) = (x, c)"
  shows "in_time (main_env st cfg) (clock w + ht_RequestTimeout (cf_HTTP cfg)) w (co_trace (sv_world s)) \<and> co_until (sv_world s) = u
    \<and> in_time (main_env st cfg) (clock w + jb_timeout (main_job st cfg)) w (co_trace c) \<and> co_until c = u"
proof -
  let ?s = "\<lparr>sv_world = arrive w ahead u fl, sv_checker = k, sv_draws = n\<rparr>"
  have "arrived w u ?s ?s" by (simp add: arrived_def)
  from rel_handlerD [OF shared_api_punctual this, of st cfg r wr] assms(1)
  have "answered (main_env st cfg) (clock w + ht_RequestTimeout (cf_HTTP cfg)) w u s s" by simp
  with shared_work_punctual [OF assms(2)] show ?thesis by (simp add: answered_def punctual_def)
qed

text \<open>A vote that a slow server delays past its deadline.\<close>

theorem work_ends_at_the_deadline_witness:
  "\<exists>p wr s. shared_api demo_site demo_cfg demo_post new_writer
       \<lparr>sv_world = arrive demo_world [[], [EnvTick (5 * second)]] None (\<lambda>_. None), sv_checker = NewChecker second second, sv_draws = 0\<rparr>
       = (p, wr, s)
     \<and> in_time demo_env (1000 + second) demo_world (co_trace (sv_world s)) \<and> co_until (sv_world s) = None"
proof -
  obtain p wr s where run: "shared_api demo_site demo_cfg demo_post new_writer
       \<lparr>sv_world = arrive demo_world [[], [EnvTick (5 * second)]] None (\<lambda>_. None), sv_checker = NewChecker second second, sv_draws = 0\<rparr>
       = (p, wr, s)" by (metis prod_cases3)
  obtain x c where "shared_work demo_site demo_cfg (arrive demo_world [[], [EnvTick (5 * second)]] None (\<lambda>_. None)) = (x, c)"
    by fastforce
  from work_ends_at_the_deadline [OF run this] have "in_time demo_env (clock demo_world + ht_RequestTimeout (cf_HTTP demo_cfg)) demo_world (co_trace (sv_world s))"
    "co_until (sv_world s) = None" by (simp_all add: demo_main)
  moreover have "clock demo_world + ht_RequestTimeout (cf_HTTP demo_cfg) = 1000 + second" by (simp add: clock_def demo_cfg_def)
  ultimately show ?thesis using run by auto
qed

end
