(* ===== verification/Published.thy ===== *)
theory Published
  imports Liveness
begin

text \<open>
  Accepted votes are visible: as long as the live counters last, a results answer made with
  both servers answering shows at least the accepted ballots. Together with the upper bound of
  \<open>Histories\<close> this is what the published counts mean.
\<close>

subsection \<open>Results that are answered\<close>

lemma results_run_live:
  assumes inv: "world_inv ev w" and up: "healthy w" and valid: "ev_valid ev i" and c: "pg_uuid (ev_cod ev) i = Some c"
    and load: "cache_Poll (main_cache ev) i w = (Inr p, w1)"
  shows "\<exists>res w'. do_Results ev i w = (Inr res, w') \<and> res_Poll res = p"
proof -
  have up1: "healthy w1" using cache_live [OF up, of ev i] load by simp
  obtain d q where d: "repo_GetResults (ev_cod ev) i (w_pg w1) = (d, q)" by fastforce
  have "\<not> isl d" using results_live [OF _ c d] up1 by (simp add: healthy_def)
  then obtain m where m: "d = Inr m" by (cases d) simp_all
  have get: "poll_Get (main_polls ev) i w = (Inr p, w1)" using valid load by (simp add: poll_Get_def)
  have read: "pr_GetResults (main_repo ev) i w1 = (Inr m, w1\<lparr>w_pg := q\<rparr>)" using d m by (simp add: on_pg_def)
  show ?thesis
    unfolding do_Results_def poll_Results_def main_wiring get go_try_Inr read by (simp split: prod.split)
qed

text \<open>
  C25. Accepted votes are published. In any run in which Redis loses no data and no counter
  reaches the end of its retention time, however many calls failed in it: when both servers
  answer and the poll is found, asking for its results succeeds, and the count of every option
  is at least the number of ballots for it accepted under this spelling of the poll's id.
\<close>

theorem accepted_votes_published:
  assumes "world_inv ev w" and "roomy ev w es" and "run ev w es w1" and "EvRedisLoss \<notin> set es"
    and "lasting ev (w_redis w) (clock w1)" and "healthy w1"
    and "ev_valid ev i" and "pg_uuid (ev_cod ev) i = Some c" and "cache_Poll (main_cache ev) i w1 = (Inr p, v)"
  shows "\<exists>res w2. do_Results ev i w1 = (Inr res, w2) \<and> res_Poll res = p
    \<and> (\<forall>j \<in> set (OptionIDs p). tally (\<lambda>e. accepted e i j) es \<le> sint (lookup0 (res_Counts res) j))"
proof -
  note ok = run_oks [OF assms(3,1,2)]
  then have inv1: "world_inv ev w1" by (simp add: run_ok_def)
  have room: "w_votes ev w1 i j \<le> max_int64" for j
  proof -
    have "w_votes ev w1 i j \<le> w_votes ev w i j + int (length es)"
      using ok tally_length [of "\<lambda>e. may_count e i j" es] unfolding run_ok_def by (meson add_left_mono order_trans)
    also have "\<dots> \<le> max_int64" using assms(2) unfolding roomy_def by blast
    finally show ?thesis .
  qed
  from results_run_live [OF inv1 assms(6-9)] obtain res w2
    where res: "do_Results ev i w1 = (Inr res, w2)" "res_Poll res = p" by blast
  note m = results_facts(3) [OF inv1 room res(1) refl]
  have "tally (\<lambda>e. accepted e i j) es \<le> sint (lookup0 (res_Counts res) j)" if "j \<in> set (OptionIDs p)" for j
  proof -
    have "0 \<le> w_votes ev w i j" using assms(1) by (rule world_store.votes_nonneg)
    with kept_votes [OF assms(3,1,2,4,5), of i j] have "tally (\<lambda>e. accepted e i j) es \<le> w_votes ev w1 i j" by simp
    also have "\<dots> \<le> best_count ev w1 i True True j" by (simp add: best_count_def)
    also have "\<dots> = sint (lookup0 (res_Counts res) j)"
      using merged_results_live [OF inv1 assms(6,8)] m that res(2) by simp
    finally show ?thesis .
  qed
  with res show ?thesis by blast
qed

text \<open>
  On the concrete deployment: after the vote and a restart of the replica, the poll comes from
  the database under every spelling of its id.
\<close>

lemma demo_after_vote:
  assumes "do_Cast demo_env demo_vote demo_world = (Inr (), w)"
  shows "rs_db (w_redis w) (keyPrefix @ k) = None" "clock w = 1000" "healthy w" "pg_tables (w_pg w) = demo_tables"
proof -
  obtain l where l: "cache_Poll (main_cache demo_env) ''p'' demo_world = (Inr demo_poll, demo_world\<lparr>w_pg := pg_tick (w_pg demo_world), w_local := l\<rparr>)"
    using demo_served by blast
  obtain p w1 v w2 where parts: "cache_Poll (main_cache demo_env) (vc_PollID demo_vote) demo_world = (Inr p, w1)"
    "vs_Guard (main_store demo_env) \<lparr>g_ClientIP = vc_ClientIP demo_vote, g_PollID = vc_PollID demo_vote\<rparr> w1 = (Inr v, w2)"
    "vs_CastBallot (main_store demo_env) (cast_ballot_of demo_vote) w2 = (Inr (), w)"
    by (rule cast_parts [OF assms])
  have "w_redis w1 = w_redis demo_world" using parts(1) l by (auto simp: demo_vote_def)
  moreover have "apart (w_redis w1) (w_redis w2)" "apart (w_redis w2) (w_redis w)"
    using parts(2,3) store_apart(1,2) [OF mem_redis_ok] by (auto simp: on_redis_def split: prod.splits)
  ultimately have "rs_db (w_redis w) (keyPrefix @ k) = rs_db (w_redis demo_world) (keyPrefix @ k)" by (simp add: apart_def)
  then show "rs_db (w_redis w) (keyPrefix @ k) = None" by simp
  show "clock w = 1000" using request_clock(1) [of demo_env demo_vote demo_world] assms by (simp add: clock_def)
  show "healthy w" using cast_live [of demo_world demo_env demo_vote] assms by (simp add: healthy_def)
  show "pg_tables (w_pg w) = demo_tables" using reads_tables(1) [of demo_env demo_vote demo_world] assms by simp
qed

lemma demo_found:
  assumes "do_Cast demo_env demo_vote demo_world = (Inr (), w)" and k: "map lower_char k = ''p''"
  shows "\<exists>v. cache_Poll (main_cache demo_env) k (boot demo_env w) = (Inr demo_poll, v)"
proof -
  let ?w = "boot demo_env w"
  note after = demo_after_vote [OF assms(1)]
  have miss: "local_Get (main_cache demo_env) k u = (None, u)" if "w_local u = New_Cache demo_env" for u
    using that by (simp add: local_Get_def New_Cache_def new_get)
  have r: "w_redis ?w = w_redis w" "w_pg ?w = w_pg w" "w_local ?w = New_Cache demo_env" by (simp_all add: boot_def)
  have "rs_fates (w_redis w) = []" "pg_fates (w_pg w) = []" using after(3) by (simp_all add: healthy_def)
  then have tier: "rstore_Get mem_redis demo_json k (w_redis w) = (Inr None, w_redis w)"
    using after(1) [of k] by (simp add: rstore_Get_def redis_call_plain mem_redis_def kv_def)
  have "repo_GetPoll demo_cod k (w_pg w) = (Inr demo_poll, pg_tick (w_pg w))"
    using \<open>pg_fates (w_pg w) = []\<close> k after(4)
    by (simp add: repo_GetPoll_def pg_query_def pg_fate_of_def uuid_arg_def demo_cod_def
        poll_join_def demo_tables_def demo_poll_def poll_of_row_def option_of_row_def join_order_def)
  with tier show ?thesis
    by (simp add: cache_Poll_def cache_resolve_def miss r on_redis_def resolve_origin_def cache_store_def Let_def
        on_pg_def unwrap_def split: prod.split)
qed

theorem accepted_votes_published_witness:
  "\<exists>w1 res w2. run demo_env demo_world [EvCast demo_vote (Inr ()), EvBoot] w1
     \<and> do_Results demo_env ''p'' w1 = (Inr res, w2) \<and> 1 \<le> sint (lookup0 (res_Counts res) ''a'')"
proof -
  define w0 where "w0 = snd (do_Cast demo_env demo_vote demo_world)"
  have cast: "do_Cast demo_env demo_vote demo_world = (Inr (), w0)"
    using demo_cast unfolding w0_def by (metis prod.collapse)
  note after = demo_after_vote [OF cast]
  have run: "run demo_env demo_world [EvCast demo_vote (Inr ()), EvBoot] (boot demo_env w0)" (is "run _ _ ?es ?w")
    using run.more [OF run.more [OF run.stay sys_step.cast [OF cast]] sys_step.restart] by simp
  have now: "clock ?w = 1000" and up: "healthy ?w" using after(2,3) by (simp_all add: boot_def clock_def healthy_def)
  have lower: "map lower_char ''p'' = ''p''" by (simp add: lower_char_def char_in_def byte_of_def)
  obtain v where load: "cache_Poll (main_cache demo_env) ''p'' ?w = (Inr demo_poll, v)"
    using demo_found [OF cast lower] by blast
  have "lasting demo_env (w_redis demo_world) (clock ?w)" unfolding now by (rule demo_lasting) (simp add: second_def)
  moreover have "roomy demo_env demo_world ?es" by (simp add: roomy_def demo_votes max_int64_def)
  moreover have "pg_uuid (ev_cod demo_env) ''p'' = Some ''p''" by (simp add: demo_uuid)
  ultimately obtain res w2 where "do_Results demo_env ''p'' ?w = (Inr res, w2)"
    "\<forall>j \<in> set (OptionIDs demo_poll). tally (\<lambda>e. accepted e ''p'' j) ?es \<le> sint (lookup0 (res_Counts res) j)"
    using accepted_votes_published [OF demo_inv _ run _ _ up _ _ load] by auto
  then show ?thesis using run
    by (intro exI [of _ ?w] exI [of _ res] exI [of _ w2]) (auto simp: demo_poll_def OptionIDs_def tally_def demo_vote_def)
qed

end
