(* ===== verification/Spec2Isabelle.thy ===== *)
theory Spec2Isabelle
  imports Dedup Liveness Staleness Answers Startup Rate_Limit Listing Readback Ttl_Refinement Call_Budget
    Concurrent_Tally Concurrent_Moves Deadlines Published
begin

text \<open>
  Verification of the voting service: an anonymous voting API in Go that accepts ballots in
  Redis and keeps polls and durable counts in PostgreSQL.

  \<^bold>\<open>The program.\<close> \<open>cmd/api\<close> serves HTTP. A request passes the middleware (recovery,
  request id, client address, access log, body limit, device cookie, administrator token), is
  routed to a handler of \<open>controller\<close>, and becomes an operation of a service. The vote service
  checks a ballot against the poll as the two-tier cache serves it (in-process cache, Redis,
  PostgreSQL), asks the abuse guard and runs a Lua script in Redis that marks the voter and
  counts the options. The poll service creates, opens, closes, lists and reads polls and merges
  live and durable counts into results. \<open>cmd/worker\<close> runs one synchronisation pass, which
  raises the durable counts to the live ones. The components share nothing but the two servers
  and, inside a process, the in-process cache.

  \<^bold>\<open>How the code is translated.\<close> A Go function that reads or writes state and may fail is an
  \<open>action\<close>: it takes the state and returns \<open>Inl\<close> an error or \<open>Inr\<close> a value together with the
  new state, so that an early return keeps what was done before it; \<open>go_try\<close> is the idiom
  \<open>if err != nil\<close>. Errors are values (\<open>goerror\<close>) with the wrapping of \<open>fmt.Errorf\<close> and the
  codes of \<open>entity.Error\<close>. Counts are 64-bit words with the sums of the code, instants and
  durations are integers in nanoseconds, strings are byte lists. Interfaces are records of
  operations. Definitions keep the names of the code.

  \<^bold>\<open>Theories, in the order of the program.\<close>
  \<^item> Library of the language: \<open>VS_Prelude\<close> (actions, words, time), \<open>Go_Strings\<close> (UTF-8, TrimSpace,
    EqualFold), \<open>Go_Strconv\<close> (Itoa, ParseInt, hex), \<open>Go_Hash\<close> (CRC-32, SHA-256), \<open>Go_Float\<close>
    (conversion, multiplication, division and \<open>math.Round\<close> on \<open>float64\<close>, rounded as IEEE 754 says).
  \<^item> Domain: \<open>Entity\<close> (\<open>internal/entity\<close>), \<open>Ports\<close> (\<open>internal/usecase\<close>).
  \<^item> In-process cache: \<open>Ttl_Cache\<close> (\<open>internal/ttlcache\<close>) with the locale \<open>entry_cache\<close>;
    \<open>Ttl_Refinement\<close> refines it to plain recency lists.
  \<^item> Redis: \<open>Redis\<close> (commands, deadlines, a client that retries), \<open>Votestore\<close>
    (\<open>internal/votestore\<close>); \<open>Votestore_Laws\<close> and \<open>Votestore_Contract\<close> interpret the locale
    \<open>vote_store\<close>.
  \<^item> PostgreSQL: \<open>Repository\<close> (\<open>internal/repository\<close> and the schema); \<open>Repository_Port\<close> states the
    contract \<open>poll_repository\<close>, \<open>Repository_Laws\<close> and \<open>Repository_Contract\<close> interpret it.
  \<^item> Poll cache: \<open>Poll_Cache\<close> (\<open>internal/pollcache\<close>), the locales \<open>shared_tier\<close> and
    \<open>poll_cache\<close> in \<open>Poll_Cache_Laws\<close>, the Redis tier in \<open>Poll_Cache_Redis\<close>; \<open>Redis_Apart\<close> keeps
    the two users of Redis apart, \<open>Redis_Keeps\<close> and \<open>Retention\<close> say which votes and markers stay,
    and until when.
  \<^item> Services: \<open>Poll_Service\<close>, \<open>Vote_Service\<close>, \<open>Sync_Service\<close> (\<open>internal/service\<close>,
    \<open>internal/syncjob\<close>), with their lemmas proved once in the locales \<open>backend\<close> and \<open>voting\<close> for
    every store that keeps its contract.
  \<^item> The system: \<open>World\<close> wires the services on one state as the two \<open>main\<close> functions do,
    \<open>World_Laws\<close> interprets every locale on it, \<open>World_Frames\<close> and \<open>Service_Frames\<close> say what a
    request leaves alone, \<open>Answered\<close> what the ports return when both servers answer,
    \<open>Deployment\<close> is a concrete instance for the witnesses, \<open>Requests\<close> gives the effect of every
    request, \<open>System\<close> and \<open>Histories\<close> the runs and what they keep.
  \<^item> HTTP and processes: \<open>Http\<close> (\<open>internal/httpjson\<close>), \<open>Contexts\<close> (\<open>context.WithTimeout\<close>),
    \<open>Middleware\<close> (\<open>internal/middleware\<close>), \<open>Health\<close> (\<open>internal/health\<close>), \<open>Controller\<close>,
    \<open>Config\<close>, \<open>Api\<close> (\<open>cmd/api\<close>, \<open>cmd/worker\<close>) and \<open>Startup\<close> (\<open>internal/clients\<close> and the life of
    a process); \<open>Http_Laws\<close>, \<open>Identity_Laws\<close>, \<open>Config_Laws\<close> and \<open>Api_Laws\<close> hold their lemmas.
  \<^item> Requests that overlap: \<open>Interleaving\<close> puts the same services on a state in which others act
    between any two calls of a request and a passed deadline cuts its calls off, and
    \<open>Interleaving_Laws\<close> says what a request then does to the servers. The locales \<open>lockstep\<close>
    (\<open>Lockstep\<close>, services) and \<open>relay\<close> (\<open>Relay\<close>, router and middleware) carry a relation between
    two states through the program; \<open>Undisturbed\<close> interprets them to compare the overlapping
    system with the sequential one, \<open>Deadlines\<close> to bound what happens under a deadline.
    \<open>Cast_Trace\<close>, \<open>Concurrent_Votes\<close>, \<open>Concurrent_Tally\<close> and \<open>Concurrent_Moves\<close> are about races.

  \<^bold>\<open>State.\<close> A \<open>world\<close> is the database (\<open>pg_state\<close>), Redis with its clock (\<open>redis_state\<close>), the
  in-process cache and the number of identifiers drawn; an \<open>api\<close> adds the health checker and the
  random draws, and a process the handles its drivers hold. \<open>world_inv\<close> is the invariant of a
  world: the constraints of the schema, counters that are decimal numbers, a consistent cache,
  and configurations the components can rely on, which \<open>Config_Laws\<close> shows every accepted
  configuration to be. A run (\<open>run\<close>) is any sequence of requests, synchronisation passes, clock
  ticks, restarts, outages and losses of Redis. A \<open>conc\<close> is a world together with what others
  will do to it, the deadline in force and the trace of what happened; a joint execution
  (\<open>joint\<close>) is one sequence of actions on the servers that is, for each of a list of requests,
  the request's own actions among those of all others.

  \<^bold>\<open>What is shown.\<close>
  \<^item> Every request on every branch (\<open>Requests\<close>, \<open>Listing\<close>): what it does to votes, durable counts,
    polls and tracked polls, and how its errors are classified. When both servers answer
    (\<open>healthy\<close>), the checks of the program alone decide a ballot (\<open>refusal\<close>), results are made from
    both counts, and a draft is activated.
  \<^item> Every run (\<open>Histories\<close>, \<open>Liveness\<close>, \<open>Poll_Shapes\<close>): the invariant, polls that only move
    forward and obey the rules of creation, durable counts that never shrink, published counts
    backed by ballots, a synchronisation that recovers, accepted votes that survive, and
    (\<open>Published\<close>) accepted votes that show in the results. Time may pass in these runs: the last
    two hold as long as Redis loses no data and no counter reaches the end of its retention time
    (\<open>lasting\<close>), which the cast script sets once and does not renew.
  \<^item> Time (\<open>Dedup\<close>, \<open>Rate_Limit\<close>, \<open>Staleness\<close>, \<open>Readback\<close>): one vote per device within the
    deduplication time and not beyond it, the limits per network, how old an answer can be, and
    that created polls are read back. Markers, quotas and live counts belong to a poll id as the
    client spelled it, because the code makes its Redis keys from that spelling; the properties
    about them are for one spelling.
  \<^item> The API (\<open>Api_Laws\<close>, \<open>Answers\<close>, \<open>Http_Laws\<close>, \<open>Identity_Laws\<close>): whatever is requested over
    HTTP, the data is that of a run of the system with at most one permitted event for each
    request; polls need the administrator; a vote request passes on what its body says and its
    status is that of the outcome; answers are well formed and percentages, computed in
    \<open>float64\<close>, are honest. A readiness report says what the checks of the dependencies said.
  \<^item> Configuration, work and life of the processes (\<open>Config_Laws\<close>, \<open>Call_Budget\<close>, \<open>Startup\<close>): what
    is accepted at start, how many calls a request makes, and that nothing leaks.
  \<^item> Overlapping requests (\<open>Concurrent_Votes\<close>, \<open>Concurrent_Tally\<close>, \<open>Concurrent_Moves\<close>): at most one
    of the racing ballots of a device is accepted, no concurrent count is doubled, or lost while
    the counters last, at
    most one racing administrator makes a change; \<open>Undisturbed\<close>: without overlap the sequential
    system is what happens; \<open>Deadlines\<close>: no call of a request or pass starts after its deadline.
  \<^item> Components on their own (\<open>Entity\<close>, \<open>Poll_Service\<close>, \<open>Ttl_Cache\<close>, \<open>Ttl_Refinement\<close>): checks
    that decide their specification, and a cache that refines its specification.

  \<^bold>\<open>Bounds.\<close> Runs are of any length. \<open>roomy\<close> and \<open>room\<close> ask that no live counter can reach the
  last 64-bit value in the run: with counters below 2 to the power 62 that leaves room for more
  ballots than can be cast. No definition needs fuel: every loop of the program goes over a
  finite list, and the few recursive functions of the library that are not structural
  (\<open>digits\<close>, \<open>rune_count\<close>, \<open>trim_left\<close>, \<open>to_lower\<close>) have a measure.

  \<^bold>\<open>Parameters.\<close> Code that is not in the repository is an argument with its documented
  behaviour as a named hypothesis: the Redis commands (\<open>redis_ok\<close>), the uuid, text and time codec
  of PostgreSQL (\<open>codec_ok\<close>), JSON (\<open>json_ok\<close> and the decoders of \<open>json_lib\<close>), \<open>net/netip\<close>, the
  pattern matching of chi, \<open>uuid.Validate\<close> and \<open>uuid.NewString\<close>, the random source, the seeded hash
  of the in-process cache, duration and prefix parsing, and the drivers. What PostgreSQL does is
  modelled as far as the statements and the schema use it, with calls that fail, or that take
  effect and lose their reply; a call to Redis may run several times or lose its reply. Witnesses
  instantiate the parameters with concrete functions.

  \<^bold>\<open>Not modelled.\<close>
  \<^item> Steps smaller than a call. In a run a request is one step; among others a request is the
    sequence of its calls to the servers, and everything else may happen between two of them.
    A call itself (a statement, the ballot script) is atomic in its server, access to the
    in-process cache is atomic because its shards are locked, and the mutex of the health
    checker is left out. Reading several shards of a poll is one step, and so is a pipeline.
  \<^item> Locks of the database: of two open transactions that insert the same key PostgreSQL would
    let the second wait, the model lets both go on and checks the constraints at the insertion.
    The properties about overlapping requests do not rest on this; ids are drawn fresh.
  \<^item> Which flight of \<open>singleflight\<close> a lookup joins: what a running lookup answers is a parameter
    (\<open>co_flight\<close>) that may be anything; in a run there is none.
  \<^item> Several replicas in a run: its world has one in-process cache, which a restart empties. The
    requests of a joint execution may belong to any number of replicas.
  \<^item> Several clocks: the service, Redis and PostgreSQL read one clock. A request among others reads
    it once between two calls. In a run no time passes inside a request, so that its deadline
    does not either, and a call that is cut off is a call that failed.
  \<^item> Logging beyond the level, message and status of a line; process signals beyond which came
    first, the end of the server or the signal.
  \<^item> Floating point beyond what \<open>percentage\<close> computes with: infinities, NaN, subnormal numbers and the
    sign of zero. Its operands are whole numbers below 2 to the power 64 and quotients of them.
  \<^item> The down migration, the OpenAPI document, container and build files, and the tests.
\<close>

end
